(* ===== verification/CString.thy ===== *)
theory CString
  imports Main "HOL-Library.Word" "HOL-Library.Char_ord" "HOL-Library.Monad_Syntax"
begin

text \<open>
  Prelude of the development: the C standard library as the sources of cookbook use it.

  A C string is the list of its characters before the terminating NUL, so a pointer into a
  string is a suffix of the list, \<open>*p == '\0'\<close> is \<open>p = []\<close>, and \<open>p++\<close> is \<open>tl p\<close>.
  An \<open>int\<close>, \<open>long\<close> or \<open>int64_t\<close> is a HOL \<open>int\<close> with the conversion to its width
  written out (LP64: 32-bit \<open>int\<close>, 64-bit \<open>long\<close>); unsigned words that wrap are
  \<open>w word\<close>. The lemmas here are the ones the component theories share; those that
  unfold a scanning function on a string of known shape are collected in \<open>cstring\<close>.
\<close>

named_theorems cstring \<open>evaluation of the C string functions on strings of known shape\<close>

section \<open>Types\<close>

type_synonym byte = "8 word"
type_synonym u32 = "32 word"
type_synonym u64 = "64 word"

section \<open>Character classes\<close>

definition isdigit :: "char \<Rightarrow> bool" where
  "isdigit c \<longleftrightarrow> CHR ''0'' \<le> c \<and> c \<le> CHR ''9''"

definition isspace :: "char \<Rightarrow> bool" where
  "isspace c \<longleftrightarrow> c \<in> {CHR '' '', CHR 0x09, CHR 0x0A, CHR 0x0B, CHR 0x0C, CHR 0x0D}"

definition islower :: "char \<Rightarrow> bool" where
  "islower c \<longleftrightarrow> CHR ''a'' \<le> c \<and> c \<le> CHR ''z''"

definition isupper :: "char \<Rightarrow> bool" where
  "isupper c \<longleftrightarrow> CHR ''A'' \<le> c \<and> c \<le> CHR ''Z''"

definition digit_val :: "char \<Rightarrow> nat" where
  "digit_val c = of_char c - 48"

definition digit_char :: "nat \<Rightarrow> char" where
  "digit_char n = char_of (48 + n)"

section \<open>Integer conversions\<close>

text \<open>Conversion of an integer to \<open>int\<close> (32 bits, two's complement).\<close>

definition to_int32 :: "int \<Rightarrow> int" where
  "to_int32 v = (v + 2 ^ 31) mod 2 ^ 32 - 2 ^ 31"

definition LONG_MAX :: int where
  "LONG_MAX = 2 ^ 63 - 1"

definition LONG_MIN :: int where
  "LONG_MIN = - (2 ^ 63)"

section \<open>Decimal numbers: strtol, strtoll, atoi and printf's decimal conversions\<close>

fun digits_value :: "nat \<Rightarrow> string \<Rightarrow> nat" where
  "digits_value acc [] = acc"
| "digits_value acc (c # cs) = digits_value (10 * acc + digit_val c) cs"

text \<open>
  \<open>strtol(p, &end, 10)\<close>: white space, an optional sign, digits; the value saturates at
  the ends of \<open>long\<close>; without digits the value is 0 and \<open>end\<close> is \<open>p\<close>.
\<close>

definition strtol :: "string \<Rightarrow> int \<times> string" where
  "strtol p =
     (let q = dropWhile isspace p;
          neg = (q \<noteq> [] \<and> hd q = CHR ''-'');
          r = (if q \<noteq> [] \<and> (hd q = CHR ''-'' \<or> hd q = CHR ''+'') then tl q else q);
          ds = takeWhile isdigit r
      in if ds = [] then (0, p)
         else (let v = int (digits_value 0 ds)
               in if neg then max LONG_MIN (- v) else min LONG_MAX v,
               dropWhile isdigit r))"

definition atoi :: "string \<Rightarrow> int" where
  "atoi p = to_int32 (fst (strtol p))"

fun show_nat :: "nat \<Rightarrow> string" where
  "show_nat n = (if n < 10 then [digit_char n] else show_nat (n div 10) @ [digit_char (n mod 10)])"

declare show_nat.simps [simp del]

definition show_int :: "int \<Rightarrow> string" where
  "show_int v = (if v < 0 then CHR ''-'' # show_nat (nat (- v)) else show_nat (nat v))"

section \<open>Searching and comparing\<close>

fun strstr :: "string \<Rightarrow> string \<Rightarrow> string option" where
  "strstr [] n = (if n = [] then Some [] else None)"
| "strstr (c # cs) n = (if take (length n) (c # cs) = n then Some (c # cs) else strstr cs n)"

definition strchr :: "string \<Rightarrow> char \<Rightarrow> string option" where
  "strchr s c = (case dropWhile (\<lambda>x. x \<noteq> c) s of [] \<Rightarrow> None | x # xs \<Rightarrow> Some (x # xs))"

text \<open>\<open>strncmp(s, p, strlen(p)) == 0\<close>.\<close>

definition has_prefix :: "string \<Rightarrow> string \<Rightarrow> bool" where
  "has_prefix s p \<longleftrightarrow> take (length p) s = p"

text \<open>\<open>snprintf(buf, sz, "%s", s)\<close> into a buffer of \<open>sz > 0\<close> bytes keeps \<open>sz - 1\<close>.\<close>

definition bounded :: "nat \<Rightarrow> string \<Rightarrow> string" where
  "bounded sz s = take (sz - 1) s"

text \<open>The sign of \<open>memcmp\<close> on two runs of the same length: bytes compared as unsigned.\<close>

fun memcmp :: "string \<Rightarrow> string \<Rightarrow> int" where
  "memcmp (a # as) (b # bs) = (if a = b then memcmp as bs else if a < b then -1 else 1)"
| "memcmp _ _ = 0"

section \<open>Shared lemmas\<close>

lemma dropWhile_eq_self: "xs = [] \<or> \<not> P (hd xs) \<Longrightarrow> dropWhile P xs = xs"
  by (cases xs) auto

lemma takeWhile_append_stop:
  "(\<And>x. x \<in> set xs \<Longrightarrow> P x) \<Longrightarrow> ys = [] \<or> \<not> P (hd ys) \<Longrightarrow> takeWhile P (xs @ ys) = xs"
  by (cases ys) (auto simp: takeWhile_append)

lemma dropWhile_append_stop:
  "(\<And>x. x \<in> set xs \<Longrightarrow> P x) \<Longrightarrow> ys = [] \<or> \<not> P (hd ys) \<Longrightarrow> dropWhile P (xs @ ys) = ys"
  by (cases ys) (auto simp: dropWhile_append)

lemma span_until:
  assumes "c \<notin> set s" "r = [] \<or> hd r = c"
  shows "takeWhile (\<lambda>x. x \<noteq> c) (s @ r) = s" "dropWhile (\<lambda>x. x \<noteq> c) (s @ r) = r"
  using assms by (induction s; cases r; auto)+

lemma length_dropWhile_le [simp]: "length (dropWhile P xs) \<le> length xs"
  by (induction xs) auto

lemma dropWhile_hd_False: "dropWhile P xs = y # ys \<Longrightarrow> \<not> P y"
  by (induction xs) (auto split: if_splits)

subsection \<open>Digits\<close>

lemma of_char_digit_char [simp]: "n < 10 \<Longrightarrow> of_char (digit_char n) = 48 + n"
  by (simp add: digit_char_def of_char_of)

lemma digit_val_digit_char [simp]: "n < 10 \<Longrightarrow> digit_val (digit_char n) = n"
  by (simp add: digit_val_def)

lemma isdigit_iff: "isdigit c \<longleftrightarrow> 48 \<le> (of_char c :: nat) \<and> (of_char c :: nat) \<le> 57"
  by (simp add: isdigit_def less_eq_char_def)

lemma isdigit_digit_char [simp]: "n < 10 \<Longrightarrow> isdigit (digit_char n)"
  by (simp add: isdigit_iff)

lemma isdigit_not_space: "isdigit c \<Longrightarrow> \<not> isspace c"
  by (auto simp: isdigit_def isspace_def less_eq_char_def)

lemma isdigit_not_sign: "isdigit c \<Longrightarrow> c \<noteq> CHR ''-'' \<and> c \<noteq> CHR ''+'' \<and> c \<noteq> CHR ''.''"
  by (auto simp: isdigit_def less_eq_char_def)

lemma digits_value_append: "digits_value a (xs @ ys) = digits_value (digits_value a xs) ys"
  by (induction xs arbitrary: a) auto

lemma show_nat_digits: "c \<in> set (show_nat n) \<Longrightarrow> isdigit c"
proof (induction n rule: show_nat.induct)
  case (1 n)
  then show ?case
    by (cases "n < 10") (auto simp: show_nat.simps [of n])
qed

lemma show_nat_not_Nil [simp]: "show_nat n \<noteq> []"
  by (subst show_nat.simps) simp

lemma digits_value_show_nat [simp]: "digits_value 0 (show_nat n) = n"
proof (induction n rule: show_nat.induct)
  case (1 n)
  then show ?case
    by (cases "n < 10") (auto simp: show_nat.simps [of n] digits_value_append)
qed

lemma hd_show_nat [simp]: "isdigit (hd (show_nat n))"
  using show_nat_digits [of "hd (show_nat n)" n] by simp

text \<open>\<open>strtol\<close> on a string that starts with a digit.\<close>

lemma strtol_digits [cstring]:
  assumes "ds \<noteq> []" "\<And>c. c \<in> set ds \<Longrightarrow> isdigit c" "r = [] \<or> \<not> isdigit (hd r)"
  shows "strtol (ds @ r) = (min LONG_MAX (int (digits_value 0 ds)), r)"
proof -
  obtain d ds' where ds: "ds = d # ds'" using assms(1) by (cases ds) auto
  have d: "isdigit d" "\<not> isspace d" "d \<noteq> CHR ''-''" "d \<noteq> CHR ''+''"
    using assms(2) ds isdigit_not_space isdigit_not_sign by auto
  have q: "dropWhile isspace (ds @ r) = ds @ r"
    using d ds by simp
  have t: "takeWhile isdigit (ds @ r) = ds" "dropWhile isdigit (ds @ r) = r"
    using takeWhile_append_stop [of ds isdigit r] dropWhile_append_stop [of ds isdigit r] assms(2,3)
    by blast+
  have h: "hd (ds @ r) = d" using ds by simp
  show ?thesis
    unfolding strtol_def Let_def q h t by (simp add: d assms(1) t)
qed

lemma to_int32_id [simp]: "- (2 ^ 31) \<le> v \<Longrightarrow> v < 2 ^ 31 \<Longrightarrow> to_int32 v = v"
  by (simp add: to_int32_def)

lemma to_int32_bounds: "- (2 ^ 31) \<le> to_int32 v" "to_int32 v < 2 ^ 31"
  by (simp_all add: to_int32_def)

subsection \<open>Searching\<close>

lemma strstr_Some_suffix: "strstr h n = Some r \<Longrightarrow> \<exists>p. h = p @ r \<and> take (length n) r = n"
proof (induction h)
  case (Cons c h)
  show ?case
  proof (cases "take (length n) (c # h) = n")
    case True
    with Cons.prems show ?thesis by (intro exI [of _ "[]"]) simp
  next
    case False
    with Cons.prems have "strstr h n = Some r" by simp
    with Cons.IH obtain p where "h = p @ r" "take (length n) r = n" by blast
    then show ?thesis by (intro exI [of _ "c # p"]) simp
  qed
qed (auto split: if_splits)

lemma strstr_here [cstring]: "strstr (n @ r) n = Some (n @ r)"
proof (cases "n @ r")
  case (Cons c cs)
  then have "take (length n) (c # cs) = n" by (metis append_eq_conv_conj)
  with Cons show ?thesis by simp
qed simp

lemma strchr_append [cstring]:
  "c \<notin> set xs \<Longrightarrow> strchr (xs @ c # ys) c = Some (c # ys)"
  by (induction xs) (auto simp: strchr_def)

lemma strchr_None_iff: "strchr s c = None \<longleftrightarrow> c \<notin> set s"
  by (induction s) (auto simp: strchr_def)

lemma strchr_Some: "strchr s c = Some r \<Longrightarrow> \<exists>xs ys. s = xs @ c # ys \<and> c \<notin> set xs \<and> r = c # ys"
proof (induction s)
  case (Cons x s)
  show ?case
  proof (cases "x = c")
    case True
    with Cons.prems have "r = c # s" by (simp add: strchr_def)
    with True show ?thesis by (intro exI [of _ "[]"] exI [of _ s]) simp
  next
    case False
    with Cons.prems have "strchr s c = Some r" by (simp add: strchr_def)
    with Cons.IH obtain xs ys where "s = xs @ c # ys" "c \<notin> set xs" "r = c # ys" by blast
    with False show ?thesis by (intro exI [of _ "x # xs"] exI [of _ ys]) simp
  qed
qed (simp add: strchr_def)

lemma memcmp_bounds: "memcmp a b \<in> {-1, 0, 1}"
  by (induction a b rule: memcmp.induct) auto

lemma strstr_None: "c \<in> set n \<Longrightarrow> c \<notin> set s \<Longrightarrow> strstr s n = None"
proof (induction s)
  case (Cons x s)
  have "take (length n) (x # s) \<noteq> n"
    using Cons.prems set_take_subset [of "length n" "x # s"] by auto
  with Cons show ?case by simp
qed auto

lemma strstr_mismatch: "take (length n) (x # s) \<noteq> n \<Longrightarrow> strstr (x # s) n = strstr s n"
  by simp

lemma strstr_skip: "c \<notin> set s \<Longrightarrow> strstr (s @ r) (c # n) = strstr r (c # n)"
  by (induction s) auto

text \<open>A separator that does not occur in the parts determines them.\<close>

lemma sep_unique: "c \<notin> set a \<Longrightarrow> c \<notin> set b \<Longrightarrow> a @ c # x = b @ c # y \<longleftrightarrow> a = b \<and> x = y"
proof (induction a arbitrary: b)
  case Nil
  then show ?case by (cases b) auto
next
  case (Cons d a)
  then show ?case by (cases b) auto
qed

lemma show_nat_inj: "show_nat m = show_nat n \<longleftrightarrow> m = n"
  by (metis digits_value_show_nat)

lemma show_int_inj: "show_int x = show_int y \<longleftrightarrow> x = y"
proof -
  have neg: "CHR ''-'' # s \<noteq> show_nat n" for s n
    using hd_show_nat [of n] isdigit_not_sign [of "CHR ''-''"] by (metis list.sel(1))
  show ?thesis by (auto simp: show_int_def show_nat_inj neg neg [symmetric])
qed

text \<open>The first occurrence of a needle that ends in a character found nowhere before it.\<close>

lemma strstr_last [cstring]:
  assumes "c \<notin> set m" "c \<notin> set xs"
  shows "strstr (xs @ m @ c # r) (m @ [c]) = Some (m @ c # r)"
  using assms(2)
proof (induction xs)
  case Nil
  show ?case using strstr_here [of "m @ [c]" r] by simp
next
  case (Cons x xs)
  have "take (length (m @ [c])) (x # xs @ m @ c # r) \<noteq> m @ [c]"
  proof
    assume eq: "take (length (m @ [c])) (x # xs @ m @ c # r) = m @ [c]"
    have "take (length (m @ [c])) (x # xs @ m @ c # r) = take (length m + 1) ((x # xs) @ m)"
      by simp
    with eq have "set (m @ [c]) \<subseteq> set ((x # xs) @ m)"
      by (metis set_take_subset)
    with Cons.prems assms(1) show False by auto
  qed
  with Cons show ?case by simp
qed

lemma length_bounded [simp]: "0 < sz \<Longrightarrow> length (bounded sz s) < sz"
  by (simp add: bounded_def)

lemma bounded_id [simp]: "length s < sz \<Longrightarrow> bounded sz s = s"
  by (simp add: bounded_def)

section \<open>Appending to a buffer with \<open>snprintf\<close>\<close>

text \<open>
  The pattern \<open>pos += snprintf(buf + pos, cap - pos, ...)\<close>: the C string in the buffer, the
  position the code keeps, and the capacity. \<open>snprintf\<close> cuts its output at the capacity but
  returns the full length, so the position may pass the capacity; the next call then computes
  a wrapped size and writes out of bounds, which is the value \<open>None\<close>. Output that lands
  behind the terminator of cut text is not part of the C string.
\<close>

record cbuf =
  cb_text :: string
  cb_pos :: nat
  cb_cap :: nat

definition cbuf_new :: "nat \<Rightarrow> cbuf" where
  "cbuf_new cap = \<lparr>cb_text = [], cb_pos = 0, cb_cap = cap\<rparr>"

definition snprintf_at :: "string \<Rightarrow> cbuf \<Rightarrow> cbuf option" where
  "snprintf_at t b =
     (if cb_pos b > cb_cap b then None
      else Some (b\<lparr>cb_text := (if length (cb_text b) = cb_pos b \<and> cb_pos b < cb_cap b
                              then cb_text b @ take (cb_cap b - cb_pos b - 1) t else cb_text b),
                   cb_pos := cb_pos b + length t\<rparr>))"

text \<open>Everything written so far fits, with its terminator.\<close>

definition cbuf_exact :: "string \<Rightarrow> cbuf \<Rightarrow> bool" where
  "cbuf_exact s b \<longleftrightarrow> cb_text b = s \<and> cb_pos b = length s \<and> length s < cb_cap b"

lemma cbuf_new_exact [simp]: "0 < cap \<Longrightarrow> cbuf_exact [] (cbuf_new cap)"
  by (simp add: cbuf_exact_def cbuf_new_def)

lemma snprintf_at_exact:
  assumes "cbuf_exact s b" "length s + length t < cb_cap b"
  shows "\<exists>b'. snprintf_at t b = Some b' \<and> cbuf_exact (s @ t) b' \<and> cb_cap b' = cb_cap b"
  using assms by (auto simp: snprintf_at_def cbuf_exact_def)

section \<open>Compacting an array in place\<close>

text \<open>
  The loop \<open>for (i = 0; i < count; i++) if (keep(a[i])) { if (w != i) a[w] = a[i]; w++; } count = w\<close>:
  \<open>n\<close> rounds are left, the elements behind the count are not part of the list.
\<close>

fun compact_loop :: "('a \<Rightarrow> bool) \<Rightarrow> nat \<Rightarrow> nat \<Rightarrow> 'a list \<Rightarrow> nat \<Rightarrow> 'a list" where
  "compact_loop keep 0 i es w = take w es"
| "compact_loop keep (Suc n) i es w =
     (if keep (es ! i)
      then compact_loop keep n (Suc i) (if w \<noteq> i then es[w := es ! i] else es) (Suc w)
      else compact_loop keep n (Suc i) es w)"

definition compact :: "('a \<Rightarrow> bool) \<Rightarrow> 'a list \<Rightarrow> 'a list" where
  "compact keep es = compact_loop keep (length es) 0 es 0"

lemma compact_loop_filter:
  assumes "w \<le> i" "i + n = length es" "take w es = filter keep xs"
  shows "compact_loop keep n i es w = filter keep (xs @ drop i es)"
  using assms
proof (induction keep n i es w arbitrary: xs rule: compact_loop.induct)
  case (2 keep n i es w)
  have i: "i < length es" using "2.prems" by simp
  then have d: "drop i es = es ! i # drop (Suc i) es" by (rule Cons_nth_drop_Suc [symmetric])
  show ?case
  proof (cases "keep (es ! i)")
    case True
    define es' where "es' = (if w \<noteq> i then es[w := es ! i] else es)"
    have es: "es' = es[w := es ! i]" by (simp add: es'_def)
    have t: "take (Suc w) es' = filter keep (xs @ [es ! i])"
      using "2.prems" i True by (simp add: es take_Suc_conv_app_nth)
    have "drop (Suc i) es' = drop (Suc i) es" using "2.prems"(1) by (simp add: es)
    moreover have "compact_loop keep n (Suc i) es' (Suc w) = filter keep ((xs @ [es ! i]) @ drop (Suc i) es')"
      using "2.prems"(1,2) t by (intro "2.IH"(1) [OF True, folded es'_def]) (simp_all add: es)
    ultimately show ?thesis using True by (simp add: d es'_def [symmetric])
  next
    case False
    have "compact_loop keep n (Suc i) es w = filter keep ((xs @ [es ! i]) @ drop (Suc i) es)"
      using "2.prems" False by (intro "2.IH"(2)) simp_all
    with False show ?thesis by (simp add: d)
  qed
qed simp

lemma compact_filter: "compact keep es = filter keep es"
  using compact_loop_filter [of 0 0 "length es" es keep "[]"] by (simp add: compact_def)

end
