(* ===== verification/Interfaces.thy ===== *)
theory Interfaces
  imports Main
begin

text \<open>
  The contracts that several components share, as locales: what a client may rely on, and
  the consequences of it proved once. Every locale is interpreted on the definitions of the
  component that provides it, in the theory of that component.
\<close>

section \<open>Three-way comparison\<close>

text \<open>
  A C comparison function returns a negative number, zero or a positive number. It is a
  comparison of \<open>key\<close>s in a linear order on the values that satisfy \<open>ok\<close>.
\<close>

locale three_way =
  fixes compare :: "'a \<Rightarrow> 'a \<Rightarrow> int"
    and ok :: "'a \<Rightarrow> bool"
    and key :: "'a \<Rightarrow> 'k::linorder"
  assumes compare_neg: "ok a \<Longrightarrow> ok b \<Longrightarrow> compare a b < 0 \<longleftrightarrow> key a < key b"
    and compare_zero: "ok a \<Longrightarrow> ok b \<Longrightarrow> compare a b = 0 \<longleftrightarrow> key a = key b"
begin

lemma compare_pos: "ok a \<Longrightarrow> ok b \<Longrightarrow> compare a b > 0 \<longleftrightarrow> key b < key a"
  using compare_neg [of a b] compare_zero [of a b] by (cases "key a" "key b" rule: linorder_cases) auto

lemma compare_le: "ok a \<Longrightarrow> ok b \<Longrightarrow> compare a b \<le> 0 \<longleftrightarrow> key a \<le> key b"
  using compare_pos [of a b] by (simp add: linorder_not_less [symmetric])

lemma compare_ge: "ok a \<Longrightarrow> ok b \<Longrightarrow> compare a b \<ge> 0 \<longleftrightarrow> key b \<le> key a"
  using compare_neg [of a b] by (simp add: linorder_not_less [symmetric])

lemma compare_swap: "ok a \<Longrightarrow> ok b \<Longrightarrow> compare a b < 0 \<longleftrightarrow> compare b a > 0"
  by (simp add: compare_neg compare_pos)

lemma compare_trans:
  "ok a \<Longrightarrow> ok b \<Longrightarrow> ok c \<Longrightarrow> compare a b \<le> 0 \<Longrightarrow> compare b c \<le> 0 \<Longrightarrow> compare a c \<le> 0"
  by (auto simp: compare_le)

lemma compare_total: "ok a \<Longrightarrow> ok b \<Longrightarrow> compare a b \<le> 0 \<or> compare b a \<le> 0"
  by (auto simp: compare_le)

text \<open>Taking the greater one of each element in turn keeps the greatest key.\<close>

definition pick :: "'a \<Rightarrow> 'a \<Rightarrow> 'a" where
  "pick best x = (if compare x best > 0 then x else best)"

lemma pick_ok: "ok a \<Longrightarrow> ok b \<Longrightarrow> ok (pick a b)"
  by (simp add: pick_def)

lemma pick_max: "ok a \<Longrightarrow> ok b \<Longrightarrow> key (pick a b) = max (key a) (key b)"
  by (auto simp: pick_def compare_pos max_def)

lemma foldl_pick_max:
  "ok b \<Longrightarrow> (\<And>x. x \<in> set xs \<Longrightarrow> ok x) \<Longrightarrow> x \<in> insert b (set xs) \<Longrightarrow> key x \<le> key (foldl pick b xs)"
proof (induction xs arbitrary: b x)
  case (Cons y xs)
  have "ok (pick b y)" using Cons.prems by (simp add: pick_ok)
  then have ub: "z \<in> insert (pick b y) (set xs) \<Longrightarrow> key z \<le> key (foldl pick (pick b y) xs)" for z
    using Cons by simp
  have "key (pick b y) = max (key b) (key y)" using Cons.prems by (simp add: pick_max)
  then have "key b \<le> key (pick b y)" "key y \<le> key (pick b y)" by simp_all
  with ub [of "pick b y"] ub [of x] Cons.prems(3) show ?case by auto
qed auto

end

section \<open>Encoding and decoding\<close>

locale codec =
  fixes encode :: "'a \<Rightarrow> 'b"
    and decode :: "'b \<Rightarrow> 'a option"
    and ok :: "'a \<Rightarrow> bool"
  assumes decode_encode: "ok x \<Longrightarrow> decode (encode x) = Some x"
begin

lemma encode_inj: "ok x \<Longrightarrow> ok y \<Longrightarrow> encode x = encode y \<Longrightarrow> x = y"
  by (metis decode_encode option.inject)

lemma encode_inj_on: "inj_on encode (Collect ok)"
  by (rule inj_onI) (rule encode_inj, simp_all)

end

section \<open>Object stores\<close>

datatype ('k, 'v) object_op = Put 'k 'v | Del 'k

fun op_key :: "('k, 'v) object_op \<Rightarrow> 'k" where
  "op_key (Put k v) = k"
| "op_key (Del k) = k"

fun op_apply :: "('k, 'v) object_op \<Rightarrow> ('k \<Rightarrow> 'v option) \<Rightarrow> 'k \<Rightarrow> 'v option" where
  "op_apply (Put k v) m = m(k \<mapsto> v)"
| "op_apply (Del k) m = m(k := None)"

lemma fold_op_cong: "m k = m' k \<Longrightarrow> fold op_apply ops m k = fold op_apply ops m' k"
proof (induction ops arbitrary: m m')
  case (Cons q ops)
  have "op_apply q m k = op_apply q m' k" using Cons.prems by (cases q) simp_all
  then have "fold op_apply ops (op_apply q m) k = fold op_apply ops (op_apply q m') k" by (rule Cons.IH)
  then show ?case by simp
qed simp

text \<open>
  A store of named objects, as its clients see it: \<open>view\<close> is the content, \<open>valid\<close> the keys
  that name one object each. An operation reports whether it succeeded; what a successful one
  does to its key, and that no operation, failed or not, touches the object of another key.
\<close>

locale object_store =
  fixes put :: "'s \<Rightarrow> 'k \<Rightarrow> 'v \<Rightarrow> bool \<times> 's"
    and get :: "'s \<Rightarrow> 'k \<Rightarrow> 'v option"
    and has :: "'s \<Rightarrow> 'k \<Rightarrow> bool"
    and del :: "'s \<Rightarrow> 'k \<Rightarrow> bool \<times> 's"
    and view :: "'s \<Rightarrow> 'k \<Rightarrow> 'v option"
    and valid :: "'k \<Rightarrow> bool"
    and inv :: "'s \<Rightarrow> bool"
  assumes put_inv: "inv s \<Longrightarrow> valid k \<Longrightarrow> put s k v = (ok, s') \<Longrightarrow> inv s'"
    and put_same: "inv s \<Longrightarrow> valid k \<Longrightarrow> put s k v = (True, s') \<Longrightarrow> view s' k = Some v"
    and put_other: "inv s \<Longrightarrow> valid k \<Longrightarrow> valid k' \<Longrightarrow> k' \<noteq> k \<Longrightarrow> put s k v = (ok, s') \<Longrightarrow> view s' k' = view s k'"
    and del_inv: "inv s \<Longrightarrow> valid k \<Longrightarrow> del s k = (ok, s') \<Longrightarrow> inv s'"
    and del_same: "inv s \<Longrightarrow> valid k \<Longrightarrow> del s k = (True, s') \<Longrightarrow> view s' k = None"
    and del_other: "inv s \<Longrightarrow> valid k \<Longrightarrow> valid k' \<Longrightarrow> k' \<noteq> k \<Longrightarrow> del s k = (ok, s') \<Longrightarrow> view s' k' = view s k'"
    and view_get: "inv s \<Longrightarrow> valid k \<Longrightarrow> view s k = Some v \<Longrightarrow> get s k = Some v"
    and view_has: "inv s \<Longrightarrow> valid k \<Longrightarrow> view s k = Some v \<Longrightarrow> has s k"
begin

lemma get_put_same: "inv s \<Longrightarrow> valid k \<Longrightarrow> put s k v = (True, s') \<Longrightarrow> get s' k = Some v"
  by (rule view_get [OF put_inv _ put_same])

lemma has_put_same: "inv s \<Longrightarrow> valid k \<Longrightarrow> put s k v = (True, s') \<Longrightarrow> has s' k"
  by (rule view_has [OF put_inv _ put_same])

text \<open>A client that asks before it writes never replaces an object.\<close>

definition put_new :: "'s \<Rightarrow> 'k \<Rightarrow> 'v \<Rightarrow> bool \<times> 's" where
  "put_new s k v = (if has s k then (False, s) else put s k v)"

lemma put_new_keeps:
  assumes "inv s" "valid k" "valid k'" "put_new s k v = (ok, s')" "view s k' = Some w"
  shows "view s' k' = Some w"
proof (cases "k' = k")
  case True
  then have "has s k" using assms view_has [of s k w] by simp
  with assms show ?thesis by (simp add: put_new_def)
next
  case False
  with assms put_other [of s k k' v ok s'] show ?thesis by (auto simp: put_new_def split: if_splits)
qed

text \<open>What a sequence of guarded writes has stored stays, whatever comes later.\<close>

fun put_all_new :: "'s \<Rightarrow> ('k \<times> 'v) list \<Rightarrow> 's" where
  "put_all_new s [] = s"
| "put_all_new s ((k, v) # kvs) = put_all_new (snd (put_new s k v)) kvs"

lemma put_new_inv: "inv s \<Longrightarrow> valid k \<Longrightarrow> inv (snd (put_new s k v))"
  by (cases "put s k v") (auto simp: put_new_def dest: put_inv)

lemma put_all_new_keeps:
  "inv s \<Longrightarrow> (\<And>k v. (k, v) \<in> set kvs \<Longrightarrow> valid k) \<Longrightarrow> valid k' \<Longrightarrow> view s k' = Some w \<Longrightarrow>
   view (put_all_new s kvs) k' = Some w"
proof (induction s kvs rule: put_all_new.induct)
  case (2 s k v kvs)
  obtain ok s' where p: "put_new s k v = (ok, s')" by (cases "put_new s k v")
  have k: "valid k" using "2.prems"(2) by auto
  have "view s' k' = Some w" by (rule put_new_keeps [OF "2.prems"(1) k "2.prems"(3) p "2.prems"(4)])
  moreover have "inv s'" using put_new_inv [OF "2.prems"(1) k, of v] p by simp
  ultimately show ?case using "2.IH" "2.prems"(2,3) p by auto
qed simp

text \<open>A sequence of operations and whether each succeeded.\<close>

fun run :: "'s \<Rightarrow> ('k, 'v) object_op list \<Rightarrow> bool list \<times> 's" where
  "run s [] = ([], s)"
| "run s (Put k v # ops) = (let (ok, s) = put s k v; (oks, s) = run s ops in (ok # oks, s))"
| "run s (Del k # ops) = (let (ok, s) = del s k; (oks, s) = run s ops in (ok # oks, s))"

text \<open>Where the operations on a key succeed, its content is what they make of it in a map.\<close>

lemma run_refines:
  assumes "inv s" "\<And>p. p \<in> set ops \<Longrightarrow> valid (op_key p)" "run s ops = (oks, s')" "valid k"
    and "\<And>p ok. (p, ok) \<in> set (zip ops oks) \<Longrightarrow> op_key p = k \<Longrightarrow> ok"
  shows "inv s' \<and> view s' k = fold op_apply ops (view s) k"
  using assms
proof (induction ops arbitrary: s oks)
  case (Cons p ops)
  define step where "step = (case p of Put k v \<Rightarrow> put s k v | Del k \<Rightarrow> del s k)"
  obtain ok s1 where p: "step = (ok, s1)" by (cases step)
  obtain oks' s2 where r: "run s1 ops = (oks', s2)" by (cases "run s1 ops")
  have res: "oks = ok # oks'" "s' = s2"
    using Cons.prems(3) p r by (cases p; simp add: step_def)+
  have kp: "valid (op_key p)" using Cons.prems(2) by simp
  have last: "op_key p = k \<Longrightarrow> ok" by (rule Cons.prems(5) [of p]) (simp_all add: res)
  have "inv s1 \<and> view s1 k = op_apply p (view s) k"
  proof (cases p)
    case (Put j v)
    then have e: "put s j v = (ok, s1)" "valid j" using p kp by (simp_all add: step_def)
    have "view s1 k = op_apply p (view s) k"
    proof (cases "j = k")
      case True
      with Put last have "ok" by simp
      with True e show ?thesis using put_same [OF Cons.prems(1) e(2), of v s1] Put by simp
    next
      case False
      then show ?thesis using put_other [OF Cons.prems(1) e(2) Cons.prems(4) _ e(1)] Put by simp
    qed
    then show ?thesis using put_inv [OF Cons.prems(1) e(2,1)] by simp
  next
    case (Del j)
    then have e: "del s j = (ok, s1)" "valid j" using p kp by (simp_all add: step_def)
    have "view s1 k = op_apply p (view s) k"
    proof (cases "j = k")
      case True
      with Del last have "ok" by simp
      with True e show ?thesis using del_same [OF Cons.prems(1) e(2), of s1] Del by simp
    next
      case False
      then show ?thesis using del_other [OF Cons.prems(1) e(2) Cons.prems(4) _ e(1)] Del by simp
    qed
    then show ?thesis using del_inv [OF Cons.prems(1) e(2,1)] by simp
  qed
  then have inv: "inv s1" and same: "view s1 k = op_apply p (view s) k" by simp_all
  have "inv s' \<and> view s' k = fold op_apply ops (view s1) k"
  proof (rule Cons.IH [OF inv])
    show "run s1 ops = (oks', s')" using r res by simp
    show "valid (op_key q)" if "q \<in> set ops" for q using that Cons.prems(2) by simp
    show "b" if "(q, b) \<in> set (zip ops oks')" "op_key q = k" for q b
      by (rule Cons.prems(5) [of q]) (use that res in simp_all)
  qed (rule Cons.prems(4))
  then show ?case using fold_op_cong [of "view s1" k "op_apply p (view s)" ops] same by simp
qed simp

end

section \<open>Tables whose entries expire\<close>

text \<open>
  A list of entries from which the dead ones are removed before each use: nothing that is
  live at the time is lost, and nothing is added or reordered.
\<close>

locale pruned_table =
  fixes prune :: "'t \<Rightarrow> 'e list \<Rightarrow> 'e list"
    and live :: "'t \<Rightarrow> 'e \<Rightarrow> bool"
  assumes prune_filter: "prune now es = filter (live now) es"
begin

lemma prune_mem: "e \<in> set (prune now es) \<longleftrightarrow> e \<in> set es \<and> live now e"
  by (simp add: prune_filter)

lemma prune_length: "length (prune now es) \<le> length es"
  by (simp add: prune_filter)

lemma prune_distinct: "distinct (map f es) \<Longrightarrow> distinct (map f (prune now es))"
  by (simp add: prune_filter distinct_map_filter)

lemma prune_count: "length (filter p (prune now es)) \<le> length (filter p es)"
  by (induction es) (auto simp: prune_filter)

end

end
