(* ===== verification/Semver.thy ===== *)
theory Semver
  imports CString Interfaces "HOL-Library.List_Lexorder" "HOL-Library.Product_Lexorder"
begin

text \<open>
  Versions and version ranges: \<^verbatim>\<open>src/src/main/c/cookbook_semver.c\<close>.

  The parser, the precedence comparison, the range parser and the range test are
  translated function by function. The specification side is the precedence order of
  SemVer 2.0 (section 11): every version has a key in a linear order, and
  \<open>cookbook_semver_compare\<close> returns the sign of the comparison of the keys.
\<close>

section \<open>Data\<close>

record cookbook_semver =
  major :: int
  minor :: int
  patch :: int
  pre_release :: string
  build_meta :: string

datatype cookbook_range_type =
  RANGE_EXACT | RANGE_CARET | RANGE_TILDE | RANGE_WILDCARD | RANGE_BOUNDED

record cookbook_range =
  rtype :: cookbook_range_type
  lower :: cookbook_semver
  upper :: cookbook_semver
  lower_inclusive :: bool
  upper_inclusive :: bool

definition semver_zero :: cookbook_semver where
  "semver_zero = \<lparr>major = 0, minor = 0, patch = 0, pre_release = [], build_meta = []\<rparr>"

section \<open>Parsing a version\<close>

text \<open>One of the three numbers: the guard on the first character, then \<open>(int)strtol\<close>.\<close>

definition parse_number :: "string \<Rightarrow> (int \<times> string) option" where
  "parse_number p =
     (if p \<noteq> [] \<and> isdigit (hd p) then
        (let (v, r) = strtol p in Some (to_int32 v, r))
      else None)"

definition expect_char :: "char \<Rightarrow> string \<Rightarrow> string option" where
  "expect_char c p = (if p \<noteq> [] \<and> hd p = c then Some (tl p) else None)"

definition parse_pre_release :: "string \<Rightarrow> (string \<times> string) option" where
  "parse_pre_release p =
     (if p \<noteq> [] \<and> hd p = CHR ''-'' then
        (let s = takeWhile (\<lambda>c. c \<noteq> CHR ''+'') (tl p);
             r = dropWhile (\<lambda>c. c \<noteq> CHR ''+'') (tl p)
         in if length s = 0 \<or> length s \<ge> 64 then None else Some (s, r))
      else Some ([], p))"

definition parse_build_meta :: "string \<Rightarrow> (string \<times> string) option" where
  "parse_build_meta p =
     (if p \<noteq> [] \<and> hd p = CHR ''+'' then
        (let s = tl p in if length s = 0 \<or> length s \<ge> 64 then None else Some (s, []))
      else Some ([], p))"

definition cookbook_semver_parse :: "string \<Rightarrow> cookbook_semver option" where
  "cookbook_semver_parse str = do {
     (ma, p) \<leftarrow> parse_number str;
     p \<leftarrow> expect_char (CHR ''.'') p;
     (mi, p) \<leftarrow> parse_number p;
     p \<leftarrow> expect_char (CHR ''.'') p;
     (pa, p) \<leftarrow> parse_number p;
     (pre, p) \<leftarrow> parse_pre_release p;
     (bm, p) \<leftarrow> parse_build_meta p;
     if p = [] then
       Some \<lparr>major = ma, minor = mi, patch = pa, pre_release = pre, build_meta = bm\<rparr>
     else None
   }"

section \<open>Comparing versions\<close>

definition ident_end :: "string \<Rightarrow> string" where
  "ident_end a = dropWhile (\<lambda>c. c \<noteq> CHR ''.'') a"

definition ident_text :: "string \<Rightarrow> string" where
  "ident_text a = takeWhile (\<lambda>c. c \<noteq> CHR ''.'') a"

definition skip_dot :: "string \<Rightarrow> string" where
  "skip_dot a = (if a \<noteq> [] \<and> hd a = CHR ''.'' then tl a else a)"

text \<open>
  One round of the loop of \<open>compare_pre\<close>: the two identifiers at the front, compared
  numerically when both are digits only (\<open>strtol\<close> starts at the identifier and reads the
  rest of the string), a numeric one below the other kind, otherwise by \<open>memcmp\<close> on
  the common length and then by length. 0 means the loop goes on.
\<close>

definition compare_ident :: "string \<Rightarrow> string \<Rightarrow> int" where
  "compare_ident a b =
     (let ia = ident_text a; ib = ident_text b;
          a_num = list_all isdigit ia; b_num = list_all isdigit ib
      in if a_num \<and> b_num then
           (let av = fst (strtol a); bv = fst (strtol b)
            in if av \<noteq> bv then (if av < bv then -1 else 1) else 0)
         else if a_num \<noteq> b_num then (if a_num then -1 else 1)
         else
           (let n = min (length ia) (length ib); cmp = memcmp (take n ia) (take n ib)
            in if cmp \<noteq> 0 then cmp
               else if length ia \<noteq> length ib then (if length ia < length ib then -1 else 1)
               else 0))"

lemma skip_dot_shorter: "a \<noteq> [] \<Longrightarrow> length (skip_dot (ident_end a)) < length a"
  by (cases a) (auto simp: skip_dot_def ident_end_def less_Suc_eq_le le_diff_conv intro: le_SucI)

function compare_pre_loop :: "string \<Rightarrow> string \<Rightarrow> int" where
  "compare_pre_loop a b =
     (if a \<noteq> [] \<and> b \<noteq> [] then
        (let c = compare_ident a b
         in if c \<noteq> 0 then c
            else compare_pre_loop (skip_dot (ident_end a)) (skip_dot (ident_end b)))
      else if a \<noteq> [] then 1
      else if b \<noteq> [] then -1
      else 0)"
  by pat_completeness auto
termination
  by (relation "measure (\<lambda>(a, b). length a)") (auto simp: skip_dot_shorter)

declare compare_pre_loop.simps [simp del]

definition compare_pre :: "string \<Rightarrow> string \<Rightarrow> int" where
  "compare_pre a b =
     (if a = [] \<and> b = [] then 0
      else if a = [] then 1
      else if b = [] then -1
      else compare_pre_loop a b)"

text \<open>The differences of the numeric fields are computed in \<open>int\<close>.\<close>

definition cookbook_semver_compare :: "cookbook_semver \<Rightarrow> cookbook_semver \<Rightarrow> int" where
  "cookbook_semver_compare a b =
     (if major a \<noteq> major b then to_int32 (major a - major b)
      else if minor a \<noteq> minor b then to_int32 (minor a - minor b)
      else if patch a \<noteq> patch b then to_int32 (patch a - patch b)
      else compare_pre (pre_release a) (pre_release b))"

section \<open>Ranges\<close>

definition range_with :: "cookbook_range_type \<Rightarrow> cookbook_semver \<Rightarrow> cookbook_range" where
  "range_with t lo =
     \<lparr>rtype = t, lower = lo, upper = semver_zero, lower_inclusive = False, upper_inclusive = False\<rparr>"

definition parse_bounded :: "bool \<Rightarrow> string \<Rightarrow> cookbook_range option" where
  "parse_bounded incl str = do {
     comma \<leftarrow> strchr str (CHR '','');
     let buf = takeWhile (\<lambda>c. c \<noteq> CHR '','') str;
     if length buf \<ge> 128 then None else do {
       lo \<leftarrow> cookbook_semver_parse buf;
       let s = dropWhile isspace (tl comma);
       let e = dropWhile (\<lambda>c. c \<noteq> CHR '')'' \<and> c \<noteq> CHR '']'') s;
       let ubuf = takeWhile (\<lambda>c. c \<noteq> CHR '')'' \<and> c \<noteq> CHR '']'') s;
       if e = [] then None
       else if length ubuf \<ge> 128 then None
       else do {
         up \<leftarrow> cookbook_semver_parse ubuf;
         Some \<lparr>rtype = RANGE_BOUNDED, lower = lo, upper = up,
               lower_inclusive = incl, upper_inclusive = (hd e = CHR '']'')\<rparr>
       }
     }
   }"

text \<open>A wildcard with text before the star: \<open>1.*\<close>, \<open>1.2.*\<close>.\<close>

definition parse_wildcard :: "string \<Rightarrow> cookbook_semver" where
  "parse_wildcard str =
     (let before = takeWhile (\<lambda>c. c \<noteq> CHR ''*'') str
      in if before = [] then semver_zero\<lparr>major := -1, minor := -1\<rparr>
         else
           semver_zero\<lparr>major := to_int32 (fst (strtol str)),
             minor := (case strchr str (CHR ''.'') of
                 None \<Rightarrow> -1
               | Some dot \<Rightarrow>
                   if CHR ''.'' \<in> set before \<and> \<not> (tl dot \<noteq> [] \<and> hd (tl dot) = CHR ''*'')
                   then to_int32 (fst (strtol (tl dot)))
                   else -1)\<rparr>)"

definition cookbook_range_parse :: "string \<Rightarrow> cookbook_range option" where
  "cookbook_range_parse s =
     (let str = dropWhile isspace s;
          c = (if str = [] then CHR 0x00 else hd str)
      in if c = CHR ''^'' then map_option (range_with RANGE_CARET) (cookbook_semver_parse (tl str))
         else if c = CHR ''~'' then map_option (range_with RANGE_TILDE) (cookbook_semver_parse (tl str))
         else if c = CHR ''*'' then
           Some (range_with RANGE_WILDCARD (semver_zero\<lparr>major := -1, minor := -1\<rparr>))
         else if c = CHR ''['' \<or> c = CHR ''('' then parse_bounded (c = CHR ''['') (tl str)
         else if CHR ''*'' \<in> set str then Some (range_with RANGE_WILDCARD (parse_wildcard str))
         else map_option (range_with RANGE_EXACT) (cookbook_semver_parse str))"

definition same_triple :: "cookbook_semver \<Rightarrow> cookbook_semver \<Rightarrow> bool" where
  "same_triple v w \<longleftrightarrow> major v = major w \<and> minor v = minor w \<and> patch v = patch w"

text \<open>The upper end of a caret range: the leftmost non-zero number may not change.\<close>

definition caret_compatible :: "cookbook_semver \<Rightarrow> cookbook_semver \<Rightarrow> bool" where
  "caret_compatible lo ver =
     (if major lo \<noteq> 0 then major ver = major lo
      else if minor lo \<noteq> 0 then major ver = 0 \<and> minor ver = minor lo
      else major ver = 0 \<and> minor ver = 0 \<and> patch ver = patch lo)"

definition cookbook_range_satisfies :: "cookbook_range \<Rightarrow> cookbook_semver \<Rightarrow> bool" where
  "cookbook_range_satisfies r ver =
     (let is_pre = (pre_release ver \<noteq> []); lo = lower r
      in case rtype r of
           RANGE_EXACT \<Rightarrow> cookbook_semver_compare lo ver = 0
         | RANGE_CARET \<Rightarrow>
             \<not> cookbook_semver_compare ver lo < 0 \<and>
             \<not> (is_pre \<and> \<not> same_triple ver lo) \<and>
             caret_compatible lo ver
         | RANGE_TILDE \<Rightarrow>
             \<not> cookbook_semver_compare ver lo < 0 \<and>
             \<not> (is_pre \<and> \<not> same_triple ver lo) \<and>
             major ver = major lo \<and> minor ver = minor lo
         | RANGE_WILDCARD \<Rightarrow>
             (if is_pre then False
              else if major lo = -1 then True
              else if major ver \<noteq> major lo then False
              else if minor lo = -1 then True
              else minor ver = minor lo)
         | RANGE_BOUNDED \<Rightarrow>
             (let cl = cookbook_semver_compare ver lo; cu = cookbook_semver_compare ver (upper r)
              in (if lower_inclusive r then \<not> cl < 0 else \<not> cl \<le> 0) \<and>
                 (if upper_inclusive r then \<not> cu > 0 else \<not> cu \<ge> 0)))"


section \<open>Specification: the precedence order of SemVer 2.0\<close>

text \<open>
  A pre-release identifier is numeric or not; numeric identifiers are below the others and
  ordered by value, the others are ordered bytewise. The instance makes the identifiers a
  linear order, so that lists of them and the whole key of a version are linear orders too.
\<close>

datatype ident = NumId nat | AlphaId string

instantiation ident :: linorder
begin

fun less_eq_ident :: "ident \<Rightarrow> ident \<Rightarrow> bool" where
  "less_eq_ident (NumId m) (NumId n) = (m \<le> n)"
| "less_eq_ident (NumId m) (AlphaId t) = True"
| "less_eq_ident (AlphaId s) (NumId n) = False"
| "less_eq_ident (AlphaId s) (AlphaId t) = (s \<le> t)"

definition less_ident :: "ident \<Rightarrow> ident \<Rightarrow> bool" where
  "less_ident x y \<longleftrightarrow> x \<le> y \<and> \<not> y \<le> (x :: ident)"

instance
proof
  fix x y z :: ident
  show "x < y \<longleftrightarrow> x \<le> y \<and> \<not> y \<le> x" by (simp add: less_ident_def)
  show "x \<le> x" by (cases x) auto
  show "x \<le> y \<Longrightarrow> y \<le> z \<Longrightarrow> x \<le> z" by (cases x; cases y; cases z) auto
  show "x \<le> y \<Longrightarrow> y \<le> x \<Longrightarrow> x = y" by (cases x; cases y) auto
  show "x \<le> y \<or> y \<le> x" by (cases x; cases y) auto
qed

end

text \<open>The three-way comparison in a linear order, as a sign.\<close>

definition cmp :: "'a::linorder \<Rightarrow> 'a \<Rightarrow> int" where
  "cmp x y = (if x < y then -1 else if x = y then 0 else 1)"

text \<open>The dot-separated identifiers of a pre-release tag (a trailing dot adds none).\<close>

function idents :: "string \<Rightarrow> string list" where
  "idents a = (if a = [] then [] else ident_text a # idents (skip_dot (ident_end a)))"
  by pat_completeness auto
termination
  by (relation "measure length") (auto simp: skip_dot_shorter)

declare idents.simps [simp del]

definition ident_key :: "string \<Rightarrow> ident" where
  "ident_key s = (if list_all isdigit s then NumId (digits_value 0 s) else AlphaId s)"

definition pre_key :: "string \<Rightarrow> bool \<times> ident list" where
  "pre_key p = (p = [], map ident_key (idents p))"

definition semver_key :: "cookbook_semver \<Rightarrow> int \<times> int \<times> int \<times> bool \<times> ident list" where
  "semver_key v = (major v, minor v, patch v, pre_key (pre_release v))"

text \<open>
  The versions the comparison is meant for: numbers that fit an \<open>int\<close> without a sign, and
  numeric identifiers that fit a \<open>long\<close>.
\<close>

definition int31 :: "int \<Rightarrow> bool" where
  "int31 x \<longleftrightarrow> 0 \<le> x \<and> x < 2 ^ 31"

definition idents_fit :: "string \<Rightarrow> bool" where
  "idents_fit p \<longleftrightarrow>
     list_all (\<lambda>s. list_all isdigit s \<longrightarrow> int (digits_value 0 s) \<le> LONG_MAX) (idents p)"

definition semver_wf :: "cookbook_semver \<Rightarrow> bool" where
  "semver_wf v \<longleftrightarrow>
     int31 (major v) \<and> int31 (minor v) \<and> int31 (patch v) \<and> idents_fit (pre_release v)"

section \<open>The comparison implements the precedence order\<close>

lemma cmp_simps [simp]:
  "cmp x x = 0"
  "cmp x y < 0 \<longleftrightarrow> x < y"
  "cmp x y = 0 \<longleftrightarrow> x = y"
  "0 < cmp x y \<longleftrightarrow> y < x"
  "sgn (cmp x y) = cmp x y"
  by (auto simp: cmp_def)

lemma cmp_Cons: "cmp (x # xs) (y # ys) = (if x = y then cmp xs ys else cmp x y)"
  by (auto simp: cmp_def)

lemma cmp_Pair: "cmp (a, b) (c, d) = (if a = c then cmp b d else cmp a c)"
  by (auto simp: cmp_def)

lemma cmp_Nil: "cmp [] (y # ys) = -1" "cmp (y # ys) [] = 1"
  by (auto simp: cmp_def)

lemma sgn_diff_cmp: "sgn (x - y) = cmp x (y :: int)"
  by (auto simp: cmp_def sgn_if)

lemma memcmp_min_cmp:
  "(let n = min (length s) (length t); c = memcmp (take n s) (take n t)
    in if c \<noteq> 0 then c
       else if length s \<noteq> length t then (if length s < length t then -1 else 1)
       else 0) = cmp s t"
proof (induction s t rule: memcmp.induct)
  case (1 a as b bs)
  then show ?case by (cases "a = b") (auto simp: cmp_def Let_def split: if_splits)
qed (auto simp: cmp_def neq_Nil_conv, metis list.exhaust)

lemma ident_split: "a = ident_text a @ ident_end a"
  by (simp add: ident_text_def ident_end_def)

lemma strtol_ident:
  assumes "list_all isdigit (ident_text a)"
  shows "fst (strtol a) = min LONG_MAX (int (digits_value 0 (ident_text a)))"
proof (cases "ident_text a = []")
  case True
  then have "a = [] \<or> hd a = CHR ''.''"
    by (cases a) (auto simp: ident_text_def split: if_splits)
  then have "strtol a = (0, a)"
    by (cases a) (auto simp: strtol_def isspace_def isdigit_def less_eq_char_def)
  with True show ?thesis by (simp add: LONG_MAX_def)
next
  case False
  have "ident_end a = [] \<or> \<not> isdigit (hd (ident_end a))"
    by (cases "ident_end a")
       (auto simp: ident_end_def isdigit_def less_eq_char_def dest!: dropWhile_hd_False)
  with False assms have
    "strtol (ident_text a @ ident_end a) = (min LONG_MAX (int (digits_value 0 (ident_text a))), ident_end a)"
    by (intro strtol_digits) (auto simp: list_all_iff)
  then show ?thesis by (simp flip: ident_split)
qed

lemma compare_ident_key:
  assumes "list_all isdigit (ident_text a) \<longrightarrow> int (digits_value 0 (ident_text a)) \<le> LONG_MAX"
    and "list_all isdigit (ident_text b) \<longrightarrow> int (digits_value 0 (ident_text b)) \<le> LONG_MAX"
  shows "compare_ident a b = cmp (ident_key (ident_text a)) (ident_key (ident_text b))"
proof -
  have alpha: "cmp (AlphaId s) (AlphaId t) = cmp s t" for s t
    by (auto simp: cmp_def less_ident_def)
  have num: "cmp (NumId m) (NumId n) = cmp m n" for m n
    by (auto simp: cmp_def less_ident_def)
  show ?thesis
    using assms memcmp_min_cmp [of "ident_text a" "ident_text b"]
    by (auto simp: compare_ident_def Let_def ident_key_def strtol_ident alpha num)
       (auto simp: cmp_def less_ident_def)
qed

lemma compare_pre_loop_key:
  "idents_fit a \<Longrightarrow> idents_fit b \<Longrightarrow>
   compare_pre_loop a b = cmp (map ident_key (idents a)) (map ident_key (idents b))"
proof (induction a b rule: compare_pre_loop.induct)
  case (1 a b)
  show ?case
  proof (cases "a \<noteq> [] \<and> b \<noteq> []")
    case True
    let ?a = "skip_dot (ident_end a)" and ?b = "skip_dot (ident_end b)"
    have ids: "idents a = ident_text a # idents ?a" "idents b = ident_text b # idents ?b"
      using True by (auto simp: idents.simps [of a] idents.simps [of b])
    have c: "compare_ident a b = cmp (ident_key (ident_text a)) (ident_key (ident_text b))"
      using "1.prems" by (intro compare_ident_key) (auto simp: idents_fit_def ids)
    have "compare_ident a b = 0 \<Longrightarrow>
      compare_pre_loop ?a ?b = cmp (map ident_key (idents ?a)) (map ident_key (idents ?b))"
      using True "1.prems" by (intro "1.IH") (auto simp: idents_fit_def ids)
    then show ?thesis
      using True by (auto simp: compare_pre_loop.simps [of a b] ids cmp_Cons c Let_def)
  next
    case False
    then show ?thesis
      by (auto simp: compare_pre_loop.simps [of a b] idents.simps [of a] idents.simps [of b] cmp_Nil)
  qed
qed

lemma compare_pre_key:
  "idents_fit a \<Longrightarrow> idents_fit b \<Longrightarrow> compare_pre a b = cmp (pre_key a) (pre_key b)"
  by (auto simp: compare_pre_def pre_key_def cmp_Pair compare_pre_loop_key)
     (auto simp: cmp_def)

lemma to_int32_diff: "int31 x \<Longrightarrow> int31 y \<Longrightarrow> to_int32 (x - y) = x - y"
  by (simp add: int31_def)

lemma semver_compare_key:
  assumes "semver_wf a" "semver_wf b"
  shows "sgn (cookbook_semver_compare a b) = cmp (semver_key a) (semver_key b)"
  using assms
  by (auto simp: cookbook_semver_compare_def semver_key_def cmp_Pair semver_wf_def
      to_int32_diff sgn_diff_cmp compare_pre_key)

lemma semver_compare_less: "semver_wf a \<Longrightarrow> semver_wf b \<Longrightarrow>
    cookbook_semver_compare a b < 0 \<longleftrightarrow> semver_key a < semver_key b"
  using semver_compare_key [of a b] by (metis cmp_simps(2) sgn_less)

lemma semver_compare_eq: "semver_wf a \<Longrightarrow> semver_wf b \<Longrightarrow>
    cookbook_semver_compare a b = 0 \<longleftrightarrow> semver_key a = semver_key b"
  using semver_compare_key [of a b] by (metis cmp_simps(3) sgn_0_0)

lemma semver_compare_greater: "semver_wf a \<Longrightarrow> semver_wf b \<Longrightarrow>
    cookbook_semver_compare a b > 0 \<longleftrightarrow> semver_key b < semver_key a"
  using semver_compare_key [of a b] by (metis cmp_simps(4) sgn_greater)


lemmas semver_compare_order = semver_compare_less semver_compare_eq semver_compare_greater

section \<open>Printing and parsing\<close>

text \<open>The text of a version, the inverse of the parser on well-formed versions.\<close>

definition tag_text :: "char \<Rightarrow> string \<Rightarrow> string" where
  "tag_text c s = (if s = [] then [] else c # s)"

definition semver_text :: "cookbook_semver \<Rightarrow> string" where
  "semver_text v =
     show_nat (nat (major v)) @ CHR ''.'' # show_nat (nat (minor v)) @ CHR ''.'' #
     show_nat (nat (patch v)) @ tag_text (CHR ''-'') (pre_release v) @
     tag_text (CHR ''+'') (build_meta v)"

definition tags_wf :: "cookbook_semver \<Rightarrow> bool" where
  "tags_wf v \<longleftrightarrow>
     length (pre_release v) < 64 \<and> length (build_meta v) < 64 \<and> CHR ''+'' \<notin> set (pre_release v)"

lemma parse_number_digits [cstring]:
  assumes "ds \<noteq> []" "list_all isdigit ds" "r = [] \<or> \<not> isdigit (hd r)"
  shows "parse_number (ds @ r) = Some (to_int32 (min LONG_MAX (int (digits_value 0 ds))), r)"
proof -
  have "strtol (ds @ r) = (min LONG_MAX (int (digits_value 0 ds)), r)"
    using assms by (intro strtol_digits) (auto simp: list_all_iff)
  moreover have "isdigit (hd (ds @ r))" using assms by (cases ds) auto
  ultimately show ?thesis using assms(1) by (simp add: parse_number_def)
qed

lemma parse_number_Some:
  assumes "parse_number p = Some (v, r)"
  shows "\<exists>ds. ds \<noteq> [] \<and> list_all isdigit ds \<and> p = ds @ r \<and> (r = [] \<or> \<not> isdigit (hd r)) \<and>
           v = to_int32 (min LONG_MAX (int (digits_value 0 ds)))"
proof -
  let ?ds = "takeWhile isdigit p" and ?r = "dropWhile isdigit p"
  have p: "p \<noteq> []" "isdigit (hd p)" using assms by (auto simp: parse_number_def split: if_splits)
  have ds: "?ds \<noteq> []" "list_all isdigit ?ds" using p by (auto simp: list_all_iff dest: set_takeWhileD) (cases p; simp)
  have r: "?r = [] \<or> \<not> isdigit (hd ?r)" by (cases ?r) (auto dest: dropWhile_hd_False)
  have "parse_number (?ds @ ?r) = Some (to_int32 (min LONG_MAX (int (digits_value 0 ?ds))), ?r)"
    using ds r by (rule parse_number_digits)
  with assms have "v = to_int32 (min LONG_MAX (int (digits_value 0 ?ds)))" "r = ?r" by auto
  with ds r show ?thesis by (intro exI [of _ ?ds]) auto
qed

lemma not_digit_dot [simp]: "\<not> isdigit (CHR ''.'')" "\<not> isdigit (CHR ''-'')" "\<not> isdigit (CHR ''+'')"
  by (auto simp: isdigit_def less_eq_char_def)

lemma parse_pre_release_tag:
  assumes "length s < 64" "CHR ''+'' \<notin> set s" "s \<noteq> [] \<Longrightarrow> r = [] \<or> hd r = CHR ''+''"
    "s = [] \<Longrightarrow> r = [] \<or> hd r \<noteq> CHR ''-''"
  shows "parse_pre_release (tag_text (CHR ''-'') s @ r) = Some (s, r)"
proof (cases "s = []")
  case True
  with assms(4) show ?thesis by (auto simp: parse_pre_release_def tag_text_def)
next
  case False
  with assms show ?thesis by (simp add: parse_pre_release_def tag_text_def span_until)
qed

lemma parse_pre_release_imp:
  assumes "parse_pre_release p = Some (s, r)"
  shows "p = tag_text (CHR ''-'') s @ r" "length s < 64" "CHR ''+'' \<notin> set s"
proof -
  have "p = tag_text (CHR ''-'') s @ r \<and> length s < 64 \<and> CHR ''+'' \<notin> set s"
  proof (cases "p \<noteq> [] \<and> hd p = CHR ''-''")
    case True
    then have s: "s = takeWhile (\<lambda>c. c \<noteq> CHR ''+'') (tl p)" "r = dropWhile (\<lambda>c. c \<noteq> CHR ''+'') (tl p)"
      "s \<noteq> []" "length s < 64"
      using assms by (auto simp: parse_pre_release_def Let_def split: if_splits)
    then have "tl p = s @ r" by simp
    moreover have "CHR ''+'' \<notin> set s" unfolding s(1) by (auto dest: set_takeWhileD)
    ultimately show ?thesis using True s(3,4) by (cases p) (auto simp: tag_text_def)
  next
    case False
    then have "s = []" "r = p"
      using assms unfolding parse_pre_release_def if_not_P [OF False] by auto
    then show ?thesis by (simp add: tag_text_def)
  qed
  then show "p = tag_text (CHR ''-'') s @ r" "length s < 64" "CHR ''+'' \<notin> set s" by auto
qed

lemma parse_build_meta_Some:
  "parse_build_meta p = Some (s, r) \<and> r = [] \<longleftrightarrow> p = tag_text (CHR ''+'') s \<and> length s < 64 \<and> r = []"
  by (cases p) (auto simp: parse_build_meta_def tag_text_def Let_def split: if_splits)

text \<open>
  What the parser accepts and what it returns: three runs of digits separated by dots, then
  the tags; the value of a run saturates at the end of \<open>long\<close> and is cut to \<open>int\<close>.
\<close>

definition number_text :: "int \<Rightarrow> string \<Rightarrow> bool" where
  "number_text x ds \<longleftrightarrow>
     ds \<noteq> [] \<and> list_all isdigit ds \<and> x = to_int32 (min LONG_MAX (int (digits_value 0 ds)))"

lemma expect_char_Some: "expect_char c p = Some r \<longleftrightarrow> p = c # r"
  by (cases p) (auto simp: expect_char_def)

lemma bind_Some: "Option.bind x f = Some y \<longleftrightarrow> (\<exists>z. x = Some z \<and> f z = Some y)"
  by (cases x) auto

lemma semver_parse_imp:
  assumes "cookbook_semver_parse s = Some v"
  shows "\<exists>d1 d2 d3. number_text (major v) d1 \<and> number_text (minor v) d2 \<and> number_text (patch v) d3 \<and>
     s = d1 @ CHR ''.'' # d2 @ CHR ''.'' # d3 @
         tag_text (CHR ''-'') (pre_release v) @ tag_text (CHR ''+'') (build_meta v) \<and> tags_wf v"
proof -
  from assms obtain ma p1 p2 mi p3 p4 pa p5 pre p6 bm where
    n: "parse_number s = Some (ma, p1)" "parse_number p2 = Some (mi, p3)" "parse_number p4 = Some (pa, p5)"
    and d: "p1 = CHR ''.'' # p2" "p3 = CHR ''.'' # p4"
    and t: "parse_pre_release p5 = Some (pre, p6)" "parse_build_meta p6 = Some (bm, [])"
    and v: "v = \<lparr>major = ma, minor = mi, patch = pa, pre_release = pre, build_meta = bm\<rparr>"
    by (auto simp: cookbook_semver_parse_def bind_Some expect_char_Some split: if_splits)
  from n [THEN parse_number_Some] obtain d1 d2 d3 where
    "number_text ma d1" "number_text mi d2" "number_text pa d3"
    "s = d1 @ p1" "p2 = d2 @ p3" "p4 = d3 @ p5"
    unfolding number_text_def by blast
  with d t v show ?thesis
    using parse_build_meta_Some [of p6 bm "[]"]
    by (intro exI [of _ d1] exI [of _ d2] exI [of _ d3]) (auto simp: parse_pre_release_imp [OF t(1)] tags_wf_def)
qed

lemma semver_parse_text:
  assumes d: "number_text ma d1" "number_text mi d2" "number_text pa d3"
    and t: "tags_wf v"
    and s: "s = d1 @ CHR ''.'' # d2 @ CHR ''.'' # d3 @
         tag_text (CHR ''-'') (pre_release v) @ tag_text (CHR ''+'') (build_meta v)"
  shows "cookbook_semver_parse s =
           Some \<lparr>major = ma, minor = mi, patch = pa,
                 pre_release = pre_release v, build_meta = build_meta v\<rparr>"
proof -
  let ?tb = "tag_text (CHR ''+'') (build_meta v)"
  let ?t = "tag_text (CHR ''-'') (pre_release v) @ ?tb"
  have p: "parse_number (d1 @ CHR ''.'' # x) = Some (ma, CHR ''.'' # x)"
          "parse_number (d2 @ CHR ''.'' # x) = Some (mi, CHR ''.'' # x)" for x
    using d by (auto simp: number_text_def parse_number_digits)
  have "?t = [] \<or> \<not> isdigit (hd ?t)" by (auto simp: tag_text_def)
  then have q: "parse_number (d3 @ ?t) = Some (pa, ?t)"
    using d(3) by (auto simp: number_text_def parse_number_digits)
  have "parse_pre_release ?t = Some (pre_release v, ?tb)"
    using t by (intro parse_pre_release_tag) (auto simp: tags_wf_def tag_text_def)
  moreover have "parse_build_meta ?tb = Some (build_meta v, [])"
    using t parse_build_meta_Some [of ?tb "build_meta v" "[]"] by (auto simp: tags_wf_def)
  ultimately show ?thesis
    unfolding s cookbook_semver_parse_def by (simp add: p q expect_char_def)
qed

lemma number_text_show: "int31 x \<Longrightarrow> number_text x (show_nat (nat x))"
  by (auto simp: number_text_def int31_def list_all_iff LONG_MAX_def dest: show_nat_digits)


section \<open>Ranges as intervals of the precedence order\<close>

text \<open>The first release above a caret or tilde range.\<close>

definition release :: "int \<Rightarrow> int \<Rightarrow> int \<Rightarrow> cookbook_semver" where
  "release a b c = \<lparr>major = a, minor = b, patch = c, pre_release = [], build_meta = []\<rparr>"

definition caret_upper :: "cookbook_semver \<Rightarrow> cookbook_semver" where
  "caret_upper lo =
     (if major lo \<noteq> 0 then release (major lo + 1) 0 0
      else if minor lo \<noteq> 0 then release 0 (minor lo + 1) 0
      else release 0 0 (patch lo + 1))"

definition tilde_upper :: "cookbook_semver \<Rightarrow> cookbook_semver" where
  "tilde_upper lo = release (major lo) (minor lo + 1) 0"

lemma pre_key_release [simp]: "pre_key [] = (True, [])"
  by (simp add: pre_key_def idents.simps)

lemma semver_key_release_less:
  assumes "pre_release v = []"
  shows "semver_key v < semver_key (release a b c) \<longleftrightarrow> (major v, minor v, patch v) < (a, b, c)"
  using assms by (auto simp: semver_key_def release_def)

lemma semver_key_le_triple:
  "semver_key lo \<le> semver_key v \<Longrightarrow> (major lo, minor lo, patch lo) \<le> (major v, minor v, patch v)"
  by (auto simp: semver_key_def split: if_splits)

lemma caret_core:
  assumes wf: "semver_wf lo" "semver_wf v" and rel: "pre_release v = []"
    and le: "semver_key lo \<le> semver_key v"
  shows "caret_compatible lo v \<longleftrightarrow> semver_key v < semver_key (caret_upper lo)"
  using semver_key_le_triple [OF le] wf
  by (auto simp: caret_compatible_def caret_upper_def semver_key_release_less [OF rel] semver_wf_def int31_def)

lemma tilde_core:
  assumes wf: "semver_wf lo" "semver_wf v" and rel: "pre_release v = []"
    and le: "semver_key lo \<le> semver_key v"
  shows "major v = major lo \<and> minor v = minor lo \<longleftrightarrow> semver_key v < semver_key (tilde_upper lo)"
  using semver_key_le_triple [OF le] wf
  by (auto simp: tilde_upper_def semver_key_release_less [OF rel] semver_wf_def int31_def)

text \<open>The meaning of each kind of range on well-formed versions.\<close>

definition in_interval :: "cookbook_range \<Rightarrow> cookbook_semver \<Rightarrow> bool" where
  "in_interval r v \<longleftrightarrow>
     (case rtype r of
        RANGE_EXACT \<Rightarrow> semver_key v = semver_key (lower r)
      | RANGE_CARET \<Rightarrow> semver_key (lower r) \<le> semver_key v \<and>
          (if pre_release v = [] then semver_key v < semver_key (caret_upper (lower r))
           else same_triple v (lower r))
      | RANGE_TILDE \<Rightarrow> semver_key (lower r) \<le> semver_key v \<and>
          (if pre_release v = [] then semver_key v < semver_key (tilde_upper (lower r))
           else same_triple v (lower r))
      | RANGE_WILDCARD \<Rightarrow> pre_release v = [] \<and>
          (major (lower r) = -1 \<or>
           major v = major (lower r) \<and> (minor (lower r) = -1 \<or> minor v = minor (lower r)))
      | RANGE_BOUNDED \<Rightarrow>
          (if lower_inclusive r then semver_key (lower r) \<le> semver_key v
           else semver_key (lower r) < semver_key v) \<and>
          (if upper_inclusive r then semver_key v \<le> semver_key (upper r)
           else semver_key v < semver_key (upper r)))"

definition range_wf :: "cookbook_range \<Rightarrow> bool" where
  "range_wf r \<longleftrightarrow> rtype r \<noteq> RANGE_WILDCARD \<longrightarrow> semver_wf (lower r) \<and>
     (rtype r = RANGE_BOUNDED \<longrightarrow> semver_wf (upper r))"

lemma same_triple_caret: "same_triple v lo \<Longrightarrow> caret_compatible lo v"
  by (auto simp: same_triple_def caret_compatible_def)

lemma semver_compare_ge: "semver_wf a \<Longrightarrow> semver_wf b \<Longrightarrow>
    0 \<le> cookbook_semver_compare a b \<longleftrightarrow> semver_key b \<le> semver_key a"
  using semver_compare_less [of a b] by (meson linorder_not_less)

lemma semver_compare_le: "semver_wf a \<Longrightarrow> semver_wf b \<Longrightarrow>
    cookbook_semver_compare a b \<le> 0 \<longleftrightarrow> semver_key a \<le> semver_key b"
  using semver_compare_greater [of a b] by (meson linorder_not_less)

lemma satisfies_caret:
  assumes "rtype r = RANGE_CARET" "semver_wf (lower r)" "semver_wf v"
  shows "cookbook_range_satisfies r v \<longleftrightarrow> in_interval r v"
proof (cases "pre_release v = []")
  case True
  with assms caret_core [OF assms(2,3)] show ?thesis
    by (simp add: cookbook_range_satisfies_def in_interval_def semver_compare_ge Let_def linorder_not_less)
       blast
next
  case False
  with assms same_triple_caret [of v "lower r"] show ?thesis
    by (simp add: cookbook_range_satisfies_def in_interval_def semver_compare_ge Let_def linorder_not_less)
       blast
qed

lemma satisfies_tilde:
  assumes "rtype r = RANGE_TILDE" "semver_wf (lower r)" "semver_wf v"
  shows "cookbook_range_satisfies r v \<longleftrightarrow> in_interval r v"
proof (cases "pre_release v = []")
  case True
  with assms tilde_core [OF assms(2,3)] show ?thesis
    by (simp add: cookbook_range_satisfies_def in_interval_def semver_compare_ge Let_def linorder_not_less)
       blast
next
  case False
  with assms show ?thesis
    by (simp add: cookbook_range_satisfies_def in_interval_def semver_compare_ge Let_def linorder_not_less
        same_triple_def) blast
qed

lemma satisfies_bounded:
  assumes "rtype r = RANGE_BOUNDED" "semver_wf (lower r)" "semver_wf (upper r)" "semver_wf v"
  shows "cookbook_range_satisfies r v \<longleftrightarrow> in_interval r v"
  using assms
  by (simp add: cookbook_range_satisfies_def in_interval_def semver_compare_order semver_compare_ge
      semver_compare_le Let_def linorder_not_less linorder_not_le)

lemma range_satisfies_interval:
  assumes r: "range_wf r" and v: "semver_wf v"
  shows "cookbook_range_satisfies r v \<longleftrightarrow> in_interval r v"
proof (cases "rtype r")
  case RANGE_EXACT
  with r have "semver_wf (lower r)" by (simp add: range_wf_def)
  with RANGE_EXACT v show ?thesis
    by (auto simp: cookbook_range_satisfies_def in_interval_def semver_compare_eq)
next
  case RANGE_WILDCARD
  then show ?thesis by (simp add: cookbook_range_satisfies_def in_interval_def Let_def)
next
  case RANGE_CARET
  with r v show ?thesis by (intro satisfies_caret) (simp_all add: range_wf_def)
next
  case RANGE_TILDE
  with r v show ?thesis by (intro satisfies_tilde) (simp_all add: range_wf_def)
next
  case RANGE_BOUNDED
  with r v show ?thesis by (intro satisfies_bounded) (simp_all add: range_wf_def)
qed

section \<open>Interfaces\<close>

interpretation semver_cmp: three_way cookbook_semver_compare semver_wf semver_key
  by unfold_locales (simp_all add: semver_compare_less semver_compare_eq)

definition semver_printable :: "cookbook_semver \<Rightarrow> bool" where
  "semver_printable v \<longleftrightarrow> int31 (major v) \<and> int31 (minor v) \<and> int31 (patch v) \<and> tags_wf v"

lemma parse_semver_text: "semver_printable v \<Longrightarrow> cookbook_semver_parse (semver_text v) = Some v"
  using semver_parse_text
    [of "major v" _ "minor v" _ "patch v" _ v, OF number_text_show number_text_show number_text_show _ refl]
  by (simp add: semver_printable_def semver_text_def)

interpretation semver_codec: codec semver_text cookbook_semver_parse semver_printable
  by unfold_locales (rule parse_semver_text)

section \<open>Properties\<close>

text \<open>
  C11. The comparison implements the precedence of SemVer 2.0: its sign is that of the
  comparison of the keys (numbers first, a release above its pre-releases, then the
  identifiers one by one, numeric below alphanumeric, a prefix below its extensions).
\<close>

theorem compare_is_precedence:
  assumes "semver_wf a" "semver_wf b"
  shows "sgn (cookbook_semver_compare a b) = cmp (semver_key a) (semver_key b)"
  using assms by (rule semver_compare_key)

theorem compare_is_precedence_witness:
  "sgn (cookbook_semver_compare
          (semver_zero\<lparr>major := 1, pre_release := ''rc.2''\<rparr>) (semver_zero\<lparr>major := 1, pre_release := ''rc.10''\<rparr>)) = -1"
  by (subst compare_is_precedence; code_simp)

text \<open>
  The comparison is a total preorder on well-formed versions: it is antisymmetric in
  sign, transitive and total, and 0 exactly for versions of equal precedence.
\<close>

theorem compare_total_order:
  assumes "semver_wf a" "semver_wf b" "semver_wf c"
  shows "(cookbook_semver_compare a b < 0 \<longleftrightarrow> cookbook_semver_compare b a > 0) \<and>
    (cookbook_semver_compare a b \<le> 0 \<and> cookbook_semver_compare b c \<le> 0 \<longrightarrow>
       cookbook_semver_compare a c \<le> 0) \<and>
    (cookbook_semver_compare a b \<le> 0 \<or> cookbook_semver_compare b a \<le> 0) \<and>
    (cookbook_semver_compare a b = 0 \<longleftrightarrow> semver_key a = semver_key b)"
  using assms semver_cmp.compare_swap semver_cmp.compare_trans semver_cmp.compare_total
    semver_cmp.compare_zero by blast

theorem compare_total_order_witness:
  "cookbook_semver_compare (release 1 0 0) (release 3 0 0) \<le> 0"
proof -
  have "semver_wf (release 1 0 0)" "semver_wf (release 2 0 0)" "semver_wf (release 3 0 0)"
    "cookbook_semver_compare (release 1 0 0) (release 2 0 0) \<le> 0"
    "cookbook_semver_compare (release 2 0 0) (release 3 0 0) \<le> 0"
    by code_simp+
  then show ?thesis using compare_total_order [of "release 1 0 0" "release 2 0 0" "release 3 0 0"] by blast
qed

text \<open>The parser reads back the text of every version it can represent.\<close>

theorem parse_text_roundtrip:
  assumes "semver_printable v"
  shows "cookbook_semver_parse (semver_text v) = Some v"
  using assms by (rule parse_semver_text)

theorem parse_text_roundtrip_witness:
  "cookbook_semver_parse ''1.20.3-rc.1+b7'' =
     Some \<lparr>major = 1, minor = 20, patch = 3, pre_release = ''rc.1'', build_meta = ''b7''\<rparr>"
  using parse_text_roundtrip
    [of "\<lparr>major = 1, minor = 20, patch = 3, pre_release = ''rc.1'', build_meta = ''b7''\<rparr>"]
  by code_simp

text \<open>
  C30. The parser accepts exactly the texts that are three runs of digits separated by dots
  followed by an optional pre-release tag and an optional build tag of 1 to 63 characters,
  and returns the values read, cut to \<open>int\<close>.
\<close>

theorem parse_accepts_iff:
  "cookbook_semver_parse s = Some v \<longleftrightarrow>
   (\<exists>d1 d2 d3. number_text (major v) d1 \<and> number_text (minor v) d2 \<and> number_text (patch v) d3 \<and>
      s = d1 @ CHR ''.'' # d2 @ CHR ''.'' # d3 @
          tag_text (CHR ''-'') (pre_release v) @ tag_text (CHR ''+'') (build_meta v) \<and> tags_wf v)"
  using semver_parse_imp semver_parse_text by fastforce



text \<open>
  A wildcard whose number wraps to -1 in \<open>int\<close> is taken for the open wildcard: every
  release satisfies the range 4294967295.*.
\<close>

theorem wildcard_overflow:
  "\<exists>r. cookbook_range_parse ''4294967295.*'' = Some r \<and>
       (pre_release v = [] \<longleftrightarrow> cookbook_range_satisfies r v)"
proof -
  have "cookbook_range_parse ''4294967295.*'' =
          Some (range_with RANGE_WILDCARD (semver_zero\<lparr>major := -1, minor := -1\<rparr>))"
    by (simp add: cookbook_range_parse_def parse_wildcard_def isspace_def strtol_def isdigit_def
        less_eq_char_def digit_val_def LONG_MAX_def to_int32_def strchr_def Let_def)
  then show ?thesis
    by (intro exI conjI) (assumption, simp add: cookbook_range_satisfies_def range_with_def semver_zero_def Let_def)
qed

end
