(* ===== verification/Streaming.thy ===== *)
theory Streaming
  imports CString
begin

unbundle bit_operations_syntax

text \<open>
  Hash functions that are fed a message in pieces: a buffer of one block, the chaining state and a
  count of the bytes. The locale \<open>block_hash\<close> has what such a context represents and the steps an
  implementation goes through; SHA-256 and SHA-512 are its two instances. All sizes are in bytes.
\<close>

section \<open>Blocks\<close>

fun blocks :: "nat \<Rightarrow> byte list \<Rightarrow> byte list list" where
  "blocks n p = (if 0 < n \<and> n \<le> length p then take n p # blocks n (drop n p) else [])"

declare blocks.simps [simp del]

text \<open>The loop of an update over the whole blocks of its input; the rest is returned.\<close>

fun block_loop :: "nat \<Rightarrow> ('s \<Rightarrow> byte list \<Rightarrow> 's) \<Rightarrow> 's \<Rightarrow> byte list \<Rightarrow> 's \<times> byte list" where
  "block_loop n compress st p =
     (if 0 < n \<and> n \<le> length p then block_loop n compress (compress st (take n p)) (drop n p) else (st, p))"

declare block_loop.simps [simp del]

text \<open>\<open>memcpy(dst + i, src, strlen)\<close> inside an array: the array keeps its length.\<close>

definition memcpy_at :: "byte list \<Rightarrow> nat \<Rightarrow> byte list \<Rightarrow> byte list" where
  "memcpy_at dst i src = take i dst @ src @ drop (i + length src) dst"

lemma length_memcpy_at [simp]: "i + length src \<le> length dst \<Longrightarrow> length (memcpy_at dst i src) = length dst"
  by (simp add: memcpy_at_def)

lemma memcpy_append: "i = length a \<Longrightarrow> memcpy_at (a @ r) i src = a @ src @ drop (length src) r"
  by (simp add: memcpy_at_def)

text \<open>A number, most significant byte first.\<close>

definition length_bytes :: "u64 \<Rightarrow> byte list" where
  "length_bytes bits = map (\<lambda>i. ucast (drop_bit (56 - i * 8) bits)) [0..<8]"

lemma length_length_bytes [simp]: "length (length_bytes bits) = 8"
  by (simp add: length_bytes_def)

text \<open>
  Padding of FIPS 180-4: one bit, the least number of zero bytes, the length field \<open>lb\<close>, up to a
  multiple of \<open>n\<close>.
\<close>

definition pad :: "nat \<Rightarrow> byte list \<Rightarrow> byte list \<Rightarrow> byte list" where
  "pad n lb m = m @ [0x80] @ replicate ((2 * n - 1 - length lb - length m mod n) mod n) 0 @ lb"

lemma blocks_short [simp]: "length p < n \<Longrightarrow> blocks n p = []"
  by (subst blocks.simps) simp

lemma blocks_block [simp]: "0 < n \<Longrightarrow> length b = n \<Longrightarrow> blocks n (b @ p) = b # blocks n p"
  by (subst blocks.simps) simp

lemma blocks_single: "0 < n \<Longrightarrow> length b = n \<Longrightarrow> blocks n b = [b]"
  using blocks_block [of n b "[]"] by simp

lemma blocks_append: "0 < n \<Longrightarrow> n dvd length q \<Longrightarrow> blocks n (q @ p) = blocks n q @ blocks n p"
proof (induction n q rule: blocks.induct)
  case (1 n q)
  show ?case
  proof (cases "n \<le> length q")
    case True
    then have "n dvd length (drop n q)" using "1.prems" by (auto simp: dvd_diff_nat)
    then have "blocks n (drop n q @ p) = blocks n (drop n q) @ blocks n p" using "1.IH" "1.prems" True by blast
    moreover have "blocks n q = take n q # blocks n (drop n q)" using True "1.prems" by (subst blocks.simps) simp
    moreover have "blocks n (take n q @ drop n q @ p) = take n q # blocks n (drop n q @ p)"
      using True "1.prems"(1) by (intro blocks_block) simp_all
    moreover have "take n q @ drop n q @ p = q @ p" by simp
    ultimately show ?thesis by (simp only: append_Cons)
  next
    case False
    then have "q = []" using "1.prems" by (metis dvd_imp_le length_greater_0_conv linorder_not_le)
    with "1.prems" show ?thesis by simp
  qed
qed

lemma block_loop_eq:
  "0 < n \<Longrightarrow> block_loop n f st p = (foldl f st (blocks n p), drop (length p div n * n) p)"
proof (induction n f st p rule: block_loop.induct)
  case (1 n f st p)
  show ?case
  proof (cases "n \<le> length p")
    case True
    then have "length p div n * n = n + (length p - n) div n * n" using "1.prems" by (simp add: le_div_geq)
    moreover have "block_loop n f st p = block_loop n f (f st (take n p)) (drop n p)"
      using True "1.prems" by (subst block_loop.simps) simp
    moreover have "blocks n p = take n p # blocks n (drop n p)" using True "1.prems" by (subst blocks.simps) simp
    moreover have "block_loop n f (f st (take n p)) (drop n p) =
        (foldl f (f st (take n p)) (blocks n (drop n p)), drop (length (drop n p) div n * n) (drop n p))"
      using True "1.prems" "1.IH" by blast
    ultimately show ?thesis by (simp only: foldl.simps length_drop drop_drop add.commute)
  next
    case False
    then show ?thesis by (simp add: block_loop.simps [of n f st p])
  qed
qed

section \<open>Contexts\<close>

locale block_hash =
  fixes n k :: nat
    and compress :: "'s \<Rightarrow> byte list \<Rightarrow> 's"
    and iv :: 's
  assumes block_size: "n = 2 ^ k" "k \<le> 64"
begin

lemma block_pos: "0 < n"
  by (simp add: block_size)

lemma count_mask: "unat ((of_nat l :: u64) AND mask k) = l mod n"
proof -
  have "unat ((of_nat l :: u64) AND mask k) = take_bit k (unat (of_nat l :: u64))"
    by (simp flip: take_bit_eq_mask add: unsigned_take_bit_eq)
  also have "\<dots> = l mod 2 ^ 64 mod 2 ^ k" by (simp add: take_bit_eq_mod unat_of_nat)
  also have "\<dots> = l mod n" unfolding block_size(1) using block_size(2) by (intro mod_mod_cancel le_imp_power_dvd)
  finally show ?thesis .
qed

text \<open>State, count and buffer represent the bytes fed so far.\<close>

definition rep :: "'s \<Rightarrow> u64 \<Rightarrow> byte list \<Rightarrow> byte list \<Rightarrow> bool" where
  "rep st c b m \<longleftrightarrow> length b = n \<and> c = of_nat (length m) \<and> st = foldl compress iv (blocks n m) \<and>
     take (length m mod n) b = drop (length m div n * n) m"

lemma repI:
  assumes "m = q @ t" "n dvd length q" "length t < n" "length b = n" "c = of_nat (length m)"
    and "st = foldl compress iv (blocks n q)" "take (length t) b = t"
  shows "rep st c b m"
proof -
  have "length m mod n = length t" "length m div n * n = length q" using assms(1-3) by (auto elim!: dvdE)
  then show ?thesis using assms block_pos by (simp add: rep_def blocks_append)
qed

lemma repE:
  assumes "rep st c b m"
  obtains q t where "m = q @ t" "n dvd length q" "length t < n" "length b = n" "c = of_nat (length m)"
    "st = foldl compress iv (blocks n q)" "take (length t) b = t" "unat (c AND mask k) = length t" "length m mod n = length t"
proof -
  let ?q = "take (length m div n * n) m" and ?t = "drop (length m div n * n) m"
  have len: "length ?q = length m div n * n" "length ?t = length m mod n" by (auto simp: minus_div_mult_eq_mod)
  have "blocks n m = blocks n (?q @ ?t)" by simp
  also have "\<dots> = blocks n ?q" using len block_pos by (subst blocks_append) auto
  finally have "blocks n m = blocks n ?q" .
  with assms len block_pos show ?thesis by (intro that [of ?q ?t]) (simp_all add: rep_def count_mask)
qed

lemma rep_init: "length b = n \<Longrightarrow> rep iv 0 b []"
  using block_pos by (simp add: rep_def)

text \<open>The input is too short for a block: it is appended to the buffer.\<close>

lemma rep_short:
  assumes "rep st c b m" "unat (c AND mask k) + length p < n"
  shows "rep st (c + of_nat (length p)) (memcpy_at b (unat (c AND mask k)) p) (m @ p)"
  using assms(1)
proof (cases rule: repE)
  case (1 q t)
  then show ?thesis using assms(2) by (intro repI [where q = q and t = "t @ p"]) (auto simp: memcpy_at_def)
qed

text \<open>The buffer is empty: whole blocks are taken from the input, the rest goes to the buffer.\<close>

lemma rep_blocks:
  assumes "n dvd length q" "length b = n" "c = of_nat (length (q @ p))" "st = foldl compress iv (blocks n q)"
    and "block_loop n compress st p = (st', r)"
  shows "rep st' c (if r \<noteq> [] then memcpy_at b 0 r else b) (q @ p)"
proof -
  let ?r = "drop (length p div n * n) p" and ?q = "take (length p div n * n) p"
  have r: "st' = foldl compress st (blocks n p)" "r = ?r" using assms(5) block_loop_eq [OF block_pos, of compress st p] by simp_all
  have len: "length ?r < n" "length ?q = length p div n * n" using block_pos by (simp_all add: minus_div_mult_eq_mod)
  have dvd: "n dvd length (q @ ?q)" using assms(1) len by simp
  have "blocks n p = blocks n (?q @ ?r)" by simp
  also have "\<dots> = blocks n ?q" using len block_pos by (subst blocks_append) auto
  finally have "foldl compress st (blocks n p) = foldl compress iv (blocks n (q @ ?q))"
    using assms(1,4) block_pos by (simp add: blocks_append)
  with assms dvd len r show ?thesis
    by (intro repI [where q = "q @ ?q" and t = ?r]) (auto simp: memcpy_at_def)
qed

text \<open>The buffer is filled up to a block first.\<close>

lemma rep_fill:
  assumes "rep st c b m" "i = unat (c AND mask k)" "n - i \<le> length p" "b' = memcpy_at b i (take (n - i) p)"
    and "block_loop n compress (compress st b') (drop (n - i) p) = (st', r)"
  shows "rep st' (c + of_nat (length p)) (if r \<noteq> [] then memcpy_at b' 0 r else b') (m @ p)"
  using assms(1)
proof (cases rule: repE)
  case (1 q t)
  have b: "b' = t @ take (n - i) p" "length b' = n" using 1 assms(2-4) by (auto simp: memcpy_at_def)
  have mp: "m @ p = (q @ b') @ drop (n - i) p" using 1(1) b(1) by simp
  have "c + of_nat (length p) = of_nat (length (m @ p))" using 1(5) by simp
  then show ?thesis
    unfolding mp using 1 b(2) assms(5) block_pos
    by (intro rep_blocks) (simp_all add: blocks_append blocks_single [OF block_pos b(2)])
qed

text \<open>The blocks that remain when the message is padded: one, or two when the length does not fit.\<close>

lemma pad_blocks:
  assumes "m = q @ t" "n dvd length q" "length t < n" "length lb < n"
  shows "blocks n (pad n lb m) = blocks n q @
     (if length t + 1 > n - length lb
      then [t @ [0x80] @ replicate (n - (length t + 1)) 0, replicate (n - length lb) 0 @ lb]
      else [t @ [0x80] @ replicate (n - length lb - (length t + 1)) 0 @ lb])"
proof -
  have mod: "length m mod n = length t" using assms(1-3) by (auto elim!: dvdE)
  show ?thesis
  proof (cases "length t + 1 > n - length lb")
    case True
    let ?b1 = "t @ [0x80] @ replicate (n - (length t + 1)) 0" and ?b2 = "replicate (n - length lb) 0 @ lb"
    have "(2 * n - 1 - length lb - length t) mod n = 2 * n - 1 - length lb - length t" using True assms(3,4) by simp
    also have "\<dots> = (n - (length t + 1)) + (n - length lb)" using True assms(3,4) by simp
    finally have "pad n lb m = q @ ?b1 @ ?b2" unfolding pad_def mod by (simp add: assms(1) replicate_add)
    moreover have "length ?b1 = n" "length ?b2 = n" using assms(3,4) by simp_all
    ultimately show ?thesis
      using True blocks_append [OF block_pos assms(2)] blocks_block [OF block_pos, of ?b1 ?b2] blocks_single [OF block_pos, of ?b2]
      by simp
  next
    case False
    let ?b = "t @ [0x80] @ replicate (n - length lb - (length t + 1)) 0 @ lb"
    have "(2 * n - 1 - length lb - length t) mod n = (n + (n - length lb - (length t + 1))) mod n"
      using False assms(4) by (intro arg_cong [where f = "\<lambda>x. x mod n"]) simp
    also have "\<dots> = n - length lb - (length t + 1)" using block_pos by simp
    finally have "pad n lb m = q @ ?b" unfolding pad_def mod by (simp add: assms(1))
    moreover have "length ?b = n" using False assms(3,4) by simp
    ultimately show ?thesis
      using False blocks_append [OF block_pos assms(2)] blocks_single [OF block_pos, of ?b] by simp
  qed
qed

lemma foldl_rep:
  assumes "\<And>x m p. R x m \<Longrightarrow> R (update x p) (m @ p)"
  shows "R x m \<Longrightarrow> R (foldl update x chunks) (m @ concat chunks)"
proof (induction chunks arbitrary: x m)
  case (Cons c chunks)
  then have "R (foldl update (update x c) chunks) ((m @ c) @ concat chunks)" by (intro Cons.IH assms)
  then show ?case by simp
qed simp

end

end
