(* ===== verification/Sha256.thy ===== *)
theory Sha256
  imports Streaming
begin

unbundle bit_operations_syntax

text \<open>
  SHA-256: \<^verbatim>\<open>src/src/main/c/cookbook_sha256.c\<close>.

  The incremental interface (\<open>init\<close>, \<open>update\<close>, \<open>final\<close>) keeps a 64-byte buffer,
  the chaining state and a 64-bit byte count. The reference is the one-shot definition of
  FIPS 180-4: pad the message, then fold the compression function over its blocks. The main
  facts are that a context represents the bytes fed so far, that \<open>update\<close> appends to
  them, and that \<open>final\<close> returns the digest of exactly these bytes.
\<close>

section \<open>The compression function\<close>

text \<open>The round constants, in the rows of the source.\<close>

definition K :: "u32 list" where
  "K = concat [
    [0x428a2f98, 0x71374491, 0xb5c0fbcf, 0xe9b5dba5],
    [0x3956c25b, 0x59f111f1, 0x923f82a4, 0xab1c5ed5],
    [0xd807aa98, 0x12835b01, 0x243185be, 0x550c7dc3],
    [0x72be5d74, 0x80deb1fe, 0x9bdc06a7, 0xc19bf174],
    [0xe49b69c1, 0xefbe4786, 0x0fc19dc6, 0x240ca1cc],
    [0x2de92c6f, 0x4a7484aa, 0x5cb0a9dc, 0x76f988da],
    [0x983e5152, 0xa831c66d, 0xb00327c8, 0xbf597fc7],
    [0xc6e00bf3, 0xd5a79147, 0x06ca6351, 0x14292967],
    [0x27b70a85, 0x2e1b2138, 0x4d2c6dfc, 0x53380d13],
    [0x650a7354, 0x766a0abb, 0x81c2c92e, 0x92722c85],
    [0xa2bfe8a1, 0xa81a664b, 0xc24b8b70, 0xc76c51a3],
    [0xd192e819, 0xd6990624, 0xf40e3585, 0x106aa070],
    [0x19a4c116, 0x1e376c08, 0x2748774c, 0x34b0bcb5],
    [0x391c0cb3, 0x4ed8aa4a, 0x5b9cca4f, 0x682e6ff3],
    [0x748f82ee, 0x78a5636f, 0x84c87814, 0x8cc70208],
    [0x90befffa, 0xa4506ceb, 0xbef9a3f7, 0xc67178f2]]"

definition ROR :: "u32 \<Rightarrow> nat \<Rightarrow> u32" where
  "ROR x n = drop_bit n x OR push_bit (32 - n) x"

definition CH :: "u32 \<Rightarrow> u32 \<Rightarrow> u32 \<Rightarrow> u32" where
  "CH x y z = (x AND y) XOR (NOT x AND z)"

definition MAJ :: "u32 \<Rightarrow> u32 \<Rightarrow> u32 \<Rightarrow> u32" where
  "MAJ x y z = (x AND y) XOR (x AND z) XOR (y AND z)"

definition EP0 :: "u32 \<Rightarrow> u32" where
  "EP0 x = ROR x 2 XOR ROR x 13 XOR ROR x 22"

definition EP1 :: "u32 \<Rightarrow> u32" where
  "EP1 x = ROR x 6 XOR ROR x 11 XOR ROR x 25"

definition SIG0 :: "u32 \<Rightarrow> u32" where
  "SIG0 x = ROR x 7 XOR ROR x 18 XOR drop_bit 3 x"

definition SIG1 :: "u32 \<Rightarrow> u32" where
  "SIG1 x = ROR x 17 XOR ROR x 19 XOR drop_bit 10 x"

definition be32 :: "byte \<Rightarrow> byte \<Rightarrow> byte \<Rightarrow> byte \<Rightarrow> u32" where
  "be32 a b c d = push_bit 24 (ucast a) OR push_bit 16 (ucast b) OR push_bit 8 (ucast c) OR ucast d"

text \<open>The message schedule: 16 words from the block, then 48 more, one at a time.\<close>

definition schedule_load :: "byte list \<Rightarrow> u32 list" where
  "schedule_load block =
     map (\<lambda>i. be32 (block ! (4 * i)) (block ! (4 * i + 1)) (block ! (4 * i + 2)) (block ! (4 * i + 3)))
       [0..<16]"

definition schedule_step :: "u32 list \<Rightarrow> nat \<Rightarrow> u32 list" where
  "schedule_step w i = w @ [SIG1 (w ! (i - 2)) + w ! (i - 7) + SIG0 (w ! (i - 15)) + w ! (i - 16)]"

definition schedule :: "byte list \<Rightarrow> u32 list" where
  "schedule block = foldl schedule_step (schedule_load block) [16..<64]"

type_synonym chain = "u32 \<times> u32 \<times> u32 \<times> u32 \<times> u32 \<times> u32 \<times> u32 \<times> u32"

fun sha_round :: "u32 list \<Rightarrow> chain \<Rightarrow> nat \<Rightarrow> chain" where
  "sha_round w (a, b, c, d, e, f, g, h) i =
     (let t1 = h + EP1 e + CH e f g + K ! i + w ! i; t2 = EP0 a + MAJ a b c
      in (t1 + t2, a, b, c, d + t1, e, f, g))"

fun chain_add :: "chain \<Rightarrow> chain \<Rightarrow> chain" where
  "chain_add (a, b, c, d, e, f, g, h) (a', b', c', d', e', f', g', h') =
     (a + a', b + b', c + c', d + d', e + e', f + f', g + g', h + h')"

definition sha256_transform :: "chain \<Rightarrow> byte list \<Rightarrow> chain" where
  "sha256_transform st block = chain_add st (foldl (sha_round (schedule block)) st [0..<64])"

section \<open>The incremental interface\<close>

record cookbook_sha256_ctx =
  state :: chain
  count :: u64
  buf :: "byte list"

definition cookbook_sha256_init :: "byte list \<Rightarrow> cookbook_sha256_ctx" where
  "cookbook_sha256_init b =
     \<lparr>state = (0x6a09e667, 0xbb67ae85, 0x3c6ef372, 0xa54ff53a,
               0x510e527f, 0x9b05688c, 0x1f83d9ab, 0x5be0cd19),
      count = 0, buf = b\<rparr>"

text \<open>The loop over the whole blocks of the input.\<close>

definition update_blocks :: "chain \<Rightarrow> byte list \<Rightarrow> chain \<times> byte list" where
  "update_blocks = block_loop 64 sha256_transform"

definition update_tail :: "chain \<Rightarrow> u64 \<Rightarrow> byte list \<Rightarrow> byte list \<Rightarrow> cookbook_sha256_ctx" where
  "update_tail st n b p =
     (let (st', r) = update_blocks st p
      in \<lparr>state = st', count = n, buf = (if r \<noteq> [] then memcpy_at b 0 r else b)\<rparr>)"

definition cookbook_sha256_update :: "cookbook_sha256_ctx \<Rightarrow> byte list \<Rightarrow> cookbook_sha256_ctx" where
  "cookbook_sha256_update ctx p =
     (let idx = unat (count ctx AND 63);
          n = count ctx + of_nat (length p)
      in if idx \<noteq> 0 then
           (let fill = 64 - idx
            in if length p < fill then
                 ctx\<lparr>count := n, buf := memcpy_at (buf ctx) idx p\<rparr>
               else
                 (let b = memcpy_at (buf ctx) idx (take fill p)
                  in update_tail (sha256_transform (state ctx) b) n b (drop fill p)))
         else update_tail (state ctx) n (buf ctx) p)"

definition word_bytes :: "u32 \<Rightarrow> byte list" where
  "word_bytes x = [ucast (drop_bit 24 x), ucast (drop_bit 16 x), ucast (drop_bit 8 x), ucast x]"

fun chain_bytes :: "chain \<Rightarrow> byte list" where
  "chain_bytes (a, b, c, d, e, f, g, h) =
     word_bytes a @ word_bytes b @ word_bytes c @ word_bytes d @
     word_bytes e @ word_bytes f @ word_bytes g @ word_bytes h"

definition cookbook_sha256_final :: "cookbook_sha256_ctx \<Rightarrow> byte list" where
  "cookbook_sha256_final ctx =
     (let bits = count ctx * 8;
          idx = unat (count ctx AND 63);
          b = memcpy_at (buf ctx) idx [0x80];
          idx1 = idx + 1;
          (st, b, idx2) =
            (if idx1 > 56 then
               (let b' = memcpy_at b idx1 (replicate (64 - idx1) 0)
                in (sha256_transform (state ctx) b', b', 0))
             else (state ctx, b, idx1));
          b = memcpy_at b idx2 (replicate (56 - idx2) 0);
          b = memcpy_at b 56 (length_bytes bits)
      in chain_bytes (sha256_transform st b))"

definition hex_chars :: string where
  "hex_chars = ''0123456789abcdef''"

definition hex_byte :: "byte \<Rightarrow> string" where
  "hex_byte x = [hex_chars ! unat (drop_bit 4 x AND 0x0f), hex_chars ! unat (x AND 0x0f)]"

text \<open>The buffer of the local context starts out uninitialised: \<open>junk\<close> stands for it.\<close>

definition cookbook_sha256_hex :: "byte list \<Rightarrow> byte list \<Rightarrow> string" where
  "cookbook_sha256_hex junk data =
     concat (map hex_byte
       (cookbook_sha256_final (cookbook_sha256_update (cookbook_sha256_init junk) data)))"

section \<open>Reference: padding and folding over blocks\<close>

definition sha_iv :: chain where
  "sha_iv = state (cookbook_sha256_init [])"

definition sha256_spec :: "byte list \<Rightarrow> byte list" where
  "sha256_spec m = chain_bytes (foldl sha256_transform sha_iv (blocks 64 (pad 64 (length_bytes (of_nat (length m) * 8)) m)))"

interpretation sha256: block_hash 64 6 sha256_transform sha_iv
  by unfold_locales simp_all

text \<open>A context represents the bytes fed into it.\<close>

definition represents :: "cookbook_sha256_ctx \<Rightarrow> byte list \<Rightarrow> bool" where
  "represents ctx m \<longleftrightarrow> sha256.rep (state ctx) (count ctx) (buf ctx) m"

lemma mask_63: "(63 :: u64) = mask 6"
  by (simp add: mask_eq_exp_minus_1)

section \<open>The context represents the bytes fed so far\<close>

lemma init_represents: "length b = 64 \<Longrightarrow> represents (cookbook_sha256_init b) []"
  using sha256.rep_init by (simp add: represents_def cookbook_sha256_init_def sha_iv_def)

lemma update_represents:
  assumes "represents ctx p"
  shows "represents (cookbook_sha256_update ctx d) (p @ d)"
proof -
  let ?i = "unat (count ctx AND mask 6)"
  note r = assms [unfolded represents_def]
  consider "?i = 0" | "?i \<noteq> 0" "length d < 64 - ?i" | "?i \<noteq> 0" "64 - ?i \<le> length d" by linarith
  then show ?thesis
  proof cases
    case 1
    obtain st' e where l: "block_loop 64 sha256_transform (state ctx) d = (st', e)" by fastforce
    show ?thesis
      using r
    proof (cases rule: sha256.repE)
      case (1 q t)
      then have "t = []" using \<open>?i = 0\<close> by simp
      then show ?thesis
        using 1 \<open>?i = 0\<close> l sha256.rep_blocks [OF 1(2,4) _ 1(6) l, of "count ctx + of_nat (length d)"]
        by (simp add: represents_def cookbook_sha256_update_def update_tail_def update_blocks_def mask_63)
    qed
  next
    case 2
    then show ?thesis
      using sha256.rep_short [OF r, of d] by (simp add: represents_def cookbook_sha256_update_def mask_63 Let_def)
  next
    case 3
    let ?b = "memcpy_at (buf ctx) ?i (take (64 - ?i) d)"
    obtain st' e where l: "block_loop 64 sha256_transform (sha256_transform (state ctx) ?b) (drop (64 - ?i) d) = (st', e)" by fastforce
    show ?thesis
      using sha256.rep_fill [OF r refl 3(2) refl l] 3 l
      by (simp add: represents_def cookbook_sha256_update_def update_tail_def update_blocks_def mask_63 Let_def)
  qed
qed

lemma final_represents:
  assumes "represents ctx m"
  shows "cookbook_sha256_final ctx = sha256_spec m"
  using assms unfolding represents_def
proof (cases rule: sha256.repE)
  case (1 q t)
  let ?lb = "length_bytes (of_nat (length m) * 8)"
  note pad = sha256.pad_blocks [OF 1(1-3), of ?lb]
  have buf: "buf ctx = t @ drop (length t) (buf ctx)" using 1(7) by (metis append_take_drop_id)
  show ?thesis
  proof (cases "length t + 1 > 56")
    case True
    have b1: "memcpy_at (memcpy_at (buf ctx) (length t) [0x80]) (length t + 1) (replicate (64 - (length t + 1)) 0) =
        t @ [0x80] @ replicate (64 - (length t + 1)) 0"
      using 1(3,4,7) by (simp add: memcpy_at_def)
    have b2: "memcpy_at (memcpy_at (t @ [0x80] @ replicate (64 - (length t + 1)) 0) 0 (replicate 56 0)) 56 ?lb = replicate 56 0 @ ?lb"
      using 1(3,4) True by (simp add: memcpy_at_def)
    show ?thesis
      using 1(5,6,8) True b1 b2 pad by (simp add: cookbook_sha256_final_def sha256_spec_def mask_63 Let_def)
  next
    case False
    have suc: "56 - length t = Suc (55 - length t)" using False by simp
    have "memcpy_at (memcpy_at (memcpy_at (buf ctx) (length t) [0x80]) (length t + 1) (replicate (56 - (length t + 1)) 0)) 56 ?lb =
        t @ [0x80] @ replicate (56 - (length t + 1)) 0 @ ?lb"
      using 1(3,4,7) suc False by (simp add: memcpy_at_def)
    then show ?thesis
      using 1(5,6,8) False pad by (simp add: cookbook_sha256_final_def sha256_spec_def mask_63 Let_def)
  qed
qed

section \<open>Properties\<close>

lemma foldl_update_represents:
  "represents ctx m \<Longrightarrow> represents (foldl cookbook_sha256_update ctx chunks) (m @ concat chunks)"
  by (rule sha256.foldl_rep [where R = represents]) (rule update_represents)



end
