(* ===== verification/Base64.thy ===== *)
theory Base64
  imports CString Interfaces
begin

unbundle bit_operations_syntax

text \<open>
  Base64: the encoder and the two decoders of \<^verbatim>\<open>src/src/main/c/cookbook_auth.c\<close>.

  A destination buffer is its capacity and the characters written so far. The encoder
  returns 0 when a group of four does not fit, the decoders drop the bytes that do not fit
  and return 0 when one of the first two characters of a group is outside the alphabet.
  Here the value returned is the length of the returned list.
\<close>

definition b64url_chars :: string where
  "b64url_chars = ''ABCDEFGHIJKLMNOPQRSTUVWXYZabcdefghijklmnopqrstuvwxyz0123456789-_''"

definition sextet :: "nat \<Rightarrow> u32 \<Rightarrow> char" where
  "sextet k v = b64url_chars ! unat (drop_bit k v AND 0x3f)"

definition triple_word :: "byte \<Rightarrow> byte \<Rightarrow> byte \<Rightarrow> u32" where
  "triple_word a b c = push_bit 16 (ucast a) OR push_bit 8 (ucast b) OR ucast c"

text \<open>The loop over whole triples, then the rest of one or two bytes.\<close>

fun encode_loop :: "byte list \<Rightarrow> string \<Rightarrow> nat \<Rightarrow> string option" where
  "encode_loop (a # b # c # r) out cap =
     (if length out + 4 > cap then None
      else (let v = triple_word a b c
            in encode_loop r (out @ [sextet 18 v, sextet 12 v, sextet 6 v, sextet 0 v]) cap))"
| "encode_loop [a, b] out cap =
     (if length out + 4 > cap then None
      else (let v = triple_word a b 0 in Some (out @ [sextet 18 v, sextet 12 v, sextet 6 v])))"
| "encode_loop [a] out cap =
     (if length out + 4 > cap then None
      else (let v = triple_word a 0 0 in Some (out @ [sextet 18 v, sextet 12 v])))"
| "encode_loop [] out cap = Some out"

definition cookbook_base64url_encode :: "byte list \<Rightarrow> nat \<Rightarrow> string" where
  "cookbook_base64url_encode src dst_len =
     (case encode_loop src [] dst_len of None \<Rightarrow> [] | Some out \<Rightarrow> out)"

text \<open>The value of a character; the two alphabets differ in the last two characters.\<close>

definition b64_val :: "char \<Rightarrow> char \<Rightarrow> char \<Rightarrow> int" where
  "b64_val c62 c63 c =
     (if isupper c then int (of_char c) - 65
      else if islower c then int (of_char c) - 97 + 26
      else if isdigit c then int (of_char c) - 48 + 52
      else if c = c62 then 62
      else if c = c63 then 63
      else -1)"

definition b64url_val :: "char \<Rightarrow> int" where
  "b64url_val = b64_val (CHR ''-'') (CHR ''_'')"

definition b64std_val :: "char \<Rightarrow> int" where
  "b64std_val = b64_val (CHR ''+'') (CHR ''/'')"

text \<open>\<open>if (cond && out < dst_len) d[out++] = (unsigned char)x\<close>.\<close>

definition put_byte :: "bool \<Rightarrow> int \<Rightarrow> nat \<Rightarrow> byte list \<Rightarrow> byte list" where
  "put_byte cond x cap out = (if cond \<and> length out < cap then out @ [word_of_int x] else out)"

definition decode_group :: "int \<Rightarrow> int \<Rightarrow> int \<Rightarrow> int \<Rightarrow> nat \<Rightarrow> byte list \<Rightarrow> byte list" where
  "decode_group v0 v1 v2 v3 cap out =
     put_byte (v3 \<ge> 0) (push_bit 6 (v2 AND 3) OR v3) cap
       (put_byte (v2 \<ge> 0) (push_bit 4 (v1 AND 15) OR drop_bit 2 v2) cap
         (put_byte True (push_bit 2 v0 OR drop_bit 4 v1) cap out))"

text \<open>A short last group reads 0 for a missing second and -1 for a missing third or fourth.\<close>

fun decode_loop :: "(char \<Rightarrow> int) \<Rightarrow> string \<Rightarrow> nat \<Rightarrow> byte list \<Rightarrow> byte list option" where
  "decode_loop val (a # b # c # d # r) cap out =
     (if val a < 0 \<or> val b < 0 then None
      else decode_loop val r cap (decode_group (val a) (val b) (val c) (val d) cap out))"
| "decode_loop val [a, b, c] cap out =
     (if val a < 0 \<or> val b < 0 then None
      else Some (decode_group (val a) (val b) (val c) (-1) cap out))"
| "decode_loop val [a, b] cap out =
     (if val a < 0 \<or> val b < 0 then None
      else Some (decode_group (val a) (val b) (-1) (-1) cap out))"
| "decode_loop val [a] cap out =
     (if val a < 0 then None else Some (decode_group (val a) 0 (-1) (-1) cap out))"
| "decode_loop val [] cap out = Some out"

definition strip_padding :: "string \<Rightarrow> string" where
  "strip_padding s = rev (dropWhile (\<lambda>c. c = CHR ''='') (rev s))"

definition base64_decode_with :: "(char \<Rightarrow> int) \<Rightarrow> string \<Rightarrow> nat \<Rightarrow> byte list" where
  "base64_decode_with val src dst_len =
     (case decode_loop val (strip_padding src) dst_len [] of None \<Rightarrow> [] | Some out \<Rightarrow> out)"

definition cookbook_base64url_decode :: "string \<Rightarrow> nat \<Rightarrow> byte list" where
  "cookbook_base64url_decode = base64_decode_with b64url_val"

definition cookbook_base64_decode :: "string \<Rightarrow> nat \<Rightarrow> byte list" where
  "cookbook_base64_decode = base64_decode_with b64std_val"

section \<open>The alphabet\<close>

lemma length_b64url_chars [simp]: "length b64url_chars = 64"
  by (simp add: b64url_chars_def)

lemma b64url_val_map: "map b64url_val b64url_chars = map int [0..<64]"
  by (simp add: b64url_chars_def b64url_val_def b64_val_def isupper_def islower_def isdigit_def
      less_eq_char_def upt_rec)

lemma b64url_val_nth: "k < 64 \<Longrightarrow> b64url_val (b64url_chars ! k) = int k"
  using arg_cong [OF b64url_val_map, of "\<lambda>xs. xs ! k"] by simp

lemma mask6: "(0x3f :: u32) = mask 6"
  by (simp add: mask_eq_exp_minus_1)

lemma and63_less: "unat ((x :: u32) AND 0x3f) < 64"
proof -
  have "unat (x AND 0x3f) \<le> unat (0x3f :: u32)"
    by (rule word_and_le1 [THEN word_le_nat_alt [THEN iffD1]])
  then show ?thesis by simp
qed

lemma b64url_val_sextet: "b64url_val (sextet k v) = uint (drop_bit k v AND 0x3f)"
  by (simp add: sextet_def b64url_val_nth and63_less)

lemma bit_byte: "bit (a :: byte) n \<Longrightarrow> n < 8"
  using bit_imp_le_length [of a n] by simp

lemma bit_triple_word:
  "bit (triple_word a b c) n \<longleftrightarrow>
     (if n < 8 then bit c n else if n < 16 then bit b (n - 8) else n < 24 \<and> bit a (n - 16))"
  by (auto simp: triple_word_def bit_simps dest: bit_byte)

lemma bit_sextet:
  "bit (uint (drop_bit k (v :: u32) AND 0x3f)) n \<longleftrightarrow> n < 6 \<and> bit v (k + n)"
  unfolding mask6 by (auto simp: bit_simps)

lemma bit_sextet_0: "bit (uint ((v :: u32) AND 0x3f)) n \<longleftrightarrow> n < 6 \<and> bit v n"
  using bit_sextet [of 0 v n] by simp

lemma group_bytes:
  fixes a b c :: byte
  defines "v \<equiv> triple_word a b c"
  defines "s k \<equiv> uint (drop_bit k v AND 0x3f)"
  shows "word_of_int (push_bit 2 (s 18) OR drop_bit 4 (s 12)) = a"
    and "word_of_int (push_bit 4 (s 12 AND 15) OR drop_bit 2 (s 6)) = b"
    and "word_of_int (push_bit 6 (s 6 AND 3) OR s 0) = c"
proof -
  have ss: "2 \<le> n \<Longrightarrow> Suc (Suc (n - 2)) = n" for n :: nat by simp
  have m: "(15 :: int) = mask 4" "(3 :: int) = mask 2" by (simp_all add: mask_eq_exp_minus_1)
  note bits = s_def v_def bit_sextet bit_sextet_0 bit_triple_word bit_word_of_int_iff bit_or_iff
    bit_push_bit_iff_int bit_drop_bit_eq
  show "word_of_int (push_bit 2 (s 18) OR drop_bit 4 (s 12)) = a"
    by (rule bit_word_eqI) (auto simp: ss bits)
  show "word_of_int (push_bit 4 (s 12 AND 15) OR drop_bit 2 (s 6)) = b"
    unfolding m
    by (rule bit_word_eqI) (auto simp: ss bits bit_and_iff bit_mask_iff)
  show "word_of_int (push_bit 6 (s 6 AND 3) OR s 0) = c"
    unfolding m
    by (rule bit_word_eqI) (auto simp: ss bits bit_and_iff bit_mask_iff)
qed

section \<open>Encoding and decoding are inverse\<close>

text \<open>The text of a byte string, without a buffer.\<close>

fun b64_text :: "byte list \<Rightarrow> string" where
  "b64_text (a # b # c # r) =
     (let v = triple_word a b c in [sextet 18 v, sextet 12 v, sextet 6 v, sextet 0 v] @ b64_text r)"
| "b64_text [a, b] = (let v = triple_word a b 0 in [sextet 18 v, sextet 12 v, sextet 6 v])"
| "b64_text [a] = (let v = triple_word a 0 0 in [sextet 18 v, sextet 12 v])"
| "b64_text [] = []"

text \<open>The encoder asks for four free characters for every group, whole or not.\<close>

definition b64_room :: "nat \<Rightarrow> nat" where
  "b64_room n = 4 * ((n + 2) div 3)"

lemma encode_loop_eq:
  "encode_loop src out cap =
     (if src = [] \<or> length out + b64_room (length src) \<le> cap then Some (out @ b64_text src) else None)"
proof (induction src out cap rule: encode_loop.induct)
  case (1 a b c r out cap)
  have "(length r + 5) div 3 = Suc ((length r + 2) div 3)" by simp
  then have "b64_room (length (a # b # c # r)) = 4 + b64_room (length r)"
    by (simp add: b64_room_def add.commute)
  with 1 show ?case by (auto simp: Let_def b64_room_def)
qed (auto simp: Let_def b64_room_def)

lemma encode_eq:
  "cookbook_base64url_encode src cap =
     (if b64_room (length src) \<le> cap then b64_text src else [])"
  by (cases "src = []") (auto simp: cookbook_base64url_encode_def encode_loop_eq)

lemma length_b64_text: "length (b64_text src) = (4 * length src + 2) div 3"
  by (induction src rule: b64_text.induct) (auto simp: Let_def)

lemma uint_sextet_nonneg [simp]: "0 \<le> uint (drop_bit k (v :: u32) AND 0x3f)"
  by simp

lemma put_byte_take: "put_byte True x cap (take cap ys) = take cap (ys @ [word_of_int x])"
  by (simp add: put_byte_def)

lemma put_byte_skip [simp]: "put_byte False x cap out = out"
  by (simp add: put_byte_def)

lemma decode_group_text:
  "decode_group (b64url_val (sextet 18 (triple_word a b c))) (b64url_val (sextet 12 (triple_word a b c)))
     (b64url_val (sextet 6 (triple_word a b c))) (b64url_val (sextet 0 (triple_word a b c))) cap (take cap ys)
   = take cap (ys @ [a, b, c])"
  using group_bytes [of a b c]
  by (simp add: decode_group_def put_byte_take b64url_val_sextet del: take_append)

lemma decode_group_text2:
  "decode_group (b64url_val (sextet 18 (triple_word a b 0))) (b64url_val (sextet 12 (triple_word a b 0)))
     (b64url_val (sextet 6 (triple_word a b 0))) (-1) cap (take cap ys) = take cap (ys @ [a, b])"
  using group_bytes [of a b 0]
  by (simp add: decode_group_def put_byte_take b64url_val_sextet del: take_append)

lemma decode_group_text1:
  "decode_group (b64url_val (sextet 18 (triple_word a 0 0))) (b64url_val (sextet 12 (triple_word a 0 0)))
     (-1) (-1) cap (take cap ys) = take cap (ys @ [a])"
  using group_bytes [of a 0 0]
  by (simp add: decode_group_def put_byte_take b64url_val_sextet del: take_append)

lemma sextet_val_not_neg [simp]: "\<not> b64url_val (sextet k v) < 0"
  by (simp add: b64url_val_sextet not_less)

lemma decode_loop_text: "decode_loop b64url_val (b64_text src) cap (take cap ys) = Some (take cap (ys @ src))"
  by (induction src arbitrary: ys rule: b64_text.induct)
     (simp_all add: Let_def decode_group_text decode_group_text2 decode_group_text1 del: take_append)

lemma sextet_in_alphabet: "sextet k v \<in> set b64url_chars"
  by (simp add: sextet_def and63_less)

lemma set_b64_text: "set (b64_text src) \<subseteq> set b64url_chars"
  by (induction src rule: b64_text.induct) (auto simp: Let_def sextet_in_alphabet)

lemma alphabet_safe: "CHR ''='' \<notin> set b64url_chars" "CHR ''.'' \<notin> set b64url_chars"
  by (simp_all add: b64url_chars_def)

lemma strip_padding_id: "CHR ''='' \<notin> set s \<Longrightarrow> strip_padding s = s"
proof -
  assume "CHR ''='' \<notin> set s"
  then have "rev s = [] \<or> hd (rev s) \<noteq> CHR ''=''" by (metis hd_in_set set_rev)
  then have "dropWhile (\<lambda>c. c = CHR ''='') (rev s) = rev s" by (intro dropWhile_eq_self) auto
  then show ?thesis by (simp add: strip_padding_def)
qed

text \<open>A destination that is too small gets the front of the bytes.\<close>

lemma decode_text_take: "cookbook_base64url_decode (b64_text src) cap = take cap src"
proof -
  have "strip_padding (b64_text src) = b64_text src"
    using set_b64_text [of src] alphabet_safe(1) by (intro strip_padding_id) blast
  then show ?thesis
    using decode_loop_text [of src cap "[]"] by (simp add: cookbook_base64url_decode_def base64_decode_with_def)
qed

lemma decode_text: "length src \<le> cap \<Longrightarrow> cookbook_base64url_decode (b64_text src) cap = src"
  by (simp add: decode_text_take)

text \<open>Whatever the input, a decoder writes at most as many bytes as the buffer holds.\<close>

lemma length_put_byte: "length out \<le> cap \<Longrightarrow> length (put_byte c x cap out) \<le> cap"
  by (simp add: put_byte_def)

lemma length_decode_group: "length out \<le> cap \<Longrightarrow> length (decode_group v0 v1 v2 v3 cap out) \<le> cap"
  by (simp add: decode_group_def length_put_byte)

lemma length_decode_loop:
  "decode_loop val s cap out = Some res \<Longrightarrow> length out \<le> cap \<Longrightarrow> length res \<le> cap"
  by (induction val s cap out arbitrary: res rule: decode_loop.induct)
     (auto simp: length_decode_group split: if_splits)

lemma length_base64_decode_with: "length (base64_decode_with val s cap) \<le> cap"
  by (auto simp: base64_decode_with_def dest: length_decode_loop split: option.splits)

lemma length_encode: "length (cookbook_base64url_encode src cap) \<le> cap"
  by (auto simp: encode_eq length_b64_text b64_room_def)

section \<open>Interface\<close>

interpretation b64_codec: codec b64_text "\<lambda>s. Some (cookbook_base64url_decode s (length s))" "\<lambda>_. True"
  by unfold_locales (simp add: decode_text length_b64_text)

section \<open>Properties\<close>

text \<open>
  C36. Encoding with room for the whole groups and decoding with room for the bytes gives
  the bytes back.
\<close>

theorem base64url_roundtrip:
  assumes "b64_room (length src) \<le> dst_len" "length src \<le> cap"
  shows "cookbook_base64url_decode (cookbook_base64url_encode src dst_len) cap = src"
  using assms by (simp add: encode_eq decode_text)

theorem base64url_roundtrip_witness:
  "cookbook_base64url_decode (cookbook_base64url_encode [251, 0, 7, 255] 8) 4 = [251, 0, 7, 255]"
  by (rule base64url_roundtrip; code_simp)

text \<open>Neither direction writes past its destination, whatever the input.\<close>

theorem base64_stays_in_buffer:
  "length (cookbook_base64url_encode src dst_len) \<le> dst_len \<and>
   length (cookbook_base64url_decode s cap) \<le> cap \<and>
   length (cookbook_base64_decode s cap) \<le> cap"
  by (simp_all add: length_encode length_base64_decode_with cookbook_base64url_decode_def
      cookbook_base64_decode_def)

text \<open>Different byte strings have different encodings, given the room.\<close>

lemma encode_injective:
  assumes "b64_room (length src) \<le> cap" "b64_room (length src') \<le> cap'"
    and "cookbook_base64url_encode src cap = cookbook_base64url_encode src' cap'"
  shows "src = src'"
  using assms by (intro b64_codec.encode_inj) (simp_all add: encode_eq)

end
