(* ===== verification/Gzip.thy ===== *)
theory Gzip
  imports CString
begin

unbundle bit_operations_syntax

text \<open>
  Gzip framing: \<^verbatim>\<open>src/src/main/c/cookbook_gzip.c\<close>.

  The CRC-32 is computed with a 256-entry table; the reference is the bit-serial register
  of the polynomial 0xEDB88320. The Deflate compressor is library code: \<open>deflate_compress\<close>
  is a parameter of \<open>cookbook_gzip_compress\<close>, \<open>None\<close> when it fails. A reader that
  follows RFC 1952 and has an inverse of the compressor recovers the data.
\<close>

section \<open>CRC-32\<close>

definition crc_step :: "u32 \<Rightarrow> u32" where
  "crc_step c = drop_bit 1 c XOR (if c AND 1 \<noteq> 0 then 0xEDB88320 else 0)"

definition crc32_table :: "u32 list" where
  "crc32_table = map (\<lambda>i. (crc_step ^^ 8) (of_nat i)) [0..<256]"

definition crc32_update :: "u32 \<Rightarrow> byte \<Rightarrow> u32" where
  "crc32_update crc p = crc32_table ! unat ((crc XOR ucast p) AND 0xFF) XOR drop_bit 8 crc"

definition crc32_compute :: "byte list \<Rightarrow> u32" where
  "crc32_compute data = foldl crc32_update 0xFFFFFFFF data XOR 0xFFFFFFFF"

section \<open>Framing\<close>

definition le_bytes :: "u32 \<Rightarrow> byte list" where
  "le_bytes x =
     [ucast (x AND 0xFF), ucast (drop_bit 8 x AND 0xFF),
      ucast (drop_bit 16 x AND 0xFF), ucast (drop_bit 24 x AND 0xFF)]"

definition gzip_header :: "byte list" where
  "gzip_header = [0x1F, 0x8B, 0x08, 0x00, 0x00, 0x00, 0x00, 0x00, 0x00, 0xFF]"

definition cookbook_gzip_compress :: "(byte list \<Rightarrow> byte list option) \<Rightarrow> byte list \<Rightarrow> byte list option" where
  "cookbook_gzip_compress deflate_compress data =
     (if data = [] then None
      else case deflate_compress data of
        None \<Rightarrow> None
      | Some deflated \<Rightarrow>
          Some (gzip_header @ deflated @ le_bytes (crc32_compute data) @
                le_bytes (of_nat (length data))))"

section \<open>References\<close>

text \<open>The bit-serial register: a byte enters at the low end, then eight shifts.\<close>

definition crc32_bitwise :: "byte list \<Rightarrow> u32" where
  "crc32_bitwise data = foldl (\<lambda>crc p. (crc_step ^^ 8) (crc XOR ucast p)) 0xFFFFFFFF data XOR 0xFFFFFFFF"

definition le_word :: "byte list \<Rightarrow> u32" where
  "le_word b = ucast (b ! 0) OR push_bit 8 (ucast (b ! 1)) OR push_bit 16 (ucast (b ! 2)) OR
     push_bit 24 (ucast (b ! 3))"

text \<open>A member of RFC 1952 without optional fields: check the header, inflate, check the trailer.\<close>

definition gunzip :: "(byte list \<Rightarrow> byte list option) \<Rightarrow> byte list \<Rightarrow> byte list option" where
  "gunzip inflate g =
     (let n = length g
      in if n < 18 \<or> take 4 g \<noteq> [0x1F, 0x8B, 0x08, 0x00] then None
         else case inflate (drop 10 (take (n - 8) g)) of
           None \<Rightarrow> None
         | Some d \<Rightarrow>
             if le_word (take 4 (drop (n - 8) g)) = crc32_bitwise d \<and>
                le_word (drop (n - 4) g) = of_nat (length d)
             then Some d else None)"

section \<open>The table computes the bit-serial register\<close>

lemma low_bit_iff: "(c AND 1 \<noteq> 0) = bit (c :: u32) 0"
  by (simp add: bit_0 and_one_eq odd_iff_mod_2_eq_one)

lemma crc_step_xor: "crc_step (x XOR y) = crc_step x XOR crc_step y"
  unfolding crc_step_def low_bit_iff drop_bit_xor bit_xor_iff
  by (simp add: xor.left_commute xor.assoc)

lemma crc_step_pow_xor: "(crc_step ^^ n) (x XOR y) = (crc_step ^^ n) x XOR (crc_step ^^ n) y"
  by (induction n) (simp_all add: crc_step_xor)

lemma crc_step_pow_high:
  "(\<And>i. i < n \<Longrightarrow> \<not> bit x i) \<Longrightarrow> (crc_step ^^ n) x = drop_bit n x"
proof (induction n arbitrary: x)
  case (Suc n)
  have "crc_step x = drop_bit 1 x"
    using Suc.prems [of 0] low_bit_iff [of x] by (simp add: crc_step_def)
  moreover have "(crc_step ^^ n) (drop_bit 1 x) = drop_bit n (drop_bit 1 x)"
    using Suc.prems by (intro Suc.IH) (simp add: bit_drop_bit_eq)
  ultimately show ?case
    by (simp only: funpow_Suc_right o_apply drop_bit_drop_bit) simp
qed simp

lemma low_byte_less: "unat ((x :: u32) AND 0xFF) < 256"
proof -
  have "unat (x AND 0xFF) \<le> unat (0xFF :: u32)"
    by (rule word_and_le1 [THEN word_le_nat_alt [THEN iffD1]])
  then show ?thesis by simp
qed

lemma mask8: "(0xFF :: u32) = mask 8"
  by (simp add: mask_eq_exp_minus_1)

lemma crc32_update_step: "crc32_update crc p = (crc_step ^^ 8) (crc XOR ucast p)"
proof -
  let ?x = "crc XOR ucast p"
  let ?lo = "?x AND 0xFF" and ?hi = "?x AND NOT 0xFF"
  have split: "?x = ?lo XOR ?hi"
    by (rule bit_word_eqI) (auto simp: bit_simps)
  have "(crc_step ^^ 8) ?hi = drop_bit 8 ?hi"
    by (rule crc_step_pow_high) (simp add: mask8 bit_simps)
  also have "\<dots> = drop_bit 8 crc"
    by (rule bit_word_eqI) (auto simp: mask8 bit_simps dest: bit_imp_le_length)
  finally have "(crc_step ^^ 8) ?x = (crc_step ^^ 8) ?lo XOR drop_bit 8 crc"
    using crc_step_pow_xor [of 8 ?lo ?hi] split by simp
  moreover have "crc32_table ! unat ?lo = (crc_step ^^ 8) ?lo"
    using low_byte_less [of ?x] by (simp add: crc32_table_def)
  ultimately show ?thesis by (simp add: crc32_update_def)
qed

lemma crc32_bitwise_eq: "crc32_compute data = crc32_bitwise data"
proof -
  have "crc32_update = (\<lambda>crc p. (crc_step ^^ 8) (crc XOR ucast p))"
    by (intro ext crc32_update_step)
  then show ?thesis by (simp add: crc32_compute_def crc32_bitwise_def)
qed

section \<open>The frame can be read back\<close>

lemma le_word_le_bytes: "le_word (le_bytes x) = x"
proof (rule bit_word_eqI)
  fix n
  assume n: "n < LENGTH(32)"
  consider "n < 8" | "8 \<le> n" "n < 16" | "16 \<le> n" "n < 24" | "24 \<le> n" "n < 32"
    using n by force
  then show "bit (le_word (le_bytes x)) n = bit x n"
    by cases (auto simp: le_word_def le_bytes_def mask8 bit_simps)
qed

lemma length_le_bytes [simp]: "length (le_bytes x) = 4"
  by (simp add: le_bytes_def)

lemma length_gzip_header [simp]: "length gzip_header = 10"
  by (simp add: gzip_header_def)

lemma gunzip_frame:
  assumes "inflate z = Some d" "d \<noteq> []"
  shows "gunzip inflate (gzip_header @ z @ le_bytes (crc32_bitwise d) @ le_bytes (of_nat (length d))) = Some d"
proof -
  have "take 4 (gzip_header @ x) = [0x1F, 0x8B, 0x08, 0x00]" for x
    by (simp add: gzip_header_def)
  with assms show ?thesis by (simp add: gunzip_def le_word_le_bytes Let_def)
qed

section \<open>Properties\<close>

text \<open>The table-driven checksum is the bit-serial CRC-32 of RFC 1952.\<close>

theorem crc32_table_driven: "crc32_compute data = crc32_bitwise data"
  by (rule crc32_bitwise_eq)

text \<open>
  C37. When the inflater undoes the deflater on the data, a reader of RFC 1952 gets the data
  back from the compressed member, with the header and both trailer words accepted.
\<close>

theorem gzip_roundtrip:
  assumes "deflate_compress data = Some z" "inflate z = Some data" "data \<noteq> []"
  shows "\<exists>g. cookbook_gzip_compress deflate_compress data = Some g \<and> gunzip inflate g = Some data"
  using assms gunzip_frame [of inflate z data]
  by (simp add: cookbook_gzip_compress_def crc32_bitwise_eq)

text \<open>The stored block of RFC 1951, a deflater whose output can be read back.\<close>

definition stored_block :: "byte list \<Rightarrow> byte list option" where
  "stored_block d = (if length d < 65536 then
     Some ([1] @ take 2 (le_bytes (of_nat (length d))) @ take 2 (le_bytes (NOT (of_nat (length d)))) @ d)
     else None)"

theorem gzip_roundtrip_witness:
  "\<exists>g. cookbook_gzip_compress stored_block [104, 105] = Some g \<and>
       gunzip (\<lambda>z. Some (drop 5 z)) g = Some [104, 105]"
  by (rule gzip_roundtrip [of stored_block "[104, 105]" "[1, 2, 0, 253, 255, 104, 105]"])
     (simp_all add: stored_block_def le_bytes_def)

end
