(* ===== verification/Pasta.thy ===== *)
theory Pasta
  imports CString
begin

text \<open>
  The document values the registry works on, as seen through the shim
  \<^verbatim>\<open>src/src/main/c/pasta_compat.c\<close> over the vendored parser. A map keeps its entries in
  order. The parser and the writer themselves are parameters of the definitions that use them.
\<close>

datatype pasta_value =
    PNull
  | PBool bool
  | PInteger int
  | PNumber string
  | PString string
  | PLabel string
  | PBlob string
  | PArray "pasta_value list"
  | PMap "(string \<times> pasta_value) list"

datatype pasta_type =
  PASTA_NULL | PASTA_BOOL | PASTA_NUMBER | PASTA_STRING | PASTA_ARRAY | PASTA_MAP | PASTA_LABEL

fun tpasta_type :: "pasta_value \<Rightarrow> pasta_type" where
  "tpasta_type PNull = PASTA_NULL"
| "tpasta_type (PBool b) = PASTA_BOOL"
| "tpasta_type (PInteger i) = PASTA_NUMBER"
| "tpasta_type (PNumber n) = PASTA_NUMBER"
| "tpasta_type (PString s) = PASTA_STRING"
| "tpasta_type (PLabel l) = PASTA_LABEL"
| "tpasta_type (PArray xs) = PASTA_ARRAY"
| "tpasta_type (PMap kvs) = PASTA_MAP"
| "tpasta_type (PBlob s) = PASTA_STRING"

fun tpasta_get_string :: "pasta_value \<Rightarrow> string option" where
  "tpasta_get_string (PString s) = Some s"
| "tpasta_get_string _ = None"

fun tpasta_get_label :: "pasta_value \<Rightarrow> string option" where
  "tpasta_get_label (PLabel s) = Some s"
| "tpasta_get_label _ = None"

fun tpasta_get_bool :: "pasta_value \<Rightarrow> bool" where
  "tpasta_get_bool (PBool b) = b"
| "tpasta_get_bool _ = False"

fun tpasta_count :: "pasta_value \<Rightarrow> nat" where
  "tpasta_count (PArray xs) = length xs"
| "tpasta_count (PMap kvs) = length kvs"
| "tpasta_count _ = 0"

fun tpasta_array_get :: "pasta_value \<Rightarrow> nat \<Rightarrow> pasta_value option" where
  "tpasta_array_get (PArray xs) i = (if i < length xs then Some (xs ! i) else None)"
| "tpasta_array_get _ i = None"

fun tpasta_map_get :: "pasta_value \<Rightarrow> string \<Rightarrow> pasta_value option" where
  "tpasta_map_get (PMap kvs) k = map_of kvs k"
| "tpasta_map_get _ k = None"

fun tpasta_push :: "pasta_value \<Rightarrow> pasta_value \<Rightarrow> pasta_value option" where
  "tpasta_push (PArray xs) v = Some (PArray (xs @ [v]))"
| "tpasta_push _ v = None"

text \<open>A present key is replaced in place, a new one goes to the end.\<close>

fun entry_put :: "(string \<times> pasta_value) list \<Rightarrow> string \<Rightarrow> pasta_value \<Rightarrow> (string \<times> pasta_value) list" where
  "entry_put [] k v = [(k, v)]"
| "entry_put ((k', v') # kvs) k v = (if k' = k then (k, v) # kvs else (k', v') # entry_put kvs k v)"

fun tpasta_set :: "pasta_value \<Rightarrow> string \<Rightarrow> pasta_value \<Rightarrow> pasta_value option" where
  "tpasta_set (PMap kvs) k v = Some (PMap (entry_put kvs k v))"
| "tpasta_set _ k v = None"

lemma map_of_entry_put [simp]: "map_of (entry_put kvs k v) = (map_of kvs)(k \<mapsto> v)"
  by (induction kvs) auto

lemma keys_entry_put: "fst ` set (entry_put kvs k v) = insert k (fst ` set kvs)"
  by (induction kvs k v rule: entry_put.induct) (simp_all add: insert_commute)

lemma distinct_entry_put: "distinct (map fst kvs) \<Longrightarrow> distinct (map fst (entry_put kvs k v))"
  by (induction kvs k v rule: entry_put.induct) (simp_all add: keys_entry_put, blast)

text \<open>A stored member is read back and the others are untouched.\<close>

lemma tpasta_get_set:
  "tpasta_set m k v = Some m' \<Longrightarrow>
   tpasta_map_get m' k' = (if k' = k then Some v else tpasta_map_get m k')"
  by (cases m) auto

end
