(* ===== verification/Db.thy ===== *)
theory Db
  imports CString
begin

text \<open>
  The relational state of the registry: the tables that
  \<^verbatim>\<open>src/src/main/c/cookbook_db_migrate.c\<close> creates, with their keys, and the statements the
  registry runs on them. A database call may fail for reasons the callers cannot see: the
  list \<open>db_faults\<close> says for each coming call whether it does, so that every error branch of a
  caller is a run of the model.
\<close>

section \<open>The tables\<close>

record group_row =
  grp_group_id :: string
  grp_owner_sub :: string
  grp_created_at :: "string option"
  grp_description :: "string option"

record key_row =
  key_id :: string
  key_group_id :: string
  key_public_key :: string
  key_comment :: "string option"
  key_added_at :: "string option"
  key_revoked_at :: "string option"

record artifact_row =
  coord_id :: string
  art_group_id :: string
  art_artifact :: string
  art_version :: string
  art_triple :: string
  art_snapshot :: int
  art_yanked :: int
  art_yank_reason :: "string option"
  art_status :: string
  art_sha256 :: string
  art_descriptor_sha256 :: "string option"
  art_signed :: int
  art_size_bytes :: int
  art_pending_since :: "string option"
  art_published_at :: "string option"
  art_published_by :: "string option"

record semver_row =
  sv_coord_id :: string
  sv_major :: int
  sv_minor :: int
  sv_patch :: int
  sv_pre_release :: string
  sv_build_meta :: string

record credential_row =
  cred_subject :: string
  cred_token_hash :: string
  cred_groups :: string
  cred_created_at :: "string option"
  cred_revoked_at :: "string option"

record policy_row =
  pol_subject :: string
  pol_kind :: string
  pol_pastlet :: string
  pol_updated_at :: string

record revocation_row =
  rev_jti :: string
  rev_subject :: "string option"
  rev_revoked_at :: string
  rev_expires_at :: int

record object_cache_row =
  oc_cache_key :: string
  oc_store_key :: string
  oc_size_bytes :: int
  oc_created_at :: int

record peer_row =
  pr_peer_id :: string
  pr_name :: string
  pr_url :: string
  pr_mode :: string
  pr_priority :: int
  pr_enabled :: int
  pr_public_key :: "string option"
  pr_added_at :: "string option"
  pr_last_status :: int

record cookbook_db =
  db_groups :: "group_row list"
  db_publisher_keys :: "key_row list"
  db_artifacts :: "artifact_row list"
  db_artifact_semver :: "semver_row list"
  db_credentials :: "credential_row list"
  db_policies :: "policy_row list"
  db_revocations :: "revocation_row list"
  db_object_cache :: "object_cache_row list"
  db_peers :: "peer_row list"
  db_faults :: "bool list"

definition db_empty :: cookbook_db where
  "db_empty = \<lparr>db_groups = [], db_publisher_keys = [], db_artifacts = [], db_artifact_semver = [],
     db_credentials = [], db_policies = [], db_revocations = [], db_object_cache = [], db_peers = [], db_faults = []\<rparr>"

section \<open>Statements\<close>

datatype cookbook_db_status = DB_OK | DB_ERROR | DB_CONSTRAINT | DB_NOT_FOUND

definition db_next :: "cookbook_db \<Rightarrow> bool \<times> cookbook_db" where
  "db_next db = (case db_faults db of [] \<Rightarrow> (False, db) | f # fs \<Rightarrow> (f, db\<lparr>db_faults := fs\<rparr>))"

definition db_exec :: "(cookbook_db \<Rightarrow> cookbook_db_status \<times> cookbook_db) \<Rightarrow> cookbook_db \<Rightarrow>
    cookbook_db_status \<times> cookbook_db" where
  "db_exec stmt db = (let (fault, db) = db_next db in if fault then (DB_ERROR, db) else stmt db)"

text \<open>A query that fails delivers no row; the callers here look at the rows only.\<close>

definition db_query :: "(cookbook_db \<Rightarrow> 'r list) \<Rightarrow> cookbook_db \<Rightarrow> 'r list \<times> cookbook_db" where
  "db_query sel db = (let (fault, db) = db_next db in (if fault then [] else sel db, db))"

text \<open>
  Rows with a primary key: \<open>INSERT\<close> refuses a present key, \<open>INSERT OR REPLACE\<close> removes the
  row it collides with first, \<open>INSERT OR IGNORE\<close> keeps it.
\<close>

definition row_insert :: "('r \<Rightarrow> 'k) \<Rightarrow> 'r \<Rightarrow> 'r list \<Rightarrow> 'r list option" where
  "row_insert key r rows = (if key r \<in> key ` set rows then None else Some (rows @ [r]))"

definition row_replace :: "('r \<Rightarrow> 'k) \<Rightarrow> 'r \<Rightarrow> 'r list \<Rightarrow> 'r list" where
  "row_replace key r rows = filter (\<lambda>x. key x \<noteq> key r) rows @ [r]"

definition row_ignore :: "('r \<Rightarrow> 'k) \<Rightarrow> 'r \<Rightarrow> 'r list \<Rightarrow> 'r list" where
  "row_ignore key r rows = (if key r \<in> key ` set rows then rows else rows @ [r])"

definition row_update :: "('r \<Rightarrow> bool) \<Rightarrow> ('r \<Rightarrow> 'r) \<Rightarrow> 'r list \<Rightarrow> 'r list" where
  "row_update p f rows = map (\<lambda>r. if p r then f r else r) rows"

lemma row_insert_distinct:
  "distinct (map key rows) \<Longrightarrow> row_insert key r rows = Some rows' \<Longrightarrow> distinct (map key rows')"
  by (auto simp: row_insert_def split: if_splits)

lemma row_replace_distinct:
  "distinct (map key rows) \<Longrightarrow> distinct (map key (row_replace key r rows))"
  by (auto simp: row_replace_def distinct_map_filter)

lemma row_ignore_distinct:
  "distinct (map key rows) \<Longrightarrow> distinct (map key (row_ignore key r rows))"
  by (auto simp: row_ignore_def)

lemma row_update_keys: "(\<And>r. key (f r) = key r) \<Longrightarrow> map key (row_update p f rows) = map key rows"
  by (simp add: row_update_def)

lemma row_replace_lookup:
  "filter (\<lambda>x. key x = k) (row_replace key r rows) =
     (if k = key r then [r] else filter (\<lambda>x. key x = k) rows)"
  by (auto simp: row_replace_def intro: filter_cong)

lemma key_filter_unique:
  "distinct (map key rows) \<Longrightarrow> r \<in> set rows \<Longrightarrow> filter (\<lambda>x. key x = key r) rows = [r]"
  by (induction rows) (auto simp: filter_empty_conv image_iff)

lemma db_next_tables [simp]:
  "db_artifacts (snd (db_next db)) = db_artifacts db" "db_policies (snd (db_next db)) = db_policies db"
  "db_groups (snd (db_next db)) = db_groups db" "db_revocations (snd (db_next db)) = db_revocations db"
  "db_publisher_keys (snd (db_next db)) = db_publisher_keys db" "db_peers (snd (db_next db)) = db_peers db"
  "db_artifact_semver (snd (db_next db)) = db_artifact_semver db"
  "db_object_cache (snd (db_next db)) = db_object_cache db" "db_credentials (snd (db_next db)) = db_credentials db"
  by (simp_all add: db_next_def split: list.splits)

lemma db_next_none [simp]: "db_faults db = [] \<Longrightarrow> db_next db = (False, db)"
  by (simp add: db_next_def)

lemma db_next_eqD:
  assumes "db_next db = (f, db')"
  shows "db_artifacts db' = db_artifacts db" "db_policies db' = db_policies db"
    "db_groups db' = db_groups db" "db_revocations db' = db_revocations db"
    "db_publisher_keys db' = db_publisher_keys db" "db_peers db' = db_peers db"
    "db_artifact_semver db' = db_artifact_semver db" "db_object_cache db' = db_object_cache db"
    "db_credentials db' = db_credentials db"
  using assms db_next_tables [of db] by simp_all

end
