(* ===== verification/Policy.thy ===== *)
theory Policy
  imports Pasta Db
begin

text \<open>
  Policies and permission checks: \<^verbatim>\<open>src/src/main/c/cookbook_policy.c\<close>.

  A policy document (a pastlet) per subject is stored in the table \<open>policies\<close>. Resolution
  collects the documents of a user and of the teams it names, builds a recipe for the
  aggregation engine, runs it and serializes the outcome as JSON for the token. The check
  finds the most specific grant for a group in this JSON and looks at the excludes. The
  document parser and the aggregation engine are the parameters \<open>parse\<close> and \<open>conflate\<close>.
\<close>

section \<open>Storage\<close>

definition cookbook_policy_put :: "string \<Rightarrow> string \<Rightarrow> string \<Rightarrow> string \<Rightarrow> cookbook_db \<Rightarrow> bool \<times> cookbook_db" where
  "cookbook_policy_put now subject kind pastlet db =
     (let (st, db) = db_exec (\<lambda>db. (DB_OK, db\<lparr>db_policies := row_replace pol_subject
            \<lparr>pol_subject = subject, pol_kind = kind, pol_pastlet = pastlet, pol_updated_at = now\<rparr>
            (db_policies db)\<rparr>)) db
      in (st = DB_OK, db))"

text \<open>The callback keeps the last row it is given.\<close>

definition last_option :: "'a list \<Rightarrow> 'a option" where
  "last_option xs = (if xs = [] then None else Some (last xs))"

definition cookbook_policy_get :: "string \<Rightarrow> cookbook_db \<Rightarrow> string option \<times> cookbook_db" where
  "cookbook_policy_get subject db =
     (let (rows, db) = db_query (\<lambda>db. map pol_pastlet
            (filter (\<lambda>r. pol_subject r = subject) (db_policies db))) db
      in (last_option rows, db))"

definition cookbook_policy_delete :: "string \<Rightarrow> cookbook_db \<Rightarrow> bool \<times> cookbook_db" where
  "cookbook_policy_delete subject db =
     (let (st, db) = db_exec (\<lambda>db. (DB_OK, db\<lparr>db_policies :=
            filter (\<lambda>r. pol_subject r \<noteq> subject) (db_policies db)\<rparr>)) db
      in (st = DB_OK, db))"

section \<open>Teams\<close>

definition team_name :: "pasta_value \<Rightarrow> string option" where
  "team_name item =
     (if tpasta_type item = PASTA_LABEL then tpasta_get_label item
      else if tpasta_type item = PASTA_STRING then tpasta_get_string item
      else None)"

definition extract_teams :: "pasta_value \<Rightarrow> string list" where
  "extract_teams root =
     (if tpasta_type root \<noteq> PASTA_MAP then []
      else case tpasta_map_get root ''identity'' of
        None \<Rightarrow> []
      | Some identity \<Rightarrow>
          if tpasta_type identity \<noteq> PASTA_MAP then []
          else case tpasta_map_get identity ''teams'' of
            Some (PArray items) \<Rightarrow> List.map_filter team_name items
          | _ \<Rightarrow> [])"

section \<open>Serialization\<close>

text \<open>The letters of an array of permission strings, each once, in the order they come.\<close>

definition add_perm :: "string \<Rightarrow> char \<Rightarrow> string" where
  "add_perm perms c =
     (if c \<in> set ''crwd'' \<and> c \<notin> set perms \<and> length perms < 15 then perms @ [c] else perms)"

definition collect_perms :: "pasta_value list \<Rightarrow> string" where
  "collect_perms items = foldl add_perm [] (concat (List.map_filter tpasta_get_string items))"

definition grant_value :: "pasta_value \<Rightarrow> string" where
  "grant_value v =
     (case v of PArray items \<Rightarrow> collect_perms items
      | _ \<Rightarrow> (case tpasta_get_string v of Some s \<Rightarrow> s | None \<Rightarrow> []))"

text \<open>The buffer is grown before an entry when the space might not do.\<close>

definition grow :: "nat \<Rightarrow> cbuf \<Rightarrow> cbuf" where
  "grow need b = (if cb_pos b + need \<ge> cb_cap b then b\<lparr>cb_cap := cb_cap b * 2 + need\<rparr> else b)"

definition quote :: "string \<Rightarrow> string" where
  "quote s = CHR 0x22 # s @ [CHR 0x22]"

definition put_comma :: "bool \<Rightarrow> cbuf \<Rightarrow> cbuf option" where
  "put_comma first b = (if first then Some b else snprintf_at '','' b)"

fun put_grants :: "bool \<Rightarrow> (string \<times> pasta_value) list \<Rightarrow> cbuf \<Rightarrow> cbuf option" where
  "put_grants first [] b = Some b"
| "put_grants first ((key, val) # gs) b = do {
     let sv = grant_value val;
     b \<leftarrow> put_comma first (grow (length key + length sv + 16) b);
     b \<leftarrow> snprintf_at (quote key @ '':'' @ quote sv) b;
     put_grants False gs b
   }"

fun put_excludes :: "bool \<Rightarrow> (string \<times> pasta_value) list \<Rightarrow> cbuf \<Rightarrow> cbuf option" where
  "put_excludes first [] b = Some b"
| "put_excludes first ((key, val) # es) b = do {
     b \<leftarrow> put_comma first (grow (length key + 16) b);
     b \<leftarrow> snprintf_at (quote key @ '':true'') b;
     put_excludes False es b
   }"

definition map_entries :: "pasta_value option \<Rightarrow> (string \<times> pasta_value) list" where
  "map_entries v = (case v of Some (PMap kvs) \<Rightarrow> kvs | _ \<Rightarrow> [])"

definition grants_open :: string where "grants_open = ''{'' @ quote ''grants'' @ '':{''"
definition exclude_open :: string where "exclude_open = ''},'' @ quote ''exclude'' @ '':{''"

definition serialize_grants_json :: "pasta_value \<Rightarrow> string option" where
  "serialize_grants_json resolved =
     (if tpasta_type resolved \<noteq> PASTA_MAP then None
      else do {
        b \<leftarrow> snprintf_at grants_open (cbuf_new 256);
        b \<leftarrow> put_grants True (map_entries (tpasta_map_get resolved ''grants'')) b;
        b \<leftarrow> snprintf_at exclude_open b;
        b \<leftarrow> put_excludes True (map_entries (tpasta_map_get resolved ''exclude'')) b;
        let b = (if cb_pos b + 4 \<ge> cb_cap b then b\<lparr>cb_cap := cb_cap b + 16\<rparr> else b);
        b \<leftarrow> snprintf_at ''}}'' b;
        Some (cb_text b)
      })"

section \<open>Resolution\<close>

text \<open>Loading the documents of the teams; a missing one is skipped.\<close>

fun load_teams :: "string list \<Rightarrow> cookbook_db \<Rightarrow> string list \<times> cookbook_db" where
  "load_teams [] db = ([], db)"
| "load_teams (t # ts) db =
     (let (p, db) = cookbook_policy_get t db; (ps, db) = load_teams ts db
      in (case p of None \<Rightarrow> ps | Some x \<Rightarrow> x # ps, db))"

definition add_key :: "string list \<Rightarrow> string \<Rightarrow> string list" where
  "add_key keys k = (if k \<in> set keys \<or> length keys \<ge> 256 then keys else keys @ [k])"

definition section_keys :: "(string \<Rightarrow> pasta_value option) \<Rightarrow> string \<Rightarrow> string list \<Rightarrow> string list" where
  "section_keys parse sec inputs =
     foldl (\<lambda>keys text. case parse text of
         None \<Rightarrow> keys
       | Some tree \<Rightarrow> foldl add_key keys (map fst (map_entries (tpasta_map_get tree sec)))) [] inputs"

definition nl :: string where "nl = [CHR 0x0a]"

fun put_keys :: "string \<Rightarrow> string list \<Rightarrow> cbuf \<Rightarrow> cbuf option" where
  "put_keys tag [] b = Some b"
| "put_keys tag (k # ks) b = do {
     b \<leftarrow> snprintf_at ('','' @ nl @ ''  '' @ quote k @ '': '' @ quote tag) (grow (length k + 32) b);
     put_keys tag ks b
   }"

definition section_head :: "string \<Rightarrow> string \<Rightarrow> string" where
  "section_head sec merge =
     ''@'' @ sec @ '' {'' @ nl @ ''  consumes: ['' @ quote sec @ ''],'' @ nl @ ''  merge: '' @ quote merge"

definition build_recipe :: "string list \<Rightarrow> string list \<Rightarrow> string option" where
  "build_recipe grant_keys exclude_keys = do {
     b \<leftarrow> snprintf_at (section_head ''grants'' ''collect'') (cbuf_new 512);
     b \<leftarrow> put_keys ''perm'' grant_keys b;
     b \<leftarrow> snprintf_at (nl @ ''}'' @ nl) b;
     b \<leftarrow> (if exclude_keys \<noteq> [] then do {
            b \<leftarrow> snprintf_at (section_head ''exclude'' ''replace'') b;
            b \<leftarrow> put_keys ''flag'' exclude_keys b;
            snprintf_at (nl @ ''}'' @ nl) b
          } else Some b);
     Some (cb_text b)
   }"

definition cookbook_policy_resolve ::
  "(string \<Rightarrow> pasta_value option) \<Rightarrow> (string \<Rightarrow> string list \<Rightarrow> pasta_value option) \<Rightarrow>
   string \<Rightarrow> cookbook_db \<Rightarrow> string option \<times> cookbook_db" where
  "cookbook_policy_resolve parse conflate subject db =
     (let (user_pastlet, db) = cookbook_policy_get subject db
      in case user_pastlet of
           None \<Rightarrow> (None, db)
         | Some user \<Rightarrow>
             (case parse user of
                None \<Rightarrow> (None, db)
              | Some user_tree \<Rightarrow>
                  (let (teams, db) = load_teams (extract_teams user_tree) db;
                       scanned = take 65 (user # teams)
                   in (do {
                         recipe \<leftarrow> build_recipe (section_keys parse ''grants'' scanned)
                                     (section_keys parse ''exclude'' scanned);
                         resolved \<leftarrow> conflate recipe (user # teams);
                         serialize_grants_json resolved
                       }, db))))"

section \<open>The check\<close>

text \<open>
  The walker over a flat JSON map. The callback gets the key, the value and its state; it
  stops the walk by returning true.
\<close>

definition until :: "char \<Rightarrow> string \<Rightarrow> string" where
  "until c s = dropWhile (\<lambda>x. x \<noteq> c) s"

definition upto_char :: "char \<Rightarrow> string \<Rightarrow> string" where
  "upto_char c s = takeWhile (\<lambda>x. x \<noteq> c) s"

definition skip_value :: "string \<Rightarrow> string" where
  "skip_value s = dropWhile (\<lambda>x. x \<noteq> CHR '','' \<and> x \<noteq> CHR ''}'') s"

text \<open>A quoted key and the text behind the colon after it.\<close>

definition quoted :: "string \<Rightarrow> (string \<times> string) option" where
  "quoted json =
     (let p = tl (until (CHR 0x22) json)
      in if until (CHR 0x22) json = [] \<or> until (CHR 0x22) p = [] then None
         else Some (upto_char (CHR 0x22) p, tl (until (CHR 0x22) p)))"

definition read_key :: "string \<Rightarrow> (string \<times> string) option" where
  "read_key json = do {
     (key, p) \<leftarrow> quoted json;
     if until (CHR '':'') p = [] then None
     else Some (key, dropWhile (\<lambda>x. x = CHR '' '' \<or> x = CHR 0x09) (tl (until (CHR '':'') p)))
   }"

text \<open>A quoted value, \<open>true\<close>, or something to skip, with the rest of the input.\<close>

definition read_value :: "string \<Rightarrow> string option \<times> string" where
  "read_value p =
     (if p \<noteq> [] \<and> hd p = CHR 0x22 then
        (Some (upto_char (CHR 0x22) (tl p)), tl (until (CHR 0x22) (tl p)))
      else if p \<noteq> [] \<and> hd p = CHR ''t'' then (Some ''true'', skip_value p)
      else (None, skip_value p))"

lemma length_until [simp]: "length (until c s) \<le> length s"
  by (simp add: until_def)

lemma length_tl_until: "length (tl (until c s)) \<le> length s - 1"
  by (simp add: diff_le_mono)

lemma quoted_shorter: "quoted json = Some (k, r) \<Longrightarrow> length r < length json"
  using length_tl_until [of "CHR 0x22" "tl (until (CHR 0x22) json)"] length_until [of "CHR 0x22" json]
  by (cases "until (CHR 0x22) json") (auto simp: quoted_def Let_def split: if_splits)

lemma read_key_shorter: "read_key json = Some (k, r) \<Longrightarrow> length r < length json"
proof -
  assume "read_key json = Some (k, r)"
  then obtain p where p: "quoted json = Some (k, p)"
    and r: "r = dropWhile (\<lambda>x. x = CHR '' '' \<or> x = CHR 0x09) (tl (until (CHR '':'') p))"
    by (auto simp: read_key_def split: Option.bind_splits if_splits)
  have "length r \<le> length (tl (until (CHR '':'') p))" unfolding r by (rule length_dropWhile_le)
  also have "\<dots> \<le> length p" by (rule le_trans [OF length_tl_until]) simp
  also have "\<dots> < length json" using p by (rule quoted_shorter)
  finally show ?thesis .
qed

lemma read_value_le: "length (snd (read_value p)) \<le> length p"
  using length_tl_until [of "CHR 0x22" "tl p"] by (auto simp: read_value_def skip_value_def)

function walk_json_map :: "(string \<Rightarrow> string \<Rightarrow> 'a \<Rightarrow> bool \<times> 'a) \<Rightarrow> string \<Rightarrow> 'a \<Rightarrow> 'a" where
  "walk_json_map fn json st =
     (case read_key json of
        None \<Rightarrow> st
      | Some (key, p) \<Rightarrow>
          (case fst (read_value p) of
             None \<Rightarrow> walk_json_map fn (snd (read_value p)) st
           | Some val \<Rightarrow>
               (let (stop, st) = fn key val st
                in if stop then st else walk_json_map fn (snd (read_value p)) st)))"
  by pat_completeness auto
termination
  by (relation "measure (\<lambda>(fn, json, st). length json)")
     (auto intro: le_less_trans [OF read_value_le] dest: read_key_shorter)

declare walk_json_map.simps [simp del]

text \<open>The test on a key: it equals the group or a dot follows it there.\<close>

definition prefix_match :: "string \<Rightarrow> string \<Rightarrow> bool" where
  "prefix_match key group_id =
     (if length key > length group_id then False
      else if take (length key) group_id \<noteq> key then False
      else \<not> (length key < length group_id \<and> group_id ! length key \<noteq> CHR ''.''))"

record grant_match_ctx =
  best_val :: "string option"
  best_prefix_len :: nat

definition grant_match_cb :: "string \<Rightarrow> string \<Rightarrow> string \<Rightarrow> grant_match_ctx \<Rightarrow> bool \<times> grant_match_ctx" where
  "grant_match_cb group_id key val ctx =
     (if key = ''*'' then
        (False, if best_prefix_len ctx = 0 then ctx\<lparr>best_val := Some val\<rparr> else ctx)
      else if \<not> prefix_match key group_id then (False, ctx)
      else (False, if length key > best_prefix_len ctx
                   then ctx\<lparr>best_val := Some val, best_prefix_len := length key\<rparr> else ctx))"

definition exclude_match_cb :: "string \<Rightarrow> string \<Rightarrow> string \<Rightarrow> bool \<Rightarrow> bool \<times> bool" where
  "exclude_match_cb group_id key val excluded =
     (if \<not> prefix_match key group_id then (False, excluded) else (True, True))"

definition grants_tag :: string where "grants_tag = quote ''grants'' @ '':{''"
definition exclude_tag :: string where "exclude_tag = quote ''exclude'' @ '':{''"

text \<open>Where the exclude map starts, in its own JSON or inside the grants JSON.\<close>

definition exclude_start :: "string \<Rightarrow> string option \<Rightarrow> string option" where
  "exclude_start grants_json exclude_json =
     (case strstr (case exclude_json of Some e \<Rightarrow> e | None \<Rightarrow> grants_json) exclude_tag of
        Some r \<Rightarrow> Some (drop 11 r)
      | None \<Rightarrow>
          (case exclude_json of
             None \<Rightarrow> None
           | Some e \<Rightarrow> map_option tl (strchr e (CHR ''{''))))"

definition excluded_in :: "string option \<Rightarrow> string \<Rightarrow> bool" where
  "excluded_in estart group_id =
     (case estart of
        None \<Rightarrow> False
      | Some e \<Rightarrow>
          if CHR ''}'' \<notin> set e then False
          else walk_json_map (exclude_match_cb group_id) (upto_char (CHR ''}'') e) False)"

definition cookbook_auth_check :: "string \<Rightarrow> string option \<Rightarrow> string \<Rightarrow> char \<Rightarrow> bool" where
  "cookbook_auth_check grants_json exclude_json group_id op_char =
     (let gstart = (case strstr grants_json grants_tag of None \<Rightarrow> grants_json | Some r \<Rightarrow> drop 10 r)
      in if CHR ''}'' \<notin> set gstart then False
         else
           (let gctx = walk_json_map (grant_match_cb group_id) (upto_char (CHR ''}'') gstart)
                         \<lparr>best_val = None, best_prefix_len = 0\<rparr>
            in case best_val gctx of
                 None \<Rightarrow> False
               | Some v \<Rightarrow>
                   if op_char \<notin> set v then False
                   else \<not> excluded_in (exclude_start grants_json exclude_json) group_id))"

section \<open>Specification\<close>

text \<open>
  A key governs a group that equals it or lies below it. Of the grants that govern a group
  the longest one counts; the grant for everything counts when there is none. A group is
  excluded when some exclude key governs it.
\<close>

definition governs :: "string \<Rightarrow> string \<Rightarrow> bool" where
  "governs key group_id \<longleftrightarrow> key = group_id \<or> (\<exists>r. group_id = key @ CHR ''.'' # r)"

definition specific :: "string \<Rightarrow> string \<Rightarrow> bool" where
  "specific group_id key \<longleftrightarrow> key \<noteq> [] \<and> key \<noteq> ''*'' \<and> governs key group_id"

definition effective_grant :: "(string \<times> string) list \<Rightarrow> string \<Rightarrow> string \<Rightarrow> bool" where
  "effective_grant gs group_id v \<longleftrightarrow>
     (\<exists>k. (k, v) \<in> set gs \<and> specific group_id k \<and>
        (\<forall>k' \<in> fst ` set gs. specific group_id k' \<longrightarrow> length k' \<le> length k)) \<or>
     (''*'', v) \<in> set gs \<and> (\<forall>k' \<in> fst ` set gs. \<not> specific group_id k')"

definition policy_allows :: "(string \<times> string) list \<Rightarrow> string list \<Rightarrow> string \<Rightarrow> char \<Rightarrow> bool" where
  "policy_allows gs es group_id op_char \<longleftrightarrow>
     (\<exists>v. effective_grant gs group_id v \<and> op_char \<in> set v) \<and>
     \<not> (\<exists>k \<in> set es. governs k group_id)"

text \<open>Text that may stand in the JSON as it is.\<close>

definition json_safe :: "string \<Rightarrow> bool" where
  "json_safe s \<longleftrightarrow> set s \<inter> {CHR 0x22, CHR ''{'', CHR ''}'', CHR 0x00} = {}"

text \<open>The entries of a JSON map, with a comma before each but the first.\<close>

fun render_map :: "(string \<Rightarrow> string) \<Rightarrow> bool \<Rightarrow> (string \<times> string) list \<Rightarrow> string" where
  "render_map f first [] = []"
| "render_map f first ((k, v) # kvs) =
     (if first then [] else '','') @ quote k @ '':'' @ f v @ render_map f False kvs"

definition true_text :: "string \<Rightarrow> string" where
  "true_text v = ''true''"

definition flags :: "string list \<Rightarrow> (string \<times> string) list" where
  "flags ks = map (\<lambda>k. (k, ''true'')) ks"

definition policy_json :: "(string \<times> string) list \<Rightarrow> string list \<Rightarrow> string" where
  "policy_json gs es =
     grants_open @ render_map quote True gs @ exclude_open @ render_map true_text True (flags es) @ ''}}''"

section \<open>The walker reads what is rendered\<close>

fun walk_list :: "(string \<Rightarrow> string \<Rightarrow> 'a \<Rightarrow> bool \<times> 'a) \<Rightarrow> (string \<times> string) list \<Rightarrow> 'a \<Rightarrow> 'a" where
  "walk_list fn [] st = st"
| "walk_list fn ((k, v) # kvs) st =
     (let (stop, st) = fn k v st in if stop then st else walk_list fn kvs st)"

lemma upto_until_here:
  "c \<notin> set s \<Longrightarrow> upto_char c (s @ c # r) = s" "c \<notin> set s \<Longrightarrow> until c (s @ c # r) = c # r"
  by (simp_all add: upto_char_def until_def span_until)

lemma until_skip [simp]: "x \<noteq> c \<Longrightarrow> until c (x # s) = until c s" "until c (c # s) = c # s" "until c [] = []"
  by (simp_all add: until_def)

lemma read_key_quote:
  assumes "CHR 0x22 \<notin> set k" "x \<noteq> []" "hd x \<noteq> CHR '' ''" "hd x \<noteq> CHR 0x09"
  shows "read_key (quote k @ '':'' @ x) = Some (k, x)"
    and "read_key ('','' @ quote k @ '':'' @ x) = Some (k, x)"
  using assms by (cases x; simp add: read_key_def quoted_def quote_def upto_until_here)+

lemma read_value_quote: "CHR 0x22 \<notin> set v \<Longrightarrow> read_value (quote v @ r) = (Some v, r)"
  by (simp add: read_value_def quote_def upto_until_here)

lemma read_value_true: "r = [] \<or> hd r = CHR '','' \<Longrightarrow> read_value (''true'' @ r) = (Some ''true'', r)"
  by (cases r) (auto simp: read_value_def skip_value_def)

lemma read_key_Nil [simp]: "read_key [] = None"
  by (simp add: read_key_def quoted_def)

lemma walk_render:
  assumes "\<And>k v r. (k, v) \<in> set kvs \<Longrightarrow> r = [] \<or> hd r = CHR '','' \<Longrightarrow> read_value (f v @ r) = (Some v, r)"
    and "\<And>k v. (k, v) \<in> set kvs \<Longrightarrow> CHR 0x22 \<notin> set k"
    and "\<And>v. f v \<noteq> []" "\<And>v. hd (f v) \<noteq> CHR '' ''" "\<And>v. hd (f v) \<noteq> CHR 0x09"
  shows "walk_json_map fn (render_map f first kvs) st = walk_list fn kvs st"
  using assms(1,2)
proof (induction kvs arbitrary: first st)
  case Nil
  then show ?case by (simp add: walk_json_map.simps [of fn "[]"])
next
  case (Cons e kvs)
  obtain k v where e: "e = (k, v)" by (cases e)
  let ?r = "render_map f False kvs"
  have r: "?r = [] \<or> hd ?r = CHR '',''" by (cases kvs) auto
  have key: "read_key (render_map f first (e # kvs)) = Some (k, f v @ ?r)"
    using Cons.prems(2) [of k v] assms(3-5) [of v] read_key_quote [of k "f v @ ?r"]
    by (cases first) (simp_all add: e)
  have val: "read_value (f v @ ?r) = (Some v, ?r)" using Cons.prems(1) r by (auto simp: e)
  have ih: "walk_json_map fn ?r st' = walk_list fn kvs st'" for st'
    by (rule Cons.IH)
       (rule Cons.prems(1) [OF list.set_intros(2)], assumption+, rule Cons.prems(2) [OF list.set_intros(2)])
  show ?case
    unfolding walk_json_map.simps [of fn "render_map f first (e # kvs)"] key option.case prod.case val
      fst_conv snd_conv ih
    by (cases "fn k v st") (simp add: e)
qed

lemma walk_render_quote:
  assumes "\<And>k v. (k, v) \<in> set kvs \<Longrightarrow> json_safe k \<and> json_safe v"
  shows "walk_json_map fn (render_map quote first kvs) st = walk_list fn kvs st"
proof (rule walk_render)
  fix k v r
  assume "(k, v) \<in> set kvs"
  then show "read_value (quote v @ r) = (Some v, r)" "CHR 0x22 \<notin> set k"
    using assms [of k v] by (auto simp: json_safe_def intro: read_value_quote)
qed (auto simp: quote_def)

lemma walk_render_flags:
  assumes "\<And>k. k \<in> set ks \<Longrightarrow> json_safe k"
  shows "walk_json_map fn (render_map true_text first (flags ks)) st = walk_list fn (flags ks) st"
proof (rule walk_render)
  fix k v r
  assume "(k, v) \<in> set (flags ks)" "r = [] \<or> hd r = CHR '',''"
  then show "read_value (true_text v @ r) = (Some v, r)"
    using read_value_true [of r] by (auto simp: flags_def true_text_def)
next
  fix k v
  assume "(k, v) \<in> set (flags ks)"
  then show "CHR 0x22 \<notin> set k" using assms [of k] by (auto simp: flags_def json_safe_def)
qed (auto simp: true_text_def)

section \<open>The callbacks compute the specification\<close>

lemma prefix_match_iff: "prefix_match key group_id \<longleftrightarrow> governs key group_id"
proof
  assume m: "prefix_match key group_id"
  then have g: "group_id = key @ drop (length key) group_id" "length key \<le> length group_id"
    by (auto simp: prefix_match_def split: if_splits) (metis append_take_drop_id)
  show "governs key group_id"
  proof (cases "drop (length key) group_id")
    case Nil
    with g show ?thesis by (simp add: governs_def)
  next
    case (Cons c r)
    then have "group_id ! length key = c" "length key < length group_id"
      by (metis nth_via_drop, metis drop_eq_Nil2 list.distinct(1) not_le)
    with m g(1) Cons show ?thesis by (auto simp: prefix_match_def governs_def split: if_splits)
  qed
qed (auto simp: prefix_match_def governs_def)

text \<open>The state of the search after the grants seen so far.\<close>

definition best_of :: "string \<Rightarrow> (string \<times> string) list \<Rightarrow> grant_match_ctx \<Rightarrow> bool" where
  "best_of g seen ctx \<longleftrightarrow>
     (if \<exists>k \<in> fst ` set seen. specific g k
      then \<exists>k v. (k, v) \<in> set seen \<and> specific g k \<and> best_val ctx = Some v \<and> best_prefix_len ctx = length k \<and>
             (\<forall>k' \<in> fst ` set seen. specific g k' \<longrightarrow> length k' \<le> length k)
      else best_prefix_len ctx = 0 \<and>
           (case best_val ctx of
              None \<Rightarrow> ''*'' \<notin> fst ` set seen
            | Some v \<Rightarrow> (''*'', v) \<in> set seen))"

lemma best_of_specificI:
  assumes "(k, v) \<in> set seen" "specific g k" "best_val ctx = Some v" "best_prefix_len ctx = length k"
    and "\<And>k' v'. (k', v') \<in> set seen \<Longrightarrow> specific g k' \<Longrightarrow> length k' \<le> length k"
  shows "best_of g seen ctx"
proof -
  have "\<exists>k \<in> fst ` set seen. specific g k" using assms(1,2) by (intro bexI [of _ k]) (auto intro: rev_image_eqI)
  moreover have "\<forall>k' \<in> fst ` set seen. specific g k' \<longrightarrow> length k' \<le> length k" using assms(5) by auto
  ultimately show ?thesis unfolding best_of_def using assms(1-4) by (simp only: if_True) blast
qed

lemma best_of_step:
  assumes "best_of g seen ctx"
  shows "best_of g (seen @ [(k, v)]) (snd (grant_match_cb g k v ctx))"
proof (cases "specific g k")
  case True
  then have k: "k \<noteq> ''*''" "prefix_match k g" "k \<noteq> []" by (auto simp: specific_def prefix_match_iff)
  show ?thesis
  proof (cases "length k > best_prefix_len ctx")
    case longer: True
    have "\<forall>k' \<in> fst ` set seen. specific g k' \<longrightarrow> length k' \<le> length k"
      using assms longer by (fastforce simp: best_of_def split: if_splits)
    with k True longer show ?thesis
      by (intro best_of_specificI [of k v]) (auto simp: grant_match_cb_def)
  next
    case False
    with k assms have "\<exists>k \<in> fst ` set seen. specific g k" by (auto simp: best_of_def split: if_splits)
    with assms obtain k0 v0 where o: "(k0, v0) \<in> set seen" "specific g k0" "best_val ctx = Some v0"
      "best_prefix_len ctx = length k0" "\<forall>k' \<in> fst ` set seen. specific g k' \<longrightarrow> length k' \<le> length k0"
      by (auto simp: best_of_def split: if_splits)
    with k False True show ?thesis
      by (intro best_of_specificI [of k0 v0]) (auto simp: grant_match_cb_def)
  qed
next
  case False
  then have sp: "(\<exists>x \<in> fst ` set (seen @ [(k, v)]). specific g x) \<longleftrightarrow> (\<exists>x \<in> fst ` set seen. specific g x)"
    by auto
  show ?thesis
  proof (cases "k = ''*''")
    case True
    with False assms sp show ?thesis
      by (cases "best_prefix_len ctx = 0") (auto simp: best_of_def grant_match_cb_def specific_def split: if_splits)
  next
    case other: False
    have same: "snd (grant_match_cb g k v ctx) = ctx"
      using False other by (auto simp: grant_match_cb_def specific_def prefix_match_iff)
    from assms False other show ?thesis
      unfolding same best_of_def sp by (auto split: option.splits if_splits)
  qed
qed

lemma grant_match_continues: "fst (grant_match_cb g k v ctx) = False"
  by (simp add: grant_match_cb_def)

lemma walk_list_grants:
  "best_of g seen ctx \<Longrightarrow> best_of g (seen @ kvs) (walk_list (grant_match_cb g) kvs ctx)"
proof (induction kvs arbitrary: seen ctx)
  case (Cons e kvs)
  obtain k v where e: "e = (k, v)" by (cases e)
  have "best_of g ((seen @ [(k, v)]) @ kvs) (walk_list (grant_match_cb g) kvs (snd (grant_match_cb g k v ctx)))"
    using Cons.prems by (intro Cons.IH best_of_step)
  then show ?case
    using grant_match_continues [of g k v ctx] by (cases "grant_match_cb g k v ctx") (simp add: e)
qed simp

lemma best_of_effective:
  assumes "best_of g gs ctx" "distinct (map fst gs)"
  shows "best_val ctx = Some v \<longleftrightarrow> effective_grant gs g v"
proof (cases "\<exists>k \<in> fst ` set gs. specific g k")
  case True
  with assms(1) obtain k0 v0 where o: "(k0, v0) \<in> set gs" "specific g k0" "best_val ctx = Some v0"
    "\<forall>k' \<in> fst ` set gs. specific g k' \<longrightarrow> length k' \<le> length k0"
    by (auto simp: best_of_def split: if_splits)
  have same: "k = k0" if "specific g k" "length k = length k0" for k
    using that o(2) by (auto simp: specific_def governs_def)
  have uniq: "v' = v0" if "(k0, v') \<in> set gs" for v'
    using eq_key_imp_eq_value [OF assms(2) that o(1)] .
  show ?thesis
  proof
    assume "best_val ctx = Some v"
    then have "v = v0" using o(3) by simp
    with o show "effective_grant gs g v" unfolding effective_grant_def by blast
  next
    assume "effective_grant gs g v"
    with True obtain k where k: "(k, v) \<in> set gs" "specific g k"
      "\<forall>k' \<in> fst ` set gs. specific g k' \<longrightarrow> length k' \<le> length k"
      unfolding effective_grant_def by blast
    have "k \<in> fst ` set gs" "k0 \<in> fst ` set gs" using k(1) o(1) by (auto intro: rev_image_eqI)
    then have "length k = length k0" using o(2,4) k(2,3) by (meson le_antisym)
    then have "k = k0" using same k(2) by blast
    with uniq k(1) o(3) show "best_val ctx = Some v" by simp
  qed
next
  case False
  with assms(1) have b: "case best_val ctx of None \<Rightarrow> ''*'' \<notin> fst ` set gs | Some v \<Rightarrow> (''*'', v) \<in> set gs"
    by (auto simp: best_of_def split: if_splits)
  have eff: "effective_grant gs g v \<longleftrightarrow> (''*'', v) \<in> set gs"
    using False by (force simp: effective_grant_def)
  show ?thesis
  proof (cases "best_val ctx")
    case None
    with b eff show ?thesis by force
  next
    case (Some w)
    with b have "(''*'', w) \<in> set gs" by simp
    then have "(''*'', v) \<in> set gs \<longleftrightarrow> v = w" using assms(2) by (meson eq_key_imp_eq_value)
    with Some eff show ?thesis by auto
  qed
qed

lemma walk_list_exclude:
  "walk_list (exclude_match_cb g) (flags ks) False \<longleftrightarrow> (\<exists>k \<in> set ks. governs k g)"
  by (induction ks) (auto simp: flags_def exclude_match_cb_def prefix_match_iff)

section \<open>The check on the JSON\<close>

lemma upto_char_here: "c \<notin> set s \<Longrightarrow> upto_char c (s @ c # r) = s"
  by (rule upto_until_here(1))

lemma braces_render:
  assumes "\<And>k v. (k, v) \<in> set kvs \<Longrightarrow> json_safe k \<and> set (f v) \<inter> {CHR ''{'', CHR ''}''} = {}"
  shows "CHR ''{'' \<notin> set (render_map f first kvs)" "CHR ''}'' \<notin> set (render_map f first kvs)"
  using assms by (induction f first kvs rule: render_map.induct) (auto simp: json_safe_def quote_def)

lemma braces_quote:
  assumes "\<And>k v. (k, v) \<in> set kvs \<Longrightarrow> json_safe k \<and> json_safe v"
  shows "CHR ''{'' \<notin> set (render_map quote first kvs)" "CHR ''}'' \<notin> set (render_map quote first kvs)"
  using assms by (intro braces_render; auto simp: json_safe_def quote_def)+

lemma braces_flags:
  assumes "\<And>k. k \<in> set ks \<Longrightarrow> json_safe k"
  shows "CHR ''{'' \<notin> set (render_map true_text first (flags ks))"
    "CHR ''}'' \<notin> set (render_map true_text first (flags ks))"
  using assms by (intro braces_render; auto simp: json_safe_def true_text_def flags_def)+

text \<open>The part of the check behind the positioning in the JSON.\<close>

lemma check_core:
  assumes gs: "\<And>k v. (k, v) \<in> set gs \<Longrightarrow> json_safe k \<and> json_safe v" "distinct (map fst gs)"
    and es: "\<And>k. k \<in> set es \<Longrightarrow> json_safe k"
  shows "(case best_val (walk_json_map (grant_match_cb g) (render_map quote True gs)
                 \<lparr>best_val = None, best_prefix_len = 0\<rparr>) of
            None \<Rightarrow> False
          | Some v \<Rightarrow> if c \<notin> set v then False
              else \<not> walk_json_map (exclude_match_cb g) (render_map true_text True (flags es)) False)
         \<longleftrightarrow> policy_allows gs es g c"
proof -
  let ?ctx = "walk_list (grant_match_cb g) gs \<lparr>best_val = None, best_prefix_len = 0\<rparr>"
  have "best_of g [] \<lparr>best_val = None, best_prefix_len = 0\<rparr>" by (simp add: best_of_def)
  then have "best_of g ([] @ gs) ?ctx" by (rule walk_list_grants)
  then have eff: "effective_grant gs g v \<longleftrightarrow> best_val ?ctx = Some v" for v
    using best_of_effective [OF _ gs(2), of g ?ctx v] by simp
  have G: "walk_json_map (grant_match_cb g) (render_map quote True gs) st = walk_list (grant_match_cb g) gs st" for st
    using gs(1) by (rule walk_render_quote)
  have E: "walk_json_map (exclude_match_cb g) (render_map true_text True (flags es)) False \<longleftrightarrow>
      (\<exists>k \<in> set es. governs k g)"
    using walk_render_flags [of es "exclude_match_cb g" True False] es walk_list_exclude [of g es] by simp
  show ?thesis
    unfolding G E policy_allows_def eff by (cases "best_val ?ctx") simp_all
qed

lemma excluded_in_render:
  assumes "\<And>k. k \<in> set es \<Longrightarrow> json_safe k"
  shows "excluded_in (Some (render_map true_text True (flags es) @ CHR ''}'' # r)) g =
     walk_json_map (exclude_match_cb g) (render_map true_text True (flags es)) False"
  by (simp add: excluded_in_def upto_char_here braces_flags [OF assms])

lemma strstr_skip_grants: "strstr (CHR ''{'' # grants_tag @ x) exclude_tag = strstr x exclude_tag"
  by (simp add: grants_tag_def exclude_tag_def quote_def)

lemma strstr_exclude:
  assumes "CHR ''{'' \<notin> set xs"
  shows "strstr (xs @ exclude_tag @ r) exclude_tag = Some (exclude_tag @ r)"
  using strstr_last [of "CHR ''{''" "quote ''exclude'' @ '':''" xs r] assms
  by (simp add: exclude_tag_def quote_def)

lemma policy_json_grants: "policy_json gs es =
    CHR ''{'' # grants_tag @ render_map quote True gs @ CHR ''}'' # CHR '','' # exclude_tag @
      render_map true_text True (flags es) @ ''}}''"
  by (simp add: policy_json_def grants_open_def grants_tag_def exclude_open_def exclude_tag_def)

lemma auth_check_at:
  assumes "CHR ''}'' \<notin> set G"
    and "(case strstr j grants_tag of None \<Rightarrow> j | Some r \<Rightarrow> drop 10 r) = G @ CHR ''}'' # r"
    and "exclude_start j e = x"
  shows "cookbook_auth_check j e g c \<longleftrightarrow>
    (case best_val (walk_json_map (grant_match_cb g) G \<lparr>best_val = None, best_prefix_len = 0\<rparr>) of
       None \<Rightarrow> False
     | Some v \<Rightarrow> if c \<notin> set v then False else \<not> excluded_in x g)"
  unfolding cookbook_auth_check_def Let_def assms(2,3) upto_char_here [OF assms(1)] by simp

lemma auth_check_wrapped:
  assumes gs: "\<And>k v. (k, v) \<in> set gs \<Longrightarrow> json_safe k \<and> json_safe v" "distinct (map fst gs)"
    and es: "\<And>k. k \<in> set es \<Longrightarrow> json_safe k"
  shows "cookbook_auth_check (policy_json gs es) None g c \<longleftrightarrow> policy_allows gs es g c"
proof -
  let ?G = "render_map quote True gs" and ?E = "render_map true_text True (flags es)"
  let ?rest = "CHR '','' # exclude_tag @ ?E @ ''}}''"
  have "strstr (policy_json gs es) grants_tag = Some (grants_tag @ ?G @ CHR ''}'' # ?rest)"
    unfolding policy_json_grants using strstr_here [of grants_tag "?G @ CHR ''}'' # ?rest"]
    by (subst strstr_mismatch) (simp_all add: grants_tag_def quote_def)
  then have g: "(case strstr (policy_json gs es) grants_tag of None \<Rightarrow> policy_json gs es | Some r \<Rightarrow> drop 10 r) =
      ?G @ CHR ''}'' # ?rest"
    by (simp add: grants_tag_def quote_def)
  have "strstr (policy_json gs es) exclude_tag = Some (exclude_tag @ ?E @ ''}}'')"
    unfolding policy_json_grants strstr_skip_grants
    using strstr_exclude [of "?G @ ''},''" "?E @ ''}}''"] braces_quote(1) [OF gs(1)] by simp
  then have e: "exclude_start (policy_json gs es) None = Some (?E @ CHR ''}'' # ''}'')"
    by (simp add: exclude_start_def exclude_tag_def quote_def)
  have "CHR ''}'' \<notin> set ?G" using gs(1) by (rule braces_quote(2))
  note at = auth_check_at [OF this g e, of g c]
  have x: "excluded_in (Some (?E @ CHR ''}'' # ''}'')) g = walk_json_map (exclude_match_cb g) ?E False"
    using es by (rule excluded_in_render)
  show ?thesis unfolding at x using gs es by (rule check_core)
qed

text \<open>The maps as they come out of a token: each in braces of its own.\<close>

lemma strstr_bare: "CHR ''{'' \<notin> set s \<Longrightarrow> strstr (CHR ''{'' # s) (CHR 0x22 # n @ [CHR ''{'']) = None"
  using strstr_None [of "CHR ''{''" "CHR 0x22 # n @ [CHR ''{'']" s]
  by (subst strstr_mismatch) auto

lemma auth_check_bare:
  assumes gs: "\<And>k v. (k, v) \<in> set gs \<Longrightarrow> json_safe k \<and> json_safe v" "distinct (map fst gs)"
    and es: "\<And>k. k \<in> set es \<Longrightarrow> json_safe k"
  shows "cookbook_auth_check (CHR ''{'' # render_map quote True gs @ ''}'')
           (Some (CHR ''{'' # render_map true_text True (flags es) @ ''}'')) g c \<longleftrightarrow> policy_allows gs es g c"
proof -
  let ?G = "render_map quote True gs" and ?E = "render_map true_text True (flags es)"
  have nob: "CHR ''{'' \<notin> set (?G @ ''}'')" "CHR ''{'' \<notin> set (?E @ ''}'')"
    using braces_quote(1) [OF gs(1)] braces_flags(1) [OF es] by auto
  have g: "strstr (CHR ''{'' # ?G @ ''}'') grants_tag = None"
    using strstr_bare [OF nob(1), of "''grants'' @ [CHR 0x22] @ '':''"] by (simp add: grants_tag_def quote_def)
  have "strstr (CHR ''{'' # ?E @ ''}'') exclude_tag = None"
    using strstr_bare [OF nob(2), of "''exclude'' @ [CHR 0x22] @ '':''"] by (simp add: exclude_tag_def quote_def)
  then have e: "exclude_start j (Some (CHR ''{'' # ?E @ ''}'')) = Some (?E @ CHR ''}'' # [])" for j
    by (simp add: exclude_start_def strchr_def)
  have w: "walk_json_map fn (CHR ''{'' # ?G) st = walk_json_map fn ?G st" for fn :: "string \<Rightarrow> string \<Rightarrow> 'z \<Rightarrow> bool \<times> 'z" and st
    by (simp add: walk_json_map.simps [of _ "CHR ''{'' # ?G"] walk_json_map.simps [of _ ?G] read_key_def quoted_def)
  have nobr: "CHR ''}'' \<notin> set (CHR ''{'' # ?G)" using braces_quote(2) [of gs True] gs(1) by simp
  have start: "(case strstr (CHR ''{'' # ?G @ ''}'') grants_tag of None \<Rightarrow> CHR ''{'' # ?G @ ''}'' | Some r \<Rightarrow> drop 10 r) =
      (CHR ''{'' # ?G) @ CHR ''}'' # []"
    unfolding g by simp
  note at = auth_check_at [OF nobr start e, of g c]
  have x: "excluded_in (Some (?E @ CHR ''}'' # [])) g = walk_json_map (exclude_match_cb g) ?E False"
    using es by (rule excluded_in_render)
  show ?thesis unfolding at x w using gs es by (rule check_core)
qed

section \<open>The serializer\<close>

definition string_grants :: "(string \<times> pasta_value) list \<Rightarrow> (string \<times> string) list" where
  "string_grants gs = map (\<lambda>(k, v). (k, grant_value v)) gs"

lemma grow_exact: "cbuf_exact s b \<Longrightarrow> cbuf_exact s (grow need b) \<and> length s + need < cb_cap (grow need b)"
  by (auto simp: grow_def cbuf_exact_def)

text \<open>Appending two pieces after growing by more than their lengths.\<close>

lemma put_entry_exact:
  assumes "cbuf_exact s b" "length t + 1 \<le> need"
  shows "\<exists>b'. do { b \<leftarrow> put_comma first (grow need b); snprintf_at t b } = Some b' \<and>
     cbuf_exact (s @ (if first then [] else '','') @ t) b'"
proof (cases first)
  case True
  then show ?thesis
    using snprintf_at_exact [of s "grow need b" t] grow_exact [OF assms(1), of need] assms(2)
    by (auto simp: put_comma_def)
next
  case False
  obtain b1 where b1: "snprintf_at '','' (grow need b) = Some b1" "cbuf_exact (s @ '','') b1"
    "cb_cap b1 = cb_cap (grow need b)"
    using snprintf_at_exact [of s "grow need b" "'',''"] grow_exact [OF assms(1), of need] assms(2) by auto
  with snprintf_at_exact [of "s @ '',''" b1 t] grow_exact [OF assms(1), of need] assms(2) False
  show ?thesis by (auto simp: put_comma_def)
qed

lemma bind_Some_exact:
  assumes "\<exists>b'. m = Some b' \<and> P b'" "\<And>b'. P b' \<Longrightarrow> \<exists>b''. f b' = Some b'' \<and> Q b''"
  shows "\<exists>b''. Option.bind m f = Some b'' \<and> Q b''"
  using assms by auto

lemma put_grants_exact:
  "cbuf_exact s b \<Longrightarrow>
   \<exists>b'. put_grants first gs b = Some b' \<and> cbuf_exact (s @ render_map quote first (string_grants gs)) b'"
proof (induction first gs b arbitrary: s rule: put_grants.induct)
  case (2 first key val gs b)
  let ?t = "quote key @ '':'' @ quote (grant_value val)"
  obtain b1 where b1: "do { b \<leftarrow> put_comma first (grow (length key + length (grant_value val) + 16) b); snprintf_at ?t b } = Some b1"
    "cbuf_exact (s @ (if first then [] else '','') @ ?t) b1"
    using put_entry_exact [OF "2.prems", of ?t "length key + length (grant_value val) + 16" first]
    by (auto simp: quote_def)
  then obtain b0 where b0: "put_comma first (grow (length key + length (grant_value val) + 16) b) = Some b0"
    "snprintf_at ?t b0 = Some b1" by (auto split: Option.bind_splits)
  have "\<exists>b'. put_grants False gs b1 = Some b' \<and>
      cbuf_exact ((s @ (if first then [] else '','') @ ?t) @ render_map quote False (string_grants gs)) b'"
    by (rule "2.IH" [OF refl b0 b1(2)])
  then show ?case using b0 by (simp add: string_grants_def)
qed (simp add: string_grants_def)

lemma put_excludes_exact:
  "cbuf_exact s b \<Longrightarrow>
   \<exists>b'. put_excludes first es b = Some b' \<and>
     cbuf_exact (s @ render_map true_text first (flags (map fst es))) b'"
proof (induction first es b arbitrary: s rule: put_excludes.induct)
  case (2 first key val es b)
  let ?t = "quote key @ '':true''"
  obtain b1 where b1: "do { b \<leftarrow> put_comma first (grow (length key + 16) b); snprintf_at ?t b } = Some b1"
    "cbuf_exact (s @ (if first then [] else '','') @ ?t) b1"
    using put_entry_exact [OF "2.prems", of ?t "length key + 16" first] by (auto simp: quote_def)
  then obtain b0 where b0: "put_comma first (grow (length key + 16) b) = Some b0"
    "snprintf_at ?t b0 = Some b1" by (auto split: Option.bind_splits)
  have "\<exists>b'. put_excludes False es b1 = Some b' \<and>
      cbuf_exact ((s @ (if first then [] else '','') @ ?t) @ render_map true_text False (flags (map fst es))) b'"
    by (rule "2.IH" [OF b0 b1(2)])
  then show ?case using b0 by (cases first) (simp_all add: flags_def true_text_def [abs_def])
qed (simp add: flags_def)

text \<open>
  The opening of the exclude map is written without growing the buffer first: it fits when
  the grants leave 14 bytes.
\<close>

definition grants_part :: "pasta_value \<Rightarrow> cbuf option" where
  "grants_part resolved = do {
     b \<leftarrow> snprintf_at grants_open (cbuf_new 256);
     put_grants True (map_entries (tpasta_map_get resolved ''grants'')) b
   }"

definition serialize_fits :: "pasta_value \<Rightarrow> bool" where
  "serialize_fits resolved \<longleftrightarrow>
     (case grants_part resolved of None \<Rightarrow> False | Some b \<Rightarrow> cb_pos b + 13 < cb_cap b)"

definition expected_json :: "pasta_value \<Rightarrow> string" where
  "expected_json resolved =
     policy_json (string_grants (map_entries (tpasta_map_get resolved ''grants'')))
       (map fst (map_entries (tpasta_map_get resolved ''exclude'')))"

lemma serialize_exact:
  assumes "tpasta_type resolved = PASTA_MAP" "serialize_fits resolved"
  shows "serialize_grants_json resolved = Some (expected_json resolved)"
proof -
  let ?gs = "map_entries (tpasta_map_get resolved ''grants'')"
  let ?es = "map_entries (tpasta_map_get resolved ''exclude'')"
  let ?G = "grants_open @ render_map quote True (string_grants ?gs)"
  let ?E = "?G @ exclude_open @ render_map true_text True (flags (map fst ?es))"
  have l: "length grants_open = 11" "length exclude_open = 13"
    by (simp_all add: grants_open_def exclude_open_def quote_def)
  obtain b1 where b1: "snprintf_at grants_open (cbuf_new 256) = Some b1" "cbuf_exact grants_open b1"
    using snprintf_at_exact [of "[]" "cbuf_new 256" grants_open] by (auto simp: l cbuf_new_def cbuf_exact_def)
  obtain b2 where b2: "put_grants True ?gs b1 = Some b2" "cbuf_exact ?G b2"
    using put_grants_exact [OF b1(2), of True ?gs] by auto
  have "cb_pos b2 + 13 < cb_cap b2" using assms(2) b1 b2 by (simp add: serialize_fits_def grants_part_def)
  then obtain b3 where b3: "snprintf_at exclude_open b2 = Some b3" "cbuf_exact (?G @ exclude_open) b3"
    using snprintf_at_exact [OF b2(2), of exclude_open] b2(2) by (auto simp: l cbuf_exact_def)
  obtain b4 where b4: "put_excludes True ?es b3 = Some b4" "cbuf_exact ?E b4"
    using put_excludes_exact [OF b3(2), of True ?es] by auto
  let ?b5 = "if cb_pos b4 + 4 \<ge> cb_cap b4 then b4\<lparr>cb_cap := cb_cap b4 + 16\<rparr> else b4"
  have "cbuf_exact ?E ?b5" "length ?E + 2 < cb_cap ?b5" using b4(2) by (auto simp: cbuf_exact_def)
  then obtain b6 where "snprintf_at ''}}'' ?b5 = Some b6" "cbuf_exact (?E @ ''}}'') b6"
    using snprintf_at_exact [of ?E ?b5 "''}}''"] by auto
  with assms(1) b1(1) b2(1) b3(1) b4(1) show ?thesis
    by (simp add: serialize_grants_json_def cbuf_exact_def expected_json_def policy_json_def)
qed

section \<open>No write out of bounds\<close>

text \<open>
  Also when text was cut: the next growth happens before the position is used again. The
  slack is what may have been written past the capacity since the last growth.
\<close>

definition slack :: "nat \<Rightarrow> cbuf \<Rightarrow> bool" where
  "slack n b \<longleftrightarrow> 256 \<le> cb_cap b \<and> cb_pos b \<le> cb_cap b + n"

lemma snprintf_at_slack:
  assumes "slack 0 b"
  obtains b' where "snprintf_at t b = Some b'" "slack (length t) b'" "cb_pos b' = cb_pos b + length t"
    "cb_cap b' = cb_cap b"
  using assms by (auto simp: snprintf_at_def slack_def)

lemma slack_exact: "cbuf_exact s b \<Longrightarrow> 256 \<le> cb_cap b \<Longrightarrow> slack 0 b"
  by (simp add: slack_def cbuf_exact_def)

lemma grow_slack:
  assumes "slack n b" "n < 256"
  shows "256 \<le> cb_cap (grow need b)" "cb_pos (grow need b) + need < cb_cap (grow need b)"
  using assms by (auto simp: grow_def slack_def)

lemma put_entry_slack:
  assumes "slack n b" "n < 256" "length t + 1 \<le> need"
  obtains b0 b1 where "put_comma first (grow need b) = Some b0" "snprintf_at t b0 = Some b1" "slack 0 b1"
  using grow_slack [OF assms(1,2), of need] assms(3)
  by (cases first) (auto simp: put_comma_def snprintf_at_def slack_def)

lemma put_excludes_slack: "slack n b \<Longrightarrow> n < 256 \<Longrightarrow> es = [] \<and> n = m \<or> m = 0 \<Longrightarrow>
  \<exists>b'. put_excludes first es b = Some b' \<and> (es \<noteq> [] \<longrightarrow> slack 0 b') \<and> (es = [] \<longrightarrow> b' = b)"
proof (induction first es b arbitrary: n m rule: put_excludes.induct)
  case (2 first key val es b)
  let ?t = "quote key @ '':true''"
  obtain b0 b1 where b: "put_comma first (grow (length key + 16) b) = Some b0"
    "snprintf_at ?t b0 = Some b1" "slack 0 b1"
    by (rule put_entry_slack [OF "2.prems"(1,2), of ?t "length key + 16" first]) (simp add: quote_def)
  with "2.IH" [OF b(1,2), of 0 0] show ?case by (cases "es = []") auto
qed simp

definition roomy :: "cbuf \<Rightarrow> bool" where
  "roomy b \<longleftrightarrow> 256 \<le> cb_cap b \<and> cb_pos b + 18 < cb_cap b"

lemma put_keys_roomy: "slack n b \<Longrightarrow> n < 256 \<Longrightarrow> length tag = 4 \<Longrightarrow> roomy b \<or> ks \<noteq> [] \<Longrightarrow>
  \<exists>b'. put_keys tag ks b = Some b' \<and> roomy b'"
proof (induction tag ks b arbitrary: n rule: put_keys.induct)
  case (2 tag k ks b)
  let ?t = "'','' @ nl @ ''  '' @ quote k @ '': '' @ quote tag"
  have l: "length ?t = length k + 14" using "2.prems"(3) by (simp add: nl_def quote_def)
  with grow_slack [OF "2.prems"(1,2), of "length k + 32"]
  obtain b1 where b: "snprintf_at ?t (grow (length k + 32) b) = Some b1" "roomy b1"
    by (auto simp: snprintf_at_def roomy_def)
  then have "slack 0 b1" by (simp add: roomy_def slack_def)
  with "2.IH" [OF b(1), of 0] "2.prems"(3) b show ?case by auto
qed simp

lemma snprintf_cap: "snprintf_at t b = Some b' \<Longrightarrow> cb_cap b' = cb_cap b"
  by (auto simp: snprintf_at_def split: if_splits)

lemma put_comma_cap: "put_comma first b = Some b' \<Longrightarrow> cb_cap b' = cb_cap b"
  by (auto simp: put_comma_def snprintf_cap split: if_splits)

lemma put_grants_cap: "put_grants first gs b = Some b' \<Longrightarrow> cb_cap b \<le> cb_cap b'"
proof (induction first gs b arbitrary: b' rule: put_grants.induct)
  case (2 first key val gs b)
  let ?g = "grow (length key + length (grant_value val) + 16) b"
  from "2.prems" obtain b0 b1 where b: "put_comma first ?g = Some b0"
    "snprintf_at (quote key @ '':'' @ quote (grant_value val)) b0 = Some b1" "put_grants False gs b1 = Some b'"
    by (auto simp: Let_def split: Option.bind_splits)
  have "cb_cap b \<le> cb_cap ?g" by (simp add: grow_def)
  also have "\<dots> = cb_cap b1" using b by (simp add: put_comma_cap snprintf_cap)
  also have "\<dots> \<le> cb_cap b'" by (rule "2.IH" [OF refl b])
  finally show ?case .
qed simp

lemma serialize_total:
  assumes "tpasta_type resolved = PASTA_MAP"
  shows "serialize_grants_json resolved \<noteq> None"
proof -
  let ?gs = "map_entries (tpasta_map_get resolved ''grants'')"
  let ?es = "map_entries (tpasta_map_get resolved ''exclude'')"
  have l: "length grants_open = 11" "length exclude_open = 13"
    by (simp_all add: grants_open_def exclude_open_def quote_def)
  obtain b1 where b1: "snprintf_at grants_open (cbuf_new 256) = Some b1" "cbuf_exact grants_open b1" "cb_cap b1 = 256"
    using snprintf_at_exact [of "[]" "cbuf_new 256" grants_open] by (auto simp: l cbuf_new_def cbuf_exact_def)
  obtain b2 where b2: "put_grants True ?gs b1 = Some b2" "slack 0 b2"
    using put_grants_exact [OF b1(2), of True ?gs] put_grants_cap [of True ?gs b1] b1(3) by (metis slack_exact)
  obtain b3 where b3: "snprintf_at exclude_open b2 = Some b3" "slack 13 b3"
    using snprintf_at_slack [OF b2(2), of exclude_open] by (metis l(2))
  obtain b4 where b4: "put_excludes True ?es b3 = Some b4" "slack 13 b4"
    using put_excludes_slack [OF b3(2), of ?es 0 True] b3(2) by (auto simp: slack_def)
  let ?b5 = "if cb_pos b4 + 4 \<ge> cb_cap b4 then b4\<lparr>cb_cap := cb_cap b4 + 16\<rparr> else b4"
  have "slack 0 ?b5" using b4(2) by (simp add: slack_def)
  then obtain b6 where "snprintf_at ''}}'' ?b5 = Some b6" by (rule snprintf_at_slack)
  then show ?thesis
    using assms b1(1) b2(1) b3(1) b4(1) by (simp add: serialize_grants_json_def)
qed

lemma recipe_total: "build_recipe gks eks \<noteq> None"
proof -
  let ?h = "section_head ''grants'' ''collect''" and ?x = "section_head ''exclude'' ''replace''" and ?c = "nl @ ''}'' @ nl"
  have l: "length ?h = 52" "length ?x = 54" "length ?c = 3"
    by (simp_all add: section_head_def nl_def quote_def)
  have roomy_slack: "roomy b \<Longrightarrow> slack 0 b" for b by (simp add: roomy_def slack_def)
  have close: "\<exists>b'. snprintf_at ?c b = Some b' \<and> slack 0 b'" if "roomy b" for b
    using that by (auto simp: snprintf_at_def roomy_def slack_def nl_def)
  obtain b1 where b1: "snprintf_at ?h (cbuf_new 512) = Some b1" "roomy b1"
    by (auto simp: snprintf_at_def cbuf_new_def roomy_def l)
  obtain b2 where b2: "put_keys ''perm'' gks b1 = Some b2" "roomy b2"
    using put_keys_roomy [OF roomy_slack [OF b1(2)], of "''perm''" gks] b1(2) by auto
  obtain b3 where b3: "snprintf_at ?c b2 = Some b3" "slack 0 b3" using close [OF b2(2)] by blast
  obtain b4 where b4: "snprintf_at ?x b3 = Some b4" "slack 54 b4"
    using snprintf_at_slack [OF b3(2), of ?x] by (metis l(2))
  show ?thesis
  proof (cases "eks = []")
    case True
    with b1(1) b2(1) b3(1) show ?thesis by (simp add: build_recipe_def)
  next
    case False
    obtain b5 where b5: "put_keys ''flag'' eks b4 = Some b5" "roomy b5"
      using put_keys_roomy [OF b4(2), of "''flag''" eks] False by auto
    obtain b6 where "snprintf_at ?c b5 = Some b6" using close [OF b5(2)] by blast
    with b1(1) b2(1) b3(1) b4(1) b5(1) False show ?thesis by (simp add: build_recipe_def)
  qed
qed

section \<open>Recipe keys and storage\<close>

lemma add_key_inv: "distinct ks \<Longrightarrow> length ks \<le> 256 \<Longrightarrow> distinct (add_key ks k) \<and> length (add_key ks k) \<le> 256"
  by (auto simp: add_key_def)

lemma foldl_add_key_inv:
  "distinct ks \<Longrightarrow> length ks \<le> 256 \<Longrightarrow>
   distinct (foldl add_key ks xs) \<and> length (foldl add_key ks xs) \<le> 256 \<and>
   set ks \<subseteq> set (foldl add_key ks xs) \<and> set (foldl add_key ks xs) \<subseteq> set ks \<union> set xs \<and>
   (length (foldl add_key ks xs) < 256 \<longrightarrow> set xs \<subseteq> set (foldl add_key ks xs))"
proof (induction xs arbitrary: ks)
  case (Cons x xs)
  have "set ks \<subseteq> set (add_key ks x)" "set (add_key ks x) \<subseteq> insert x (set ks)"
    "length (add_key ks x) < 256 \<Longrightarrow> x \<in> set (add_key ks x)"
    by (auto simp: add_key_def)
  moreover have "length (add_key ks x) \<le> length (foldl add_key (add_key ks x) xs)"
    using Cons.IH [of "add_key ks x"] add_key_inv [OF Cons.prems]
    by (metis card_mono distinct_card finite_set)
  ultimately show ?case using Cons.IH [of "add_key ks x"] add_key_inv [OF Cons.prems] by auto
qed simp

definition keys_in :: "(string \<Rightarrow> pasta_value option) \<Rightarrow> string \<Rightarrow> string \<Rightarrow> string list" where
  "keys_in parse sec text =
     (case parse text of None \<Rightarrow> [] | Some tree \<Rightarrow> map fst (map_entries (tpasta_map_get tree sec)))"

lemma section_keys_concat: "section_keys parse sec inputs = foldl add_key [] (concat (map (keys_in parse sec) inputs))"
proof -
  have "foldl (\<lambda>keys text. case parse text of None \<Rightarrow> keys
      | Some tree \<Rightarrow> foldl add_key keys (map fst (map_entries (tpasta_map_get tree sec)))) ks inputs =
    foldl add_key ks (concat (map (keys_in parse sec) inputs))" for ks
    by (induction inputs arbitrary: ks) (auto simp: keys_in_def split: option.splits)
  then show ?thesis by (simp add: section_keys_def)
qed

section \<open>Properties\<close>

text \<open>
  C7. The check on a serialized policy grants an operation exactly when the policy does: the
  most specific grant that governs the group contains the operation (the grant for everything
  only when no other governs it) and no exclude key governs the group. Serialization always
  succeeds on a map, and is exact when the grants leave room for the next piece of text.
\<close>

theorem serialized_policy_check:
  assumes "resolved = PMap doc" "serialize_fits resolved"
    and "gs = string_grants (map_entries (map_of doc ''grants''))" "distinct (map fst gs)"
    and "es = map fst (map_entries (map_of doc ''exclude''))"
    and "\<forall>(k, v) \<in> set gs. json_safe k \<and> json_safe v" "\<forall>k \<in> set es. json_safe k"
  shows "\<exists>j. serialize_grants_json resolved = Some j \<and>
             (cookbook_auth_check j None group_id c \<longleftrightarrow> policy_allows gs es group_id c)"
proof -
  have "serialize_grants_json resolved = Some (policy_json gs es)"
    using serialize_exact [of resolved] assms(1-3,5) by (simp add: expected_json_def)
  moreover have "cookbook_auth_check (policy_json gs es) None group_id c \<longleftrightarrow> policy_allows gs es group_id c"
    using assms(4,6,7) by (intro auth_check_wrapped) auto
  ultimately show ?thesis by blast
qed

definition sample_policy :: "(string \<times> pasta_value) list" where
  "sample_policy = [(''grants'', PMap [(''org'', PString ''r''), (''org.acme'', PArray [PString ''rw'', PString ''c''])]),
                    (''exclude'', PMap [(''org.acme.secret'', PBool True)])]"

theorem serialized_policy_check_witness:
  "\<exists>j. serialize_grants_json (PMap sample_policy) = Some j \<and>
       (cookbook_auth_check j None ''org.acme.web'' (CHR ''c'') \<longleftrightarrow>
        policy_allows [(''org'', ''r''), (''org.acme'', ''rwc'')] [''org.acme.secret''] ''org.acme.web'' (CHR ''c''))"
  by (rule serialized_policy_check [OF refl]; code_simp)

text \<open>
  The check on the two maps a token carries, each in its own braces, decides the same
  policy.
\<close>

theorem token_policy_check:
  assumes "\<forall>(k, v) \<in> set gs. json_safe k \<and> json_safe v" "distinct (map fst gs)" "\<forall>k \<in> set es. json_safe k"
  shows "cookbook_auth_check (''{'' @ render_map quote True gs @ ''}'')
           (Some (''{'' @ render_map true_text True (flags es) @ ''}'')) group_id c
         \<longleftrightarrow> policy_allows gs es group_id c"
  using auth_check_bare [of gs es group_id c] assms by fastforce

theorem token_policy_check_witness:
  "cookbook_auth_check (''{'' @ render_map quote True [(''*'', ''r''), (''org.acme'', ''cw'')] @ ''}'')
     (Some (''{'' @ render_map true_text True (flags [''org.acme.secret'']) @ ''}'')) ''org.acme.secret.x'' (CHR ''c'')
   \<longleftrightarrow> policy_allows [(''*'', ''r''), (''org.acme'', ''cw'')] [''org.acme.secret''] ''org.acme.secret.x'' (CHR ''c'')"
  by (rule token_policy_check; code_simp)

text \<open>
  No serialization and no recipe is written out of the bounds of its buffer, also when
  some of the text has been cut.
\<close>

theorem policy_buffers_safe:
  "(serialize_grants_json v = None \<longleftrightarrow> tpasta_type v \<noteq> PASTA_MAP) \<and>
   (\<exists>recipe. build_recipe grant_keys exclude_keys = Some recipe)"
  using serialize_total [of v] recipe_total [of grant_keys exclude_keys]
  by (auto simp: serialize_grants_json_def)

text \<open>
  When the grants end 11 to 13 bytes before the end of the buffer, the opening of the
  exclude map is cut and all excludes are lost: there is a policy that excludes a group and
  whose serialization allows the operation.
\<close>

theorem excludes_lost:
  "\<exists>doc j g. serialize_grants_json (PMap doc) = Some j \<and>
     cookbook_auth_check j None g (CHR ''w'') \<and>
     \<not> policy_allows (string_grants (map_entries (map_of doc ''grants'')))
         (map fst (map_entries (map_of doc ''exclude''))) g (CHR ''w'')"
proof -
  let ?g = "replicate 224 (CHR ''a'')"
  let ?doc = "[(''grants'', PMap [(?g, PString ''crwd'')]), (''exclude'', PMap [(?g, PBool True)])]"
  let ?j = "grants_open @ quote ?g @ '':'' @ quote ''crwd'' @ take 11 exclude_open"
  have "serialize_grants_json (PMap ?doc) = Some ?j" by code_simp
  moreover have "cookbook_auth_check ?j None ?g (CHR ''w'')" by code_simp
  moreover have "\<not> policy_allows (string_grants (map_entries (map_of ?doc ''grants'')))
         (map fst (map_entries (map_of ?doc ''exclude''))) ?g (CHR ''w'')"
    by (simp add: policy_allows_def governs_def map_entries_def)
  ultimately show ?thesis by blast
qed

text \<open>
  The keys of the recipe are those of all documents scanned, each once; keys are dropped
  only when 256 different ones have been found.
\<close>

theorem recipe_keys_complete:
  "distinct (section_keys parse sec inputs) \<and> length (section_keys parse sec inputs) \<le> 256 \<and>
   set (section_keys parse sec inputs) \<subseteq> (\<Union>text \<in> set inputs. set (keys_in parse sec text)) \<and>
   (length (section_keys parse sec inputs) < 256 \<longrightarrow>
      (\<Union>text \<in> set inputs. set (keys_in parse sec text)) \<subseteq> set (section_keys parse sec inputs))"
  using foldl_add_key_inv [of "[]" "concat (map (keys_in parse sec) inputs)"]
  unfolding section_keys_concat by simp

theorem recipe_keys_complete_witness:
  "{''a'', ''b''} \<subseteq> set (section_keys (\<lambda>t. Some (PMap [(''grants'', PMap [(t, PNull)])])) ''grants'' [''a'', ''b'', ''a''])"
  using recipe_keys_complete [of "\<lambda>t. Some (PMap [(''grants'', PMap [(t, PNull)])])" "''grants''" "[''a'', ''b'', ''a'']"]
  by (simp add: section_keys_def add_key_def map_entries_def keys_in_def)

text \<open>
  A stored policy is read back, replaces the one stored before for the subject and leaves
  those of other subjects alone.
\<close>

theorem policy_put_get:
  assumes "cookbook_policy_put now subject kind pastlet db = (True, db')" "db_faults db' = []"
  shows "fst (cookbook_policy_get s db') =
           (if s = subject then Some pastlet else fst (cookbook_policy_get s (db\<lparr>db_faults := []\<rparr>)))"
  using assms
  by (auto dest: db_next_eqD(2) simp: cookbook_policy_put_def cookbook_policy_get_def db_exec_def db_query_def Let_def
      row_replace_lookup last_option_def split: if_splits prod.splits)

theorem policy_put_get_witness:
  "fst (cookbook_policy_get ''bob'' (snd (cookbook_policy_put ''t'' ''bob'' ''user'' ''doc'' db_empty))) = Some ''doc''"
  using policy_put_get [of "''t''" "''bob''" "''user''" "''doc''" db_empty
      "snd (cookbook_policy_put ''t'' ''bob'' ''user'' ''doc'' db_empty)" "''bob''"]
  by (simp add: cookbook_policy_put_def db_exec_def db_empty_def)

end
