(* ===== verification/Jwt.thy ===== *)
theory Jwt
  imports Base64 Policy
begin

text \<open>
  Tokens: the rest of \<^verbatim>\<open>src/src/main/c/cookbook_auth.c\<close> (credentials, the revocation list,
  token identifiers, JSON helpers, creation and verification of tokens of version 1 and 2).

  Signing, verification, the password hash and the entropy source are parameters
  (\<open>ed_sign\<close>, \<open>ed_verify\<close>, \<open>argon_hash\<close>, \<open>argon_verify\<close>, \<open>entropy\<close>), as are the clock
  (\<open>now\<close>) and the address that enters the seed of a token identifier.
\<close>

section \<open>Bytes and characters\<close>

definition bytes_of :: "string \<Rightarrow> byte list" where
  "bytes_of s = map (\<lambda>c. of_nat (of_char c)) s"

definition string_of :: "byte list \<Rightarrow> string" where
  "string_of b = map (\<lambda>x. char_of (unat x)) b"

text \<open>A byte array read as a C string ends at the first zero byte.\<close>

definition c_string :: "byte list \<Rightarrow> string" where
  "c_string b = takeWhile (\<lambda>c. c \<noteq> CHR 0x00) (string_of b)"

lemma string_of_bytes_of [simp]: "string_of (bytes_of s) = s"
proof -
  have "char_of (unat (of_nat (of_char c) :: byte)) = c" for c :: char
  proof -
    have "(of_char c :: nat) < 256" by simp
    then have "unat (of_nat (of_char c) :: byte) = of_char c" by (simp add: unat_of_nat)
    then show ?thesis by simp
  qed
  then show ?thesis by (simp add: string_of_def bytes_of_def map_idI)
qed

lemma length_bytes_of [simp]: "length (bytes_of s) = length s"
  by (simp add: bytes_of_def)

lemma c_string_bytes_of: "CHR 0x00 \<notin> set s \<Longrightarrow> c_string (bytes_of s) = s"
  by (auto simp: c_string_def takeWhile_eq_all_conv)

section \<open>Credentials\<close>

definition cookbook_credential_hash ::
  "(nat \<Rightarrow> byte list option) \<Rightarrow> (byte list \<Rightarrow> byte list \<Rightarrow> string option) \<Rightarrow> string \<Rightarrow> string option" where
  "cookbook_credential_hash entropy argon_hash token = do {
     salt \<leftarrow> entropy 16;
     argon_hash (bytes_of token) salt
   }"

definition cookbook_credential_verify ::
  "(string \<Rightarrow> byte list \<Rightarrow> bool option) \<Rightarrow> string \<Rightarrow> string \<Rightarrow> bool" where
  "cookbook_credential_verify argon_verify token hash =
     (case argon_verify hash (bytes_of token) of None \<Rightarrow> False | Some ok \<Rightarrow> ok)"

section \<open>The revocation list\<close>

record cookbook_revocation_entry =
  re_jti :: string
  re_exp :: int

record cookbook_revocation_list =
  rl_entries :: "cookbook_revocation_entry list"
  rl_capacity :: nat

definition cookbook_revocation_init :: "nat \<Rightarrow> cookbook_revocation_list" where
  "cookbook_revocation_init capacity = \<lparr>rl_entries = [], rl_capacity = capacity\<rparr>"

text \<open>The live entries are moved to the front of the array.\<close>

definition entry_live :: "int \<Rightarrow> cookbook_revocation_entry \<Rightarrow> bool" where
  "entry_live now e \<longleftrightarrow> re_exp e > now"

definition revocation_prune :: "int \<Rightarrow> cookbook_revocation_list \<Rightarrow> cookbook_revocation_list" where
  "revocation_prune now rl = rl\<lparr>rl_entries := compact (entry_live now) (rl_entries rl)\<rparr>"

definition cookbook_revocation_add ::
  "int \<Rightarrow> string \<Rightarrow> int \<Rightarrow> cookbook_revocation_list \<Rightarrow> bool \<times> cookbook_revocation_list" where
  "cookbook_revocation_add now jti exp rl =
     (let rl = revocation_prune now rl
      in if jti \<in> re_jti ` set (rl_entries rl) then (True, rl)
         else if length (rl_entries rl) \<ge> rl_capacity rl then (False, rl)
         else (True, rl\<lparr>rl_entries := rl_entries rl @ [\<lparr>re_jti = bounded 64 jti, re_exp = exp\<rparr>]\<rparr>))"

definition cookbook_revocation_check :: "cookbook_revocation_list \<Rightarrow> string \<Rightarrow> bool" where
  "cookbook_revocation_check rl jti \<longleftrightarrow> jti \<in> re_jti ` set (rl_entries rl)"

section \<open>Token identifiers\<close>

text \<open>A linear congruential generator seeded with the time, a counter and an address.\<close>

definition lcg :: "u64 \<Rightarrow> u64" where
  "lcg seed = seed * 6364136223846793005 + 1442695040888963407"

fun lcg_bytes :: "nat \<Rightarrow> u64 \<Rightarrow> byte list" where
  "lcg_bytes 0 seed = []"
| "lcg_bytes (Suc n) seed = (let s = lcg seed in ucast (drop_bit 33 s) # lcg_bytes n s)"

definition hex_digit :: "nat \<Rightarrow> char" where
  "hex_digit n = ''0123456789abcdef'' ! n"

definition hex2 :: "byte \<Rightarrow> string" where
  "hex2 b = [hex_digit (unat b div 16), hex_digit (unat b mod 16)]"

text \<open>The 16 bytes are written while two characters and the terminator fit.\<close>

definition generate_jti :: "u64 \<Rightarrow> u64 \<Rightarrow> u64 \<Rightarrow> nat \<Rightarrow> string" where
  "generate_jti now cnt addr jti_sz =
     concat (map hex2 (take ((jti_sz - 1) div 2) (lcg_bytes 16 (xor (xor now (cnt * 2654435761)) addr))))"

section \<open>JSON helpers\<close>

definition json_string_field :: "string \<Rightarrow> string \<Rightarrow> bool \<Rightarrow> string" where
  "json_string_field key val first = (if first then [] else '','') @ quote key @ '':'' @ quote val"

definition json_int_field :: "string \<Rightarrow> int \<Rightarrow> bool \<Rightarrow> string" where
  "json_int_field key val first = (if first then [] else '','') @ quote key @ '':'' @ show_int val"

text \<open>The pattern a field is searched by, cut to 255 characters.\<close>

definition key_pattern :: "string \<Rightarrow> string \<Rightarrow> string" where
  "key_pattern key sep = bounded 256 (quote key @ sep)"

definition json_get_string :: "string \<Rightarrow> string \<Rightarrow> nat \<Rightarrow> string option" where
  "json_get_string json key out_sz = do {
     let pattern = key_pattern key ('':'' @ [CHR 0x22]);
     start \<leftarrow> strstr json pattern;
     let start = drop (length pattern) start;
     e \<leftarrow> strchr start (CHR 0x22);
     Some (take (out_sz - 1) (takeWhile (\<lambda>c. c \<noteq> CHR 0x22) start))
   }"

definition json_get_int :: "string \<Rightarrow> string \<Rightarrow> int option" where
  "json_get_int json key = do {
     let pattern = key_pattern key '':'';
     start \<leftarrow> strstr json pattern;
     Some (fst (strtol (drop (length pattern) start)))
   }"

text \<open>From an opening brace to the one that closes it, or to the end.\<close>

fun scan_object :: "int \<Rightarrow> string \<Rightarrow> string" where
  "scan_object depth [] = []"
| "scan_object depth (c # cs) =
     (let d = (if c = CHR ''{'' then depth + 1 else if c = CHR ''}'' then depth - 1 else depth)
      in if d > 0 then c # scan_object d cs else [c])"

definition json_extract_object :: "string \<Rightarrow> string \<Rightarrow> string option" where
  "json_extract_object json key = do {
     let pattern = key_pattern key '':{'';
     start \<leftarrow> strstr json pattern;
     Some (scan_object 0 (drop (length pattern - 1) start))
   }"

section \<open>Creating tokens\<close>

definition JWT_HEADER :: string where
  "JWT_HEADER = ''{'' @ quote ''alg'' @ '':'' @ quote ''EdDSA'' @ '','' @ quote ''typ'' @ '':'' @ quote ''JWT'' @ ''}''"

text \<open>A creation returns the token, a null pointer, or writes out of bounds.\<close>

datatype jwt_error = JWT_OUT_OF_BOUNDS | JWT_NULL

fun put_all :: "string list \<Rightarrow> cbuf \<Rightarrow> cbuf option" where
  "put_all [] b = Some b"
| "put_all (t # ts) b = do { b \<leftarrow> snprintf_at t b; put_all ts b }"

text \<open>The optional groups field.\<close>

definition groups_field :: "string option \<Rightarrow> string list" where
  "groups_field groups =
     (case groups of Some g \<Rightarrow> (if g \<noteq> [] then [json_string_field ''groups'' g False] else []) | None \<Rightarrow> [])"

definition payload_v1 :: "string \<Rightarrow> string option \<Rightarrow> string \<Rightarrow> int \<Rightarrow> int \<Rightarrow> string list" where
  "payload_v1 sub groups jti now exp =
     [''{'', json_string_field ''sub'' sub True] @ groups_field groups @
     [json_string_field ''jti'' jti False, json_int_field ''iat'' now False,
      json_int_field ''exp'' exp False, ''}'']"

text \<open>Encoding, signing and assembling, with the sizes of the buffers for the payload.\<close>

definition assemble_token :: "(byte list \<Rightarrow> byte list option) \<Rightarrow> nat \<Rightarrow> string \<Rightarrow> jwt_error + string" where
  "assemble_token ed_sign pay_cap payload =
     (let hdr_b64 = cookbook_base64url_encode (bytes_of JWT_HEADER) 256;
          pay_b64 = cookbook_base64url_encode (bytes_of payload) pay_cap
      in if hdr_b64 = [] \<or> pay_b64 = [] then Inl JWT_NULL
         else
           (let signing_input = hdr_b64 @ ''.'' @ pay_b64
            in case ed_sign (bytes_of signing_input) of
                 None \<Rightarrow> Inl JWT_NULL
               | Some sig \<Rightarrow>
                   (let sig_b64 = cookbook_base64url_encode sig 128
                    in if sig_b64 = [] then Inl JWT_NULL
                       else Inr (signing_input @ ''.'' @ sig_b64))))"

definition cookbook_jwt_create ::
  "(byte list \<Rightarrow> byte list option) \<Rightarrow> int \<Rightarrow> string \<Rightarrow> string \<Rightarrow> string option \<Rightarrow> int \<Rightarrow> jwt_error + string" where
  "cookbook_jwt_create ed_sign now jti sub groups ttl_sec =
     (case put_all (payload_v1 sub groups jti now (now + ttl_sec)) (cbuf_new 2048) of
        None \<Rightarrow> Inl JWT_OUT_OF_BOUNDS
      | Some b \<Rightarrow> assemble_token ed_sign 4096 (cb_text b))"

text \<open>The inner text of the resolved policy is copied without its first and last character.\<close>

definition splice :: "string \<Rightarrow> cbuf \<Rightarrow> cbuf option" where
  "splice resolved_json b =
     (if length resolved_json \<ge> 2 \<and> hd resolved_json = CHR ''{'' then do {
        b \<leftarrow> snprintf_at '','' b;
        let inner = take (length resolved_json - 2) (tl resolved_json);
        let b = (if cb_pos b + length inner + 64 > cb_cap b
                 then b\<lparr>cb_cap := cb_pos b + length inner + 256\<rparr> else b);
        Some (b\<lparr>cb_text := (if length (cb_text b) = cb_pos b then cb_text b @ inner else cb_text b),
                cb_pos := cb_pos b + length inner\<rparr>)
      } else Some b)"

definition cookbook_jwt_create_v2 ::
  "(byte list \<Rightarrow> byte list option) \<Rightarrow> int \<Rightarrow> string \<Rightarrow> string \<Rightarrow> string option \<Rightarrow> string \<Rightarrow> int \<Rightarrow>
   jwt_error + string" where
  "cookbook_jwt_create_v2 ed_sign now jti sub groups resolved_json ttl_sec =
     (case (do {
         b \<leftarrow> put_all ([''{'', json_string_field ''sub'' sub True] @ groups_field groups @
                [json_string_field ''jti'' jti False, json_int_field ''v'' 2 False])
                (cbuf_new (512 + length resolved_json));
         b \<leftarrow> splice resolved_json b;
         put_all [json_int_field ''iat'' now False, json_int_field ''exp'' (now + ttl_sec) False, ''}''] b
       }) of
        None \<Rightarrow> Inl JWT_OUT_OF_BOUNDS
      | Some b \<Rightarrow> assemble_token ed_sign (length (cb_text b) * 2 + 16) (cb_text b))"

section \<open>Verifying tokens\<close>

record cookbook_jwt_claims =
  claim_sub :: string
  claim_groups :: string
  claim_jti :: string
  claim_grants :: "string option"
  claim_exclude :: "string option"
  claim_exp :: int
  claim_iat :: int
  claim_version :: int
  claim_valid :: bool

definition string_or_empty :: "string option \<Rightarrow> string" where
  "string_or_empty s = (case s of None \<Rightarrow> [] | Some x \<Rightarrow> x)"

definition int_or_zero :: "int option \<Rightarrow> int" where
  "int_or_zero i = (case i of None \<Rightarrow> 0 | Some x \<Rightarrow> x)"

definition read_claims :: "string \<Rightarrow> cookbook_jwt_claims" where
  "read_claims payload =
     (let v2 = (json_get_int payload ''v'' = Some 2)
      in \<lparr>claim_sub = string_or_empty (json_get_string payload ''sub'' 128),
          claim_groups = string_or_empty (json_get_string payload ''groups'' 1024),
          claim_jti = string_or_empty (json_get_string payload ''jti'' 64),
          claim_grants = (if v2 then json_extract_object payload ''grants'' else None),
          claim_exclude = (if v2 then json_extract_object payload ''exclude'' else None),
          claim_exp = int_or_zero (json_get_int payload ''exp''),
          claim_iat = int_or_zero (json_get_int payload ''iat''),
          claim_version = (if v2 then 2 else 1),
          claim_valid = True\<rparr>)"

definition cookbook_jwt_verify ::
  "(byte list \<Rightarrow> byte list \<Rightarrow> bool) \<Rightarrow> int \<Rightarrow> string \<Rightarrow> cookbook_jwt_claims option" where
  "cookbook_jwt_verify ed_verify now token = do {
     dot1 \<leftarrow> strchr token (CHR ''.'');
     dot2 \<leftarrow> strchr (tl dot1) (CHR ''.'');
     let si = take (length token - length dot2) token;
     let sig = cookbook_base64url_decode (tl dot2) 64;
     if length sig \<noteq> 64 then None
     else if \<not> ed_verify sig (bytes_of si) then None
     else do {
       let pay_b64 = take (length (tl dot1) - length dot2) (tl dot1);
       let pay = cookbook_base64url_decode pay_b64 4095;
       if pay = [] then None
       else do {
         let claims = read_claims (c_string pay);
         if claim_exp claims > 0 \<and> now > claim_exp claims then None else Some claims
       }
     }
   }"

text \<open>The comma-separated groups of version 1.\<close>

function has_group_loop :: "string \<Rightarrow> string \<Rightarrow> bool" where
  "has_group_loop p grp =
     (if p = [] then False
      else if takeWhile (\<lambda>c. c \<noteq> CHR '','') p = grp then True
      else case strchr p (CHR '','') of None \<Rightarrow> False | Some r \<Rightarrow> has_group_loop (tl r) grp)"
  by pat_completeness auto
termination
  by (relation "measure (\<lambda>(p, g). length p)") (auto dest!: strchr_Some)

declare has_group_loop.simps [simp del]

definition cookbook_jwt_has_group :: "cookbook_jwt_claims \<Rightarrow> string \<Rightarrow> bool" where
  "cookbook_jwt_has_group claims grp = has_group_loop (claim_groups claims) grp"

section \<open>The revocation list keeps what is live\<close>

interpretation revocations: pruned_table "\<lambda>now. compact (entry_live now)" entry_live
  by unfold_locales (rule compact_filter)

lemma revocation_prune_filter:
  "revocation_prune now rl = rl\<lparr>rl_entries := filter (\<lambda>e. re_exp e > now) (rl_entries rl)\<rparr>"
  unfolding revocation_prune_def revocations.prune_filter by (simp add: entry_live_def [abs_def])

section \<open>Finding a field of a payload\<close>

definition field_pattern :: "string \<Rightarrow> string \<Rightarrow> string" where
  "field_pattern k m = CHR 0x22 # k @ CHR 0x22 # CHR '':'' # m"

lemma take_eq_prefix: "take (length n) s = n \<longleftrightarrow> (\<exists>r. s = n @ r)"
  by (metis append_eq_conv_conj append_take_drop_id)

lemma strstr_plain:
  "CHR 0x22 \<notin> set s \<Longrightarrow> strstr (s @ r) (field_pattern k m) = strstr r (field_pattern k m)"
  by (induction s) (auto simp: field_pattern_def)

text \<open>A quoted text that is not the field searched for is passed over.\<close>

lemma strstr_quoted:
  assumes "CHR 0x22 \<notin> set q" "CHR 0x22 \<notin> set k" "\<not> (q = k \<and> c = CHR '':'')" "k \<noteq> []" "hd k \<noteq> c"
  shows "strstr (quote q @ c # r) (field_pattern k m) = strstr (c # r) (field_pattern k m)"
proof -
  let ?n = "field_pattern k m"
  have "quote q @ c # r \<noteq> ?n @ y" for y
    using assms sep_unique [OF assms(1,2), of "c # r" "CHR '':'' # m @ y"]
    by (auto simp: quote_def field_pattern_def)
  then have "strstr (quote q @ c # r) ?n = strstr (q @ CHR 0x22 # c # r) ?n"
    using take_eq_prefix [of ?n "quote q @ c # r"] by (simp add: quote_def)
  also have "\<dots> = strstr (CHR 0x22 # c # r) ?n" using assms(1) by (rule strstr_plain)
  also have "\<dots> = strstr (c # r) ?n"
  proof -
    have "CHR 0x22 # c # r \<noteq> ?n @ y" for y using assms(4,5) by (cases k) (auto simp: field_pattern_def)
    then show ?thesis using take_eq_prefix [of ?n "CHR 0x22 # c # r"] by simp
  qed
  finally show ?thesis .
qed

lemma strstr_char: "c \<noteq> CHR 0x22 \<Longrightarrow> strstr (c # r) (field_pattern k m) = strstr r (field_pattern k m)"
  using strstr_plain [of "[c]" r k m] by simp

lemma strstr_hit: "strstr (quote k @ CHR '':'' # m @ r) (field_pattern k m) = Some (field_pattern k m @ r)"
  using strstr_here [of "field_pattern k m" r] by (simp add: field_pattern_def quote_def)

lemma strstr_end: "strstr [] (field_pattern k m) = None"
  by (simp add: field_pattern_def)

declare strstr.simps [simp del]

lemma quote_free_show_int: "CHR 0x22 \<notin> set (show_int x)"
  by (auto simp: show_int_def isdigit_iff dest: show_nat_digits)

text \<open>The members of a rendered map are passed over when none has the name searched for.\<close>

definition searchable :: "string \<Rightarrow> bool" where
  "searchable k \<longleftrightarrow> k \<noteq> [] \<and> CHR 0x22 \<notin> set k \<and> hd k \<notin> {CHR '','', CHR '':'', CHR ''}''}"

lemma strstr_render_quote:
  assumes "searchable k" "\<And>a v. (a, v) \<in> set kvs \<Longrightarrow> json_safe a \<and> json_safe v \<and> a \<noteq> k"
  shows "strstr (render_map quote first kvs @ CHR ''}'' # r) (field_pattern k m) = strstr r (field_pattern k m)"
  using assms(2)
proof (induction kvs arbitrary: first)
  case Nil
  then show ?case by (simp add: strstr_char)
next
  case (Cons e kvs)
  obtain a v where e: "e = (a, v)" by (cases e)
  let ?R = "render_map quote False kvs @ CHR ''}'' # r"
  have av: "CHR 0x22 \<notin> set a" "CHR 0x22 \<notin> set v" "a \<noteq> k"
    using Cons.prems [of a v] by (auto simp: e json_safe_def)
  obtain c R where R: "?R = c # R" "c = CHR '','' \<or> c = CHR ''}''"
    by (cases kvs) (auto simp: e)
  have "strstr (quote a @ CHR '':'' # quote v @ ?R) (field_pattern k m) = strstr ?R (field_pattern k m)"
    using av assms(1) R(2) unfolding R(1) searchable_def
    by (subst strstr_quoted; (subst strstr_char)?; (subst strstr_quoted)?; auto)
  moreover have "strstr ?R (field_pattern k m) = strstr r (field_pattern k m)"
    by (rule Cons.IH) (use Cons.prems in auto)
  ultimately show ?case by (cases first) (simp_all add: e strstr_char)
qed

lemma strstr_render_flags:
  assumes "searchable k" "\<And>a. a \<in> set ks \<Longrightarrow> json_safe a \<and> a \<noteq> k"
  shows "strstr (render_map true_text first (flags ks) @ CHR ''}'' # r) (field_pattern k m) =
         strstr r (field_pattern k m)"
  using assms(2)
proof (induction ks arbitrary: first)
  case Nil
  then show ?case by (simp add: strstr_char flags_def)
next
  case (Cons a ks)
  let ?R = "render_map true_text False (flags ks) @ CHR ''}'' # r"
  have a: "CHR 0x22 \<notin> set a" "a \<noteq> k" using Cons.prems [of a] by (auto simp: json_safe_def)
  have "strstr (quote a @ CHR '':'' # ''true'' @ ?R) (field_pattern k m) = strstr ?R (field_pattern k m)"
    using a assms(1) unfolding searchable_def by (subst strstr_quoted; auto simp: strstr_char)
  moreover have "strstr ?R (field_pattern k m) = strstr r (field_pattern k m)"
    by (rule Cons.IH) (use Cons.prems in auto)
  ultimately show ?case by (cases first) (simp_all add: flags_def true_text_def [abs_def] strstr_char)
qed

section \<open>Reading the fields of a payload\<close>

lemma key_pattern_eq: "length k \<le> 100 \<Longrightarrow> length m \<le> 10 \<Longrightarrow> key_pattern k (CHR '':'' # m) = field_pattern k m"
  by (simp add: key_pattern_def quote_def field_pattern_def)

lemma strstr_hit_string:
  "strstr (quote k @ CHR '':'' # quote v @ r) (field_pattern k [CHR 0x22]) =
     Some (field_pattern k [CHR 0x22] @ v @ CHR 0x22 # r)"
  using strstr_hit [of k "[CHR 0x22]" "v @ CHR 0x22 # r"] by (simp add: quote_def)

lemma strstr_hit_int: "strstr (quote k @ CHR '':'' # r) (field_pattern k []) = Some (field_pattern k [] @ r)"
  using strstr_hit [of k "[]" r] by simp

lemma strstr_hit_object:
  "strstr (quote k @ CHR '':'' # CHR ''{'' # r) (field_pattern k ''{'') = Some (field_pattern k ''{'' @ r)"
  using strstr_hit [of k "''{''" r] by simp

lemma json_get_string_at:
  assumes "strstr json (field_pattern k [CHR 0x22]) = Some (field_pattern k [CHR 0x22] @ v @ CHR 0x22 # r)"
    and "CHR 0x22 \<notin> set v" "length k \<le> 100" "length v < sz"
  shows "json_get_string json k sz = Some v"
  using assms by (simp add: json_get_string_def key_pattern_eq strchr_append span_until)

lemma json_get_string_None:
  assumes "strstr json (field_pattern k [CHR 0x22]) = None" "length k \<le> 100"
  shows "json_get_string json k sz = None"
  using assms by (simp add: json_get_string_def key_pattern_eq)

lemma strtol_show_int:
  assumes "0 \<le> x" "x \<le> LONG_MAX" "r = [] \<or> \<not> isdigit (hd r)"
  shows "fst (strtol (show_int x @ r)) = x"
  using assms strtol_digits [of "show_nat (nat x)" r] show_nat_digits [of _ "nat x"]
  by (simp add: show_int_def)

lemma json_get_int_at:
  assumes "strstr json (field_pattern k []) = Some (field_pattern k [] @ show_int x @ r)"
    and "0 \<le> x" "x \<le> LONG_MAX" "r = [] \<or> \<not> isdigit (hd r)" "length k \<le> 100"
  shows "json_get_int json k = Some x"
  using assms by (simp add: json_get_int_def key_pattern_eq strtol_show_int)

lemma scan_object_flat:
  "CHR ''{'' \<notin> set s \<Longrightarrow> CHR ''}'' \<notin> set s \<Longrightarrow> scan_object 1 (s @ CHR ''}'' # r) = s @ ''}''"
  by (induction s) auto

lemma json_extract_at:
  assumes "strstr json (field_pattern k ''{'') = Some (field_pattern k ''{'' @ s @ CHR ''}'' # r)"
    and "CHR ''{'' \<notin> set s" "CHR ''}'' \<notin> set s" "length k \<le> 100"
  shows "json_extract_object json k = Some (''{'' @ s @ ''}'')"
proof -
  have "drop (length (field_pattern k ''{'') - 1) (field_pattern k ''{'' @ s @ CHR ''}'' # r) =
      CHR ''{'' # s @ CHR ''}'' # r"
    by (simp add: field_pattern_def)
  with assms show ?thesis by (simp add: json_extract_object_def key_pattern_eq scan_object_flat)
qed

section \<open>The payload of a token of version 2\<close>

definition reserved :: "string set" where
  "reserved = {''sub'', ''groups'', ''jti'', ''v'', ''grants'', ''exclude'', ''iat'', ''exp''}"

definition groups_text :: "string option \<Rightarrow> string" where
  "groups_text groups = string_or_empty groups"

definition payload_v2 :: "string \<Rightarrow> string option \<Rightarrow> string \<Rightarrow> (string \<times> string) list \<Rightarrow> string list \<Rightarrow>
    int \<Rightarrow> int \<Rightarrow> string" where
  "payload_v2 sub groups jti gs es now exp =
     CHR ''{'' # quote ''sub'' @ CHR '':'' # quote sub @
     (if groups_text groups = [] then [] else CHR '','' # quote ''groups'' @ CHR '':'' # quote (groups_text groups)) @
     CHR '','' # quote ''jti'' @ CHR '':'' # quote jti @
     CHR '','' # quote ''v'' @ CHR '':'' # CHR ''2'' #
     CHR '','' # quote ''grants'' @ CHR '':'' # CHR ''{'' # render_map quote True gs @ CHR ''}'' #
     CHR '','' # quote ''exclude'' @ CHR '':'' # CHR ''{'' # render_map true_text True (flags es) @ CHR ''}'' #
     CHR '','' # quote ''iat'' @ CHR '':'' # show_int now @
     CHR '','' # quote ''exp'' @ CHR '':'' # show_int exp @ ''}''"

lemma searchable_reserved: "k \<in> reserved \<Longrightarrow> searchable k"
  by (auto simp: reserved_def searchable_def)

lemma strstr_show_int:
  "strstr (show_int x @ r) (field_pattern k m) = strstr r (field_pattern k m)"
  by (rule strstr_plain) (rule quote_free_show_int)

lemmas strstr_scan = strstr_char strstr_quoted strstr_show_int strstr_end strstr_hit_string strstr_hit_int strstr_hit_object

text \<open>What may stand in a payload: plain text, and member names that are not claims.\<close>

definition payload_ok :: "string \<Rightarrow> string option \<Rightarrow> string \<Rightarrow> (string \<times> string) list \<Rightarrow> string list \<Rightarrow> bool" where
  "payload_ok sub groups jti gs es \<longleftrightarrow>
     json_safe sub \<and> json_safe (groups_text groups) \<and> json_safe jti \<and>
     (\<forall>(k, v) \<in> set gs. json_safe k \<and> json_safe v \<and> k \<notin> reserved) \<and>
     (\<forall>k \<in> set es. json_safe k \<and> k \<notin> reserved)"

lemma scan_grants:
  "payload_ok sub groups jti gs es \<Longrightarrow> k \<in> reserved \<Longrightarrow>
   strstr (render_map quote True gs @ CHR ''}'' # r) (field_pattern k m) = strstr r (field_pattern k m)"
  by (intro strstr_render_quote searchable_reserved) (auto simp: payload_ok_def)

lemma scan_excludes:
  "payload_ok sub groups jti gs es \<Longrightarrow> k \<in> reserved \<Longrightarrow>
   strstr (render_map true_text True (flags es) @ CHR ''}'' # r) (field_pattern k m) = strstr r (field_pattern k m)"
  by (intro strstr_render_flags searchable_reserved) (auto simp: payload_ok_def)

lemma payload_plain:
  assumes "payload_ok sub groups jti gs es"
  shows "CHR 0x22 \<notin> set sub" "CHR 0x22 \<notin> set (groups_text groups)" "CHR 0x22 \<notin> set jti"
  using assms by (auto simp: payload_ok_def json_safe_def)

lemma show_int_2: "show_int 2 = ''2''"
  by code_simp

lemma payload_fields:
  fixes now exp :: int
  assumes ok: "payload_ok sub groups jti gs es"
  defines "p \<equiv> payload_v2 sub groups jti gs es now exp"
  shows "\<exists>r. strstr p (field_pattern ''sub'' [CHR 0x22]) = Some (field_pattern ''sub'' [CHR 0x22] @ sub @ CHR 0x22 # r)"
    and "groups_text groups \<noteq> [] \<Longrightarrow> \<exists>r. strstr p (field_pattern ''groups'' [CHR 0x22]) =
           Some (field_pattern ''groups'' [CHR 0x22] @ groups_text groups @ CHR 0x22 # r)"
    and "groups_text groups = [] \<Longrightarrow> strstr p (field_pattern ''groups'' [CHR 0x22]) = None"
    and "\<exists>r. strstr p (field_pattern ''jti'' [CHR 0x22]) = Some (field_pattern ''jti'' [CHR 0x22] @ jti @ CHR 0x22 # r)"
    and "\<exists>r. strstr p (field_pattern ''v'' []) = Some (field_pattern ''v'' [] @ show_int 2 @ CHR '','' # r)"
    and "\<exists>r. strstr p (field_pattern ''grants'' ''{'') =
           Some (field_pattern ''grants'' ''{'' @ render_map quote True gs @ CHR ''}'' # r)"
    and "\<exists>r. strstr p (field_pattern ''exclude'' ''{'') =
           Some (field_pattern ''exclude'' ''{'' @ render_map true_text True (flags es) @ CHR ''}'' # r)"
    and "\<exists>r. strstr p (field_pattern ''iat'' []) = Some (field_pattern ''iat'' [] @ show_int now @ CHR '','' # r)"
    and "strstr p (field_pattern ''exp'' []) = Some (field_pattern ''exp'' [] @ show_int exp @ ''}'')"
  unfolding p_def payload_v2_def
  by (simp_all add: strstr_scan payload_plain [OF ok] scan_grants [OF ok] scan_excludes [OF ok] reserved_def
      show_int_2)

lemma read_claims_v2:
  assumes ok: "payload_ok sub groups jti gs es"
    and len: "length sub < 128" "length (groups_text groups) < 1024" "length jti < 64"
    and t: "0 \<le> now" "now \<le> LONG_MAX" "0 \<le> exp" "exp \<le> LONG_MAX"
  shows "read_claims (payload_v2 sub groups jti gs es now exp) =
    \<lparr>claim_sub = sub, claim_groups = groups_text groups, claim_jti = jti,
     claim_grants = Some (''{'' @ render_map quote True gs @ ''}''),
     claim_exclude = Some (''{'' @ render_map true_text True (flags es) @ ''}''),
     claim_exp = exp, claim_iat = now, claim_version = 2, claim_valid = True\<rparr>"
proof -
  let ?p = "payload_v2 sub groups jti gs es now exp"
  note f = payload_fields [OF ok, of now exp] and plain = payload_plain [OF ok]
  have g: "\<And>k v. (k, v) \<in> set gs \<Longrightarrow> json_safe k \<and> json_safe v" and e: "\<And>k. k \<in> set es \<Longrightarrow> json_safe k"
    using ok by (auto simp: payload_ok_def)
  have "json_get_string ?p ''sub'' 128 = Some sub"
    using f(1) plain(1) len(1) by (auto intro: json_get_string_at)
  moreover have "string_or_empty (json_get_string ?p ''groups'' 1024) = groups_text groups"
  proof (cases "groups_text groups = []")
    case True
    with f(3) show ?thesis by (simp add: json_get_string_None string_or_empty_def)
  next
    case False
    with f(2) plain(2) len(2) have "json_get_string ?p ''groups'' 1024 = Some (groups_text groups)"
      by (auto intro: json_get_string_at)
    then show ?thesis by (simp add: string_or_empty_def)
  qed
  moreover have "json_get_string ?p ''jti'' 64 = Some jti"
    using f(4) plain(3) len(3) by (auto intro: json_get_string_at)
  moreover have "json_get_int ?p ''v'' = Some 2"
    using f(5) by (auto intro!: json_get_int_at simp: LONG_MAX_def isdigit_iff)
  moreover have "json_get_int ?p ''iat'' = Some now"
    using f(8) t by (auto intro!: json_get_int_at simp: isdigit_iff)
  moreover have "json_get_int ?p ''exp'' = Some exp"
    using json_get_int_at [OF f(9)] t by (simp add: isdigit_iff)
  moreover have "json_extract_object ?p ''grants'' = Some (''{'' @ render_map quote True gs @ ''}'')"
    using f(6) braces_quote [OF g] by (auto dest!: json_extract_at)
  moreover have "json_extract_object ?p ''exclude'' = Some (''{'' @ render_map true_text True (flags es) @ ''}'')"
    using f(7) braces_flags [OF e] by (auto dest!: json_extract_at)
  ultimately show ?thesis by (simp add: read_claims_def string_or_empty_def int_or_zero_def)
qed

section \<open>Creation writes the payload\<close>

lemma put_all_exact:
  "cbuf_exact s b \<Longrightarrow> length s + length (concat ts) < cb_cap b \<Longrightarrow>
   \<exists>b'. put_all ts b = Some b' \<and> cbuf_exact (s @ concat ts) b' \<and> cb_cap b' = cb_cap b"
proof (induction ts arbitrary: s b)
  case (Cons t ts)
  obtain b1 where b1: "snprintf_at t b = Some b1" "cbuf_exact (s @ t) b1" "cb_cap b1 = cb_cap b"
    using snprintf_at_exact [OF Cons.prems(1), of t] Cons.prems(2) by auto
  with Cons.IH [OF b1(2)] Cons.prems(2) show ?case by auto
qed simp

lemma policy_json_braces: "policy_json gs es = CHR ''{'' # (quote ''grants'' @ CHR '':'' # CHR ''{'' # render_map quote True gs @
     CHR ''}'' # CHR '','' # quote ''exclude'' @ CHR '':'' # CHR ''{'' # render_map true_text True (flags es) @ ''}'') @ ''}''"
  by (simp add: policy_json_grants grants_tag_def exclude_tag_def)

lemma splice_exact:
  assumes "cbuf_exact s b" "length s + 1 < cb_cap b"
  shows "\<exists>b'. splice (CHR ''{'' # inner @ [c]) b = Some b' \<and> cb_text b' = s @ '','' @ inner \<and>
           cb_pos b' = length (cb_text b') \<and> cb_pos b' + 64 \<le> cb_cap b'"
proof -
  obtain b1 where "snprintf_at '','' b = Some b1" "cbuf_exact (s @ '','') b1" "cb_cap b1 = cb_cap b"
    using snprintf_at_exact [OF assms(1), of "'',''"] assms(2) by auto
  then show ?thesis by (auto simp: splice_def cbuf_exact_def Let_def)
qed

lemma length_show_nat: "n < 10 ^ k \<Longrightarrow> 0 < k \<Longrightarrow> length (show_nat n) \<le> k"
proof (induction n arbitrary: k rule: show_nat.induct)
  case (1 n)
  show ?case
  proof (cases "n < 10")
    case True
    with 1 show ?thesis by (subst show_nat.simps) simp
  next
    case False
    then have "1 < k" using 1(2,3) by (cases "k = 1") auto
    moreover have "n div 10 < 10 ^ (k - 1)" using 1(2,3) by (cases k) auto
    ultimately have "length (show_nat (n div 10)) \<le> k - 1" using 1(1) [OF False, of "k - 1"] by simp
    with False \<open>1 < k\<close> show ?thesis by (subst show_nat.simps) simp
  qed
qed

lemma length_show_int: "0 \<le> x \<Longrightarrow> x \<le> LONG_MAX \<Longrightarrow> length (show_int x) \<le> 19"
  using length_show_nat [of "nat x" 19] by (simp add: show_int_def LONG_MAX_def nat_less_iff)

lemma create_v2_payload:
  assumes len: "length sub + length (groups_text groups) + length jti \<le> 450"
    and t: "0 \<le> now" "now \<le> LONG_MAX" "0 \<le> now + ttl" "now + ttl \<le> LONG_MAX"
  shows "cookbook_jwt_create_v2 ed_sign now jti sub groups (policy_json gs es) ttl =
     assemble_token ed_sign (length (payload_v2 sub groups jti gs es now (now + ttl)) * 2 + 16)
       (payload_v2 sub groups jti gs es now (now + ttl))"
proof -
  let ?front = "[''{'', json_string_field ''sub'' sub True] @ groups_field groups @
                [json_string_field ''jti'' jti False, json_int_field ''v'' 2 False]"
  let ?times = "[json_int_field ''iat'' now False, json_int_field ''exp'' (now + ttl) False, ''}'']"
  let ?j = "policy_json gs es"
  have gf: "concat (groups_field groups) =
      (if groups_text groups = [] then [] else CHR '','' # quote ''groups'' @ CHR '':'' # quote (groups_text groups))"
    by (simp add: groups_field_def groups_text_def string_or_empty_def json_string_field_def split: option.splits)
  have fl: "length (concat ?front) < 512"
    using len unfolding concat_append gf
    by (auto simp: json_string_field_def json_int_field_def quote_def show_int_2)
  obtain b1 where b1: "put_all ?front (cbuf_new (512 + length ?j)) = Some b1" "cbuf_exact (concat ?front) b1"
    "cb_cap b1 = 512 + length ?j"
    using put_all_exact [of "[]" "cbuf_new (512 + length ?j)" ?front] fl by (auto simp: cbuf_new_def cbuf_exact_def)
  have room: "length (concat ?front) + 1 < cb_cap b1" using fl b1(3) by (simp add: policy_json_braces)
  obtain b2 inner where b2: "splice ?j b1 = Some b2" "cb_text b2 = concat ?front @ '','' @ inner"
    "cb_pos b2 = length (cb_text b2)" "cb_pos b2 + 64 \<le> cb_cap b2"
    "?j = CHR ''{'' # inner @ ''}''"
    using splice_exact [OF b1(2) room] unfolding policy_json_braces by blast
  have e2: "cbuf_exact (cb_text b2) b2" using b2(3,4) by (simp add: cbuf_exact_def)
  have "length (concat ?times) \<le> 53"
    using length_show_int [OF t(1,2)] length_show_int [OF t(3,4)] by (simp add: json_int_field_def quote_def)
  then have "length (cb_text b2) + length (concat ?times) < cb_cap b2" using b2(3,4) by simp
  then obtain b3 where b3: "put_all ?times b2 = Some b3" "cbuf_exact (cb_text b2 @ concat ?times) b3"
    using put_all_exact [OF e2, of ?times] by auto
  have inner: "inner = quote ''grants'' @ CHR '':'' # CHR ''{'' # render_map quote True gs @ CHR ''}'' # CHR '','' #
      quote ''exclude'' @ CHR '':'' # CHR ''{'' # render_map true_text True (flags es) @ ''}''"
    using b2(5) unfolding policy_json_braces by simp
  have "cb_text b2 @ concat ?times = payload_v2 sub groups jti gs es now (now + ttl)"
    unfolding b2(2) concat_append gf inner
    by (simp add: payload_v2_def json_string_field_def json_int_field_def show_int_2)
  with b1(1) b2(1) b3 show ?thesis
    by (simp add: cookbook_jwt_create_v2_def cbuf_exact_def)
qed

section \<open>Verification undoes assembly\<close>

lemma b64_text_Nil: "b64_text s = [] \<longleftrightarrow> s = []"
  using length_b64_text [of s] by (cases s) auto

lemma no_dot_b64: "CHR ''.'' \<notin> set (b64_text s)"
  using set_b64_text alphabet_safe(2) by blast

lemma assemble_eq:
  assumes "b64_room (length payload) \<le> cap" "payload \<noteq> []"
    and "ed_sign (bytes_of (b64_text (bytes_of JWT_HEADER) @ ''.'' @ b64_text (bytes_of payload))) = Some sig"
    and "length sig = 64"
  shows "assemble_token ed_sign cap payload =
    Inr ((b64_text (bytes_of JWT_HEADER) @ ''.'' @ b64_text (bytes_of payload)) @ ''.'' @ b64_text sig)"
proof -
  have "bytes_of payload \<noteq> []" "bytes_of JWT_HEADER \<noteq> []" "sig \<noteq> []"
    using assms(2,4) by (auto simp: bytes_of_def JWT_HEADER_def)
  moreover have "cookbook_base64url_encode (bytes_of JWT_HEADER) 256 = b64_text (bytes_of JWT_HEADER)"
    "cookbook_base64url_encode sig 128 = b64_text sig"
    using assms(4) by (simp_all add: encode_eq b64_room_def JWT_HEADER_def quote_def)
  ultimately show ?thesis
    using assms by (simp add: assemble_token_def encode_eq b64_text_Nil)
qed

text \<open>The payload is decoded into a buffer of 4096 bytes: what lies behind is lost.\<close>

lemma verify_assembled:
  assumes "payload \<noteq> []" "CHR 0x00 \<notin> set payload"
    and "ed_verify sig (bytes_of (b64_text h @ ''.'' @ b64_text (bytes_of payload)))" "length sig = 64"
  shows "cookbook_jwt_verify ed_verify now ((b64_text h @ ''.'' @ b64_text (bytes_of payload)) @ ''.'' @ b64_text sig) =
    (let claims = read_claims (take 4095 payload)
     in if claim_exp claims > 0 \<and> now > claim_exp claims then None else Some claims)"
proof -
  let ?h = "b64_text h" and ?p = "b64_text (bytes_of payload)" and ?s = "b64_text sig"
  have b: "take 4095 (bytes_of payload) = bytes_of (take 4095 payload)" by (simp add: bytes_of_def take_map)
  have d: "cookbook_base64url_decode ?s 64 = sig"
    "cookbook_base64url_decode ?p 4095 = bytes_of (take 4095 payload)"
    using assms(4) by (simp_all add: decode_text_take b)
  have c1: "strchr (?h @ CHR ''.'' # ?p @ CHR ''.'' # ?s) (CHR ''.'') = Some (CHR ''.'' # ?p @ CHR ''.'' # ?s)"
    by (rule strchr_append) (rule no_dot_b64)
  have c2: "strchr (?p @ CHR ''.'' # ?s) (CHR ''.'') = Some (CHR ''.'' # ?s)"
    by (rule strchr_append) (rule no_dot_b64)
  have ne: "bytes_of (take 4095 payload) \<noteq> []" using assms(1) by (simp add: bytes_of_def)
  have z: "c_string (bytes_of (take 4095 payload)) = take 4095 payload"
    using assms(2) by (intro c_string_bytes_of) (meson in_set_takeD)
  show ?thesis
    using assms(3,4) by (simp add: cookbook_jwt_verify_def c1 c2 d ne z Let_def)
qed

text \<open>A signature scheme whose verification accepts its own signatures of 64 bytes.\<close>

definition signature_pair :: "(byte list \<Rightarrow> byte list option) \<Rightarrow> (byte list \<Rightarrow> byte list \<Rightarrow> bool) \<Rightarrow> bool" where
  "signature_pair ed_sign ed_verify \<longleftrightarrow>
     (\<forall>m. \<exists>sg. ed_sign m = Some sg \<and> length sg = 64 \<and> ed_verify sg m)"

lemma create_then_verify:
  assumes sg: "signature_pair ed_sign ed_verify"
    and p: "payload \<noteq> []" "CHR 0x00 \<notin> set payload" "b64_room (length payload) \<le> cap"
  obtains token where "assemble_token ed_sign cap payload = Inr token"
    "\<And>now. cookbook_jwt_verify ed_verify now token =
      (let claims = read_claims (take 4095 payload)
       in if claim_exp claims > 0 \<and> now > claim_exp claims then None else Some claims)"
proof -
  let ?si = "b64_text (bytes_of JWT_HEADER) @ ''.'' @ b64_text (bytes_of payload)"
  obtain sig where s: "ed_sign (bytes_of ?si) = Some sig" "length sig = 64" "ed_verify sig (bytes_of ?si)"
    using sg by (auto simp: signature_pair_def)
  have "assemble_token ed_sign cap payload = Inr (?si @ ''.'' @ b64_text sig)"
    using p(3,1) s(1,2) by (rule assemble_eq)
  moreover have "cookbook_jwt_verify ed_verify now (?si @ ''.'' @ b64_text sig) =
      (let claims = read_claims (take 4095 payload)
       in if claim_exp claims > 0 \<and> now > claim_exp claims then None else Some claims)" for now
    using p(1,2) s(3,2) by (rule verify_assembled)
  ultimately show ?thesis by (rule that)
qed

section \<open>Token identifiers are plain text\<close>

lemma length_lcg_bytes [simp]: "length (lcg_bytes n s) = n"
  by (induction n arbitrary: s) (simp_all add: Let_def)

lemma hex_digit_in: "n < 16 \<Longrightarrow> hex_digit n \<in> set ''0123456789abcdef''"
  unfolding hex_digit_def by (rule nth_mem) simp

lemma set_hex2: "set (hex2 b) \<subseteq> set ''0123456789abcdef''"
proof -
  have "unat b < 256" using unsigned_less [of b] by simp
  then have "unat b div 16 < 16" "unat b mod 16 < 16" by auto
  then show ?thesis using hex_digit_in by (simp add: hex2_def)
qed

lemma jti_shape:
  shows "length (generate_jti now cnt addr 64) = 32"
    and "set (generate_jti now cnt addr 64) \<subseteq> set ''0123456789abcdef''"
proof -
  have "length (concat (map hex2 xs)) = 2 * length xs" for xs by (induction xs) (simp_all add: hex2_def)
  then show "length (generate_jti now cnt addr 64) = 32" by (simp add: generate_jti_def)
  show "set (generate_jti now cnt addr 64) \<subseteq> set ''0123456789abcdef''"
    unfolding generate_jti_def using set_hex2 by (auto simp del: list.set)
qed

lemma jti_safe: "json_safe (generate_jti now cnt addr 64)"
  using jti_shape(2) [of now cnt addr] by (auto simp: json_safe_def)

lemma nul_free_show_int: "CHR 0x00 \<notin> set (show_int x)"
  by (auto simp: show_int_def isdigit_iff dest: show_nat_digits)

lemma nul_free_render:
  assumes "\<And>k v. (k, v) \<in> set kvs \<Longrightarrow> CHR 0x00 \<notin> set k \<and> CHR 0x00 \<notin> set (f v)"
  shows "CHR 0x00 \<notin> set (render_map f first kvs)"
  using assms by (induction f first kvs rule: render_map.induct) (auto simp: quote_def)

lemma payload_v2_nul:
  assumes "payload_ok sub groups jti gs es"
  shows "CHR 0x00 \<notin> set (payload_v2 sub groups jti gs es now exp)"
proof -
  have "CHR 0x00 \<notin> set (render_map quote True gs)"
    by (rule nul_free_render) (use assms in \<open>auto simp: payload_ok_def json_safe_def quote_def\<close>)
  moreover have "CHR 0x00 \<notin> set (render_map true_text True (flags es))"
    by (rule nul_free_render) (use assms in \<open>auto simp: payload_ok_def json_safe_def flags_def true_text_def\<close>)
  ultimately show ?thesis
    using assms by (auto simp: payload_v2_def quote_def nul_free_show_int payload_ok_def json_safe_def)
qed

lemma length_payload_v2:
  assumes "now + ttl \<le> LONG_MAX" "0 \<le> now" "now \<le> LONG_MAX" "0 \<le> now + ttl"
  shows "length (payload_v2 sub groups jti gs es now (now + ttl)) \<le>
     length sub + length (groups_text groups) + length jti + length (policy_json gs es) + 110"
  using length_show_int [OF assms(2,3)] length_show_int [OF assms(4,1)]
  by (auto simp: payload_v2_def quote_def policy_json_braces)

text \<open>A field whose occurrence ends behind the cut is not found.\<close>

lemma strstr_no_later: "\<exists>a. strstr (q @ n @ r) n = Some a \<and> length (n @ r) \<le> length a"
proof (induction q)
  case Nil
  show ?case using strstr_here [of n r] by simp
next
  case (Cons c q)
  then show ?case
    by (cases "take (length n) (c # q @ n @ r) = n") (auto simp: strstr.simps)
qed

lemma strstr_take_None:
  assumes "strstr p n = Some (n @ r)" "k + length r < length p"
  shows "strstr (take k p) n = None"
proof (rule ccontr)
  assume "strstr (take k p) n \<noteq> None"
  then obtain a where "strstr (take k p) n = Some a" by blast
  from strstr_Some_suffix [OF this] obtain q where q: "take k p = q @ a" "take (length n) a = n" by blast
  then obtain a' where a: "a = n @ a'" using take_eq_prefix by metis
  have p: "p = q @ n @ (a' @ drop k p)" using q(1) a by (metis append.assoc append_take_drop_id)
  then have le: "length (n @ a' @ drop k p) \<le> length (n @ r)"
    using strstr_no_later [of q n "a' @ drop k p"] assms(1) by (metis option.inject)
  have "length p - k \<le> length r" using le by simp
  with assms(2) show False by simp
qed

section \<open>The payload of a token of version 1\<close>

lemma payload_v1_text: "concat (payload_v1 sub groups jti now exp) =
     CHR ''{'' # quote ''sub'' @ CHR '':'' # quote sub @
     (if groups_text groups = [] then [] else CHR '','' # quote ''groups'' @ CHR '':'' # quote (groups_text groups)) @
     CHR '','' # quote ''jti'' @ CHR '':'' # quote jti @
     CHR '','' # quote ''iat'' @ CHR '':'' # show_int now @
     CHR '','' # quote ''exp'' @ CHR '':'' # show_int exp @ ''}''"
  by (simp add: payload_v1_def groups_field_def groups_text_def string_or_empty_def json_string_field_def
      json_int_field_def split: option.splits)

lemma read_claims_v1:
  assumes ok: "payload_ok sub groups jti [] []"
    and len: "length sub < 128" "length (groups_text groups) < 1024" "length jti < 64"
    and t: "0 \<le> now" "now \<le> LONG_MAX" "0 \<le> exp" "exp \<le> LONG_MAX"
  shows "read_claims (concat (payload_v1 sub groups jti now exp)) =
    \<lparr>claim_sub = sub, claim_groups = groups_text groups, claim_jti = jti,
     claim_grants = None, claim_exclude = None,
     claim_exp = exp, claim_iat = now, claim_version = 1, claim_valid = True\<rparr>"
proof -
  let ?p = "concat (payload_v1 sub groups jti now exp)"
  note plain = payload_plain [OF ok] and scan = strstr_scan payload_v1_text
  have f: "\<exists>r. strstr ?p (field_pattern ''sub'' [CHR 0x22]) = Some (field_pattern ''sub'' [CHR 0x22] @ sub @ CHR 0x22 # r)"
    "groups_text groups \<noteq> [] \<Longrightarrow> \<exists>r. strstr ?p (field_pattern ''groups'' [CHR 0x22]) =
           Some (field_pattern ''groups'' [CHR 0x22] @ groups_text groups @ CHR 0x22 # r)"
    "groups_text groups = [] \<Longrightarrow> strstr ?p (field_pattern ''groups'' [CHR 0x22]) = None"
    "\<exists>r. strstr ?p (field_pattern ''jti'' [CHR 0x22]) = Some (field_pattern ''jti'' [CHR 0x22] @ jti @ CHR 0x22 # r)"
    "strstr ?p (field_pattern ''v'' []) = None"
    "\<exists>r. strstr ?p (field_pattern ''iat'' []) = Some (field_pattern ''iat'' [] @ show_int now @ CHR '','' # r)"
    "strstr ?p (field_pattern ''exp'' []) = Some (field_pattern ''exp'' [] @ show_int exp @ ''}'')"
    by (simp_all add: scan plain)
  have "json_get_string ?p ''sub'' 128 = Some sub"
    using f(1) plain(1) len(1) by (auto intro: json_get_string_at)
  moreover have "string_or_empty (json_get_string ?p ''groups'' 1024) = groups_text groups"
  proof (cases "groups_text groups = []")
    case True
    with f(3) show ?thesis by (simp add: json_get_string_None string_or_empty_def)
  next
    case False
    with f(2) plain(2) len(2) have "json_get_string ?p ''groups'' 1024 = Some (groups_text groups)"
      by (auto intro: json_get_string_at)
    then show ?thesis by (simp add: string_or_empty_def)
  qed
  moreover have "json_get_string ?p ''jti'' 64 = Some jti"
    using f(4) plain(3) len(3) by (auto intro: json_get_string_at)
  moreover have "json_get_int ?p ''v'' = None"
    using f(5) by (simp add: json_get_int_def key_pattern_eq)
  moreover have "json_get_int ?p ''iat'' = Some now"
    using f(6) t by (auto intro!: json_get_int_at simp: isdigit_iff)
  moreover have "json_get_int ?p ''exp'' = Some exp"
    using json_get_int_at [OF f(7)] t by (simp add: isdigit_iff)
  ultimately show ?thesis by (simp add: read_claims_def string_or_empty_def int_or_zero_def)
qed

text \<open>Group lists: the names joined by commas.\<close>

fun join :: "string list \<Rightarrow> string" where
  "join [] = []"
| "join [g] = g"
| "join (g # gs) = g @ CHR '','' # join gs"

lemma has_group_step:
  assumes "g \<noteq> []" "CHR '','' \<notin> set g"
  shows "has_group_loop g x \<longleftrightarrow> x = g"
    and "has_group_loop (g @ CHR '','' # r) x \<longleftrightarrow> x = g \<or> has_group_loop r x"
proof -
  have "takeWhile (\<lambda>c. c \<noteq> CHR '','') g = g" "strchr g (CHR '','') = None"
    using assms(2) by (auto simp: takeWhile_eq_all_conv strchr_None_iff)
  then show "has_group_loop g x \<longleftrightarrow> x = g" using assms(1)
    by (simp only: has_group_loop.simps [of g x] if_False option.case) (simp add: eq_commute)
  have "takeWhile (\<lambda>c. c \<noteq> CHR '','') (g @ CHR '','' # r) = g"
    "strchr (g @ CHR '','' # r) (CHR '','') = Some (CHR '','' # r)"
    using assms(2) by (simp_all add: span_until strchr_append)
  then show "has_group_loop (g @ CHR '','' # r) x \<longleftrightarrow> x = g \<or> has_group_loop r x"
    by (simp only: has_group_loop.simps [of "g @ CHR '','' # r" x] option.case) auto
qed

lemma has_group_join:
  "(\<And>g. g \<in> set gs \<Longrightarrow> g \<noteq> [] \<and> CHR '','' \<notin> set g) \<Longrightarrow> has_group_loop (join gs) x \<longleftrightarrow> x \<in> set gs"
proof (induction gs rule: join.induct)
  case 1
  show ?case by (subst has_group_loop.simps) simp
next
  case (2 g)
  from "2.prems" [of g] show ?case by (simp add: has_group_step(1))
next
  case (3 g h gs)
  have "has_group_loop (join (h # gs)) x \<longleftrightarrow> x \<in> set (h # gs)"
    by (rule "3.IH") (rule "3.prems", simp)
  moreover have "has_group_loop (join (g # h # gs)) x \<longleftrightarrow> x = g \<or> has_group_loop (join (h # gs)) x"
    using "3.prems" [of g] has_group_step(2) [of g "join (h # gs)" x] by simp
  ultimately show ?case by simp
qed

lemma b64_room_le: "b64_room n \<le> n * 2 + 16"
  unfolding b64_room_def by linarith

lemma create_v2_token:
  assumes sg: "signature_pair ed_sign ed_verify" and ok: "payload_ok sub groups jti gs es"
    and len: "length sub + length (groups_text groups) + length jti \<le> 450"
    and t: "0 \<le> now" "now \<le> LONG_MAX" "0 \<le> now + ttl" "now + ttl \<le> LONG_MAX"
  obtains token where "cookbook_jwt_create_v2 ed_sign now jti sub groups (policy_json gs es) ttl = Inr token"
    "\<And>now'. cookbook_jwt_verify ed_verify now' token =
      (let claims = read_claims (take 4095 (payload_v2 sub groups jti gs es now (now + ttl)))
       in if claim_exp claims > 0 \<and> now' > claim_exp claims then None else Some claims)"
proof -
  let ?p = "payload_v2 sub groups jti gs es now (now + ttl)"
  have ne: "?p \<noteq> []" by (simp add: payload_v2_def)
  show ?thesis
    using create_then_verify [OF sg ne payload_v2_nul [OF ok] b64_room_le] that
      create_v2_payload [OF len t, of ed_sign gs es] by metis
qed

lemma token_v2_claims:
  assumes sg: "signature_pair ed_sign ed_verify"
    and ok: "payload_ok sub groups [] gs es" "distinct (map fst gs)"
    and len: "length sub < 128" "length sub + length (groups_text groups) \<le> 400"
      "length (policy_json gs es) \<le> 3500"
    and t: "0 \<le> now" "now \<le> LONG_MAX" "0 \<le> now + ttl" "now + ttl \<le> LONG_MAX"
    and jti: "jti = generate_jti seed_time cnt addr 64"
  obtains token claims where
    "cookbook_jwt_create_v2 ed_sign now jti sub groups (policy_json gs es) ttl = Inr token"
    "\<And>now'. cookbook_jwt_verify ed_verify now' token =
       (if now + ttl > 0 \<and> now' > now + ttl then None else Some claims)"
    "claim_sub claims = sub" "claim_groups claims = groups_text groups" "claim_jti claims = jti"
    "claim_iat claims = now" "claim_exp claims = now + ttl" "claim_version claims = 2" "jti \<noteq> []"
    "\<exists>g. claim_grants claims = Some g \<and>
       (\<forall>group_id c. cookbook_auth_check g (claim_exclude claims) group_id c \<longleftrightarrow> policy_allows gs es group_id c)"
proof -
  let ?p = "payload_v2 sub groups jti gs es now (now + ttl)"
  have j: "length jti = 32" "json_safe jti" unfolding jti by (rule jti_shape, rule jti_safe)
  have ok': "payload_ok sub groups jti gs es" using ok(1) j(2) by (simp add: payload_ok_def)
  have le: "length ?p \<le> 4095" using length_payload_v2 [OF t(4,1,2,3), of sub groups jti gs es] len j by simp
  obtain token where token: "cookbook_jwt_create_v2 ed_sign now jti sub groups (policy_json gs es) ttl = Inr token"
    "\<And>now'. cookbook_jwt_verify ed_verify now' token =
      (let claims = read_claims (take 4095 ?p)
       in if claim_exp claims > 0 \<and> now' > claim_exp claims then None else Some claims)"
    using create_v2_token [OF sg ok' _ t(1-4)] len j by auto
  have check: "cookbook_auth_check (''{'' @ render_map quote True gs @ ''}'')
      (Some (''{'' @ render_map true_text True (flags es) @ ''}'')) g c \<longleftrightarrow> policy_allows gs es g c" for g c
    using auth_check_bare [of gs es g c] ok by (auto simp: payload_ok_def)
  note claims = read_claims_v2 [OF ok', of now "now + ttl"]
  show ?thesis
  proof (rule that [of token "read_claims ?p"])
    show "cookbook_jwt_create_v2 ed_sign now jti sub groups (policy_json gs es) ttl = Inr token" by (rule token(1))
    show "cookbook_jwt_verify ed_verify now' token =
       (if now + ttl > 0 \<and> now' > now + ttl then None else Some (read_claims ?p))" for now'
      using token(2) [of now'] claims len j t le by (simp add: Let_def)
    show "jti \<noteq> []" using j(1) by auto
  qed (use claims len j t check in auto)
qed

section \<open>Properties\<close>

text \<open>
  C6. From the policy to the decision through a token: a token of version 2 created for a
  serialized policy is accepted until it expires, its claims are those it was created with,
  and the permission check on its claims decides the policy. The sizes keep the payload
  within the buffers, and no member name of the policy is the name of a claim.
\<close>

theorem token_v2_end_to_end:
  assumes sg: "signature_pair ed_sign ed_verify"
    and ok: "payload_ok sub groups [] gs es" "distinct (map fst gs)"
    and len: "length sub < 128" "length sub + length (groups_text groups) \<le> 400"
      "length (policy_json gs es) \<le> 3500"
    and t: "0 \<le> now" "now \<le> LONG_MAX" "0 \<le> now + ttl" "now + ttl \<le> LONG_MAX" "now' \<le> now + ttl"
    and jti: "jti = generate_jti seed_time cnt addr 64"
  shows "\<exists>token claims.
     cookbook_jwt_create_v2 ed_sign now jti sub groups (policy_json gs es) ttl = Inr token \<and>
     cookbook_jwt_verify ed_verify now' token = Some claims \<and>
     claim_sub claims = sub \<and> claim_groups claims = groups_text groups \<and> claim_jti claims = jti \<and>
     claim_iat claims = now \<and> claim_exp claims = now + ttl \<and> claim_version claims = 2 \<and>
     (\<exists>g. claim_grants claims = Some g \<and>
        (\<forall>group_id c. cookbook_auth_check g (claim_exclude claims) group_id c \<longleftrightarrow>
           policy_allows gs es group_id c))"
  using t(5) by (rule_tac token_v2_claims [OF sg ok len t(1-4) jti]) auto

text \<open>A signature scheme for the examples: the first bytes of the message.\<close>

definition demo_sign :: "byte list \<Rightarrow> byte list option" where
  "demo_sign m = Some (take 64 (m @ replicate 64 0))"

definition demo_verify :: "byte list \<Rightarrow> byte list \<Rightarrow> bool" where
  "demo_verify sg m \<longleftrightarrow> sg = take 64 (m @ replicate 64 0)"

lemma demo_signature_pair: "signature_pair demo_sign demo_verify"
  by (auto simp: signature_pair_def demo_sign_def demo_verify_def min_def)

theorem token_v2_end_to_end_witness:
  "\<exists>token claims.
     cookbook_jwt_create_v2 demo_sign 1000 (generate_jti 1 2 3 64) ''bob'' None
       (policy_json [(''org.acme'', ''rw'')] [''org.acme.x'']) 60 = Inr token \<and>
     cookbook_jwt_verify demo_verify 1060 token = Some claims \<and>
     claim_sub claims = ''bob'' \<and> claim_groups claims = groups_text None \<and>
     claim_jti claims = generate_jti 1 2 3 64 \<and>
     claim_iat claims = 1000 \<and> claim_exp claims = 1000 + 60 \<and> claim_version claims = 2 \<and>
     (\<exists>g. claim_grants claims = Some g \<and>
        (\<forall>group_id c. cookbook_auth_check g (claim_exclude claims) group_id c \<longleftrightarrow>
           policy_allows [(''org.acme'', ''rw'')] [''org.acme.x''] group_id c))"
  by (rule token_v2_end_to_end [OF demo_signature_pair _ _ _ _ _ _ _ _ _ _ refl])
     (simp_all add: payload_ok_def json_safe_def groups_text_def string_or_empty_def reserved_def
       policy_json_def grants_open_def exclude_open_def quote_def flags_def true_text_def LONG_MAX_def)



text \<open>
  A token whose policy takes 4095 bytes or more loses its expiry when it is verified: the
  payload is cut before the field, the expiry reads as 0, and the token is accepted at any time.
\<close>

theorem long_token_never_expires:
  assumes sg: "signature_pair ed_sign ed_verify"
    and ok: "payload_ok sub groups [] gs es"
    and len: "length sub + length (groups_text groups) \<le> 400" "4095 \<le> length (policy_json gs es)"
    and t: "0 \<le> now" "now \<le> LONG_MAX" "0 \<le> now + ttl" "now + ttl \<le> LONG_MAX"
    and jti: "jti = generate_jti seed_time cnt addr 64"
  shows "\<exists>token. cookbook_jwt_create_v2 ed_sign now jti sub groups (policy_json gs es) ttl = Inr token \<and>
     (\<forall>now'. \<exists>claims. cookbook_jwt_verify ed_verify now' token = Some claims \<and> claim_exp claims = 0)"
proof -
  let ?p = "payload_v2 sub groups jti gs es now (now + ttl)"
  have j: "length jti = 32" "json_safe jti" unfolding jti by (rule jti_shape, rule jti_safe)
  have ok': "payload_ok sub groups jti gs es" using ok(1) j(2) by (simp add: payload_ok_def)
  have "4095 + length (show_int (now + ttl) @ ''}'') < length ?p"
    using len(2) by (simp add: payload_v2_def policy_json_braces quote_def)
  then have "strstr (take 4095 ?p) (field_pattern ''exp'' []) = None"
    by (rule strstr_take_None [OF payload_fields(9) [OF ok', of now "now + ttl"]])
  then have e: "claim_exp (read_claims (take 4095 ?p)) = 0"
    by (simp add: read_claims_def json_get_int_def key_pattern_eq int_or_zero_def Let_def)
  obtain token where token: "cookbook_jwt_create_v2 ed_sign now jti sub groups (policy_json gs es) ttl = Inr token"
    "\<And>now'. cookbook_jwt_verify ed_verify now' token =
      (let claims = read_claims (take 4095 ?p)
       in if claim_exp claims > 0 \<and> now' > claim_exp claims then None else Some claims)"
    using create_v2_token [OF sg ok' _ t(1-4)] len j by auto
  show ?thesis
    by (intro exI [of _ token] conjI allI token(1)) (simp only: token(2) Let_def e, simp add: e)
qed

theorem long_token_never_expires_witness:
  "\<exists>token. cookbook_jwt_create_v2 demo_sign 1000 (generate_jti 1 2 3 64) ''bob'' None
       (policy_json [(replicate 4095 (CHR ''a''), ''r'')] []) 60 = Inr token \<and>
     (\<forall>now'. \<exists>claims. cookbook_jwt_verify demo_verify now' token = Some claims \<and> claim_exp claims = 0)"
  by (rule long_token_never_expires [OF demo_signature_pair _ _ _ _ _ _ _ refl])
     (auto simp: payload_ok_def json_safe_def groups_text_def string_or_empty_def reserved_def
       policy_json_def quote_def LONG_MAX_def replicate_eqI dest: arg_cong [of _ _ length])

text \<open>
  A policy with a grant for a group called exp gives tokens that never expire: the reader
  takes the first member of this name for the expiry.
\<close>

theorem grant_named_exp_never_expires:
  assumes sg: "signature_pair ed_sign ed_verify"
    and t: "0 \<le> now" "now \<le> LONG_MAX" "0 \<le> now + ttl" "now + ttl \<le> LONG_MAX"
    and jti: "jti = generate_jti seed_time cnt addr 64"
  shows "\<exists>token. cookbook_jwt_create_v2 ed_sign now jti ''bob'' None (policy_json [(''exp'', ''r'')] []) ttl = Inr token \<and>
     (\<forall>now'. \<exists>claims. cookbook_jwt_verify ed_verify now' token = Some claims \<and> claim_exp claims = 0)"
proof -
  let ?p = "payload_v2 ''bob'' None jti [(''exp'', ''r'')] [] now (now + ttl)"
  have j: "length jti = 32" "json_safe jti" unfolding jti by (rule jti_shape, rule jti_safe)
  have q: "CHR 0x22 \<notin> set jti" "CHR 0x00 \<notin> set jti" using j(2) by (auto simp: json_safe_def)
  have p: "?p \<noteq> []" "CHR 0x00 \<notin> set ?p"
    using q(2) by (auto simp: payload_v2_def quote_def nul_free_show_int flags_def groups_text_def string_or_empty_def)
  have c: "length (take 4095 ?p) = length ?p"
    using length_payload_v2 [OF t(4,1,2,3), of "''bob''" None jti "[(''exp'', ''r'')]" "[]"] j(1)
    by (simp add: groups_text_def string_or_empty_def policy_json_braces quote_def flags_def)
  have "\<exists>r. strstr ?p (field_pattern ''exp'' []) = Some (field_pattern ''exp'' [] @ CHR 0x22 # r)"
    using q(1) strstr_hit_int [of "''exp''"]
    by (simp add: payload_v2_def strstr_scan groups_text_def string_or_empty_def flags_def quote_def [of "''r''"])
  then have "json_get_int ?p ''exp'' = Some 0"
    by (auto simp: json_get_int_def key_pattern_eq strtol_def isspace_def isdigit_def less_eq_char_def)
  then have e: "claim_exp (read_claims (take 4095 ?p)) = 0"
    using c by (simp add: read_claims_def int_or_zero_def Let_def)
  obtain token where token: "assemble_token ed_sign (length ?p * 2 + 16) ?p = Inr token"
    "\<And>now'. cookbook_jwt_verify ed_verify now' token =
      (let claims = read_claims (take 4095 ?p)
       in if claim_exp claims > 0 \<and> now' > claim_exp claims then None else Some claims)"
    using create_then_verify [OF sg p b64_room_le] by metis
  moreover have "cookbook_jwt_create_v2 ed_sign now jti ''bob'' None (policy_json [(''exp'', ''r'')] []) ttl = Inr token"
    using create_v2_payload [of "''bob''" None jti now ttl ed_sign "[(''exp'', ''r'')]" "[]"] token(1) t j(1)
    by (simp add: groups_text_def string_or_empty_def)
  ultimately show ?thesis using e by (intro exI [of _ token]) (simp add: Let_def)
qed

theorem grant_named_exp_never_expires_witness:
  "\<exists>token. cookbook_jwt_create_v2 demo_sign 1000 (generate_jti 1 2 3 64) ''bob'' None
       (policy_json [(''exp'', ''r'')] []) 60 = Inr token \<and>
     (\<forall>now'. \<exists>claims. cookbook_jwt_verify demo_verify now' token = Some claims \<and> claim_exp claims = 0)"
  by (rule grant_named_exp_never_expires [OF demo_signature_pair _ _ _ _ refl]) (simp_all add: LONG_MAX_def)

text \<open>
  A token of version 1 is accepted until it expires, with the claims it was created with,
  and belongs to exactly the groups it was created for.
\<close>

theorem token_v1_end_to_end:
  assumes sg: "signature_pair ed_sign ed_verify"
    and ok: "json_safe sub" "json_safe (join gs)" "\<forall>g \<in> set gs. g \<noteq> [] \<and> CHR '','' \<notin> set g"
    and len: "length sub < 128" "length (join gs) < 1024"
    and t: "0 \<le> now" "now \<le> LONG_MAX" "0 \<le> now + ttl" "now + ttl \<le> LONG_MAX" "now' \<le> now + ttl"
    and jti: "jti = generate_jti seed_time cnt addr 64"
  shows "\<exists>token claims.
     cookbook_jwt_create ed_sign now jti sub (Some (join gs)) ttl = Inr token \<and>
     cookbook_jwt_verify ed_verify now' token = Some claims \<and>
     claim_sub claims = sub \<and> claim_jti claims = jti \<and> claim_exp claims = now + ttl \<and>
     claim_version claims = 1 \<and> (\<forall>g. cookbook_jwt_has_group claims g \<longleftrightarrow> g \<in> set gs)"
proof -
  let ?ts = "payload_v1 sub (Some (join gs)) jti now (now + ttl)"
  let ?p = "concat ?ts"
  have j: "length jti = 32" "json_safe jti" unfolding jti by (rule jti_shape, rule jti_safe)
  have ok': "payload_ok sub (Some (join gs)) jti [] []"
    using ok j(2) by (simp add: payload_ok_def groups_text_def string_or_empty_def)
  have gt: "groups_text (Some (join gs)) = join gs" by (simp add: groups_text_def string_or_empty_def)
  have le: "length ?p < 2048"
    using len j(1) length_show_int [OF t(1,2)] length_show_int [OF t(3,4)]
    by (simp add: payload_v1_text gt quote_def)
  have p: "?p \<noteq> []" "CHR 0x00 \<notin> set ?p"
    using ok' unfolding payload_v1_text
    by (auto simp: quote_def nul_free_show_int payload_ok_def json_safe_def)
  obtain b where b: "put_all ?ts (cbuf_new 2048) = Some b" "cb_text b = ?p"
    using put_all_exact [of "[]" "cbuf_new 2048" ?ts] le by (auto simp: cbuf_new_def cbuf_exact_def)
  have room: "b64_room (length ?p) \<le> 4096" using le b64_room_le [of "length ?p"] by (simp add: b64_room_def)
  obtain token where token: "assemble_token ed_sign 4096 ?p = Inr token"
    "\<And>now. cookbook_jwt_verify ed_verify now token =
      (let claims = read_claims (take 4095 ?p)
       in if claim_exp claims > 0 \<and> now > claim_exp claims then None else Some claims)"
    using create_then_verify [OF sg p room] by metis
  have "cookbook_jwt_create ed_sign now jti sub (Some (join gs)) ttl = Inr token"
    by (simp add: cookbook_jwt_create_def b token(1))
  moreover have "has_group_loop (join gs) g \<longleftrightarrow> g \<in> set gs" for g
    using ok(3) by (intro has_group_join) auto
  ultimately show ?thesis
    using token(2) [of now'] read_claims_v1 [OF ok', of now "now + ttl"] len j t le
    by (simp add: gt cookbook_jwt_has_group_def)
qed

theorem token_v1_end_to_end_witness:
  "\<exists>token claims.
     cookbook_jwt_create demo_sign 1000 (generate_jti 1 2 3 64) ''bob'' (Some (join [''org.a'', ''org.b''])) 60 = Inr token \<and>
     cookbook_jwt_verify demo_verify 1060 token = Some claims \<and>
     claim_sub claims = ''bob'' \<and> claim_jti claims = generate_jti 1 2 3 64 \<and> claim_exp claims = 1000 + 60 \<and>
     claim_version claims = 1 \<and> (\<forall>g. cookbook_jwt_has_group claims g \<longleftrightarrow> g \<in> set [''org.a'', ''org.b''])"
  by (rule token_v1_end_to_end [OF demo_signature_pair _ _ _ _ _ _ _ _ _ _ refl])
     (simp_all add: json_safe_def LONG_MAX_def)

text \<open>
  Long group lists overflow the payload buffer: \<open>cookbook_jwt_create_v2\<close> sizes it by the
  policy alone, and the next write after the cut starts behind its end.
\<close>

theorem create_v2_overflow:
  assumes "length groups > 600"
  shows "cookbook_jwt_create_v2 ed_sign now jti sub (Some groups) (policy_json [] []) ttl = Inl JWT_OUT_OF_BOUNDS"
proof -
  have l: "length (policy_json [] []) = 26" by code_simp
  have "groups \<noteq> []" using assms by auto
  then show ?thesis
    using assms
    by (simp add: cookbook_jwt_create_v2_def groups_field_def snprintf_at_def cbuf_new_def l json_string_field_def quote_def)
qed

theorem create_v2_overflow_witness:
  "cookbook_jwt_create_v2 demo_sign 0 [] ''bob'' (Some (replicate 700 (CHR ''g''))) (policy_json [] []) 60 = Inl JWT_OUT_OF_BOUNDS"
  by (rule create_v2_overflow) simp

text \<open>
  Revoking keeps the list within its capacity; it succeeds unless the list is full of live
  entries; an identifier of up to 63 characters is then revoked, and so is every identifier
  revoked before whose token is still alive.
\<close>

theorem revocation_add_spec:
  assumes "cookbook_revocation_add now j x rl = (done, rl')" "length (rl_entries rl) \<le> rl_capacity rl" "length j < 64"
  shows "length (rl_entries rl') \<le> rl_capacity rl' \<and> rl_capacity rl' = rl_capacity rl \<and>
    (done \<or> length (filter (\<lambda>e. re_exp e > now) (rl_entries rl)) \<ge> rl_capacity rl) \<and>
    (done \<longrightarrow> cookbook_revocation_check rl' j) \<and>
    (\<forall>e \<in> set (rl_entries rl). re_exp e > now \<longrightarrow> e \<in> set (rl_entries rl')) \<and>
    (\<forall>k. cookbook_revocation_check rl' k \<longrightarrow> k = j \<or> cookbook_revocation_check rl k)"
proof -
  have "length (filter (\<lambda>e. re_exp e > now) (rl_entries rl)) \<le> rl_capacity rl"
    using assms(2) by (meson le_trans length_filter_le)
  then show ?thesis
    using assms
    by (auto simp: cookbook_revocation_add_def revocation_prune_filter Let_def cookbook_revocation_check_def
        split: if_splits)
qed

theorem revocation_add_spec_witness:
  "cookbook_revocation_check (snd (cookbook_revocation_add 5 ''t1'' 9 (cookbook_revocation_init 4))) ''t1''"
  using revocation_add_spec [of 5 "''t1''" 9 "cookbook_revocation_init 4" True
      "snd (cookbook_revocation_add 5 ''t1'' 9 (cookbook_revocation_init 4))"]
  by (simp add: cookbook_revocation_init_def cookbook_revocation_add_def revocation_prune_filter Let_def)

text \<open>A sequence of revocations at given times.\<close>

fun revoke_all :: "(int \<times> string \<times> int) list \<Rightarrow> cookbook_revocation_list \<Rightarrow> cookbook_revocation_list" where
  "revoke_all [] rl = rl"
| "revoke_all ((now, j, x) # ops) rl = revoke_all ops (snd (cookbook_revocation_add now j x rl))"

lemma revoke_keeps: "e \<in> set (rl_entries rl) \<Longrightarrow> re_exp e > now \<Longrightarrow> e \<in> set (rl_entries (snd (cookbook_revocation_add now j x rl)))"
  by (simp add: cookbook_revocation_add_def revocation_prune_filter Let_def)

lemma revoke_all_keeps:
  "e \<in> set (rl_entries rl) \<Longrightarrow> (\<And>now j x. (now, j, x) \<in> set ops \<Longrightarrow> now < re_exp e) \<Longrightarrow>
   e \<in> set (rl_entries (revoke_all ops rl))"
proof (induction ops rl rule: revoke_all.induct)
  case (2 now j x ops rl)
  have "now < re_exp e" using "2.prems"(2) by (meson list.set_intros(1))
  then have "e \<in> set (rl_entries (snd (cookbook_revocation_add now j x rl)))"
    using "2.prems"(1) by (intro revoke_keeps)
  moreover have "\<And>now j x. (now, j, x) \<in> set ops \<Longrightarrow> now < re_exp e"
    using "2.prems"(2) by (meson list.set_intros(2))
  ultimately show ?case using "2.IH" by simp
qed simp

text \<open>
  An entry stays in the list through any sequence of revocations made before the token it
  names has expired.
\<close>

theorem revoked_stays_revoked:
  assumes "e \<in> set (rl_entries rl)" "\<forall>(now, j, x) \<in> set ops. now < re_exp e"
  shows "cookbook_revocation_check (revoke_all ops rl) (re_jti e)"
  using revoke_all_keeps [OF assms(1), of ops] assms(2) by (auto simp: cookbook_revocation_check_def)

theorem revoked_stays_revoked_witness:
  "cookbook_revocation_check (revoke_all [(3, ''b'', 50), (8, ''c'', 60)]
     \<lparr>rl_entries = [\<lparr>re_jti = ''a'', re_exp = 9\<rparr>], rl_capacity = 2\<rparr>) ''a''"
  using revoked_stays_revoked [of "\<lparr>re_jti = ''a'', re_exp = 9\<rparr>"
      "\<lparr>rl_entries = [\<lparr>re_jti = ''a'', re_exp = 9\<rparr>], rl_capacity = 2\<rparr>" "[(3, ''b'', 50), (8, ''c'', 60)]"]
  by simp

end
