(* ===== verification/Connpool.thy ===== *)
theory Connpool
  imports CString Interfaces "HOL-Library.Multiset"
begin

text \<open>
  The pool of idle outbound connections: \<^verbatim>\<open>src/src/main/c/cookbook_connpool.c\<close>.

  An operation returns, beside its result and the new pool, the sockets it closed. A new
  connection is made by the socket layer, whose outcome is the argument \<open>connected\<close>. Every
  operation runs under the mutex of the pool, so the steps of the system are whole operations.
\<close>

section \<open>Operations\<close>

type_synonym sock = int

definition SOCK_INVALID :: sock where
  "SOCK_INVALID = -1"

definition POOL_MAX_ENTRIES :: nat where
  "POOL_MAX_ENTRIES = 128"

record pool_entry =
  pe_sock :: sock
  pe_host :: string
  pe_port :: int
  pe_use_tls :: int
  pe_idle_since :: int

record cookbook_connpool =
  pool_entries :: "pool_entry list"
  pool_max_idle :: nat
  pool_idle_timeout :: int

definition cookbook_connpool_create :: "int \<Rightarrow> int \<Rightarrow> cookbook_connpool" where
  "cookbook_connpool_create max_idle idle_timeout_sec =
     \<lparr>pool_entries = [],
      pool_max_idle = nat (if max_idle > 0 then max_idle else 4),
      pool_idle_timeout = (if idle_timeout_sec > 0 then idle_timeout_sec else 60)\<rparr>"

definition idle_live :: "int \<Rightarrow> int \<Rightarrow> pool_entry \<Rightarrow> bool" where
  "idle_live timeout now e \<longleftrightarrow> now - pe_idle_since e < timeout"

definition pool_prune :: "int \<Rightarrow> cookbook_connpool \<Rightarrow> cookbook_connpool \<times> sock list" where
  "pool_prune now pool =
     (let live = idle_live (pool_idle_timeout pool) now
      in (pool\<lparr>pool_entries := compact live (pool_entries pool)\<rparr>,
          map pe_sock (filter (\<lambda>e. \<not> live e) (pool_entries pool))))"

definition entry_for :: "string \<Rightarrow> int \<Rightarrow> int \<Rightarrow> pool_entry \<Rightarrow> bool" where
  "entry_for host port use_tls e \<longleftrightarrow> pe_port e = port \<and> pe_use_tls e = use_tls \<and> pe_host e = host"

text \<open>The index of the first entry with a property, the loop over \<open>i\<close>.\<close>

fun find_index :: "('a \<Rightarrow> bool) \<Rightarrow> 'a list \<Rightarrow> nat option" where
  "find_index p [] = None"
| "find_index p (x # xs) = (if p x then Some 0 else map_option Suc (find_index p xs))"

text \<open>\<open>entries[i] = entries[--count]\<close>.\<close>

definition swap_remove :: "'a list \<Rightarrow> nat \<Rightarrow> 'a list" where
  "swap_remove es i = butlast (es[i := last es])"

definition cookbook_connpool_get :: "int \<Rightarrow> sock \<Rightarrow> cookbook_connpool \<Rightarrow> string \<Rightarrow> int \<Rightarrow> int \<Rightarrow>
    sock \<times> cookbook_connpool \<times> sock list" where
  "cookbook_connpool_get now connected pool host port use_tls =
     (let (pool, closed) = pool_prune now pool
      in case find_index (entry_for host port use_tls) (pool_entries pool) of
           Some i \<Rightarrow>
             (pe_sock (pool_entries pool ! i), pool\<lparr>pool_entries := swap_remove (pool_entries pool) i\<rparr>, closed)
         | None \<Rightarrow> (if use_tls \<noteq> 0 then SOCK_INVALID else connected, pool, closed))"

definition host_count :: "string \<Rightarrow> int \<Rightarrow> pool_entry list \<Rightarrow> nat" where
  "host_count host port es = length (filter (\<lambda>e. pe_port e = port \<and> pe_host e = host) es)"

definition cookbook_connpool_put :: "int \<Rightarrow> cookbook_connpool \<Rightarrow> sock \<Rightarrow> string \<Rightarrow> int \<Rightarrow> int \<Rightarrow>
    cookbook_connpool \<times> sock list" where
  "cookbook_connpool_put now pool s host port use_tls =
     (if s = SOCK_INVALID then (pool, [])
      else
        (let (pool, closed) = pool_prune now pool; es = pool_entries pool
         in if host_count host port es \<ge> pool_max_idle pool \<or> length es \<ge> POOL_MAX_ENTRIES
            then (pool, closed @ [s])
            else (pool\<lparr>pool_entries := es @ [\<lparr>pe_sock = s, pe_host = bounded 256 host, pe_port = port,
                    pe_use_tls = use_tls, pe_idle_since = now\<rparr>]\<rparr>, closed)))"

definition cookbook_connpool_destroy :: "cookbook_connpool \<Rightarrow> sock list" where
  "cookbook_connpool_destroy pool = map pe_sock (pool_entries pool)"

section \<open>The pool and its clients as a transition system\<close>

text \<open>
  The sockets in the hands of clients are tracked beside the pool. The operating system gives
  a descriptor that is not in use; a client returns only a socket it holds, for a host name
  that fits the field.
\<close>

record pool_system =
  ps_pool :: cookbook_connpool
  ps_out :: "sock list"

definition pooled :: "cookbook_connpool \<Rightarrow> sock list" where
  "pooled pool = map pe_sock (pool_entries pool)"

inductive pool_step :: "pool_system \<Rightarrow> pool_system \<Rightarrow> bool" where
  get: "connected = SOCK_INVALID \<or> connected \<notin> set (pooled (ps_pool st)) \<union> set (ps_out st) \<Longrightarrow>
    cookbook_connpool_get now connected (ps_pool st) host port use_tls = (s, pool', closed) \<Longrightarrow>
    pool_step st \<lparr>ps_pool = pool', ps_out = (if s = SOCK_INVALID then ps_out st else s # ps_out st)\<rparr>"
| put: "s \<in> set (ps_out st) \<Longrightarrow> length host < 256 \<Longrightarrow>
    cookbook_connpool_put now (ps_pool st) s host port use_tls = (pool', closed) \<Longrightarrow>
    pool_step st \<lparr>ps_pool = pool', ps_out = remove1 s (ps_out st)\<rparr>"

definition pool_inv :: "pool_system \<Rightarrow> bool" where
  "pool_inv st \<longleftrightarrow>
     distinct (pooled (ps_pool st) @ ps_out st) \<and>
     SOCK_INVALID \<notin> set (pooled (ps_pool st)) \<union> set (ps_out st) \<and>
     length (pool_entries (ps_pool st)) \<le> POOL_MAX_ENTRIES \<and>
     (\<forall>host port. host_count host port (pool_entries (ps_pool st)) \<le> pool_max_idle (ps_pool st))"

section \<open>Lemmas\<close>

interpretation idle: pruned_table "\<lambda>(timeout, now). compact (idle_live timeout now)" "\<lambda>(timeout, now). idle_live timeout now"
  by unfold_locales (auto simp: compact_filter)

lemma find_index_Some:
  "find_index p xs = Some i \<Longrightarrow> i < length xs \<and> p (xs ! i) \<and> (\<forall>j < i. \<not> p (xs ! j))"
proof (induction xs arbitrary: i)
  case (Cons x xs)
  then show ?case by (auto simp: less_Suc_eq_0_disj split: if_splits)
qed simp

lemma find_index_None: "find_index p xs = None \<longleftrightarrow> (\<forall>x \<in> set xs. \<not> p x)"
  by (induction xs) auto

lemma swap_remove_perm: "i < length es \<Longrightarrow> mset es = mset (es ! i # swap_remove es i)"
proof -
  assume i: "i < length es"
  then have ne: "es \<noteq> []" by auto
  then have "es[i := last es] \<noteq> []" by simp
  then have "mset (es[i := last es]) = add_mset (last (es[i := last es])) (mset (butlast (es[i := last es])))"
    by (metis append_butlast_last_id mset_append mset.simps add_mset_add_single union_commute union_mset_add_mset_right add.right_neutral)
  moreover have "last (es[i := last es]) = last es" using i ne by (simp add: last_list_update)
  moreover have "mset (es[i := last es]) = add_mset (last es) (mset es - {#es ! i#})"
    using i by (simp add: mset_update)
  ultimately show ?thesis using i by (simp add: swap_remove_def) (metis insert_DiffM nth_mem_mset)
qed

lemma swap_remove_map: "i < length es \<Longrightarrow> mset (map f es) = mset (f (es ! i) # map f (swap_remove es i))"
  using arg_cong [OF swap_remove_perm, of i es "image_mset f"] by simp

lemma mset_split: "mset (map f xs) = mset (map f (filter p xs) @ map f (filter (\<lambda>x. \<not> p x) xs))"
  by (induction xs) auto

lemma swap_remove_sub: "i < length es \<Longrightarrow> set (swap_remove es i) \<subseteq> set es"
  using swap_remove_perm [of i es] by (metis insert_subset list.set(2) mset_eq_setD subset_insertI)

lemma swap_remove_count:
  assumes "i < length es"
  shows "length (filter p (swap_remove es i)) \<le> length (filter p es)"
proof -
  have "mset (filter p es) = mset (filter p (es ! i # swap_remove es i))"
    using arg_cong [OF swap_remove_perm [OF assms], of "filter_mset p"] by simp
  then have "length (filter p es) = length (filter p (es ! i # swap_remove es i))" by (rule mset_eq_length)
  then show ?thesis by (simp split: if_splits)
qed

lemma pool_prune_entries:
  assumes "pool_prune now pool = (pool', closed)"
  shows "pool_entries pool' = filter (idle_live (pool_idle_timeout pool) now) (pool_entries pool)"
    "pool_max_idle pool' = pool_max_idle pool" "pool_idle_timeout pool' = pool_idle_timeout pool"
    "closed = map pe_sock (filter (\<lambda>e. \<not> idle_live (pool_idle_timeout pool) now e) (pool_entries pool))"
  using assms by (auto simp: pool_prune_def Let_def compact_filter)

lemma filter_filter_le: "length (filter p (filter q xs)) \<le> length (filter p xs)"
  by (induction xs) auto

lemma prune_inv:
  assumes "pool_inv st" "pool_prune now (ps_pool st) = (pool', closed)"
  shows "pool_inv (st\<lparr>ps_pool := pool'\<rparr>)"
proof -
  note e = pool_prune_entries [OF assms(2)]
  have "distinct (pooled pool' @ ps_out st)"
    using assms(1) by (auto simp: pool_inv_def pooled_def e distinct_map_filter)
  moreover have "host_count h p (pool_entries pool') \<le> pool_max_idle pool'" for h p
    using assms(1) filter_filter_le le_trans unfolding pool_inv_def host_count_def e by blast
  moreover have "length (pool_entries pool') \<le> POOL_MAX_ENTRIES"
    using assms(1) length_filter_le le_trans unfolding pool_inv_def e by blast
  ultimately show ?thesis using assms(1) by (auto simp: pool_inv_def pooled_def e)
qed

lemma get_inv:
  assumes inv: "pool_inv st"
    and conn: "connected = SOCK_INVALID \<or> connected \<notin> set (pooled (ps_pool st)) \<union> set (ps_out st)"
    and get: "cookbook_connpool_get now connected (ps_pool st) host port use_tls = (s, pool', closed)"
  shows "pool_inv \<lparr>ps_pool = pool', ps_out = (if s = SOCK_INVALID then ps_out st else s # ps_out st)\<rparr>"
proof -
  obtain pl cl where p: "pool_prune now (ps_pool st) = (pl, cl)" by fastforce
  let ?es = "pool_entries pl"
  have i1: "pool_inv (st\<lparr>ps_pool := pl\<rparr>)" using prune_inv [OF inv p] .
  have sub: "set (pooled pl) \<subseteq> set (pooled (ps_pool st))" by (auto simp: pooled_def pool_prune_entries [OF p])
  show ?thesis
  proof (cases "find_index (entry_for host port use_tls) ?es")
    case None
    with get p have "s = (if use_tls \<noteq> 0 then SOCK_INVALID else connected)" "pool' = pl"
      by (auto simp: cookbook_connpool_get_def)
    with i1 conn sub show ?thesis by (auto simp: pool_inv_def)
  next
    case (Some i)
    have i: "i < length ?es" using find_index_Some [OF Some] by simp
    have g: "s = pe_sock (?es ! i)" "pool' = pl\<lparr>pool_entries := swap_remove ?es i\<rparr>"
      using get p Some by (auto simp: cookbook_connpool_get_def)
    have m: "mset (pooled pl) = mset (s # pooled pool')"
      using swap_remove_map [OF i, of pe_sock] by (simp add: pooled_def g)
    then have "mset (pooled pl @ ps_out st) = mset ((s # pooled pool') @ ps_out st)" by simp
    then have d: "distinct (pooled pl @ ps_out st) \<longleftrightarrow> distinct ((s # pooled pool') @ ps_out st)"
      by (rule mset_eq_imp_distinct_iff)
    have ss: "set (pooled pl) = insert s (set (pooled pool'))" using mset_eq_setD [OF m] by simp
    have "length (swap_remove ?es i) \<le> length ?es" by (simp add: swap_remove_def)
    moreover have "host_count a b (swap_remove ?es i) \<le> pool_max_idle pl" for a b
      using i1 le_trans [OF swap_remove_count [OF i]] by (auto simp: pool_inv_def host_count_def)
    ultimately show ?thesis using i1 d ss by (auto simp: pool_inv_def g(2))
  qed
qed

lemma put_inv:
  assumes inv: "pool_inv st" and s: "s \<in> set (ps_out st)" and h: "length host < 256"
    and put: "cookbook_connpool_put now (ps_pool st) s host port use_tls = (pool', closed)"
  shows "pool_inv \<lparr>ps_pool = pool', ps_out = remove1 s (ps_out st)\<rparr>"
proof -
  obtain pl cl where p: "pool_prune now (ps_pool st) = (pl, cl)" by fastforce
  let ?es = "pool_entries pl"
  have i1: "pool_inv (st\<lparr>ps_pool := pl\<rparr>)" using prune_inv [OF inv p] .
  have valid: "s \<noteq> SOCK_INVALID" using inv s by (auto simp: pool_inv_def)
  have out: "distinct (ps_out st)" "s \<notin> set (pooled pl)" using i1 s by (auto simp: pool_inv_def)
  let ?full = "host_count host port ?es \<ge> pool_max_idle pl \<or> length ?es \<ge> POOL_MAX_ENTRIES"
  show ?thesis
  proof (cases ?full)
    case True
    with put p valid have "pool' = pl" by (auto simp: cookbook_connpool_put_def)
    with i1 out show ?thesis by (auto simp: pool_inv_def dest: notin_set_remove1)
  next
    case False
    let ?e = "\<lparr>pe_sock = s, pe_host = host, pe_port = port, pe_use_tls = use_tls, pe_idle_since = now\<rparr>"
    have e: "pool' = pl\<lparr>pool_entries := ?es @ [?e]\<rparr>"
      using False put p valid h by (auto simp: cookbook_connpool_put_def Let_def)
    have "host_count a b (?es @ [?e]) \<le> pool_max_idle pl" for a b
      using False i1 by (auto simp: pool_inv_def host_count_def)
    then show ?thesis
      using i1 out valid False by (auto simp: pool_inv_def e pooled_def dest: notin_set_remove1)
  qed
qed

lemma pool_step_inv: "pool_step st st' \<Longrightarrow> pool_inv st \<Longrightarrow> pool_inv st'"
proof (induction rule: pool_step.induct)
  case (get connected st now host port use_tls s pool' closed)
  then show ?case by (intro get_inv) auto
next
  case (put s st host now port use_tls pool' closed)
  then show ?case by (intro put_inv) auto
qed

lemma pool_create_inv: "pool_inv \<lparr>ps_pool = cookbook_connpool_create m t, ps_out = []\<rparr>"
  by (simp add: pool_inv_def cookbook_connpool_create_def pooled_def host_count_def)

section \<open>Properties\<close>

text \<open>
  C27. In every state the pool and its clients can reach, no socket is both pooled and in use
  and none is held twice, the pool holds at most 128 connections, and at most the configured
  number for one host and port.
\<close>

theorem pool_reachable_inv:
  assumes "pool_step\<^sup>*\<^sup>* \<lparr>ps_pool = cookbook_connpool_create max_idle timeout, ps_out = []\<rparr> st"
  shows "distinct (pooled (ps_pool st) @ ps_out st) \<and>
         length (pool_entries (ps_pool st)) \<le> 128 \<and>
         host_count host port (pool_entries (ps_pool st)) \<le> pool_max_idle (ps_pool st)"
proof -
  have "pool_inv st" using assms by (induction rule: rtranclp_induct) (auto intro: pool_step_inv pool_create_inv)
  then show ?thesis by (simp add: pool_inv_def POOL_MAX_ENTRIES_def)
qed

theorem pool_reachable_inv_witness:
  "distinct (pooled (cookbook_connpool_create 2 60) @ [7])"
proof -
  have "pool_step \<lparr>ps_pool = cookbook_connpool_create 2 60, ps_out = []\<rparr>
          \<lparr>ps_pool = cookbook_connpool_create 2 60, ps_out = [7]\<rparr>"
    using pool_step.get [of 7 "\<lparr>ps_pool = cookbook_connpool_create 2 60, ps_out = []\<rparr>" 0 "''h''" 80 0 7 "cookbook_connpool_create 2 60" "[]"]
    by (simp add: cookbook_connpool_get_def cookbook_connpool_create_def pool_prune_def compact_def pooled_def SOCK_INVALID_def)
  then show ?thesis using pool_reachable_inv [OF r_into_rtranclp] by fastforce
qed

text \<open>
  A connection given out of the pool is one that was put in for the same host, port and
  mode and has not been idle for the timeout; one that is not reused is pooled or closed,
  never lost.
\<close>

theorem pool_get_fresh:
  assumes "cookbook_connpool_get now connected pool host port use_tls = (s, pool', closed)"
  shows "(\<exists>e \<in> set (pool_entries pool). s = pe_sock e \<and> pe_host e = host \<and> pe_port e = port \<and>
            pe_use_tls e = use_tls \<and> now - pe_idle_since e < pool_idle_timeout pool \<and>
            mset (pooled pool) = mset (s # pooled pool' @ closed)) \<or>
         (s = (if use_tls \<noteq> 0 then SOCK_INVALID else connected) \<and>
            mset (pooled pool) = mset (pooled pool' @ closed))"
proof -
  obtain pl cl where p: "pool_prune now pool = (pl, cl)" by fastforce
  let ?es = "pool_entries pl"
  have split: "mset (pooled pool) = mset (pooled pl @ cl)"
    unfolding pooled_def pool_prune_entries [OF p] by (rule mset_split)
  show ?thesis
  proof (cases "find_index (entry_for host port use_tls) ?es")
    case None
    with assms p split show ?thesis by (auto simp: cookbook_connpool_get_def)
  next
    case (Some i)
    have i: "i < length ?es" "entry_for host port use_tls (?es ! i)" using find_index_Some [OF Some] by auto
    then have "?es ! i \<in> set ?es" by simp
    then have e: "?es ! i \<in> set (pool_entries pool)" "idle_live (pool_idle_timeout pool) now (?es ! i)"
      by (auto simp: pool_prune_entries [OF p])
    have g: "s = pe_sock (?es ! i)" "pool' = pl\<lparr>pool_entries := swap_remove ?es i\<rparr>" "closed = cl"
      using assms p Some by (auto simp: cookbook_connpool_get_def)
    have "mset (pooled pl) = mset (s # pooled pool')"
      using swap_remove_map [OF i(1), of pe_sock] by (simp add: pooled_def g)
    with split i(2) e g show ?thesis
      by (intro disjI1 bexI [of _ "?es ! i"]) (auto simp: entry_for_def idle_live_def)
  qed
qed

theorem pool_get_fresh_witness:
  "\<exists>e \<in> set [\<lparr>pe_sock = 5, pe_host = ''h'', pe_port = 80, pe_use_tls = 0, pe_idle_since = 10\<rparr>]. (5 :: int) = pe_sock e \<and> (30 :: int) - pe_idle_since e < 60"
proof -
  let ?p = "\<lparr>pool_entries = [\<lparr>pe_sock = 5, pe_host = ''h'', pe_port = 80, pe_use_tls = 0, pe_idle_since = 10\<rparr>],
             pool_max_idle = 1, pool_idle_timeout = 60\<rparr>"
  have "cookbook_connpool_get 30 9 ?p ''h'' 80 0 = (5, ?p\<lparr>pool_entries := []\<rparr>, [])" by code_simp
  from pool_get_fresh [OF this] show ?thesis by auto
qed

text \<open>A limit of 0 idle connections, documented as no pooling, is taken as 4.\<close>

theorem pool_zero_is_four: "pool_max_idle (cookbook_connpool_create 0 timeout) = 4"
  by (simp add: cookbook_connpool_create_def)

end
