(* ===== verification/Grid.thy ===== *)
theory Grid
  imports Jwt Db Connpool
begin

text \<open>
  Federation: \<^verbatim>\<open>src/src/main/c/cookbook_grid.c\<close> and the parts of
  \<^verbatim>\<open>src/src/main/c/cookbook_server.c\<close> that carry grants between registries and check the
  signature of a peer. The sending side builds headers from the claims of a token and signs a
  canonical text of the request; the receiving side rebuilds both. The transport itself (sockets,
  TLS client) is not part of the model; the SQL engine that runs the text of the key lookup is
  the parameter \<open>run_sql\<close>.
\<close>

section \<open>Peers\<close>

record cookbook_peer =
  peer_id :: string
  peer_name :: string
  peer_url :: string
  peer_mode :: char
  peer_priority :: int
  peer_enabled :: bool
  peer_public_key :: "byte list"
  peer_has_public_key :: bool

definition hex_val :: "char \<Rightarrow> nat option" where
  "hex_val c =
     (if isdigit c then Some (digit_val c)
      else if CHR ''a'' \<le> c \<and> c \<le> CHR ''f'' then Some (of_char c - 87)
      else if CHR ''A'' \<le> c \<and> c \<le> CHR ''F'' then Some (of_char c - 55)
      else None)"

text \<open>
  \<open>sscanf(s, "%2x", &byte)\<close>: white space is skipped, a sign or \<open>0x\<close> counts toward the two
  characters, and at least one digit must be there.
\<close>

fun scan_digits :: "string \<Rightarrow> nat \<Rightarrow> nat option" where
  "scan_digits [] acc = None"
| "scan_digits [c] acc = map_option (\<lambda>d. 16 * acc + d) (hex_val c)"
| "scan_digits (c # cs) acc =
     (case hex_val c of
        None \<Rightarrow> None
      | Some d \<Rightarrow>
          (case scan_digits cs (16 * acc + d) of None \<Rightarrow> Some (16 * acc + d) | Some v \<Rightarrow> Some v))"

definition scan_hex2 :: "string \<Rightarrow> int option" where
  "scan_hex2 s =
     (let t = take 2 (dropWhile isspace s)
      in if t \<noteq> [] \<and> hd t = CHR ''-'' then map_option (\<lambda>v. - int v) (scan_digits (tl t) 0)
         else if t \<noteq> [] \<and> hd t = CHR ''+'' then map_option int (scan_digits (tl t) 0)
         else map_option int (scan_digits t 0))"

text \<open>
  The loop over the 32 pairs of a key of 64 characters: it stops at the first pair that is no
  number, with the bytes before it already stored.
\<close>

fun fill_key :: "nat list \<Rightarrow> string \<Rightarrow> byte list \<Rightarrow> byte list \<times> bool" where
  "fill_key [] hex pk = (pk, True)"
| "fill_key (i # is) hex pk =
     (case scan_hex2 (drop (i * 2) hex) of
        None \<Rightarrow> (pk, False)
      | Some v \<Rightarrow> fill_key is hex (pk[i := word_of_int v]))"

definition peer_load_cb :: "peer_row \<Rightarrow> cookbook_peer" where
  "peer_load_cb row =
     (let (pk, found) = (case pr_public_key row of
            Some hex \<Rightarrow> if length hex = 64 then fill_key [0..<32] hex (replicate 32 0) else (replicate 32 0, False)
          | None \<Rightarrow> (replicate 32 0, False))
      in \<lparr>peer_id = pr_peer_id row, peer_name = pr_name row, peer_url = pr_url row,
          peer_mode = (if pr_mode row \<noteq> [] \<and> hd (pr_mode row) = CHR ''p'' then CHR ''p'' else CHR ''r''),
          peer_priority = atoi (show_int (pr_priority row)), peer_enabled = True,
          peer_public_key = pk, peer_has_public_key = found\<rparr>)"

definition cookbook_grid_load_peers :: "cookbook_db \<Rightarrow> cookbook_peer list \<times> cookbook_db" where
  "cookbook_grid_load_peers db =
     (let (rows, db) = db_query (\<lambda>db. sort_key pr_priority (filter (\<lambda>r. pr_enabled r = 1) (db_peers db))) db
      in (map peer_load_cb rows, db))"

text \<open>The key lookup puts the identifier into the text of the statement.\<close>

definition peer_key_sql :: "string \<Rightarrow> string" where
  "peer_key_sql pid = bounded 256
     (''SELECT public_key FROM peers WHERE peer_id = '' @ [CHR 0x27] @ pid @ [CHR 0x27] @
      '' AND enabled = 1 AND public_key IS NOT NULL'')"

record peer_key_ctx =
  pkc_pk :: "byte list"
  pkc_found :: bool

definition peer_key_cb :: "peer_key_ctx \<Rightarrow> string option \<Rightarrow> peer_key_ctx" where
  "peer_key_cb ctx value =
     (case value of
        None \<Rightarrow> ctx
      | Some hex \<Rightarrow>
          if length hex \<noteq> 64 then ctx
          else let (pk, done) = fill_key [0..<32] hex (pkc_pk ctx)
               in ctx\<lparr>pkc_pk := pk, pkc_found := pkc_found ctx \<or> done\<rparr>)"

definition cookbook_grid_load_peer_key :: "(cookbook_db \<Rightarrow> string \<Rightarrow> string option list) \<Rightarrow> cookbook_db \<Rightarrow> string \<Rightarrow> byte list option" where
  "cookbook_grid_load_peer_key run_sql db pid =
     (let ctx = foldl peer_key_cb \<lparr>pkc_pk = replicate 32 0, pkc_found = False\<rparr> (run_sql db (peer_key_sql pid))
      in if pkc_found ctx then Some (pkc_pk ctx) else None)"

section \<open>Addresses\<close>

definition parse_authority :: "bool \<Rightarrow> string \<Rightarrow> string \<times> string \<times> string" where
  "parse_authority use_tls p =
     (let slash = dropWhile (\<lambda>c. c \<noteq> CHR ''/'') p;
          auth = takeWhile (\<lambda>c. c \<noteq> CHR ''/'') p
      in if CHR '':'' \<in> set auth
         then (takeWhile (\<lambda>c. c \<noteq> CHR '':'') auth, tl (dropWhile (\<lambda>c. c \<noteq> CHR '':'') auth), slash)
         else (auth, if use_tls then ''443'' else ''80'', slash))"

text \<open>Host, port, path prefix and whether TLS is used.\<close>

definition parse_peer_url :: "string \<Rightarrow> (string \<times> string \<times> string \<times> bool) option" where
  "parse_peer_url url =
     (if has_prefix url ''https://'' then
        (let (h, p, x) = parse_authority True (drop 8 url) in Some (h, p, x, True))
      else if has_prefix url ''http://'' then
        (let (h, p, x) = parse_authority False (drop 7 url) in Some (h, p, x, False))
      else None)"

section \<open>The route of a request\<close>

definition build_via :: "string option \<Rightarrow> string \<Rightarrow> string" where
  "build_via via_chain origin =
     bounded 1024 (case via_chain of
         Some v \<Rightarrow> (if v \<noteq> [] then v @ '','' @ origin else origin)
       | None \<Rightarrow> origin)"

definition via_sep :: "char \<Rightarrow> bool" where
  "via_sep c \<longleftrightarrow> c = CHR '','' \<or> c = CHR '' ''"

function is_loop_from :: "string \<Rightarrow> string \<Rightarrow> bool" where
  "is_loop_from origin p =
     (let q = dropWhile via_sep p
      in if q = [] then False
         else if takeWhile (\<lambda>c. \<not> via_sep c) q = origin then True
         else is_loop_from origin (dropWhile (\<lambda>c. \<not> via_sep c) q))"
  by pat_completeness auto
termination
proof (relation "measure (\<lambda>(origin, p). length p)")
  fix origin p q
  assume q: "q = dropWhile via_sep p" "q \<noteq> []"
  then have "\<not> via_sep (hd q)" using hd_dropWhile [of via_sep p] by simp
  then have "dropWhile (\<lambda>c. \<not> via_sep c) q = dropWhile (\<lambda>c. \<not> via_sep c) (tl q)"
    using q(2) by (cases q) simp_all
  then have "length (dropWhile (\<lambda>c. \<not> via_sep c) q) \<le> length (tl q)"
    using length_dropWhile_le [of "\<lambda>c. \<not> via_sep c" "tl q"] by (simp only:)
  also have "\<dots> < length q" using q(2) by (cases q) simp_all
  also have "\<dots> \<le> length p" unfolding q(1) by (rule length_dropWhile_le)
  finally show "((origin, dropWhile (\<lambda>c. \<not> via_sep c) q), origin, p) \<in> measure (\<lambda>(origin, p). length p)" by simp
qed simp

declare is_loop_from.simps [simp del]

definition cookbook_grid_is_loop :: "string \<Rightarrow> string \<Rightarrow> bool" where
  "cookbook_grid_is_loop origin via_chain = is_loop_from origin via_chain"

section \<open>Signing a request\<close>

definition nl_char :: char where "nl_char = CHR 0x0a"

text \<open>The seven lines that are signed; a text of any length is kept, in a larger buffer.\<close>

definition cookbook_grid_build_canonical ::
  "string \<Rightarrow> string \<Rightarrow> string option \<Rightarrow> int \<Rightarrow> string option \<Rightarrow> string option \<Rightarrow> int \<Rightarrow> string" where
  "cookbook_grid_build_canonical method path via hop_count grants exclude timestamp =
     method @ [nl_char] @ path @ [nl_char] @ string_or_empty via @ [nl_char] @ show_int hop_count @ [nl_char] @
     string_or_empty grants @ [nl_char] @ string_or_empty exclude @ [nl_char] @ show_int timestamp @ [nl_char]"

definition crlf :: string where "crlf = [CHR 0x0d, CHR 0x0a]"

text \<open>The value of a header in raw header lines, cut to the buffer; empty when there is none.\<close>

function header_value_from :: "string \<Rightarrow> string \<Rightarrow> nat \<Rightarrow> string" where
  "header_value_from name p out_sz =
     (if p = [] then []
      else if has_prefix p name \<and> length p > length name \<and> p ! length name = CHR '':'' then
        (let v = dropWhile (\<lambda>c. c = CHR '' '') (drop (length name + 1) p);
             rest = (case strstr v crlf of None \<Rightarrow> [] | Some r \<Rightarrow> r)
         in take (out_sz - 1) (take (length v - length rest) v))
      else case strstr p crlf of None \<Rightarrow> [] | Some r \<Rightarrow> header_value_from name (drop 2 r) out_sz)"
  by pat_completeness auto
termination
proof (relation "measure (\<lambda>(name, p, n). length p)")
  fix name :: string and p out_sz r
  assume "p \<noteq> []" "strstr p crlf = Some r"
  from strstr_Some_suffix [OF this(2)] this(1) have "length r \<le> length p" "r \<noteq> []"
    by (auto simp: crlf_def)
  then have "length (drop 2 r) < length p" by (cases r) auto
  then show "((name, drop 2 r, out_sz), name, p, out_sz) \<in> measure (\<lambda>(name, p, n). length p)" by simp
qed simp

declare header_value_from.simps [simp del]

definition extract_header_value :: "string option \<Rightarrow> string \<Rightarrow> nat \<Rightarrow> string" where
  "extract_header_value headers name out_sz =
     (case headers of None \<Rightarrow> [] | Some h \<Rightarrow> header_value_from name h out_sz)"

definition grants_header :: string where "grants_header = ''X-Cookbook-Grid-Grants''"
definition exclude_header :: string where "exclude_header = ''X-Cookbook-Grid-Exclude''"

text \<open>
  The headers of a signed request: the given ones and the three of the signature. Without a
  key, or when signing fails, the given ones alone.
\<close>

definition sign_request ::
  "(byte list \<Rightarrow> byte list option) option \<Rightarrow> string \<Rightarrow> int \<Rightarrow> string \<Rightarrow> string \<Rightarrow> string \<Rightarrow> string option \<Rightarrow>
   int \<Rightarrow> string option \<Rightarrow> (string \<times> string) list" where
  "sign_request ed_sign registry_id now method path origin via_chain hop_count extra_headers =
     (case ed_sign of
        None \<Rightarrow> []
      | Some sign \<Rightarrow>
          (let canonical = cookbook_grid_build_canonical method path (Some (build_via via_chain origin))
                 (hop_count + 1) (Some (extract_header_value extra_headers grants_header 2048))
                 (Some (extract_header_value extra_headers exclude_header 2048)) now
           in case sign (bytes_of canonical) of
                None \<Rightarrow> []
              | Some sig \<Rightarrow>
                  [(''X-Cookbook-Grid-Origin'', registry_id),
                   (''X-Cookbook-Grid-Signature'', cookbook_base64url_encode sig 128),
                   (''X-Cookbook-Timestamp'', show_int now)]))"

text \<open>The headers that go with every request.\<close>

definition route_headers :: "string \<Rightarrow> string option \<Rightarrow> int \<Rightarrow> (string \<times> string) list" where
  "route_headers origin via_chain hop_count =
     [(''X-Cookbook-Via'', build_via via_chain origin),
      (''X-Cookbook-Hop-Count'', show_int (hop_count + 1))]"

section \<open>Checking a request\<close>

definition tolower :: "char \<Rightarrow> char" where
  "tolower c = (if isupper c then char_of (of_char c + (32 :: nat)) else c)"

definition grid_get_header :: "(string \<times> string) list \<Rightarrow> string \<Rightarrow> string option" where
  "grid_get_header headers name =
     map_option snd (find (\<lambda>(n, v). map tolower n = map tolower name) headers)"

definition grid_get_via :: "(string \<times> string) list \<Rightarrow> string option" where
  "grid_get_via headers = grid_get_header headers ''X-Cookbook-Via''"

definition grid_get_hop_count :: "(string \<times> string) list \<Rightarrow> int" where
  "grid_get_hop_count headers =
     (case grid_get_header headers ''X-Cookbook-Hop-Count'' of None \<Rightarrow> 0 | Some v \<Rightarrow> atoi v)"

definition verify_grid_peer_sig ::
  "(byte list \<Rightarrow> byte list \<Rightarrow> byte list \<Rightarrow> bool) \<Rightarrow> (string \<Rightarrow> byte list option) \<Rightarrow> bool \<Rightarrow> int \<Rightarrow>
   string \<Rightarrow> string \<Rightarrow> (string \<times> string) list \<Rightarrow> bool" where
  "verify_grid_peer_sig ed_verify peer_key grid_peer_auth now method local_uri headers =
     (case (grid_get_header headers ''X-Cookbook-Grid-Origin'',
            grid_get_header headers ''X-Cookbook-Grid-Signature'',
            grid_get_header headers ''X-Cookbook-Timestamp'') of
        (Some origin, Some sig_b64, Some ts_str) \<Rightarrow>
          (let ts = fst (strtol ts_str)
           in if abs (now - ts) > 300 then False
              else case peer_key origin of
                None \<Rightarrow> False
              | Some pk \<Rightarrow>
                  (let sig = cookbook_base64url_decode sig_b64 64
                   in if length sig \<noteq> 64 then False
                      else ed_verify pk sig (bytes_of
                        (cookbook_grid_build_canonical method local_uri (grid_get_via headers)
                          (grid_get_hop_count headers) (grid_get_header headers grants_header)
                          (grid_get_header headers exclude_header) ts))))
      | _ \<Rightarrow> \<not> grid_peer_auth)"

section \<open>Grants in headers\<close>

text \<open>A quoted text at the front, and the rest behind it.\<close>

definition quoted_at :: "string \<Rightarrow> (string \<times> string) option" where
  "quoted_at p =
     (if p \<noteq> [] \<and> hd p = CHR 0x22 \<and> CHR 0x22 \<in> set (tl p)
      then Some (takeWhile (\<lambda>c. c \<noteq> CHR 0x22) (tl p), tl (dropWhile (\<lambda>c. c \<noteq> CHR 0x22) (tl p)))
      else None)"

definition skip_sep :: "string \<Rightarrow> string" where
  "skip_sep p = dropWhile (\<lambda>c. c = CHR '' '' \<or> c = CHR 0x0a \<or> c = CHR '','') p"

definition read_pair :: "string \<Rightarrow> (string \<times> string \<times> string) option" where
  "read_pair p = do {
     (k, r) \<leftarrow> quoted_at (skip_sep p);
     (v, r) \<leftarrow> quoted_at (dropWhile (\<lambda>c. c = CHR '' '' \<or> c = CHR '':'') r);
     Some (k, v, r)
   }"

definition read_flag :: "string \<Rightarrow> (string \<times> string) option" where
  "read_flag p = do {
     (k, r) \<leftarrow> quoted_at (skip_sep p);
     Some (k, dropWhile (\<lambda>c. c \<noteq> CHR '','' \<and> c \<noteq> CHR ''}'') r)
   }"

lemma quoted_at_shorter: "quoted_at p = Some (k, r) \<Longrightarrow> length r < length p"
proof -
  assume "quoted_at p = Some (k, r)"
  then have p: "p \<noteq> []" "r = tl (dropWhile (\<lambda>c. c \<noteq> CHR 0x22) (tl p))"
    by (auto simp: quoted_at_def split: if_splits)
  have "length r \<le> length (tl p)"
    unfolding p(2) using length_dropWhile_le [of "\<lambda>c. c \<noteq> CHR 0x22" "tl p"] by (simp add: diff_le_mono le_diff_conv)
  with p(1) show ?thesis by (cases p) auto
qed

lemma dropWhile_less: "n < length (dropWhile p xs) \<Longrightarrow> n < length xs"
  by (rule less_le_trans [OF _ length_dropWhile_le])

lemma read_pair_shorter: "read_pair p = Some (k, v, r) \<Longrightarrow> length r < length p"
proof -
  assume "read_pair p = Some (k, v, r)"
  then obtain r1 where "quoted_at (skip_sep p) = Some (k, r1)"
    "quoted_at (dropWhile (\<lambda>c. c = CHR '' '' \<or> c = CHR '':'') r1) = Some (v, r)"
    by (auto simp: read_pair_def split: Option.bind_splits)
  then have "length r1 < length p" "length r < length r1"
    by (auto simp: skip_sep_def dest!: quoted_at_shorter dest: dropWhile_less)
  then show ?thesis by simp
qed

lemma read_flag_shorter: "read_flag p = Some (k, r) \<Longrightarrow> length r < length p"
proof -
  assume "read_flag p = Some (k, r)"
  then obtain r1 where r: "quoted_at (skip_sep p) = Some (k, r1)"
    "r = dropWhile (\<lambda>c. c \<noteq> CHR '','' \<and> c \<noteq> CHR ''}'') r1"
    by (auto simp: read_flag_def split: Option.bind_splits)
  have "length r \<le> length r1" unfolding r(2) by (rule length_dropWhile_le)
  also have "\<dots> < length p" using quoted_at_shorter [OF r(1)] unfolding skip_sep_def by (rule dropWhile_less)
  finally show ?thesis .
qed

text \<open>\<open>if (!first && pos < cap) hdrs[pos++] = ','\<close>.\<close>

definition put_sep :: "bool \<Rightarrow> cbuf \<Rightarrow> cbuf" where
  "put_sep first b =
     (if \<not> first \<and> cb_pos b < cb_cap b
      then b\<lparr>cb_text := cb_text b @ '','', cb_pos := cb_pos b + 1\<rparr> else b)"

function grants_loop :: "string \<Rightarrow> bool \<Rightarrow> cbuf \<Rightarrow> cbuf option" where
  "grants_loop p first b =
     (if p = [] \<or> hd p = CHR ''}'' then Some b
      else case read_pair p of
        None \<Rightarrow> Some b
      | Some (k, v, r) \<Rightarrow> do {
          b \<leftarrow> snprintf_at (k @ '':'' @ v) (put_sep first b);
          grants_loop r False b
        })"
  by pat_completeness auto
termination
  by (relation "measure (\<lambda>(p, first, b). length p)") (auto dest: read_pair_shorter)

function exclude_loop :: "string \<Rightarrow> bool \<Rightarrow> cbuf \<Rightarrow> cbuf option" where
  "exclude_loop p first b =
     (if p = [] \<or> hd p = CHR ''}'' then Some b
      else case read_flag p of
        None \<Rightarrow> Some b
      | Some (k, r) \<Rightarrow> do {
          b \<leftarrow> snprintf_at k (put_sep first b);
          exclude_loop r False b
        })"
  by pat_completeness auto
termination
  by (relation "measure (\<lambda>(p, first, b). length p)") (auto dest: read_flag_shorter)

declare grants_loop.simps [simp del] exclude_loop.simps [simp del]

definition map_body :: "string \<Rightarrow> string" where
  "map_body j = (case strchr j (CHR ''{'') of None \<Rightarrow> [] | Some r \<Rightarrow> tl r)"

text \<open>
  \<open>None\<close>: no headers. \<open>Some None\<close>: a write out of bounds. The terminator is written at the
  position at the end.
\<close>

definition build_grid_grant_headers :: "cookbook_jwt_claims \<Rightarrow> string option option" where
  "build_grid_grant_headers claims =
     (if claim_version claims \<noteq> 2 then None
      else case claim_grants claims of
        None \<Rightarrow> None
      | Some gj \<Rightarrow> Some (do {
          b \<leftarrow> snprintf_at (grants_header @ '': '') (cbuf_new 2048);
          b \<leftarrow> grants_loop (map_body gj) True b;
          b \<leftarrow> snprintf_at crlf b;
          b \<leftarrow> (case claim_exclude claims of
                 None \<Rightarrow> Some b
               | Some ej \<Rightarrow> do {
                   b \<leftarrow> snprintf_at (exclude_header @ '': '') b;
                   b \<leftarrow> exclude_loop (map_body ej) True b;
                   snprintf_at crlf b
                 });
          if cb_pos b < cb_cap b then Some (cb_text b) else None
        }))"

section \<open>Grants from headers\<close>

text \<open>The tokens between commas, without the empty ones (\<open>strtok_r\<close>), and without leading blanks.\<close>

fun split_commas :: "string \<Rightarrow> string list" where
  "split_commas [] = [[]]"
| "split_commas (c # s) =
     (if c = CHR '','' then [] # split_commas s
      else case split_commas s of [] \<Rightarrow> [[c]] | t # ts \<Rightarrow> (c # t) # ts)"

definition tokens :: "string \<Rightarrow> string list" where
  "tokens hval = map (dropWhile (\<lambda>c. c = CHR '' '')) (filter (\<lambda>t. t \<noteq> []) (split_commas (bounded 2048 hval)))"

text \<open>\<open>json[pos++] = c\<close>.\<close>

definition put_char :: "char \<Rightarrow> cbuf \<Rightarrow> cbuf option" where
  "put_char c b =
     (if cb_pos b < cb_cap b
      then Some (b\<lparr>cb_text := cb_text b @ [c], cb_pos := cb_pos b + 1\<rparr>) else None)"

definition put_member :: "bool \<Rightarrow> string \<Rightarrow> cbuf \<Rightarrow> cbuf option" where
  "put_member first t b = do {
     b \<leftarrow> (if first then Some b else put_char (CHR '','') b);
     snprintf_at t b
   }"

fun grants_tokens :: "string list \<Rightarrow> bool \<Rightarrow> cbuf \<Rightarrow> cbuf option" where
  "grants_tokens [] first b = Some b"
| "grants_tokens (t # ts) first b =
     (case strchr t (CHR '':'') of
        None \<Rightarrow> grants_tokens ts first b
      | Some r \<Rightarrow> do {
          b \<leftarrow> put_member first (quote (takeWhile (\<lambda>c. c \<noteq> CHR '':'') t) @ '':'' @ quote (tl r)) b;
          grants_tokens ts False b
        })"

fun exclude_tokens :: "string list \<Rightarrow> bool \<Rightarrow> cbuf \<Rightarrow> cbuf option" where
  "exclude_tokens [] first b = Some b"
| "exclude_tokens (t # ts) first b = do {
     b \<leftarrow> put_member first (quote t @ '':true'') b;
     exclude_tokens ts False b
   }"

definition json_object :: "(string list \<Rightarrow> bool \<Rightarrow> cbuf \<Rightarrow> cbuf option) \<Rightarrow> string \<Rightarrow> string option" where
  "json_object put hval = do {
     b \<leftarrow> put_char (CHR ''{'') (cbuf_new (length hval * 3 + 16));
     b \<leftarrow> put (tokens hval) True b;
     b \<leftarrow> put_char (CHR ''}'') b;
     if cb_pos b < cb_cap b then Some (cb_text b) else None
   }"

definition parse_grid_header :: "(string list \<Rightarrow> bool \<Rightarrow> cbuf \<Rightarrow> cbuf option) \<Rightarrow> string \<Rightarrow>
    (string \<times> string) list \<Rightarrow> string option option" where
  "parse_grid_header put name headers =
     (case grid_get_header headers name of
        None \<Rightarrow> None
      | Some hval \<Rightarrow> if hval = [] then None else Some (json_object put hval))"

definition parse_grid_grants_header :: "(string \<times> string) list \<Rightarrow> string option option" where
  "parse_grid_grants_header = parse_grid_header grants_tokens grants_header"

definition parse_grid_exclude_header :: "(string \<times> string) list \<Rightarrow> string option option" where
  "parse_grid_exclude_header = parse_grid_header exclude_tokens exclude_header"

text \<open>The decision, or \<open>None\<close> after a write out of bounds.\<close>

definition check_grid_auth :: "(string \<times> string) list \<Rightarrow> string \<Rightarrow> char \<Rightarrow> bool option" where
  "check_grid_auth headers group_id c =
     (case parse_grid_grants_header headers of
        None \<Rightarrow> Some True
      | Some None \<Rightarrow> None
      | Some (Some grants) \<Rightarrow>
          (case parse_grid_exclude_header headers of
             None \<Rightarrow> Some (cookbook_auth_check grants None group_id c)
           | Some None \<Rightarrow> None
           | Some (Some exclude) \<Rightarrow> Some (cookbook_auth_check grants (Some exclude) group_id c)))"

section \<open>Routes\<close>

definition via_name :: "string \<Rightarrow> bool" where
  "via_name s \<longleftrightarrow> s \<noteq> [] \<and> (\<forall>c \<in> set s. \<not> via_sep c)"

lemma is_loop_step:
  assumes "via_name g"
  shows "is_loop_from x g \<longleftrightarrow> x = g"
    and "is_loop_from x (g @ CHR '','' # r) \<longleftrightarrow> x = g \<or> is_loop_from x (CHR '','' # r)"
proof -
  have g: "g \<noteq> []" "\<And>c. c \<in> set g \<Longrightarrow> \<not> via_sep c" using assms by (auto simp: via_name_def)
  have d: "dropWhile via_sep (g @ t) = g @ t" for t using g by (cases g) auto
  have sep: "via_sep (CHR '','')" by (simp add: via_sep_def)
  have "takeWhile (\<lambda>c. \<not> via_sep c) g = g" "dropWhile (\<lambda>c. \<not> via_sep c) g = []"
    using g(2) by (simp_all add: takeWhile_eq_all_conv)
  moreover have nil: "is_loop_from x [] \<longleftrightarrow> False" by (subst is_loop_from.simps) simp
  ultimately show "is_loop_from x g \<longleftrightarrow> x = g"
    using d [of "[]"] g(1) by (subst is_loop_from.simps) (auto simp: Let_def simp del: dropWhile_eq_Nil_conv takeWhile_eq_all_conv)
  have "takeWhile (\<lambda>c. \<not> via_sep c) (g @ CHR '','' # r) = g"
    "dropWhile (\<lambda>c. \<not> via_sep c) (g @ CHR '','' # r) = CHR '','' # r"
    using g(2) sep takeWhile_append_stop [of g "\<lambda>c. \<not> via_sep c" "CHR '','' # r"]
      dropWhile_append_stop [of g "\<lambda>c. \<not> via_sep c" "CHR '','' # r"] by auto
  then show "is_loop_from x (g @ CHR '','' # r) \<longleftrightarrow> x = g \<or> is_loop_from x (CHR '','' # r)"
    using d [of "CHR '','' # r"] g(1) by (subst is_loop_from.simps) (auto simp: Let_def)
qed

lemma is_loop_comma: "is_loop_from x (CHR '','' # r) \<longleftrightarrow> is_loop_from x r"
  by (subst (1 2) is_loop_from.simps) (simp add: via_sep_def [of "CHR '',''"])

lemma is_loop_join: "(\<And>g. g \<in> set gs \<Longrightarrow> via_name g) \<Longrightarrow> is_loop_from x (join gs) \<longleftrightarrow> x \<in> set gs"
proof (induction gs rule: join.induct)
  case 1
  show ?case by (subst is_loop_from.simps) simp
next
  case (2 g)
  from "2.prems" [of g] show ?case by (simp add: is_loop_step(1))
next
  case (3 g h gs)
  have "is_loop_from x (join (h # gs)) \<longleftrightarrow> x \<in> set (h # gs)"
    by (rule "3.IH") (rule "3.prems", simp)
  moreover have "is_loop_from x (join (g # h # gs)) \<longleftrightarrow> x = g \<or> is_loop_from x (join (h # gs))"
    using "3.prems" [of g] by (simp add: is_loop_step(2) is_loop_comma)
  ultimately show ?case by simp
qed

lemma join_snoc: "gs \<noteq> [] \<Longrightarrow> join (gs @ [g]) = join gs @ '','' @ g"
  by (induction gs rule: join.induct) auto

lemma join_Nil: "(\<And>g. g \<in> set gs \<Longrightarrow> via_name g) \<Longrightarrow> join gs = [] \<longleftrightarrow> gs = []"
  by (cases gs rule: join.cases) (auto simp: via_name_def)

section \<open>Header lines\<close>

definition header_lines :: "(string \<times> string) list \<Rightarrow> string" where
  "header_lines hs = concat (map (\<lambda>(n, v). n @ '': '' @ v @ crlf) hs)"

definition header_ok :: "string \<Rightarrow> bool" where
  "header_ok v \<longleftrightarrow> CHR 0x0d \<notin> set v \<and> (v = [] \<or> hd v \<noteq> CHR '' '')"

lemma strstr_crlf: "CHR 0x0d \<notin> set v \<Longrightarrow> strstr (v @ crlf @ r) crlf = Some (crlf @ r)"
  using strstr_skip [of "CHR 0x0d" v "crlf @ r" "[CHR 0x0a]"] strstr_here [of crlf r] by (simp add: crlf_def)

lemma header_value_hit:
  assumes "header_ok v"
  shows "header_value_from n (n @ '': '' @ v @ crlf @ r) sz = take (sz - 1) v"
proof -
  have d: "dropWhile (\<lambda>c. c = CHR '' '') (v @ crlf @ r) = v @ crlf @ r"
    using assms by (cases v) (auto simp: header_ok_def crlf_def)
  have "strstr (v @ crlf @ r) crlf = Some (crlf @ r)" using assms by (intro strstr_crlf) (simp add: header_ok_def)
  then show ?thesis
    using d by (subst header_value_from.simps) (simp add: has_prefix_def, simp add: min_def)
qed

lemma header_value_skip:
  assumes "CHR 0x0d \<notin> set m" "CHR 0x0d \<notin> set v" "\<not> has_prefix (m @ '': '' @ v @ crlf @ r) n"
  shows "header_value_from n (m @ '': '' @ v @ crlf @ r) sz = header_value_from n r sz"
proof -
  have "strstr ((m @ '': '' @ v) @ crlf @ r) crlf = Some (crlf @ r)"
    using assms(1,2) by (intro strstr_crlf) auto
  with assms(3) show ?thesis by (subst header_value_from.simps) (simp add: crlf_def)
qed

lemma extract_grants:
  assumes "header_ok gv" "length gv < 2048"
  shows "extract_header_value (Some (header_lines [(grants_header, gv), (exclude_header, ev)])) grants_header 2048 = gv"
  using assms header_value_hit [of gv grants_header] by (simp add: extract_header_value_def header_lines_def)

lemma extract_exclude:
  assumes "header_ok gv" "header_ok ev" "length ev < 2048"
  shows "extract_header_value (Some (header_lines [(grants_header, gv), (exclude_header, ev)])) exclude_header 2048 = ev"
proof -
  have "\<not> has_prefix (grants_header @ x) exclude_header" for x
    by (simp add: has_prefix_def grants_header_def exclude_header_def)
  moreover have "CHR 0x0d \<notin> set grants_header" by (simp add: grants_header_def)
  moreover have "header_value_from exclude_header (exclude_header @ '': '' @ ev @ crlf) 2048 = take 2047 ev"
    using header_value_hit [OF assms(2), of exclude_header "[]" 2048] by simp
  ultimately show ?thesis
    using assms header_value_skip [where m = grants_header and v = gv and n = exclude_header
        and r = "exclude_header @ '': '' @ ev @ crlf"]
    by (simp add: extract_header_value_def header_lines_def header_ok_def)
qed

section \<open>Properties of routes and signatures\<close>

lemma newline_free_show_int: "nl_char \<notin> set (show_int x)"
  by (auto simp: nl_char_def show_int_def isdigit_iff dest: show_nat_digits)

text \<open>
  A request that comes back is recognised: the chain a registry sends on names exactly the
  registries passed so far and itself, as long as it fits the 1023 characters of the header.
\<close>

theorem via_chain_detects_loop:
  assumes "\<forall>g \<in> set (ids @ [origin]). via_name g" "length (join (ids @ [origin])) < 1024"
  shows "cookbook_grid_is_loop x (build_via (Some (join ids)) origin) \<longleftrightarrow> x \<in> set (ids @ [origin])"
proof -
  have "build_via (Some (join ids)) origin = join (ids @ [origin])"
    using assms join_Nil [of ids] by (cases "ids = []") (auto simp: build_via_def join_snoc)
  then show ?thesis
    using is_loop_join [of "ids @ [origin]" x] assms(1) by (simp add: cookbook_grid_is_loop_def)
qed

theorem via_chain_detects_loop_witness:
  "cookbook_grid_is_loop ''east'' (build_via (Some (join [''east'', ''west''])) ''north'') \<longleftrightarrow>
     ''east'' \<in> set ([''east'', ''west''] @ [''north''])"
  by (rule via_chain_detects_loop) (simp_all add: via_name_def via_sep_def)

text \<open>
  The text that is signed determines the request: two requests whose fields have no line
  breaks and whose signed texts are equal are equal in every field.
\<close>

theorem canonical_injective:
  assumes "nl_char \<notin> set (m @ p @ string_or_empty v @ string_or_empty g @ string_or_empty e)"
    and "nl_char \<notin> set (m' @ p' @ string_or_empty v' @ string_or_empty g' @ string_or_empty e')"
    and "cookbook_grid_build_canonical m p v h g e t = cookbook_grid_build_canonical m' p' v' h' g' e' t'"
  shows "m = m' \<and> p = p' \<and> string_or_empty v = string_or_empty v' \<and> h = h' \<and>
         string_or_empty g = string_or_empty g' \<and> string_or_empty e = string_or_empty e' \<and> t = t'"
  using assms newline_free_show_int
  by (simp add: cookbook_grid_build_canonical_def sep_unique show_int_inj)

theorem canonical_injective_witness: "(7 :: int) = 7"
  using canonical_injective [of "''GET''" "''/a''" None None None "''GET''" "''/a''" None None None 1 7 1 7]
  by (simp add: nl_char_def string_or_empty_def)

lemma atoi_show_int: "0 \<le> x \<Longrightarrow> x < 2 ^ 31 \<Longrightarrow> atoi (show_int x) = x"
  using strtol_show_int [of x "[]"] by (simp add: atoi_def LONG_MAX_def)

text \<open>The headers of a signed request with grants, found by name.\<close>

lemma signed_headers_found:
  assumes "hs = [(''X-Cookbook-Via'', a), (''X-Cookbook-Hop-Count'', b), (grants_header, gv), (exclude_header, ev),
     (''X-Cookbook-Grid-Origin'', c), (''X-Cookbook-Grid-Signature'', d), (''X-Cookbook-Timestamp'', e)]"
  shows "grid_get_header hs ''X-Cookbook-Via'' = Some a" "grid_get_header hs ''X-Cookbook-Hop-Count'' = Some b"
    "grid_get_header hs grants_header = Some gv" "grid_get_header hs exclude_header = Some ev"
    "grid_get_header hs ''X-Cookbook-Grid-Origin'' = Some c"
    "grid_get_header hs ''X-Cookbook-Grid-Signature'' = Some d"
    "grid_get_header hs ''X-Cookbook-Timestamp'' = Some e"
  unfolding assms
  by (simp_all add: grid_get_header_def tolower_def isupper_def less_eq_char_def grants_header_def exclude_header_def)




definition demo_headers :: "(string \<times> string) list" where
  "demo_headers = [(''X-Cookbook-Grid-Origin'', ''east''), (''X-Cookbook-Grid-Signature'', b64_text (replicate 64 0)),
      (''X-Cookbook-Timestamp'', ''1000'')]"


section \<open>Grants between registries\<close>

text \<open>Texts with a comma before each but the first.\<close>

fun csv :: "bool \<Rightarrow> string list \<Rightarrow> string" where
  "csv first [] = []"
| "csv first (t # ts) = (if first then [] else '','') @ t @ csv False ts"

definition pair_text :: "string \<times> string \<Rightarrow> string" where
  "pair_text kv = fst kv @ '':'' @ snd kv"

text \<open>Names that may stand in the header: the characters that have a meaning there are absent.\<close>

definition header_name :: "string \<Rightarrow> bool" where
  "header_name s \<longleftrightarrow> s \<noteq> [] \<and> hd s \<noteq> CHR '' '' \<and> json_safe s \<and>
     set s \<inter> {CHR '','', CHR '':'', CHR 0x0a, CHR 0x0d} = {}"

definition header_perms :: "string \<Rightarrow> bool" where
  "header_perms v \<longleftrightarrow> json_safe v \<and> set v \<inter> {CHR '','', CHR 0x0a, CHR 0x0d} = {}"

lemma length_quote [simp]: "length (quote k) = length k + 2"
  by (simp add: quote_def)

lemma length_pair_text [simp]: "length (pair_text (k, v)) = length k + length v + 1"
  by (simp add: pair_text_def)

lemma true_text_text: "true_text ''true'' = ''true''"
  by (simp add: true_text_def)

subsection \<open>Sending\<close>

lemma quoted_at_quote: "CHR 0x22 \<notin> set k \<Longrightarrow> quoted_at (quote k @ r) = Some (k, r)"
  using span_until [of "CHR 0x22" k "CHR 0x22 # r"] by (simp add: quoted_at_def quote_def)

lemma put_sep_exact:
  assumes "cbuf_exact s b" "length s + length (if first then [] else '','') < cb_cap b"
  shows "cbuf_exact (s @ (if first then [] else '','')) (put_sep first b)" "cb_cap (put_sep first b) = cb_cap b"
  using assms by (auto simp: put_sep_def cbuf_exact_def)

lemma put_item_exact:
  assumes "cbuf_exact s b" "length s + length (csv first [t]) < cb_cap b"
  shows "\<exists>b'. snprintf_at t (put_sep first b) = Some b' \<and> cbuf_exact (s @ csv first [t]) b' \<and> cb_cap b' = cb_cap b"
  using put_sep_exact [OF assms(1), of first] assms(2)
    snprintf_at_exact [of "s @ (if first then [] else '','')" "put_sep first b" t] by (auto split: if_splits)

lemma read_pair_render:
  "CHR 0x22 \<notin> set k \<Longrightarrow> CHR 0x22 \<notin> set v \<Longrightarrow>
   read_pair ((if first then [] else '','') @ quote k @ '':'' @ quote v @ r) = Some (k, v, r)"
  using quoted_at_quote [of k "CHR '':'' # quote v @ r"] quoted_at_quote [of v r]
  by (simp add: read_pair_def skip_sep_def quote_def)

lemma read_flag_render:
  "CHR 0x22 \<notin> set k \<Longrightarrow> r = [] \<or> hd r = CHR '','' \<or> hd r = CHR ''}'' \<Longrightarrow>
   read_flag ((if first then [] else '','') @ quote k @ '':true'' @ r) = Some (k, r)"
  using quoted_at_quote [of k "'':true'' @ r"]
  by (cases r) (auto simp: read_flag_def skip_sep_def quote_def)

lemma grants_loop_render:
  assumes "\<And>k v. (k, v) \<in> set gs \<Longrightarrow> json_safe k \<and> json_safe v"
    and "cbuf_exact s b" "length s + length (csv first (map pair_text gs)) < cb_cap b"
  shows "\<exists>b'. grants_loop (render_map quote first gs @ ''}'') first b = Some b' \<and>
     cbuf_exact (s @ csv first (map pair_text gs)) b' \<and> cb_cap b' = cb_cap b"
  using assms
proof (induction gs arbitrary: s b first)
  case Nil
  then show ?case by (simp add: grants_loop.simps)
next
  case (Cons kv gs)
  obtain k v where kv: "kv = (k, v)" by (cases kv)
  have q: "CHR 0x22 \<notin> set k" "CHR 0x22 \<notin> set v" using Cons.prems(1) [of k v] kv by (auto simp: json_safe_def)
  obtain b1 where b1: "snprintf_at (pair_text (k, v)) (put_sep first b) = Some b1"
      "cbuf_exact (s @ csv first [pair_text (k, v)]) b1" "cb_cap b1 = cb_cap b"
    using put_item_exact [OF Cons.prems(2), of first "pair_text (k, v)"] Cons.prems(3) kv by auto
  have "\<exists>b'. grants_loop (render_map quote False gs @ ''}'') False b1 = Some b' \<and>
     cbuf_exact ((s @ csv first [pair_text (k, v)]) @ csv False (map pair_text gs)) b' \<and> cb_cap b' = cb_cap b1"
    using Cons.prems b1(3) kv by (intro Cons.IH [OF _ b1(2)]) auto
  moreover have "grants_loop (render_map quote first (kv # gs) @ ''}'') first b =
     grants_loop (render_map quote False gs @ ''}'') False b1"
    using read_pair_render [OF q, of first "render_map quote False gs @ ''}''"] b1(1)
    by (subst grants_loop.simps) (simp add: kv quote_def pair_text_def split: if_splits)
  ultimately show ?case using b1(3) kv by simp
qed

lemma render_flags_head: "r = render_map true_text False ks @ ''}'' \<Longrightarrow> hd r = CHR '','' \<or> hd r = CHR ''}''"
  by (cases ks) auto

lemma exclude_loop_render:
  assumes "\<And>k. k \<in> set es \<Longrightarrow> json_safe k"
    and "cbuf_exact s b" "length s + length (csv first es) < cb_cap b"
  shows "\<exists>b'. exclude_loop (render_map true_text first (flags es) @ ''}'') first b = Some b' \<and>
     cbuf_exact (s @ csv first es) b' \<and> cb_cap b' = cb_cap b"
  using assms
proof (induction es arbitrary: s b first)
  case Nil
  then show ?case by (simp add: exclude_loop.simps flags_def)
next
  case (Cons k es)
  have q: "CHR 0x22 \<notin> set k" using Cons.prems(1) [of k] by (auto simp: json_safe_def)
  obtain b1 where b1: "snprintf_at k (put_sep first b) = Some b1"
      "cbuf_exact (s @ csv first [k]) b1" "cb_cap b1 = cb_cap b"
    using put_item_exact [OF Cons.prems(2), of first k] Cons.prems(3) by auto
  have "\<exists>b'. exclude_loop (render_map true_text False (flags es) @ ''}'') False b1 = Some b' \<and>
     cbuf_exact ((s @ csv first [k]) @ csv False es) b' \<and> cb_cap b' = cb_cap b1"
    using Cons.prems b1(3) by (intro Cons.IH [OF _ b1(2)]) auto
  moreover have "exclude_loop (render_map true_text first (flags (k # es)) @ ''}'') first b =
     exclude_loop (render_map true_text False (flags es) @ ''}'') False b1"
    using read_flag_render [OF q, of "render_map true_text False (flags es) @ ''}''" first] b1(1)
      render_flags_head [OF refl, of "flags es"]
    by (subst exclude_loop.simps) (auto simp: flags_def quote_def true_text_def split: if_splits)
  ultimately show ?case using b1(3) by simp
qed

lemma header_exact:
  assumes "length (header_lines [(grants_header, csv True (map pair_text gs)), (exclude_header, csv True es)]) < 2048"
    and gs: "\<And>k v. (k, v) \<in> set gs \<Longrightarrow> json_safe k \<and> json_safe v" and es: "\<And>k. k \<in> set es \<Longrightarrow> json_safe k"
    and claims: "claim_version claims = 2" "claim_grants claims = Some (''{'' @ render_map quote True gs @ ''}'')"
      "claim_exclude claims = Some (''{'' @ render_map true_text True (flags es) @ ''}'')"
  shows "build_grid_grant_headers claims =
    Some (Some (header_lines [(grants_header, csv True (map pair_text gs)), (exclude_header, csv True es)]))"
proof -
  let ?g = "csv True (map pair_text gs)" and ?e = "csv True es"
  have room: "length (grants_header @ '': '' @ ?g @ crlf @ exclude_header @ '': '' @ ?e @ crlf) < 2048"
    using assms(1) by (simp add: header_lines_def)
  have new: "cbuf_exact [] (cbuf_new 2048)" by simp
  obtain b1 where b1: "snprintf_at (grants_header @ '': '') (cbuf_new 2048) = Some b1"
      "cbuf_exact (grants_header @ '': '') b1" "cb_cap b1 = 2048"
    using snprintf_at_exact [OF new, of "grants_header @ '': ''"] room by (auto simp: cbuf_new_def)
  obtain b2 where b2: "grants_loop (render_map quote True gs @ ''}'') True b1 = Some b2"
      "cbuf_exact ((grants_header @ '': '') @ ?g) b2" "cb_cap b2 = 2048"
    using grants_loop_render [of gs, OF gs b1(2), of True] b1(3) room by auto
  obtain b3 where b3: "snprintf_at crlf b2 = Some b3" "cbuf_exact (((grants_header @ '': '') @ ?g) @ crlf) b3" "cb_cap b3 = 2048"
    using snprintf_at_exact [OF b2(2), of crlf] b2(3) room by auto
  obtain b4 where b4: "snprintf_at (exclude_header @ '': '') b3 = Some b4"
      "cbuf_exact ((((grants_header @ '': '') @ ?g) @ crlf) @ exclude_header @ '': '') b4" "cb_cap b4 = 2048"
    using snprintf_at_exact [OF b3(2), of "exclude_header @ '': ''"] b3(3) room by auto
  obtain b5 where b5: "exclude_loop (render_map true_text True (flags es) @ ''}'') True b4 = Some b5"
      "cbuf_exact (((((grants_header @ '': '') @ ?g) @ crlf) @ exclude_header @ '': '') @ ?e) b5" "cb_cap b5 = 2048"
    using exclude_loop_render [of es, OF es b4(2), of True] b4(3) room by auto
  obtain b6 where b6: "snprintf_at crlf b5 = Some b6"
      "cbuf_exact ((((((grants_header @ '': '') @ ?g) @ crlf) @ exclude_header @ '': '') @ ?e) @ crlf) b6" "cb_cap b6 = 2048"
    using snprintf_at_exact [OF b5(2), of crlf] b5(3) room by auto
  have body: "map_body (CHR ''{'' # x) = x" for x by (simp add: map_body_def strchr_def)
  show ?thesis
    using b1 b2 b3 b4 b5 b6 by (simp add: build_grid_grant_headers_def claims body header_lines_def cbuf_exact_def)
qed

subsection \<open>Receiving\<close>

lemma split_commas_plain: "CHR '','' \<notin> set t \<Longrightarrow> split_commas t = [t]"
  by (induction t) auto

lemma split_commas_step: "CHR '','' \<notin> set t \<Longrightarrow> split_commas (t @ CHR '','' # r) = t # split_commas r"
  by (induction t) auto

lemma split_commas_csv:
  "(\<And>t. t \<in> set ts \<Longrightarrow> CHR '','' \<notin> set t) \<Longrightarrow> ts \<noteq> [] \<Longrightarrow> split_commas (csv True ts) = ts"
proof (induction ts)
  case (Cons t ts)
  show ?case
  proof (cases ts)
    case Nil
    with Cons.prems split_commas_plain [of t] show ?thesis by simp
  next
    case (Cons u us)
    with Cons.prems Cons.IH split_commas_step [of t "csv True ts"] show ?thesis by auto
  qed
qed simp

lemma tokens_csv:
  assumes "\<And>t. t \<in> set ts \<Longrightarrow> CHR '','' \<notin> set t \<and> t \<noteq> [] \<and> hd t \<noteq> CHR '' ''"
    and "ts \<noteq> []" "length (csv True ts) < 2048"
  shows "tokens (csv True ts) = ts"
proof -
  have "map (dropWhile (\<lambda>c. c = CHR '' '')) (filter (\<lambda>t. t \<noteq> []) ts) = ts"
    using assms(1) by (intro map_idI [THEN trans]) (auto simp: filter_id_conv dropWhile_eq_self)
  with assms show ?thesis using split_commas_csv [of ts] by (simp add: tokens_def)
qed

lemma put_member_exact:
  assumes "cbuf_exact s b" "length s + length (csv first [t]) < cb_cap b"
  shows "\<exists>b'. put_member first t b = Some b' \<and> cbuf_exact (s @ csv first [t]) b' \<and> cb_cap b' = cb_cap b"
proof -
  have "\<exists>b1. (if first then Some b else put_char (CHR '','') b) = Some b1 \<and>
      cbuf_exact (s @ (if first then [] else '','')) b1 \<and> cb_cap b1 = cb_cap b"
    using assms by (auto simp: put_char_def cbuf_exact_def)
  then obtain b1 where b1: "(if first then Some b else put_char (CHR '','') b) = Some b1"
      "cbuf_exact (s @ (if first then [] else '','')) b1" "cb_cap b1 = cb_cap b" by blast
  show ?thesis
    unfolding put_member_def b1(1) using snprintf_at_exact [OF b1(2), of t] b1(3) assms(2) by (auto split: if_splits)
qed

lemma grants_tokens_render:
  assumes "\<And>k v. (k, v) \<in> set gs \<Longrightarrow> CHR '':'' \<notin> set k"
    and "cbuf_exact s b" "length s + length (render_map quote first gs) < cb_cap b"
  shows "\<exists>b'. grants_tokens (map pair_text gs) first b = Some b' \<and>
     cbuf_exact (s @ render_map quote first gs) b' \<and> cb_cap b' = cb_cap b"
  using assms
proof (induction gs arbitrary: s b first)
  case (Cons kv gs)
  obtain k v where kv: "kv = (k, v)" by (cases kv)
  let ?t = "quote k @ '':'' @ quote v"
  have k: "CHR '':'' \<notin> set k" using Cons.prems(1) [of k v] kv by simp
  obtain b1 where b1: "put_member first ?t b = Some b1" "cbuf_exact (s @ csv first [?t]) b1" "cb_cap b1 = cb_cap b"
    using put_member_exact [OF Cons.prems(2), of first ?t] Cons.prems(3) kv by (auto split: if_splits)
  have "\<exists>b'. grants_tokens (map pair_text gs) False b1 = Some b' \<and>
     cbuf_exact ((s @ csv first [?t]) @ render_map quote False gs) b' \<and> cb_cap b' = cb_cap b1"
    using Cons.prems b1(3) kv by (intro Cons.IH [OF _ b1(2)]) (auto split: if_splits)
  moreover have "takeWhile (\<lambda>c. c \<noteq> CHR '':'') (pair_text (k, v)) = k" "strchr (pair_text (k, v)) (CHR '':'') = Some (CHR '':'' # v)"
    using k strchr_append [of "CHR '':''" k v] span_until(1) [of "CHR '':''" k "CHR '':'' # v"] by (simp_all add: pair_text_def)
  ultimately show ?case using b1 kv by auto
qed simp

lemma exclude_tokens_render:
  assumes "cbuf_exact s b" "length s + length (render_map true_text first (flags es)) < cb_cap b"
  shows "\<exists>b'. exclude_tokens es first b = Some b' \<and>
     cbuf_exact (s @ render_map true_text first (flags es)) b' \<and> cb_cap b' = cb_cap b"
  using assms
proof (induction es arbitrary: s b first)
  case (Cons k es)
  let ?t = "quote k @ '':true''"
  obtain b1 where b1: "put_member first ?t b = Some b1" "cbuf_exact (s @ csv first [?t]) b1" "cb_cap b1 = cb_cap b"
    using put_member_exact [OF Cons.prems(1), of first ?t] Cons.prems(2)
    by (auto simp: flags_def true_text_text split: if_splits)
  have "\<exists>b'. exclude_tokens es False b1 = Some b' \<and>
     cbuf_exact ((s @ csv first [?t]) @ render_map true_text False (flags es)) b' \<and> cb_cap b' = cb_cap b1"
    using Cons.prems b1(3) by (intro Cons.IH [OF b1(2)]) (auto simp: flags_def true_text_text split: if_splits)
  then show ?case using b1 by (auto simp: flags_def true_text_text)
qed (simp add: flags_def)

lemma json_object_exact:
  assumes "\<And>b. cbuf_exact ''{'' b \<Longrightarrow> cb_cap b = length hval * 3 + 16 \<Longrightarrow>
       \<exists>b'. put (tokens hval) True b = Some b' \<and> cbuf_exact (''{'' @ body) b' \<and> cb_cap b' = cb_cap b"
    and "length body \<le> length hval * 3 + 12"
  shows "json_object put hval = Some (''{'' @ body @ ''}'')"
proof -
  let ?b = "\<lparr>cb_text = ''{'', cb_pos = 1, cb_cap = length hval * 3 + 16\<rparr>"
  have b1: "put_char (CHR ''{'') (cbuf_new (length hval * 3 + 16)) = Some ?b" "cbuf_exact ''{'' ?b"
      "cb_cap ?b = length hval * 3 + 16"
    by (simp_all add: put_char_def cbuf_new_def cbuf_exact_def)
  obtain b2 where b2: "put (tokens hval) True ?b = Some b2" "cbuf_exact (''{'' @ body) b2" "cb_cap b2 = length hval * 3 + 16"
    using assms(1) [OF b1(2,3)] by auto
  with b1 assms(2) show ?thesis by (simp add: json_object_def put_char_def cbuf_exact_def)
qed

lemma room_grants:
  "(\<And>k v. (k, v) \<in> set gs \<Longrightarrow> k \<noteq> []) \<Longrightarrow>
   length (render_map quote first gs) \<le> 3 * length (csv first (map pair_text gs)) + 1"
proof (induction gs arbitrary: first)
  case (Cons kv gs)
  obtain k v where kv: "kv = (k, v)" by (cases kv)
  then have "k \<noteq> []" using Cons.prems [of k v] by simp
  then have "1 \<le> length k" by (cases k) auto
  moreover have "length (render_map quote False gs) \<le> 3 * length (csv False (map pair_text gs)) + 1"
    by (rule Cons.IH) (use Cons.prems in auto)
  ultimately show ?case by (auto simp: kv)
qed simp

lemma room_excludes:
  "(\<And>k. k \<in> set es \<Longrightarrow> 3 \<le> length k) \<Longrightarrow>
   length (render_map true_text first (flags es)) \<le> 3 * length (csv first es) + (if first then 1 else 0)"
proof (induction es arbitrary: first)
  case (Cons k es)
  have "3 \<le> length k" using Cons.prems [of k] by simp
  moreover have "length (render_map true_text False (flags es)) \<le> 3 * length (csv False es) + (if False then 1 else 0)"
    by (rule Cons.IH) (use Cons.prems in auto)
  ultimately show ?case by (auto simp: flags_def true_text_text)
qed (simp add: flags_def)

lemma csv_Nil: "(\<And>t. t \<in> set ts \<Longrightarrow> t \<noteq> []) \<Longrightarrow> csv first ts = [] \<longleftrightarrow> ts = []"
  by (cases ts) auto

lemma set_csv: "set (csv first ts) \<subseteq> insert (CHR '','') (\<Union>t \<in> set ts. set t)"
  by (induction ts arbitrary: first) auto

lemma grants_header_read:
  assumes gs: "gs \<noteq> []" "\<And>k v. (k, v) \<in> set gs \<Longrightarrow> header_name k \<and> header_perms v"
    and "length (csv True (map pair_text gs)) < 2048"
  shows "json_object grants_tokens (csv True (map pair_text gs)) = Some (''{'' @ render_map quote True gs @ ''}'')"
proof (rule json_object_exact)
  let ?h = "csv True (map pair_text gs)"
  have tok: "tokens ?h = map pair_text gs"
    using gs assms(3) by (intro tokens_csv) (auto simp: pair_text_def header_name_def header_perms_def)
  have room: "length (render_map quote True gs) \<le> 3 * length ?h + 1"
    using gs(2) by (intro room_grants) (auto simp: header_name_def)
  then show "length (render_map quote True gs) \<le> length ?h * 3 + 12" by simp
  fix b assume "cbuf_exact ''{'' b" "cb_cap b = length ?h * 3 + 16"
  then show "\<exists>b'. grants_tokens (tokens ?h) True b = Some b' \<and> cbuf_exact (''{'' @ render_map quote True gs) b' \<and> cb_cap b' = cb_cap b"
    unfolding tok using gs(2) room by (intro grants_tokens_render) (auto simp: header_name_def)
qed

lemma exclude_header_read:
  assumes es: "es \<noteq> []" "\<And>k. k \<in> set es \<Longrightarrow> header_name k \<and> 3 \<le> length k" and "length (csv True es) < 2048"
  shows "json_object exclude_tokens (csv True es) = Some (''{'' @ render_map true_text True (flags es) @ ''}'')"
proof (rule json_object_exact)
  let ?h = "csv True es"
  have tok: "tokens ?h = es" using es assms(3) by (intro tokens_csv) (auto simp: header_name_def)
  have room: "length (render_map true_text True (flags es)) \<le> 3 * length ?h + 1"
    using room_excludes [of es True] es(2) by auto
  then show "length (render_map true_text True (flags es)) \<le> length ?h * 3 + 12" by simp
  fix b assume "cbuf_exact ''{'' b" "cb_cap b = length ?h * 3 + 16"
  then show "\<exists>b'. exclude_tokens (tokens ?h) True b = Some b' \<and>
      cbuf_exact (''{'' @ render_map true_text True (flags es)) b' \<and> cb_cap b' = cb_cap b"
    unfolding tok using room by (intro exclude_tokens_render) auto
qed

lemma auth_check_no_excludes:
  assumes gs: "\<And>k v. (k, v) \<in> set gs \<Longrightarrow> json_safe k \<and> json_safe v" "distinct (map fst gs)"
  shows "cookbook_auth_check (''{'' @ render_map quote True gs @ ''}'') None g c \<longleftrightarrow> policy_allows gs [] g c"
proof -
  let ?G = "render_map quote True gs"
  have nob: "CHR ''{'' \<notin> set (?G @ ''}'')" using braces_quote(1) [OF gs(1)] by auto
  have "strstr (CHR ''{'' # ?G @ ''}'') exclude_tag = None"
    using strstr_bare [OF nob, of "''exclude'' @ [CHR 0x22] @ '':''"] by (simp add: exclude_tag_def quote_def)
  then have "exclude_start (CHR ''{'' # ?G @ ''}'') None = None" by (simp add: exclude_start_def)
  moreover have "exclude_start j (Some ''{}'') = Some ''}''" for j
    by (simp add: exclude_start_def exclude_tag_def quote_def strchr_def)
  moreover have "excluded_in (Some ''}'') g = False" "excluded_in None g = False"
    using excluded_in_render [of "[]" "[]" g] walk_render_flags [of "[]" "exclude_match_cb g" True False]
    by (simp_all add: excluded_in_def flags_def upto_char_def)
  ultimately have "excluded_in (exclude_start (CHR ''{'' # ?G @ ''}'') None) g =
      excluded_in (exclude_start (CHR ''{'' # ?G @ ''}'') (Some ''{}'')) g" by simp
  then have "cookbook_auth_check (CHR ''{'' # ?G @ ''}'') None g c \<longleftrightarrow>
      cookbook_auth_check (CHR ''{'' # ?G @ ''}'') (Some ''{}'') g c"
    by (simp only: cookbook_auth_check_def)
  with auth_check_bare [of gs "[]" g c] gs show ?thesis by (simp add: flags_def)
qed

section \<open>Properties of grants in headers\<close>

lemma grid_header_pair [simp]:
  "grid_get_header [(grants_header, a), (exclude_header, b)] grants_header = Some a"
  "grid_get_header [(grants_header, a), (exclude_header, b)] exclude_header = Some b"
  by (simp_all add: grid_get_header_def tolower_def isupper_def less_eq_char_def grants_header_def exclude_header_def)

definition demo_claims :: "string \<Rightarrow> string option \<Rightarrow> cookbook_jwt_claims" where
  "demo_claims g e = \<lparr>claim_sub = ''ann'', claim_groups = [], claim_jti = ''t1'', claim_grants = Some g, claim_exclude = e,
     claim_exp = 0, claim_iat = 0, claim_version = 2, claim_valid = True\<rparr>"



text \<open>
  A token without any grant is refused by the check at home but accepted by every peer: its
  grants header is empty, and an empty header counts as open access.
\<close>

theorem empty_grants_open_at_peer:
  assumes "claim_version claims = 2" "claim_grants claims = Some ''{}''" "claim_exclude claims = None"
  shows "\<not> cookbook_auth_check ''{}'' None group_id c \<and>
         build_grid_grant_headers claims = Some (Some (header_lines [(grants_header, [])])) \<and>
         check_grid_auth [(grants_header, [])] group_id c = Some True"
proof -
  have "\<not> cookbook_auth_check ''{}'' None group_id c"
    using auth_check_no_excludes [of "[]" group_id c] by (simp add: policy_allows_def effective_grant_def)
  moreover have "map_body ''{}'' = ''}''" by code_simp
  then have "build_grid_grant_headers claims = Some (Some (header_lines [(grants_header, [])]))"
    using assms by (simp add: build_grid_grant_headers_def snprintf_at_def cbuf_new_def grants_loop.simps
        header_lines_def crlf_def grants_header_def)
  ultimately show ?thesis
    by (simp add: check_grid_auth_def parse_grid_grants_header_def parse_grid_header_def grid_get_header_def)
qed

theorem empty_grants_open_at_peer_witness:
  "\<not> cookbook_auth_check ''{}'' None ''org'' (CHR ''r'') \<and>
   build_grid_grant_headers (demo_claims ''{}'' None) = Some (Some (header_lines [(grants_header, [])])) \<and>
   check_grid_auth [(grants_header, [])] ''org'' (CHR ''r'') = Some True"
  by (rule empty_grants_open_at_peer) (simp_all add: demo_claims_def)

text \<open>
  The buffer for the exclude map is too small for short names: ten names of one character
  are written beyond its end.
\<close>

theorem exclude_header_overflow:
  "parse_grid_exclude_header [(exclude_header, ''a,b,c,d,e,f,g,h,i,j'')] = Some None"
  by code_simp

end
