(* ===== verification/Http.thy ===== *)
theory Http
  imports Grid
begin

text \<open>
  The transport adapter, \<^verbatim>\<open>src/src/main/c/cookbook_http.c\<close>: the handlers write responses as
  text with printf-like calls, and the adapter takes the text apart into status, headers and
  body for the HTTP server of the vendored library, whose request context is the record
  \<open>http_ctx\<close> here. \<open>None\<close> is a read or write out of bounds.
\<close>

section \<open>The request context\<close>

record http_ctx =
  hc_method :: int
  hc_path :: "string option"
  hc_query :: "string option"
  hc_header :: "string \<Rightarrow> string option"
  hc_body :: "byte list"
  hc_set_headers :: "(string \<times> string) list"
  hc_stream :: "(nat \<times> byte list) option"
  hc_ended :: bool

record shim_request_info =
  request_method :: string
  local_uri :: string
  query_string :: "string option"
  http_headers :: "(string \<times> string) list"
  content_length :: int

record shim_connection =
  sc_ctx :: http_ctx
  sc_ri :: shim_request_info
  sc_status_sent :: bool
  sc_resp_status :: nat
  sc_body :: "byte list"
  sc_body_pos :: nat

definition method_str :: "string list" where
  "method_str = [''GET'', ''POST'', ''PUT'', ''DELETE'', ''HEAD'', ''PATCH'', ''OPTIONS'']"

definition common_headers :: "string list" where
  "common_headers =
     [''Content-Type'', ''Content-Length'', ''Authorization'', ''Accept'', ''Accept-Encoding'', ''Host'', ''Connection'',
      ''X-Cookbook-Via'', ''X-Cookbook-Hop-Count'', ''X-Cookbook-Grid-Signature'', ''X-Cookbook-Grid-Origin'',
      ''X-Cookbook-Timestamp'', ''X-Cookbook-Grid-Grants'', ''X-Cookbook-Grid-Exclude'']"

definition shim_init :: "http_ctx \<Rightarrow> shim_connection" where
  "shim_init ctx =
     \<lparr>sc_ctx = ctx,
      sc_ri = \<lparr>request_method = (if 0 \<le> hc_method ctx \<and> hc_method ctx \<le> 6 then method_str ! nat (hc_method ctx) else ''GET''),
               local_uri = (case hc_path ctx of None \<Rightarrow> ''/'' | Some p \<Rightarrow> p),
               query_string = hc_query ctx,
               http_headers = concat (map (\<lambda>n. case hc_header ctx n of None \<Rightarrow> [] | Some v \<Rightarrow> [(n, v)]) common_headers),
               content_length = int (length (hc_body ctx))\<rparr>,
      sc_status_sent = False, sc_resp_status = 0, sc_body = hc_body ctx, sc_body_pos = 0\<rparr>"

section \<open>Responses\<close>

definition http_ctx_set_header :: "string \<Rightarrow> string \<Rightarrow> http_ctx \<Rightarrow> http_ctx" where
  "http_ctx_set_header n v ctx = ctx\<lparr>hc_set_headers := hc_set_headers ctx @ [(n, v)]\<rparr>"

definition http_ctx_respond_stream :: "nat \<Rightarrow> http_ctx \<Rightarrow> http_ctx" where
  "http_ctx_respond_stream status ctx = ctx\<lparr>hc_stream := Some (status, [])\<rparr>"

definition http_ctx_stream_write :: "byte list \<Rightarrow> http_ctx \<Rightarrow> http_ctx" where
  "http_ctx_stream_write data ctx = ctx\<lparr>hc_stream := map_option (\<lambda>(s, b). (s, b @ data)) (hc_stream ctx)\<rparr>"

text \<open>
  The header lines of a response text: the name ends at the next colon, wherever it is, and the
  value at the next carriage return, or else at the next line feed. Lengths are never sent, since
  the response is chunked.
\<close>

definition header_end :: "string \<Rightarrow> string option" where
  "header_end hval =
     (if CHR 0x0d \<in> set hval then Some (takeWhile (\<lambda>c. c \<noteq> CHR 0x0d) hval)
      else if CHR 0x0a \<in> set hval then Some (takeWhile (\<lambda>c. c \<noteq> CHR 0x0a) hval)
      else None)"

definition parse_header :: "string \<Rightarrow> http_ctx \<Rightarrow> http_ctx" where
  "parse_header line ctx =
     (case strchr line (CHR '':'') of
        None \<Rightarrow> ctx
      | Some colon \<Rightarrow>
          (let hname = take 127 (take (length line - length colon) line);
               hval = dropWhile (\<lambda>c. c = CHR '' '') (tl colon);
               hvalue = (case header_end hval of None \<Rightarrow> [] | Some v \<Rightarrow> take 1023 v)
           in if hname \<noteq> [] \<and> hvalue \<noteq> [] \<and> map tolower hname \<noteq> map tolower ''Content-Length''
              then http_ctx_set_header hname hvalue ctx else ctx))"

text \<open>\<open>line\<close> is the text behind the line feed the loop stands at.\<close>

function header_loop :: "string \<Rightarrow> http_ctx \<Rightarrow> http_ctx" where
  "header_loop line ctx =
     (if line \<noteq> [] \<and> (hd line = CHR 0x0d \<or> hd line = CHR 0x0a) then ctx
      else (let ctx = parse_header line ctx
            in case strchr line (CHR 0x0a) of None \<Rightarrow> ctx | Some r \<Rightarrow> header_loop (tl r) ctx))"
  by pat_completeness auto
termination
  by (relation "measure (\<lambda>(l, c). length l)") (auto dest!: strchr_Some)

declare header_loop.simps [simp del]

definition printf_buffer :: nat where "printf_buffer = 16384"

text \<open>The text is what the format gives, of any length; the buffer keeps the front of it.\<close>

definition shim_printf :: "string \<Rightarrow> shim_connection \<Rightarrow> shim_connection option" where
  "shim_printf text sc =
     (let buf = bounded printf_buffer text; n = length text
      in if text = [] then Some sc
         else if \<not> sc_status_sent sc \<and> has_prefix buf ''HTTP/1.'' then
           (let status = (case strchr buf (CHR '' '') of None \<Rightarrow> 200 | Some sp \<Rightarrow> atoi (tl sp));
                ctx = (case strchr buf (CHR 0x0a) of None \<Rightarrow> sc_ctx sc | Some l \<Rightarrow> header_loop (tl l) (sc_ctx sc));
                code = nat (status mod 2 ^ 16);
                sc = sc\<lparr>sc_ctx := http_ctx_respond_stream code ctx, sc_resp_status := code, sc_status_sent := True\<rparr>
            in case strstr buf (crlf @ crlf) of
                 None \<Rightarrow> Some sc
               | Some r \<Rightarrow>
                   (let body = drop 4 r
                    in if n > printf_buffer then None
                       else if n - (length buf - length body) > 0
                       then Some (sc\<lparr>sc_ctx := http_ctx_stream_write
                              (take (n - (length buf - length body)) (bytes_of (body @ [CHR 0x00]))) (sc_ctx sc)\<rparr>)
                       else Some sc))
         else if sc_status_sent sc then
           (if n > printf_buffer then None
            else Some (sc\<lparr>sc_ctx := http_ctx_stream_write (take n (bytes_of (buf @ [CHR 0x00]))) (sc_ctx sc)\<rparr>))
         else Some sc)"

definition shim_write :: "byte list \<Rightarrow> shim_connection \<Rightarrow> shim_connection" where
  "shim_write data sc =
     (let sc = (if \<not> sc_status_sent sc
                then sc\<lparr>sc_resp_status := 200, sc_ctx := http_ctx_respond_stream 200 (sc_ctx sc), sc_status_sent := True\<rparr>
                else sc)
      in sc\<lparr>sc_ctx := http_ctx_stream_write data (sc_ctx sc)\<rparr>)"

definition shim_read :: "nat \<Rightarrow> shim_connection \<Rightarrow> byte list \<times> shim_connection" where
  "shim_read len sc =
     (if sc_body_pos sc \<ge> length (sc_body sc) then ([], sc)
      else (let n = min (length (sc_body sc) - sc_body_pos sc) len
            in (take n (drop (sc_body_pos sc) (sc_body sc)), sc\<lparr>sc_body_pos := sc_body_pos sc + n\<rparr>)))"

definition shim_send_http_ok :: "string \<Rightarrow> shim_connection \<Rightarrow> shim_connection" where
  "shim_send_http_ok content_type sc =
     sc\<lparr>sc_ctx := http_ctx_respond_stream 200 (http_ctx_set_header ''Content-Type'' content_type (sc_ctx sc)),
        sc_resp_status := 200, sc_status_sent := True\<rparr>"

section \<open>Dispatch\<close>

record route_entry =
  route_pattern :: string
  route_handler :: nat

definition MAX_ROUTES :: nat where "MAX_ROUTES = 64"

definition cookbook_http_add_route :: "string \<Rightarrow> nat \<Rightarrow> route_entry list \<Rightarrow> route_entry list" where
  "cookbook_http_add_route pattern handler routes =
     (if length routes \<ge> MAX_ROUTES then routes
      else routes @ [\<lparr>route_pattern = pattern, route_handler = handler\<rparr>])"

fun best_route :: "string \<Rightarrow> route_entry list \<Rightarrow> route_entry option \<Rightarrow> nat \<Rightarrow> route_entry option" where
  "best_route path [] best best_len = best"
| "best_route path (r # rs) best best_len =
     (let plen = length (route_pattern r)
      in if has_prefix path (route_pattern r) \<and> plen > best_len then best_route path rs (Some r) plen
         else best_route path rs best best_len)"

text \<open>
  The handlers are given by \<open>run\<close>: what handler \<open>h\<close> does to the connection and to the state of
  the server, or \<open>None\<close> after an access out of bounds.
\<close>

definition generic_handler ::
  "(nat \<Rightarrow> shim_connection \<Rightarrow> 's \<Rightarrow> (shim_connection \<times> 's) option) \<Rightarrow> route_entry list \<Rightarrow> http_ctx \<Rightarrow> 's \<Rightarrow> (http_ctx \<times> 's) option" where
  "generic_handler run routes ctx srv =
     (case best_route (case hc_path ctx of None \<Rightarrow> ''/'' | Some p \<Rightarrow> p) routes None 0 of
        None \<Rightarrow> Some (ctx\<lparr>hc_stream := Some (404, bytes_of (''{'' @ quote ''error'' @ '':'' @ quote ''Not Found'' @ ''}'' @ nl)),
                          hc_ended := True\<rparr>, srv)
      | Some r \<Rightarrow> do {
          (sc, srv) \<leftarrow> run (route_handler r) (shim_init ctx) srv;
          Some (if sc_status_sent sc then (sc_ctx sc)\<lparr>hc_ended := True\<rparr>
                else (sc_ctx sc)\<lparr>hc_stream := Some (200, []), hc_ended := True\<rparr>, srv)
        })"

section \<open>What a response text becomes\<close>

definition reply_text :: "nat \<Rightarrow> string \<Rightarrow> (string \<times> string) list \<Rightarrow> string \<Rightarrow> string" where
  "reply_text status reason hs body =
     ''HTTP/1.1 '' @ show_nat status @ '' '' @ reason @ crlf @ header_lines hs @ crlf @ body"

definition one_line :: "string \<Rightarrow> bool" where
  "one_line s \<longleftrightarrow> CHR 0x0d \<notin> set s \<and> CHR 0x0a \<notin> set s"

definition reply_header :: "string \<times> string \<Rightarrow> bool" where
  "reply_header h \<longleftrightarrow> (case h of (n, v) \<Rightarrow> n \<noteq> [] \<and> v \<noteq> [] \<and> one_line n \<and> one_line v \<and> CHR '':'' \<notin> set n \<and>
     hd v \<noteq> CHR '' '' \<and> length n \<le> 127 \<and> length v \<le> 1023)"

definition sent_headers :: "(string \<times> string) list \<Rightarrow> (string \<times> string) list" where
  "sent_headers hs = filter (\<lambda>(n, v). map tolower n \<noteq> map tolower ''Content-Length'') hs"

lemma header_end_line: "CHR 0x0d \<notin> set v \<Longrightarrow> header_end (v @ crlf @ r) = Some v"
  using span_until(1) [of "CHR 0x0d" v "crlf @ r"] by (simp add: header_end_def crlf_def)

lemma header_loop_step:
  assumes "reply_header (n, v)"
  shows "header_loop (n @ '': '' @ v @ crlf @ r) ctx =
    header_loop r (ctx\<lparr>hc_set_headers := hc_set_headers ctx @ sent_headers [(n, v)]\<rparr>)"
proof -
  have h: "n \<noteq> []" "v \<noteq> []" "CHR 0x0d \<notin> set n" "CHR 0x0a \<notin> set n" "CHR 0x0d \<notin> set v" "CHR 0x0a \<notin> set v"
    "CHR '':'' \<notin> set n" "hd v \<noteq> CHR '' ''" "length n \<le> 127" "length v \<le> 1023"
    using assms by (auto simp: reply_header_def one_line_def)
  have colon: "strchr (n @ '': '' @ v @ crlf @ r) (CHR '':'') = Some (CHR '':'' # CHR '' '' # v @ crlf @ r)"
    using strchr_append [OF h(7), of "CHR '' '' # v @ crlf @ r"] by simp
  have sp: "dropWhile (\<lambda>c. c = CHR '' '') (CHR '' '' # v @ crlf @ r) = v @ crlf @ r"
    using h(2,8) by (cases v) auto
  have "parse_header (n @ '': '' @ v @ crlf @ r) ctx = ctx\<lparr>hc_set_headers := hc_set_headers ctx @ sent_headers [(n, v)]\<rparr>"
    unfolding parse_header_def colon option.case Let_def list.sel sp header_end_line [OF h(5)]
    using h by (simp add: sent_headers_def http_ctx_set_header_def)
  moreover have "strchr (n @ '': '' @ v @ crlf @ r) (CHR 0x0a) = Some (CHR 0x0a # r)"
    using strchr_append [of "CHR 0x0a" "n @ '': '' @ v @ [CHR 0x0d]" r] h by (simp add: crlf_def)
  moreover have "hd (n @ '': '' @ v @ crlf @ r) \<in> set n" using h(1) by simp
  then have "hd (n @ '': '' @ v @ crlf @ r) \<notin> {CHR 0x0d, CHR 0x0a}" using h(3,4) by auto
  ultimately show ?thesis using h(1) by (subst header_loop.simps) simp
qed

lemma header_loop_lines:
  "(\<And>h. h \<in> set hs \<Longrightarrow> reply_header h) \<Longrightarrow> header_loop (header_lines hs @ crlf @ body) ctx =
     ctx\<lparr>hc_set_headers := hc_set_headers ctx @ sent_headers hs\<rparr>"
proof (induction hs arbitrary: ctx)
  case Nil
  show ?case by (subst header_loop.simps) (simp add: header_lines_def crlf_def sent_headers_def)
next
  case (Cons h hs)
  obtain n v where h: "h = (n, v)" by (cases h)
  have "header_lines (h # hs) @ crlf @ body = n @ '': '' @ v @ crlf @ header_lines hs @ crlf @ body"
    by (simp add: header_lines_def h)
  then show ?case
    using Cons header_loop_step [of n v "header_lines hs @ crlf @ body" ctx] by (auto simp: h sent_headers_def)
qed

lemma strstr_blank:
  "(\<And>h. h \<in> set hs \<Longrightarrow> reply_header h) \<Longrightarrow>
   strstr (crlf @ header_lines hs @ crlf @ body) (crlf @ crlf) = Some (crlf @ crlf @ body)"
proof (induction hs)
  case Nil
  show ?case using strstr_here [of "crlf @ crlf" body] by (simp add: header_lines_def)
next
  case (Cons h hs)
  obtain n v where h: "h = (n, v)" by (cases h)
  let ?r = "n @ '': '' @ v @ crlf @ header_lines hs @ crlf @ body"
  have nv: "CHR 0x0d \<notin> set (n @ '': '' @ v)" "n \<noteq> []" using Cons.prems [of h] h by (auto simp: reply_header_def one_line_def)
  have "strstr (crlf @ ?r) (crlf @ crlf) = strstr ?r (crlf @ crlf)"
    using nv by (cases n) (auto simp: crlf_def strstr_mismatch)
  also have "\<dots> = strstr (crlf @ header_lines hs @ crlf @ body) (crlf @ crlf)"
    using strstr_skip [OF nv(1), of "crlf @ header_lines hs @ crlf @ body" "[CHR 0x0a] @ crlf"] by (simp add: crlf_def)
  finally show ?case using Cons by (simp add: h header_lines_def)
qed

lemma reply_status_line:
  assumes "one_line reason"
  shows "strchr (reply_text status reason hs body) (CHR 0x0a) = Some (CHR 0x0a # header_lines hs @ crlf @ body)"
    and "strchr (reply_text status reason hs body) (CHR '' '') = Some (CHR '' '' # show_nat status @ '' '' @ reason @ crlf @ header_lines hs @ crlf @ body)"
    and "strstr (reply_text status reason hs body) (crlf @ crlf) = strstr (crlf @ header_lines hs @ crlf @ body) (crlf @ crlf)"
proof -
  let ?l = "''HTTP/1.1 '' @ show_nat status @ '' '' @ reason"
  have d: "c \<notin> set (show_nat status)" if "\<not> isdigit c" for c using show_nat_digits [of c status] that by blast
  have l: "CHR 0x0d \<notin> set ?l" "CHR 0x0a \<notin> set (?l @ [CHR 0x0d])"
    using assms d [of "CHR 0x0d"] d [of "CHR 0x0a"] by (auto simp: one_line_def isdigit_iff)
  show "strchr (reply_text status reason hs body) (CHR 0x0a) = Some (CHR 0x0a # header_lines hs @ crlf @ body)"
    using strchr_append [OF l(2), of "header_lines hs @ crlf @ body"] by (simp add: reply_text_def crlf_def)
  show "strstr (reply_text status reason hs body) (crlf @ crlf) = strstr (crlf @ header_lines hs @ crlf @ body) (crlf @ crlf)"
    using strstr_skip [OF l(1), of "crlf @ header_lines hs @ crlf @ body" "[CHR 0x0a] @ crlf"]
    by (simp add: reply_text_def crlf_def)
qed (simp add: reply_text_def strchr_def)

lemma atoi_status: "status < 2 ^ 31 \<Longrightarrow> atoi (show_nat status @ CHR '' '' # r) = int status"
proof -
  assume s: "status < 2 ^ 31"
  have "strtol (show_nat status @ CHR '' '' # r) = (min LONG_MAX (int status), CHR '' '' # r)"
    using strtol_digits [of "show_nat status" "CHR '' '' # r"] show_nat_digits by (simp add: isdigit_iff)
  moreover have "int status < 2 ^ 31" using s by (metis of_nat_less_iff of_nat_numeral of_nat_power)
  ultimately show ?thesis by (simp add: atoi_def LONG_MAX_def)
qed

section \<open>Properties of the adapter\<close>

text \<open>
  C34. A response that fits the buffer goes out as it was written: the status, the headers
  without the length, and the body.
\<close>

theorem reply_delivered:
  assumes "\<forall>h \<in> set hs. reply_header h" "one_line reason" "status < 2 ^ 16" "\<not> sc_status_sent sc"
    and "length (reply_text status reason hs body) < 16384"
  shows "\<exists>sc'. shim_printf (reply_text status reason hs body) sc = Some sc' \<and>
    sc_status_sent sc' \<and> sc_resp_status sc' = status \<and> hc_stream (sc_ctx sc') = Some (status, bytes_of body) \<and>
    hc_set_headers (sc_ctx sc') = hc_set_headers (sc_ctx sc) @ sent_headers hs"
proof -
  let ?t = "reply_text status reason hs body"
  have buf: "bounded printf_buffer ?t = ?t" using assms(5) by (simp add: printf_buffer_def)
  have pre: "has_prefix ?t ''HTTP/1.''" "?t \<noteq> []" by (simp_all add: has_prefix_def reply_text_def)
  have hs: "\<And>h. h \<in> set hs \<Longrightarrow> reply_header h" using assms(1) by blast
  have st: "nat (int status mod 2 ^ 16) = status" using assms(3) by (simp add: nat_mod_distrib)
  have blank: "strstr (crlf @ header_lines hs @ crlf @ body) (crlf @ crlf) = Some (crlf @ crlf @ body)"
    using hs by (rule strstr_blank)
  have loop: "header_loop (header_lines hs @ crlf @ body) (sc_ctx sc) =
      (sc_ctx sc)\<lparr>hc_set_headers := hc_set_headers (sc_ctx sc) @ sent_headers hs\<rparr>"
    using hs by (rule header_loop_lines)
  have dr: "drop 4 (crlf @ crlf @ body) = body" by (simp add: crlf_def)
  have len: "length ?t - (length ?t - length body) = length body" by (simp add: reply_text_def)
  show ?thesis
    using assms(3,4,5) unfolding shim_printf_def Let_def buf reply_status_line [OF assms(2)] blank loop option.case list.sel dr
    by (simp add: pre atoi_status st len printf_buffer_def
        http_ctx_respond_stream_def http_ctx_stream_write_def bytes_of_def)
qed

definition demo_connection :: shim_connection where
  "demo_connection = shim_init \<lparr>hc_method = 0, hc_path = Some ''/healthz'', hc_query = None, hc_header = (\<lambda>_. None),
     hc_body = [], hc_set_headers = [], hc_stream = None, hc_ended = False\<rparr>"

theorem reply_delivered_witness:
  "\<exists>sc'. shim_printf (reply_text 200 ''OK'' [(''Content-Type'', ''text/plain''), (''Content-Length'', ''2'')] ''hi'') demo_connection = Some sc' \<and>
    sc_status_sent sc' \<and> sc_resp_status sc' = 200 \<and> hc_stream (sc_ctx sc') = Some (200, bytes_of ''hi'') \<and>
    hc_set_headers (sc_ctx sc') = hc_set_headers (sc_ctx demo_connection) @
      sent_headers [(''Content-Type'', ''text/plain''), (''Content-Length'', ''2'')]"
proof (rule reply_delivered)
  show "\<not> sc_status_sent demo_connection" by (simp add: demo_connection_def shim_init_def)
  have "length (show_nat 200) \<le> 3" using length_show_nat [of 200 3] by simp
  then show "length (reply_text 200 ''OK'' [(''Content-Type'', ''text/plain''), (''Content-Length'', ''2'')] ''hi'') < 16384"
    by (simp add: reply_text_def header_lines_def crlf_def)
qed (auto simp: reply_header_def one_line_def)

text \<open>
  A response longer than the buffer makes the adapter read behind it: it takes the length the
  text would have had for the length of what is there.
\<close>

theorem long_reply_overread:
  assumes "\<forall>h \<in> set hs. reply_header h" "one_line reason" "\<not> sc_status_sent sc" "length body \<ge> 16384"
    and "length (''HTTP/1.1 '' @ show_nat status @ '' '' @ reason @ crlf @ header_lines hs @ crlf) < 16384"
  shows "shim_printf (reply_text status reason hs body) sc = None"
proof -
  let ?pre = "''HTTP/1.1 '' @ show_nat status @ '' '' @ reason @ crlf @ header_lines hs @ crlf"
  have t: "reply_text status reason hs b = ?pre @ b" for b by (simp add: reply_text_def)
  define b where "b = take (16383 - length ?pre) body"
  have buf: "bounded printf_buffer (reply_text status reason hs body) = reply_text status reason hs b"
    using assms(5) unfolding t bounded_def b_def printf_buffer_def
    by (simp only: take_append) (simp add: take_all_iff del: append.simps append_assoc)
  have hs: "\<And>h. h \<in> set hs \<Longrightarrow> reply_header h" using assms(1) by blast
  have "strstr (reply_text status reason hs b) (crlf @ crlf) = Some (crlf @ crlf @ b)"
    unfolding reply_status_line(3) [OF assms(2)] using hs by (rule strstr_blank)
  moreover have "has_prefix (reply_text status reason hs b) ''HTTP/1.''" "reply_text status reason hs body \<noteq> []"
    by (simp_all add: has_prefix_def reply_text_def)
  moreover have "length (reply_text status reason hs body) > printf_buffer"
    using assms(4) by (simp add: t printf_buffer_def)
  ultimately show ?thesis
    using assms(3) unfolding shim_printf_def Let_def buf by simp
qed

theorem long_reply_overread_witness:
  "shim_printf (reply_text 200 ''OK'' [] (replicate 20000 (CHR ''x''))) demo_connection = None"
proof (rule long_reply_overread)
  show "\<not> sc_status_sent demo_connection" by (simp add: demo_connection_def shim_init_def)
  have "length (show_nat 200) \<le> 3" using length_show_nat [of 200 3] by simp
  then show "length (''HTTP/1.1 '' @ show_nat 200 @ '' '' @ ''OK'' @ crlf @ header_lines [] @ crlf) < 16384"
    by (simp add: header_lines_def crlf_def)
qed (auto simp: one_line_def)

lemma best_route_longest:
  assumes "case best of None \<Rightarrow> n = 0 | Some b \<Rightarrow> has_prefix path (route_pattern b) \<and> n = length (route_pattern b) \<and> n > 0"
  shows "case best_route path rs best n of
      None \<Rightarrow> best = None \<and> (\<forall>r \<in> set rs. has_prefix path (route_pattern r) \<longrightarrow> route_pattern r = [])
    | Some b \<Rightarrow> (b \<in> set rs \<or> best = Some b) \<and> has_prefix path (route_pattern b) \<and> n \<le> length (route_pattern b) \<and>
        (\<forall>r \<in> set rs. has_prefix path (route_pattern r) \<longrightarrow> length (route_pattern r) \<le> length (route_pattern b))"
  using assms
proof (induction path rs best n rule: best_route.induct)
  case (2 path r rs best n)
  let ?l = "length (route_pattern r)"
  show ?case
  proof (cases "has_prefix path (route_pattern r) \<and> ?l > n")
    case True
    then have "route_pattern r \<noteq> []" by auto
    with True "2.IH"(1) [OF refl True] show ?thesis by (auto split: option.splits)
  next
    case False
    note IH = "2.IH"(2) [OF refl False "2.prems"]
    have eq: "best_route path (r # rs) best n = best_route path rs best n" using False by (auto simp: Let_def)
    have "has_prefix path (route_pattern r) \<Longrightarrow> length (route_pattern r) \<le> n" using False by simp
    with IH "2.prems" show ?thesis unfolding eq by (auto split: option.splits)
  qed
qed (auto split: option.splits)

text \<open>
  A request goes to the route with the longest pattern its path starts with; it is answered
  with 404 only when it starts with no pattern.
\<close>

theorem dispatch_longest_prefix:
  "case best_route path routes None 0 of
     None \<Rightarrow> \<forall>r \<in> set routes. has_prefix path (route_pattern r) \<longrightarrow> route_pattern r = []
   | Some b \<Rightarrow> b \<in> set routes \<and> has_prefix path (route_pattern b) \<and>
       (\<forall>r \<in> set routes. has_prefix path (route_pattern r) \<longrightarrow> length (route_pattern r) \<le> length (route_pattern b))"
  using best_route_longest [where best = None and n = 0 and path = path and rs = routes] by (auto split: option.splits)

theorem dispatch_longest_prefix_witness:
  "best_route ''/grid/resolve/x'' [\<lparr>route_pattern = ''/grid/'', route_handler = 1\<rparr>,
     \<lparr>route_pattern = ''/grid/resolve/'', route_handler = 2\<rparr>, \<lparr>route_pattern = ''/'', route_handler = 3\<rparr>] None 0 =
   Some \<lparr>route_pattern = ''/grid/resolve/'', route_handler = 2\<rparr>"
  using dispatch_longest_prefix [where path = "''/grid/resolve/x''" and routes = "[\<lparr>route_pattern = ''/grid/'', route_handler = 1\<rparr>,
     \<lparr>route_pattern = ''/grid/resolve/'', route_handler = 2\<rparr>, \<lparr>route_pattern = ''/'', route_handler = 3\<rparr>]"]
  by (simp add: has_prefix_def)

end
