(* ===== verification/Store.thy ===== *)
theory Store
  imports CString Interfaces
begin

text \<open>
  The file system backend of the object store, \<^verbatim>\<open>src/src/main/c/cookbook_store_fs.c\<close>, over a
  model of the calls it makes: a tree of files and directories, addressed by path names that
  are walked component by component. Opening for writing and the write itself may fail; the
  list \<open>fs_faults\<close> says so for each coming write.
\<close>

section \<open>The file system\<close>

datatype node = File "byte list" | Dir

datatype write_fault = Open_fails | Short_write nat

record filesystem =
  fs_nodes :: "(string list \<times> node) list"
  fs_cwd :: "string list"
  fs_dir_size :: int
  fs_faults :: "write_fault option list"

definition node_at :: "filesystem \<Rightarrow> string list \<Rightarrow> node option" where
  "node_at fs loc = (if loc = [] then Some Dir else map_of (fs_nodes fs) loc)"

definition set_node :: "string list \<Rightarrow> node \<Rightarrow> filesystem \<Rightarrow> filesystem" where
  "set_node loc n fs = fs\<lparr>fs_nodes := (loc, n) # filter (\<lambda>e. fst e \<noteq> loc) (fs_nodes fs)\<rparr>"

definition del_node :: "string list \<Rightarrow> filesystem \<Rightarrow> filesystem" where
  "del_node loc fs = fs\<lparr>fs_nodes := filter (\<lambda>e. fst e \<noteq> loc) (fs_nodes fs)\<rparr>"

text \<open>
  The components of a path name: empty ones are skipped, but a slash at the end asks for a
  directory, as the component \<open>.\<close> does.
\<close>

fun split_slash :: "string \<Rightarrow> string list" where
  "split_slash [] = [[]]"
| "split_slash (c # s) =
     (if c = CHR ''/'' then [] # split_slash s
      else case split_slash s of [] \<Rightarrow> [[c]] | t # ts \<Rightarrow> (c # t) # ts)"

definition components :: "string \<Rightarrow> string list" where
  "components p = filter (\<lambda>s. s \<noteq> []) (split_slash p) @
     (if p \<noteq> [] \<and> last p = CHR ''/'' then [''.''] else [])"

fun walk :: "filesystem \<Rightarrow> string list \<Rightarrow> string list \<Rightarrow> string list option" where
  "walk fs cur [] = Some cur"
| "walk fs cur (c # cs) =
     (if node_at fs cur \<noteq> Some Dir then None
      else if c = ''.'' then walk fs cur cs
      else if c = ''..'' then walk fs (butlast cur) cs
      else walk fs (cur @ [c]) cs)"

text \<open>The place a path name denotes; \<open>None\<close> when the way to it is not all directories.\<close>

definition locate :: "filesystem \<Rightarrow> string \<Rightarrow> string list option" where
  "locate fs p =
     (if p = [] then None
      else walk fs (if hd p = CHR ''/'' then [] else fs_cwd fs) (components p))"

definition mkdir :: "string \<Rightarrow> filesystem \<Rightarrow> filesystem" where
  "mkdir p fs =
     (case locate fs p of
        Some loc \<Rightarrow> if node_at fs loc = None then set_node loc Dir fs else fs
      | None \<Rightarrow> fs)"

definition access_ok :: "filesystem \<Rightarrow> string \<Rightarrow> bool" where
  "access_ok fs p = (case locate fs p of Some loc \<Rightarrow> node_at fs loc \<noteq> None | None \<Rightarrow> False)"

text \<open>\<open>remove\<close> unlinks a file or an empty directory.\<close>

definition remove_path :: "string \<Rightarrow> filesystem \<Rightarrow> bool \<times> filesystem" where
  "remove_path p fs =
     (case locate fs p of
        None \<Rightarrow> (False, fs)
      | Some loc \<Rightarrow>
          (case node_at fs loc of
             None \<Rightarrow> (False, fs)
           | Some (File b) \<Rightarrow> (True, del_node loc fs)
           | Some Dir \<Rightarrow>
               if loc = [] \<or> (\<exists>e \<in> set (fs_nodes fs). butlast (fst e) = loc \<and> fst e \<noteq> []) then (False, fs)
               else (True, del_node loc fs)))"

section \<open>The store\<close>

datatype cookbook_store_status = STORE_OK | STORE_ERROR | STORE_NOT_FOUND | STORE_EXISTS

record cookbook_store_fs =
  st_root :: string
  st_fs :: filesystem

definition join_path :: "string \<Rightarrow> string \<Rightarrow> string" where
  "join_path root key = root @ ''/'' @ key"

definition is_sep :: "char \<Rightarrow> bool" where
  "is_sep c \<longleftrightarrow> c = CHR ''/'' \<or> c = CHR 0x5c"

text \<open>
  \<open>mkdirs\<close>: the path is cut at its last separator; then a directory is made for every part
  before a separator, which is put back as a slash, and for the whole.
\<close>

definition parent_part :: "string \<Rightarrow> string option" where
  "parent_part path =
     (if \<exists>c \<in> set path. is_sep c
      then Some (rev (tl (dropWhile (\<lambda>c. \<not> is_sep c) (rev path)))) else None)"

fun mkdirs_loop :: "string \<Rightarrow> string \<Rightarrow> filesystem \<Rightarrow> filesystem" where
  "mkdirs_loop done [] fs = mkdir done fs"
| "mkdirs_loop done (c # cs) fs =
     (if is_sep c
      then mkdirs_loop (done @ ''/'') cs (if done \<noteq> [] then mkdir done fs else fs)
      else mkdirs_loop (done @ [c]) cs fs)"

definition mkdirs :: "string \<Rightarrow> filesystem \<Rightarrow> filesystem" where
  "mkdirs path fs = (case parent_part path of None \<Rightarrow> fs | Some tmp \<Rightarrow> mkdirs_loop [] tmp fs)"

text \<open>\<open>fopen(path, "wb")\<close>, \<open>fwrite\<close>, \<open>fclose\<close>: whether all of it was written.\<close>

definition write_file :: "string \<Rightarrow> byte list \<Rightarrow> filesystem \<Rightarrow> bool \<times> filesystem" where
  "write_file path data fs =
     (let fault = (case fs_faults fs of [] \<Rightarrow> None | f # _ \<Rightarrow> f);
          fs = fs\<lparr>fs_faults := tl (fs_faults fs)\<rparr>
      in case locate fs path of
           None \<Rightarrow> (False, fs)
         | Some loc \<Rightarrow>
             if node_at fs loc = Some Dir \<or> fault = Some Open_fails then (False, fs)
             else case fault of
               Some (Short_write n) \<Rightarrow>
                 (length data \<le> n, set_node loc (File (take n data)) fs)
             | _ \<Rightarrow> (True, set_node loc (File data) fs))"

definition fs_put :: "cookbook_store_fs \<Rightarrow> string \<Rightarrow> byte list \<Rightarrow> cookbook_store_status \<times> cookbook_store_fs" where
  "fs_put self key data =
     (let path = join_path (st_root self) key;
          fs = mkdirs path (st_fs self);
          (written, fs) = write_file path data fs
      in (if written then STORE_OK else STORE_ERROR, self\<lparr>st_fs := fs\<rparr>))"

text \<open>What \<open>ftell\<close> says of a directory, which \<open>fopen(path, "rb")\<close> opens, depends on the file system.\<close>

definition fs_get :: "cookbook_store_fs \<Rightarrow> string \<Rightarrow> cookbook_store_status \<times> byte list" where
  "fs_get self key =
     (case locate (st_fs self) (join_path (st_root self) key) of
        None \<Rightarrow> (STORE_NOT_FOUND, [])
      | Some loc \<Rightarrow>
          (case node_at (st_fs self) loc of
             None \<Rightarrow> (STORE_NOT_FOUND, [])
           | Some (File b) \<Rightarrow> (STORE_OK, b)
           | Some Dir \<Rightarrow> if fs_dir_size (st_fs self) = 0 then (STORE_OK, []) else (STORE_ERROR, [])))"

definition fs_exists :: "cookbook_store_fs \<Rightarrow> string \<Rightarrow> cookbook_store_status" where
  "fs_exists self key =
     (if access_ok (st_fs self) (join_path (st_root self) key) then STORE_OK else STORE_NOT_FOUND)"

definition fs_del :: "cookbook_store_fs \<Rightarrow> string \<Rightarrow> cookbook_store_status \<times> cookbook_store_fs" where
  "fs_del self key =
     (let (removed, fs) = remove_path (join_path (st_root self) key) (st_fs self)
      in (if removed then STORE_OK else STORE_NOT_FOUND, self\<lparr>st_fs := fs\<rparr>))"

definition cookbook_store_open_fs :: "string option \<Rightarrow> filesystem \<Rightarrow> cookbook_store_fs" where
  "cookbook_store_open_fs root_dir fs =
     (let dir = (case root_dir of Some d \<Rightarrow> if d \<noteq> [] then d else ''./data/objects'' | None \<Rightarrow> ''./data/objects'')
      in \<lparr>st_root = dir, st_fs = mkdir dir (mkdirs dir fs)\<rparr>)"

section \<open>Nodes and walks\<close>

lemma map_of_without: "map_of (filter (\<lambda>e. fst e \<noteq> loc) xs) l = (if l = loc then None else map_of xs l)"
  by (induction xs) auto

lemma node_at_set: "node_at (set_node loc n fs) l = (if l = loc \<and> loc \<noteq> [] then Some n else node_at fs l)"
  by (auto simp: node_at_def set_node_def map_of_without)

lemma node_at_del: "node_at (del_node loc fs) l = (if l = loc \<and> loc \<noteq> [] then None else node_at fs l)"
  by (auto simp: node_at_def del_node_def map_of_without)

lemma fs_cwd_simps [simp]: "fs_cwd (set_node loc n fs) = fs_cwd fs" "fs_cwd (del_node loc fs) = fs_cwd fs"
  "fs_dir_size (set_node loc n fs) = fs_dir_size fs" "fs_dir_size (del_node loc fs) = fs_dir_size fs"
  "fs_faults (set_node loc n fs) = fs_faults fs" "fs_faults (del_node loc fs) = fs_faults fs"
  by (simp_all add: set_node_def del_node_def)

lemma node_at_faults [simp]: "node_at (fs\<lparr>fs_faults := f\<rparr>) = node_at fs"
  by (rule ext) (simp add: node_at_def)

text \<open>The place a walk without steps up ends at, and that it needs directories on the way.\<close>

definition loc_of :: "string list \<Rightarrow> string list \<Rightarrow> string list" where
  "loc_of cur cs = cur @ filter (\<lambda>c. c \<noteq> ''.'') cs"

definition dirs_to :: "filesystem \<Rightarrow> string list \<Rightarrow> string list \<Rightarrow> bool" where
  "dirs_to fs cur cs \<longleftrightarrow> (\<forall>i < length cs. node_at fs (loc_of cur (take i cs)) = Some Dir)"

lemma loc_of_simps [simp]:
  "loc_of cur [] = cur" "loc_of cur (c # cs) = (if c = ''.'' then loc_of cur cs else loc_of (cur @ [c]) cs)"
  "loc_of cur (as @ bs) = loc_of (loc_of cur as) bs"
  by (simp_all add: loc_of_def)

lemma dirs_to_Cons:
  "dirs_to fs cur (c # cs) \<longleftrightarrow>
     node_at fs cur = Some Dir \<and> dirs_to fs (if c = ''.'' then cur else cur @ [c]) cs"
  by (auto simp: dirs_to_def less_Suc_eq_0_disj split: if_splits)

lemma walk_eq: "''..'' \<notin> set cs \<Longrightarrow> walk fs cur cs = (if dirs_to fs cur cs then Some (loc_of cur cs) else None)"
  by (induction cs arbitrary: cur) (auto simp: dirs_to_Cons, simp_all add: dirs_to_def)

lemma dirs_to_append:
  "dirs_to fs cur (as @ bs) \<longleftrightarrow> dirs_to fs cur as \<and> dirs_to fs (loc_of cur as) bs"
  by (induction as arbitrary: cur) (auto simp: dirs_to_Cons, simp_all add: dirs_to_def)

lemma loc_of_names: "''.'' \<notin> set cs \<Longrightarrow> loc_of cur cs = cur @ cs"
  by (induction cs arbitrary: cur) auto

lemma dirs_to_last:
  assumes "dirs_to fs cur cs" "node_at fs cur = Some Dir" "node_at fs (loc_of cur cs) \<noteq> Some Dir"
  shows "cs \<noteq> []" "last cs \<noteq> ''.''" "node_at fs (loc_of cur (butlast cs)) = Some Dir"
proof -
  show ne: "cs \<noteq> []" using assms(2,3) by auto
  then have "length cs - 1 < length cs" by (cases cs) auto
  with assms(1) show d: "node_at fs (loc_of cur (butlast cs)) = Some Dir"
    unfolding dirs_to_def butlast_conv_take by blast
  have "loc_of cur cs = loc_of cur (butlast cs @ [last cs])" using ne by simp
  with d assms(3) show "last cs \<noteq> ''.''" by (auto simp del: append_butlast_last_id)
qed

text \<open>In a tree the way to a node is all directories.\<close>

definition fs_tree :: "filesystem \<Rightarrow> bool" where
  "fs_tree fs \<longleftrightarrow> (\<forall>loc n. loc \<noteq> [] \<and> node_at fs loc = Some n \<longrightarrow> node_at fs (butlast loc) = Some Dir)"

lemma tree_dirs_to:
  assumes "fs_tree fs" "node_at fs (loc_of cur cs) = Some n" "cs \<noteq> [] \<Longrightarrow> last cs = ''.'' \<Longrightarrow> n = Dir"
  shows "dirs_to fs cur cs"
  using assms(2,3)
proof (induction cs arbitrary: n rule: rev_induct)
  case (snoc c cs)
  have d: "node_at fs (loc_of cur cs) = Some Dir"
  proof (cases "c = ''.''")
    case False
    with snoc.prems(1) assms(1) show ?thesis by (auto simp: fs_tree_def dest: spec [of _ "loc_of cur cs @ [c]"])
  qed (use snoc.prems in simp)
  then have "dirs_to fs cur cs" by (intro snoc.IH) auto
  with d show ?case by (simp add: dirs_to_append dirs_to_Cons) (simp add: dirs_to_def)
qed (simp add: dirs_to_def)

text \<open>A walk survives what keeps its directories.\<close>

lemma walk_mono:
  "walk fs cur cs = Some l \<Longrightarrow> (\<And>l. node_at fs l = Some Dir \<Longrightarrow> node_at fs' l = Some Dir) \<Longrightarrow> walk fs' cur cs = Some l"
  by (induction cs arbitrary: cur) (auto split: if_splits)

section \<open>Path names\<close>

definition names :: "string \<Rightarrow> string list" where
  "names p = filter (\<lambda>s. s \<noteq> []) (split_slash p)"

lemma split_slash_not_Nil [simp]: "split_slash p \<noteq> []"
  by (induction p) (auto split: list.splits)

lemma split_slash_append: "split_slash (p @ CHR ''/'' # q) = split_slash p @ split_slash q"
  by (induction p) (auto split: list.splits simp: append_eq_Cons_conv)

lemma split_slash_plain: "CHR ''/'' \<notin> set p \<Longrightarrow> split_slash p = [p]"
  by (induction p) auto

lemma names_append: "names (p @ CHR ''/'' # q) = names p @ names q"
  by (simp add: names_def split_slash_append)

lemma names_plain: "CHR ''/'' \<notin> set p \<Longrightarrow> names p = (if p = [] then [] else [p])"
  by (simp add: names_def split_slash_plain)

lemma components_names: "components p = names p @ (if p \<noteq> [] \<and> last p = CHR ''/'' then [''.''] else [])"
  by (simp add: components_def names_def)

fun slash_join :: "string list \<Rightarrow> string" where
  "slash_join [] = []"
| "slash_join [c] = c"
| "slash_join (c # cs) = c @ CHR ''/'' # slash_join cs"

text \<open>Keys that name one object each: their components are plain names.\<close>

definition plain_name :: "string \<Rightarrow> bool" where
  "plain_name c \<longleftrightarrow> c \<noteq> [] \<and> c \<noteq> ''.'' \<and> c \<noteq> ''..'' \<and> CHR ''/'' \<notin> set c \<and> CHR 0x5c \<notin> set c"

definition valid_key :: "string list \<Rightarrow> bool" where
  "valid_key ks \<longleftrightarrow> ks \<noteq> [] \<and> (\<forall>c \<in> set ks. plain_name c)"

lemma names_Nil [simp]: "names [] = []"
  by (simp add: names_def)

lemma names_join: "(\<And>c. c \<in> set ks \<Longrightarrow> plain_name c) \<Longrightarrow> names (slash_join ks) = ks"
proof (induction ks rule: slash_join.induct)
  case (2 c)
  then show ?case by (simp add: names_plain plain_name_def)
next
  case (3 c d cs)
  then have "names c = [c]" using "3.prems" [of c] by (simp add: names_plain plain_name_def)
  with 3 show ?case by (simp add: names_append)
qed simp

lemma slash_join_last:
  "ks \<noteq> [] \<Longrightarrow> (\<And>c. c \<in> set ks \<Longrightarrow> plain_name c) \<Longrightarrow> slash_join ks \<noteq> [] \<and> last (slash_join ks) \<noteq> CHR ''/''"
  by (induction ks rule: slash_join.induct) (auto simp: plain_name_def, metis last_in_set)

text \<open>
  Keys without a step up: the components the file system walks, and the place they lead to. The
  place of a valid key is the key.
\<close>

definition safe_key :: "string \<Rightarrow> bool" where
  "safe_key key \<longleftrightarrow> ''..'' \<notin> set (names key)"

definition parts :: "string \<Rightarrow> string list" where
  "parts key = names key @ (if key = [] \<or> last key = CHR ''/'' then [''.''] else [])"

definition place :: "string \<Rightarrow> string list" where
  "place key = filter (\<lambda>c. c \<noteq> ''.'') (names key)"

lemma components_key: "components (p @ CHR ''/'' # key) = names p @ parts key"
  by (simp add: components_names names_append parts_def)

lemma dots_valid: "valid_key ks \<Longrightarrow> ''.'' \<notin> set ks \<and> ''..'' \<notin> set ks"
  by (auto simp: valid_key_def plain_name_def)

lemma valid_key_place:
  assumes "valid_key ks"
  shows "names (slash_join ks) = ks" "parts (slash_join ks) = ks" "place (slash_join ks) = ks" "safe_key (slash_join ks)"
proof -
  show n: "names (slash_join ks) = ks" using assms by (intro names_join) (simp add: valid_key_def)
  show "parts (slash_join ks) = ks"
    using slash_join_last [of ks] assms by (auto simp: parts_def n valid_key_def)
  show "place (slash_join ks) = ks" "safe_key (slash_join ks)"
    using dots_valid [OF assms] by (auto simp: place_def safe_key_def n filter_id_conv)
qed

lemma loc_of_place: "filter (\<lambda>c. c \<noteq> ''.'') (parts key) = place key"
  by (simp add: parts_def place_def)

lemma safe_parts: "safe_key key \<Longrightarrow> ''..'' \<notin> set (parts key)"
  by (simp add: safe_key_def parts_def)

section \<open>Invariant and content\<close>

definition start_of :: "filesystem \<Rightarrow> string \<Rightarrow> string list" where
  "start_of fs p = (if p \<noteq> [] \<and> hd p = CHR ''/'' then [] else fs_cwd fs)"

definition root_loc :: "cookbook_store_fs \<Rightarrow> string list" where
  "root_loc s = loc_of (start_of (st_fs s) (st_root s)) (names (st_root s))"

definition store_inv :: "cookbook_store_fs \<Rightarrow> bool" where
  "store_inv s \<longleftrightarrow> fs_tree (st_fs s) \<and> st_root s \<noteq> [] \<and> ''..'' \<notin> set (names (st_root s)) \<and>
     dirs_to (st_fs s) (start_of (st_fs s) (st_root s)) (names (st_root s)) \<and>
     node_at (st_fs s) (root_loc s) = Some Dir"

definition object_view :: "cookbook_store_fs \<Rightarrow> string list \<Rightarrow> byte list option" where
  "object_view s ks =
     (case node_at (st_fs s) (root_loc s @ ks) of Some (File b) \<Rightarrow> Some b | _ \<Rightarrow> None)"

text \<open>The place of a key.\<close>

lemma locate_key:
  assumes "st_root s \<noteq> []" "''..'' \<notin> set (names (st_root s))" "safe_key key" "fs_cwd fs = fs_cwd (st_fs s)"
    "dirs_to fs (start_of (st_fs s) (st_root s)) (names (st_root s))"
  shows "locate fs (join_path (st_root s) key) =
    (if dirs_to fs (root_loc s) (parts key) then Some (root_loc s @ place key) else None)"
proof -
  let ?p = "join_path (st_root s) key"
  have start: "(if hd ?p = CHR ''/'' then [] else fs_cwd fs) = start_of (st_fs s) (st_root s)"
    using assms(1,4) by (simp add: join_path_def start_of_def)
  have comp: "components ?p = names (st_root s) @ parts key"
    using components_key [of "st_root s" key] by (simp add: join_path_def)
  have "locate fs ?p = walk fs (start_of (st_fs s) (st_root s)) (names (st_root s) @ parts key)"
    unfolding locate_def start comp by (simp add: join_path_def)
  also have "\<dots> = (if dirs_to fs (root_loc s) (parts key) then Some (loc_of (root_loc s) (parts key)) else None)"
    using assms(2,5) safe_parts [OF assms(3)] by (subst walk_eq) (auto simp: dirs_to_append root_loc_def)
  finally show ?thesis by (simp add: loc_of_def loc_of_place)
qed

section \<open>Directories\<close>

text \<open>Making directories keeps every node and adds directories only.\<close>

definition only_dirs :: "filesystem \<Rightarrow> filesystem \<Rightarrow> bool" where
  "only_dirs fs fs' \<longleftrightarrow> fs_cwd fs' = fs_cwd fs \<and> fs_dir_size fs' = fs_dir_size fs \<and> fs_faults fs' = fs_faults fs \<and>
     (\<forall>loc. node_at fs' loc = node_at fs loc \<or> node_at fs loc = None \<and> node_at fs' loc = Some Dir) \<and>
     (fs_tree fs \<longrightarrow> fs_tree fs')"

lemma only_dirs_refl [simp]: "only_dirs fs fs"
  by (simp add: only_dirs_def)

lemma only_dirs_trans: "only_dirs a b \<Longrightarrow> only_dirs b c \<Longrightarrow> only_dirs a c"
  unfolding only_dirs_def by metis

lemma walk_Dir:
  "walk fs cur cs = Some loc \<Longrightarrow> node_at fs loc = None \<Longrightarrow> node_at fs cur = Some Dir \<Longrightarrow> fs_tree fs \<Longrightarrow>
   node_at fs (butlast loc) = Some Dir"
proof (induction cs arbitrary: cur)
  case (Cons c cs)
  show ?case
  proof (cases "c = ''.'' \<or> c = ''..''")
    case True
    have "node_at fs (butlast cur) = Some Dir"
      using Cons.prems(3,4) by (cases "cur = []") (auto simp: fs_tree_def)
    with True Cons show ?thesis by (auto split: if_splits)
  next
    case False
    then have w: "walk fs (cur @ [c]) cs = Some loc" using Cons.prems by (auto split: if_splits)
    show ?thesis
    proof (cases "node_at fs (cur @ [c]) = Some Dir")
      case True
      with Cons w show ?thesis by auto
    next
      case False
      with w have "loc = cur @ [c]" by (cases cs) auto
      with Cons.prems show ?thesis by simp
    qed
  qed
qed simp

lemma set_Dir_only_dirs:
  assumes "node_at fs loc = None" "fs_tree fs \<Longrightarrow> node_at fs (butlast loc) = Some Dir"
  shows "only_dirs fs (set_node loc Dir fs)"
proof -
  have "loc \<noteq> []" using assms(1) by (auto simp: node_at_def)
  moreover have "fs_tree (set_node loc Dir fs)" if "fs_tree fs"
    using assms(1,2) that by (auto simp: fs_tree_def node_at_set)
  ultimately show ?thesis using assms(1) by (auto simp: only_dirs_def node_at_set)
qed

lemma names_Nil_slashes: "names p = [] \<Longrightarrow> p \<noteq> [] \<Longrightarrow> last p = CHR ''/''"
proof (induction p)
  case (Cons c p)
  obtain t ts where t: "split_slash p = t # ts" by (cases "split_slash p") auto
  show ?case using Cons t by (auto simp: names_def split: if_splits)
qed simp

lemma components_not_Nil: "p \<noteq> [] \<Longrightarrow> components p \<noteq> []"
  using names_Nil_slashes [of p] by (auto simp: components_names)

lemma locate_Dir:
  assumes "locate fs p = Some loc" "node_at fs loc = None" "fs_tree fs"
  shows "node_at fs (butlast loc) = Some Dir"
proof -
  obtain cur where p: "p \<noteq> []" and w: "walk fs cur (components p) = Some loc"
    using assms(1) by (auto simp: locate_def split: if_splits)
  then have "node_at fs cur = Some Dir"
    using components_not_Nil [OF p] by (cases "components p") (auto split: if_splits)
  with w assms show ?thesis by (intro walk_Dir)
qed

lemma mkdir_only_dirs: "only_dirs fs (mkdir p fs)"
  using set_Dir_only_dirs locate_Dir by (auto simp: mkdir_def split: option.splits)

lemma mkdirs_loop_only_dirs: "only_dirs fs (mkdirs_loop done cs fs)"
proof (induction "done" cs fs rule: mkdirs_loop.induct)
  case (1 d fs)
  show ?case by (simp add: mkdir_only_dirs)
next
  case (2 d c cs fs)
  show ?case
  proof (cases "is_sep c")
    case True
    have "only_dirs fs (if d \<noteq> [] then mkdir d fs else fs)" by (simp add: mkdir_only_dirs)
    from only_dirs_trans [OF this "2.IH"(1) [OF True]] True show ?thesis by simp
  next
    case False
    with "2.IH"(2) show ?thesis by simp
  qed
qed

lemma mkdirs_only_dirs: "only_dirs fs (mkdirs p fs)"
  by (simp add: mkdirs_def mkdirs_loop_only_dirs split: option.splits)

text \<open>Walks over directories survive whatever keeps the directories they pass.\<close>

lemma dirs_to_mono:
  "dirs_to fs cur cs \<Longrightarrow> (\<And>l. node_at fs l = Some Dir \<Longrightarrow> node_at fs' l = Some Dir) \<Longrightarrow> dirs_to fs' cur cs"
  by (simp add: dirs_to_def)

lemma only_dirs_Dir: "only_dirs fs fs' \<Longrightarrow> node_at fs l = Some Dir \<Longrightarrow> node_at fs' l = Some Dir"
  by (auto simp: only_dirs_def dest: spec [of _ l])

section \<open>The operations on keys\<close>

lemma filter_last: "xs \<noteq> [] \<Longrightarrow> P (last xs) \<Longrightarrow> filter P xs = filter P (butlast xs) @ [last xs]"
  by (induction xs) auto

text \<open>Writing a key: nothing but directories is added, or the file at its place is set.\<close>

lemma put_cases:
  assumes "store_inv s" "safe_key key" "fs_put s key v = (st, s')"
  obtains (fail) fs where "only_dirs (st_fs s) fs" "st = STORE_ERROR" "s' = s\<lparr>st_fs := fs\<lparr>fs_faults := tl (fs_faults fs)\<rparr>\<rparr>"
  | (wrote) fs w where "only_dirs (st_fs s) fs" "node_at fs (root_loc s @ place key) \<noteq> Some Dir"
      "place key \<noteq> []" "node_at fs (root_loc s @ butlast (place key)) = Some Dir"
      "parts key \<noteq> []" "last (parts key) \<noteq> ''.''" "st = STORE_OK \<Longrightarrow> w = v"
      "s' = s\<lparr>st_fs := set_node (root_loc s @ place key) (File w) (fs\<lparr>fs_faults := tl (fs_faults fs)\<rparr>)\<rparr>"
proof -
  let ?p = "join_path (st_root s) key" and ?loc = "root_loc s @ place key"
  define fs where "fs = mkdirs ?p (st_fs s)"
  define fs2 where "fs2 = fs\<lparr>fs_faults := tl (fs_faults fs)\<rparr>"
  have od: "only_dirs (st_fs s) fs" unfolding fs_def by (rule mkdirs_only_dirs)
  then have cwd: "fs_cwd fs2 = fs_cwd (st_fs s)" by (simp add: fs2_def only_dirs_def)
  have nodes: "node_at fs2 = node_at fs" by (simp add: fs2_def)
  have "dirs_to fs2 (start_of (st_fs s) (st_root s)) (names (st_root s))"
    using assms(1) dirs_to_mono [of "st_fs s" _ _ fs2] only_dirs_Dir [OF od] by (auto simp: store_inv_def nodes)
  then have loc: "locate fs2 ?p = (if dirs_to fs2 (root_loc s) (parts key) then Some ?loc else None)"
    using assms(1,2) cwd by (intro locate_key) (auto simp: store_inv_def)
  obtain wr fs3 where w: "write_file ?p v fs = (wr, fs3)" by (cases "write_file ?p v fs")
  then have res: "st = (if wr then STORE_OK else STORE_ERROR)" "s' = s\<lparr>st_fs := fs3\<rparr>"
    using assms(3) by (simp_all add: fs_put_def Let_def fs_def)
  show ?thesis
  proof (cases "fs3 = fs2 \<and> \<not> wr")
    case True
    with od res show ?thesis by (intro fail [of fs]) (simp_all add: fs2_def)
  next
    case False
    then have d: "dirs_to fs2 (root_loc s) (parts key)" and nd: "node_at fs2 ?loc \<noteq> Some Dir"
      using w loc by (auto simp: write_file_def Let_def fs2_def split: if_splits)
    obtain u where u: "fs3 = set_node ?loc (File u) fs2" "wr \<Longrightarrow> u = v"
      using w loc d nd False
      by (auto simp: write_file_def Let_def fs2_def split: if_splits option.splits write_fault.splits)
    have "node_at fs2 (root_loc s) = Some Dir" using assms(1) only_dirs_Dir [OF od] by (simp add: store_inv_def nodes)
    then have end_dir: "parts key \<noteq> []" "last (parts key) \<noteq> ''.''" "node_at fs2 (loc_of (root_loc s) (butlast (parts key))) = Some Dir"
      using dirs_to_last [OF d] nd by (simp_all add: loc_of_def loc_of_place)
    then have "place key = filter (\<lambda>c. c \<noteq> ''.'') (butlast (parts key)) @ [last (parts key)]"
      using filter_last [of "parts key" "\<lambda>c. c \<noteq> ''.''"] by (simp add: loc_of_place)
    then have pl: "place key \<noteq> []" "butlast (place key) = filter (\<lambda>c. c \<noteq> ''.'') (butlast (parts key))" by simp_all
    have "node_at fs (root_loc s @ butlast (place key)) = Some Dir"
      using end_dir(3) unfolding pl(2) loc_of_def nodes .
    then show ?thesis
      using od pl(1) end_dir(1,2) nd u res unfolding nodes by (intro wrote [of fs u]) (auto simp: fs2_def split: if_splits)
  qed
qed

lemma root_loc_fs: "fs_cwd fs = fs_cwd (st_fs s) \<Longrightarrow> root_loc (s\<lparr>st_fs := fs\<rparr>) = root_loc s"
  by (simp add: root_loc_def start_of_def)

lemma store_inv_fs:
  assumes "store_inv s" "fs_cwd fs = fs_cwd (st_fs s)" "fs_tree fs"
    "\<And>l. node_at (st_fs s) l = Some Dir \<Longrightarrow> node_at fs l = Some Dir"
  shows "store_inv (s\<lparr>st_fs := fs\<rparr>)"
  using assms(1,3,4) dirs_to_mono [of "st_fs s" _ _ fs] assms(2)
  by (auto simp: store_inv_def root_loc_fs start_of_def)

text \<open>What a write keeps: the tree, every directory, and that a node is there.\<close>

lemma put_nodes:
  assumes "store_inv s" "safe_key key" "fs_put s key v = (st, s')"
  shows "store_inv s' \<and> st_root s' = st_root s \<and> fs_cwd (st_fs s') = fs_cwd (st_fs s) \<and>
    (\<forall>l. node_at (st_fs s) l = Some Dir \<longrightarrow> node_at (st_fs s') l = Some Dir) \<and>
    (\<forall>l. node_at (st_fs s) l \<noteq> None \<longrightarrow> node_at (st_fs s') l \<noteq> None)"
  using assms
proof (cases rule: put_cases)
  case (fail fs)
  have n: "node_at (st_fs s) l \<noteq> None \<longrightarrow> node_at fs l \<noteq> None" for l
    using fail(1) by (auto simp: only_dirs_def dest: spec [of _ l])
  have "store_inv s'"
    using assms(1) only_dirs_Dir [OF fail(1)] fail(1) unfolding fail(3)
    by (intro store_inv_fs) (auto simp: only_dirs_def store_inv_def fs_tree_def)
  with fail n show ?thesis using only_dirs_Dir [OF fail(1)] by (simp add: only_dirs_def)
next
  case (wrote fs w)
  let ?loc = "root_loc s @ place key"
  let ?fs = "set_node ?loc (File w) (fs\<lparr>fs_faults := tl (fs_faults fs)\<rparr>)"
  have "fs_tree fs" using wrote(1) assms(1) by (simp add: only_dirs_def store_inv_def)
  then have tree: "fs_tree ?fs"
    using wrote(2-4) by (auto simp: fs_tree_def node_at_set butlast_append)
  have dir: "node_at (st_fs s) l = Some Dir \<Longrightarrow> node_at ?fs l = Some Dir" for l
    using wrote(2) only_dirs_Dir [OF wrote(1), of l] by (auto simp: node_at_set)
  have some: "node_at (st_fs s) l \<noteq> None \<Longrightarrow> node_at ?fs l \<noteq> None" for l
    using wrote(1) by (auto simp: node_at_set only_dirs_def dest: spec [of _ l])
  have "store_inv s'"
    using assms(1) wrote(1) tree dir unfolding wrote(8) by (intro store_inv_fs) (auto simp: only_dirs_def)
  with wrote(1,8) dir some show ?thesis by (simp add: only_dirs_def)
qed

lemmas put_inv = put_nodes [THEN conjunct1]

lemma view_only_dirs:
  assumes "only_dirs (st_fs s) fs"
  shows "object_view (s\<lparr>st_fs := fs\<lparr>fs_faults := f\<rparr>\<rparr>) ks = object_view s ks"
proof -
  have "root_loc (s\<lparr>st_fs := fs\<lparr>fs_faults := f\<rparr>\<rparr>) = root_loc s"
    using assms by (intro root_loc_fs) (simp add: only_dirs_def)
  then show ?thesis
    using assms by (auto simp: object_view_def only_dirs_def dest: spec [of _ "root_loc s @ ks"] split: option.splits node.splits)
qed

lemma put_view:
  assumes "store_inv s" "safe_key key" "fs_put s key v = (st, s')"
  shows "st = STORE_OK \<Longrightarrow> object_view s' (place key) = Some v"
    and "ks' \<noteq> place key \<Longrightarrow> object_view s' ks' = object_view s ks'"
proof -
  from assms have "(st = STORE_OK \<longrightarrow> object_view s' (place key) = Some v) \<and> (ks' \<noteq> place key \<longrightarrow> object_view s' ks' = object_view s ks')"
  proof (cases rule: put_cases)
    case (fail fs)
    then show ?thesis by (simp add: view_only_dirs)
  next
    case (wrote fs w)
    have r: "root_loc s' = root_loc s"
      using wrote(1) unfolding wrote(8) by (intro root_loc_fs) (simp add: only_dirs_def)
    have "object_view s' l = (if l = place key then Some w else object_view (s\<lparr>st_fs := fs\<lparr>fs_faults := tl (fs_faults fs)\<rparr>\<rparr>) l)" for l
      using r wrote(1,3) root_loc_fs [of "fs\<lparr>fs_faults := tl (fs_faults fs)\<rparr>" s]
      by (auto simp: object_view_def wrote(8) node_at_set only_dirs_def)
    then show ?thesis using wrote(1,7) by (simp add: view_only_dirs)
  qed
  then show "st = STORE_OK \<Longrightarrow> object_view s' (place key) = Some v" "ks' \<noteq> place key \<Longrightarrow> object_view s' ks' = object_view s ks'"
    by blast+
qed

text \<open>The place of a key in the store as it is, and what is there.\<close>

lemma locate_store:
  "store_inv s \<Longrightarrow> safe_key key \<Longrightarrow> locate (st_fs s) (join_path (st_root s) key) =
     (if dirs_to (st_fs s) (root_loc s) (parts key) then Some (root_loc s @ place key) else None)"
  by (rule locate_key) (simp_all add: store_inv_def)

lemma exists_iff:
  assumes "store_inv s" "safe_key key"
  shows "fs_exists s key = STORE_OK \<longleftrightarrow>
    (\<exists>n. node_at (st_fs s) (root_loc s @ place key) = Some n \<and> (parts key \<noteq> [] \<and> last (parts key) = ''.'' \<longrightarrow> n = Dir))"
    (is "_ \<longleftrightarrow> ?R")
proof
  assume "fs_exists s key = STORE_OK"
  then obtain n where d: "dirs_to (st_fs s) (root_loc s) (parts key)" and n: "node_at (st_fs s) (root_loc s @ place key) = Some n"
    using locate_store [OF assms] by (auto simp: fs_exists_def access_ok_def split: option.splits if_splits)
  have "node_at (st_fs s) (root_loc s) = Some Dir" using assms(1) by (simp add: store_inv_def)
  with dirs_to_last [OF d] n show ?R by (auto simp: loc_of_def loc_of_place)
next
  assume ?R
  then obtain n where "node_at (st_fs s) (loc_of (root_loc s) (parts key)) = Some n" "parts key \<noteq> [] \<and> last (parts key) = ''.'' \<longrightarrow> n = Dir"
    by (auto simp: loc_of_def loc_of_place)
  then have "dirs_to (st_fs s) (root_loc s) (parts key)"
    using assms(1) tree_dirs_to [of "st_fs s" "root_loc s" "parts key" n] by (simp add: store_inv_def)
  with \<open>?R\<close> show "fs_exists s key = STORE_OK"
    using locate_store [OF assms] by (auto simp: fs_exists_def access_ok_def)
qed

lemma locate_object:
  assumes "store_inv s" "safe_key key" "parts key = [] \<or> last (parts key) \<noteq> ''.''" "object_view s (place key) = Some v"
  shows "locate (st_fs s) (join_path (st_root s) key) = Some (root_loc s @ place key)"
    "node_at (st_fs s) (root_loc s @ place key) = Some (File v)"
proof -
  show n: "node_at (st_fs s) (root_loc s @ place key) = Some (File v)"
    using assms(4) by (auto simp: object_view_def split: option.splits node.splits)
  have "dirs_to (st_fs s) (root_loc s) (parts key)"
    using n assms by (intro tree_dirs_to [of _ _ _ "File v"]) (auto simp: loc_of_def loc_of_place store_inv_def)
  then show "locate (st_fs s) (join_path (st_root s) key) = Some (root_loc s @ place key)"
    using locate_store [OF assms(1,2)] by simp
qed

lemma view_get:
  "store_inv s \<Longrightarrow> safe_key key \<Longrightarrow> parts key = [] \<or> last (parts key) \<noteq> ''.'' \<Longrightarrow> object_view s (place key) = Some v \<Longrightarrow>
   fs_get s key = (STORE_OK, v)"
  by (simp add: fs_get_def locate_object)

lemma view_exists:
  "store_inv s \<Longrightarrow> safe_key key \<Longrightarrow> parts key = [] \<or> last (parts key) \<noteq> ''.'' \<Longrightarrow> object_view s (place key) = Some v \<Longrightarrow>
   fs_exists s key = STORE_OK"
  by (simp add: fs_exists_def access_ok_def locate_object)

text \<open>A key whose write succeeded exists; a key that exists is not lost by a write.\<close>

lemma put_exists:
  assumes "store_inv s" "safe_key key" "fs_put s key v = (st, s')"
  shows "fs_exists s k = STORE_OK \<Longrightarrow> fs_exists s' k = STORE_OK"
proof -
  assume "fs_exists s k = STORE_OK"
  then obtain l where l: "locate (st_fs s) (join_path (st_root s) k) = Some l" "node_at (st_fs s) l \<noteq> None"
    by (auto simp: fs_exists_def access_ok_def split: option.splits if_splits)
  note put = put_nodes [OF assms]
  from put have dirs: "\<And>l. node_at (st_fs s) l = Some Dir \<Longrightarrow> node_at (st_fs s') l = Some Dir"
    and same: "st_root s' = st_root s" "fs_cwd (st_fs s') = fs_cwd (st_fs s)" by blast+
  have "locate (st_fs s') (join_path (st_root s') k) = Some l"
    using l(1) walk_mono [OF _ dirs] unfolding locate_def same by (simp split: if_splits)
  with l(2) put show ?thesis by (simp add: fs_exists_def access_ok_def)
qed

text \<open>A key that did not exist names a free place, when it can be written at all.\<close>

lemma put_new_place:
  assumes "store_inv s" "safe_key key" "fs_put s key v = (st, s')" "fs_exists s key \<noteq> STORE_OK"
  shows "s' = s\<lparr>st_fs := st_fs s'\<rparr> \<and> (\<forall>n. object_view s ks = Some n \<longrightarrow> object_view s' ks = Some n) \<and>
    (st = STORE_OK \<longrightarrow> node_at (st_fs s) (root_loc s @ place key) = None)"
  using assms(1-3)
proof (cases rule: put_cases)
  case (fail fs)
  then show ?thesis by (simp add: view_only_dirs)
next
  case (wrote fs w)
  then have free: "node_at (st_fs s) (root_loc s @ place key) = None"
    using exists_iff [OF assms(1,2)] assms(4) by (cases "node_at (st_fs s) (root_loc s @ place key)") auto
  then have "object_view s (place key) = None" by (simp add: object_view_def)
  then have "object_view s ks = Some n \<Longrightarrow> object_view s' ks = Some n" for n
    using put_view(2) [OF assms(1-3), of ks] by (cases "ks = place key") auto
  with wrote(8) free show ?thesis by simp
qed

text \<open>Deleting a key: the node at its place goes, and only when nothing lies below it.\<close>

lemma del_cases:
  assumes "store_inv s" "safe_key key" "fs_del s key = (st, s')"
  obtains (none) "st = STORE_NOT_FOUND" "s' = s"
  | (gone) "st = STORE_OK" "s' = s\<lparr>st_fs := del_node (root_loc s @ place key) (st_fs s)\<rparr>"
      "\<And>l. l \<noteq> [] \<Longrightarrow> butlast l = root_loc s @ place key \<Longrightarrow> node_at (st_fs s) l = None"
proof -
  let ?loc = "root_loc s @ place key"
  obtain rm fs where r: "remove_path (join_path (st_root s) key) (st_fs s) = (rm, fs)" by fastforce
  with assms(3) have res: "st = (if rm then STORE_OK else STORE_NOT_FOUND)" "s' = s\<lparr>st_fs := fs\<rparr>"
    by (simp_all add: fs_del_def)
  have tree: "fs_tree (st_fs s)" using assms(1) by (simp add: store_inv_def)
  show ?thesis
  proof (cases rm)
    case False
    with r have "fs = st_fs s" by (auto simp: remove_path_def split: option.splits node.splits if_splits)
    with False res show ?thesis by (intro none) simp_all
  next
    case True
    with r locate_store [OF assms(1,2)] have fs: "fs = del_node ?loc (st_fs s)" "node_at (st_fs s) ?loc \<noteq> None"
        "node_at (st_fs s) ?loc = Some Dir \<Longrightarrow> \<not> (\<exists>e \<in> set (fs_nodes (st_fs s)). butlast (fst e) = ?loc \<and> fst e \<noteq> [])"
      by (auto simp: remove_path_def split: option.splits node.splits if_splits)
    have "node_at (st_fs s) l = None" if l: "l \<noteq> []" "butlast l = ?loc" for l
    proof (rule ccontr)
      assume n: "node_at (st_fs s) l \<noteq> None"
      then have "node_at (st_fs s) ?loc = Some Dir" using tree l by (auto simp: fs_tree_def)
      moreover have "l \<in> fst ` set (fs_nodes (st_fs s))"
        using n l(1) by (auto simp: node_at_def map_of_eq_None_iff)
      ultimately show False using fs(3) l by auto
    qed
    with True res fs(1) show ?thesis by (intro gone) simp_all
  qed
qed

lemma del_inv:
  assumes "store_inv s" "safe_key key" "place key \<noteq> []" "fs_del s key = (st, s')"
  shows "store_inv s'"
  using assms(1,2,4)
proof (cases rule: del_cases)
  case none
  with assms show ?thesis by simp
next
  case gone
  let ?fs = "del_node (root_loc s @ place key) (st_fs s)"
  note ks = assms(3)
  have "fs_tree ?fs"
    unfolding fs_tree_def
  proof (intro allI impI)
    fix loc n
    assume "loc \<noteq> [] \<and> node_at ?fs loc = Some n"
    then have l: "loc \<noteq> []" "node_at (st_fs s) loc = Some n" by (auto simp: node_at_del split: if_splits)
    then have "node_at (st_fs s) (butlast loc) = Some Dir" using assms(1) by (simp add: store_inv_def fs_tree_def)
    moreover have "butlast loc \<noteq> root_loc s @ place key" using gone(3) [of loc] l by auto
    ultimately show "node_at ?fs (butlast loc) = Some Dir" by (simp add: node_at_del)
  qed
  moreover have "node_at ?fs (root_loc s) = Some Dir"
    using assms(1) ks by (simp add: node_at_del store_inv_def)
  moreover have "dirs_to ?fs (start_of (st_fs s) (st_root s)) (names (st_root s))"
    unfolding dirs_to_def
  proof (intro allI impI)
    fix i
    assume i: "i < length (names (st_root s))"
    let ?l = "loc_of (start_of (st_fs s) (st_root s)) (take i (names (st_root s)))"
    have "root_loc s = ?l @ filter (\<lambda>c. c \<noteq> ''.'') (drop i (names (st_root s)))"
      unfolding root_loc_def by (simp add: loc_of_def filter_append [symmetric] del: filter_append)
    then have "?l \<noteq> root_loc s @ place key" using ks by (metis append_self_conv append_assoc append_is_Nil_conv)
    with i assms(1) show "node_at ?fs ?l = Some Dir" by (simp add: node_at_del store_inv_def dirs_to_def)
  qed
  ultimately show ?thesis
    using assms(1) unfolding gone(2) by (simp add: store_inv_def root_loc_fs start_of_def split: if_splits)
qed

lemma del_root: "fs_del s key = (st, s') \<Longrightarrow> s' = s\<lparr>st_fs := st_fs s'\<rparr> \<and> fs_cwd (st_fs s') = fs_cwd (st_fs s)"
  by (auto simp: fs_del_def remove_path_def split: option.splits node.splits if_splits)

lemma del_view:
  assumes "store_inv s" "safe_key key" "place key \<noteq> []" "fs_del s key = (st, s')"
  shows "st = STORE_OK \<Longrightarrow> object_view s' (place key) = None"
    and "ks' \<noteq> place key \<Longrightarrow> object_view s' ks' = object_view s ks'"
  using assms(1,2,4) assms(3)
  by (cases rule: del_cases; auto simp: object_view_def root_loc_fs node_at_del)+

lemma del_exists:
  assumes "store_inv s" "safe_key key" "place key \<noteq> []" "fs_del s key = (st, s')"
    and "safe_key k" "place k \<noteq> place key" "fs_exists s k = STORE_OK"
  shows "fs_exists s' k = STORE_OK"
proof -
  have inv: "store_inv s'" by (rule del_inv [OF assms(1-4)])
  have r: "root_loc s' = root_loc s" using del_root [OF assms(4)] root_loc_fs by metis
  have "node_at (st_fs s') (root_loc s @ place k) = node_at (st_fs s) (root_loc s @ place k)"
    using assms(1,2,4)
  proof (cases rule: del_cases)
    case gone
    then show ?thesis using assms(6) by (simp add: node_at_del)
  qed simp
  then show ?thesis using assms(5,7) by (simp add: exists_iff [OF assms(1)] exists_iff [OF inv] r)
qed

section \<open>The contract\<close>

definition key_put :: "cookbook_store_fs \<Rightarrow> string list \<Rightarrow> byte list \<Rightarrow> bool \<times> cookbook_store_fs" where
  "key_put s ks v = (let (st, s') = fs_put s (slash_join ks) v in (st = STORE_OK, s'))"

definition key_get :: "cookbook_store_fs \<Rightarrow> string list \<Rightarrow> byte list option" where
  "key_get s ks = (let (st, v) = fs_get s (slash_join ks) in if st = STORE_OK then Some v else None)"

definition key_has :: "cookbook_store_fs \<Rightarrow> string list \<Rightarrow> bool" where
  "key_has s ks \<longleftrightarrow> fs_exists s (slash_join ks) = STORE_OK"

definition key_del :: "cookbook_store_fs \<Rightarrow> string list \<Rightarrow> bool \<times> cookbook_store_fs" where
  "key_del s ks = (let (st, s') = fs_del s (slash_join ks) in (st = STORE_OK, s'))"

interpretation fs_store: object_store key_put key_get key_has key_del object_view valid_key store_inv
proof
  fix s s' :: cookbook_store_fs and k k' :: "string list" and v and "done" :: bool
  assume s: "store_inv s" and valid: "valid_key k"
  note k = valid_key_place(4) [OF valid] and p = valid_key_place(3) [OF valid] valid_key_place(2) [OF valid]
  have ne: "place (slash_join k) \<noteq> []" using p valid by (simp add: valid_key_def)
  have no_dot: "parts (slash_join k) = [] \<or> last (parts (slash_join k)) \<noteq> ''.''"
    using dots_valid [OF valid] p(2) by (auto dest: last_in_set)
  show "key_put s k v = (done, s') \<Longrightarrow> store_inv s'"
    using put_inv [OF s k] by (auto simp: key_put_def split: prod.splits)
  show "key_put s k v = (True, s') \<Longrightarrow> object_view s' k = Some v"
    using put_view(1) [OF s k] p by (auto simp: key_put_def split: prod.splits)
  show "key_del s k = (done, s') \<Longrightarrow> store_inv s'"
    using del_inv [OF s k ne] by (auto simp: key_del_def split: prod.splits)
  show "key_del s k = (True, s') \<Longrightarrow> object_view s' k = None"
    using del_view(1) [OF s k ne] p by (auto simp: key_del_def split: prod.splits)
  show "object_view s k = Some v \<Longrightarrow> key_get s k = Some v"
    using view_get [OF s k no_dot] p by (simp add: key_get_def)
  show "object_view s k = Some v \<Longrightarrow> key_has s k"
    using view_exists [OF s k no_dot] p by (simp add: key_has_def)
  assume "valid_key k'" and other: "k' \<noteq> k"
  show "key_put s k v = (done, s') \<Longrightarrow> object_view s' k' = object_view s k'"
    using put_view(2) [OF s k, of _ _ _ k'] other p by (auto simp: key_put_def split: prod.splits)
  show "key_del s k = (done, s') \<Longrightarrow> object_view s' k' = object_view s k'"
    using del_view(2) [OF s k ne, of _ _ k'] other p by (auto simp: key_del_def split: prod.splits)
qed


section \<open>When a write succeeds\<close>

text \<open>Nothing but directories on the way given by the names.\<close>

definition clear_way :: "filesystem \<Rightarrow> string list \<Rightarrow> string list \<Rightarrow> bool" where
  "clear_way fs cur cs \<longleftrightarrow> (\<forall>i \<le> length cs. \<forall>b. node_at fs (loc_of cur (take i cs)) \<noteq> Some (File b))"

definition made_way :: "filesystem \<Rightarrow> string list \<Rightarrow> string list \<Rightarrow> bool" where
  "made_way fs cur cs \<longleftrightarrow> (\<forall>i \<le> length cs. node_at fs (loc_of cur (take i cs)) = Some Dir)"

lemma made_way_snoc: "made_way fs cur (cs @ [c]) \<longleftrightarrow> made_way fs cur cs \<and> node_at fs (loc_of cur (cs @ [c])) = Some Dir"
  by (auto simp: made_way_def le_Suc_eq)

lemma made_dirs_to: "made_way fs cur cs \<longleftrightarrow> dirs_to fs cur cs \<and> node_at fs (loc_of cur cs) = Some Dir"
  by (induction cs rule: rev_induct)
     (auto simp: made_way_snoc dirs_to_append dirs_to_Cons, simp_all add: made_way_def dirs_to_def)

lemma clear_way_only_dirs: "only_dirs fs fs' \<Longrightarrow> clear_way fs cur cs \<Longrightarrow> clear_way fs' cur cs"
  unfolding clear_way_def only_dirs_def by (metis node.distinct(1) option.inject)

lemma made_way_only_dirs: "only_dirs fs fs' \<Longrightarrow> made_way fs cur cs \<Longrightarrow> made_way fs' cur cs"
  unfolding made_way_def using only_dirs_Dir by blast

lemma clear_way_append: "clear_way fs cur (as @ bs) \<Longrightarrow> clear_way fs cur as"
  unfolding clear_way_def by (metis (no_types, lifting) le_add1 le_trans length_append take_append diff_is_0_eq take_0 append_Nil2)

text \<open>One directory: the names before it are made, and it is made itself.\<close>

lemma mkdir_makes:
  assumes "d = dc @ dp" "CHR ''/'' \<notin> set dp" "d \<noteq> []" "names d = names dc @ names dp"
    and "''..'' \<notin> set (names d)" "made_way fs (start_of fs d) (names dc)" "clear_way fs (start_of fs d) (names d)"
  shows "made_way (mkdir d fs) (start_of fs d) (names d)"
proof (cases "dp = []")
  case True
  then have "names d = names dc" using assms(4) by simp
  with made_way_only_dirs [OF mkdir_only_dirs assms(6)] show ?thesis by simp
next
  case False
  then have n: "names d = names dc @ [dp]" using assms(2,4) by (simp add: names_plain)
  have "last d \<in> set dp" using False assms(1) by simp
  then have "last d \<noteq> CHR ''/''" using assms(2) by metis
  then have "components d = names d" by (simp add: components_names)
  moreover have dt: "dirs_to fs (start_of fs d) (names d)"
    using assms(6) by (simp add: n made_dirs_to dirs_to_append dirs_to_Cons) (simp add: dirs_to_def)
  ultimately have l: "locate fs d = Some (loc_of (start_of fs d) (names d))"
    using assms(3,5) by (simp add: locate_def start_of_def walk_eq)
  have "node_at fs (loc_of (start_of fs d) (names d)) \<in> {None, Some Dir}"
    using assms(7) by (cases "node_at fs (loc_of (start_of fs d) (names d))")
      (auto simp: clear_way_def dest!: spec [of _ "length (names d)"], metis node.exhaust)
  then have "node_at (mkdir d fs) (loc_of (start_of fs d) (names d)) = Some Dir"
    using l by (auto simp: mkdir_def node_at_set) (auto simp: node_at_def)
  with made_way_only_dirs [OF mkdir_only_dirs assms(6)] show ?thesis by (simp add: n made_way_snoc)
qed

lemma names_ended: "dc = [] \<or> last dc = CHR ''/'' \<Longrightarrow> names (dc @ p) = names dc @ names p"
  using names_append [of "butlast dc" p] names_append [of "butlast dc" "[]"]
  by (cases "dc = []") (auto, metis append.assoc append_Cons append_Nil append_butlast_last_id)

lemma mkdirs_loop_makes:
  assumes "d = dc @ dp" "CHR ''/'' \<notin> set dp" "dc = [] \<or> last dc = CHR ''/''" "CHR 0x5c \<notin> set cs" "d @ cs \<noteq> []"
    and "''..'' \<notin> set (names (d @ cs))" "st = start_of fs (d @ cs)" "node_at fs st = Some Dir"
    and "made_way fs st (names dc)" "clear_way fs st (names (d @ cs))"
  shows "made_way (mkdirs_loop d cs fs) st (names (d @ cs))"
  using assms
proof (induction d cs fs arbitrary: dc dp rule: mkdirs_loop.induct)
  case (1 d fs)
  then show ?case using mkdir_makes [of d dc dp fs] names_ended [of dc dp] by simp
next
  case (2 d c cs fs)
  show ?case
  proof (cases "is_sep c")
    case True
    then have c: "c = CHR ''/''" using "2.prems"(4) by (auto simp: is_sep_def)
    let ?fs = "if d \<noteq> [] then mkdir d fs else fs"
    have n: "names (d @ c # cs) = names d @ names cs" unfolding c by (rule names_append)
    have nd: "names d = names dc @ names dp" using "2.prems"(1,3) names_ended by simp
    have od: "only_dirs fs ?fs" by (simp add: mkdir_only_dirs)
    have st: "st = start_of fs d" if "d \<noteq> []" using "2.prems"(7) that by (simp add: start_of_def)
    have cl: "clear_way fs st (names d)" using "2.prems"(10) unfolding n by (rule clear_way_append)
    have "made_way ?fs st (names d)"
    proof (cases "d = []")
      case True
      then show ?thesis using "2.prems"(1,9) by simp
    next
      case False
      then show ?thesis
        using mkdir_makes [OF "2.prems"(1,2) False nd] "2.prems"(6,9) cl n st [OF False] by auto
    qed
    moreover have "names (d @ ''/'') = names d" using names_append [of d "[]"] by simp
    moreover have "clear_way ?fs st (names ((d @ ''/'') @ cs))"
      using clear_way_only_dirs [OF od "2.prems"(10)] by (simp add: c)
    moreover have "st = start_of ?fs ((d @ ''/'') @ cs)"
      using "2.prems"(7) od by (simp add: start_of_def c only_dirs_def)
    moreover have "node_at ?fs st = Some Dir" by (rule only_dirs_Dir [OF od "2.prems"(8)])
    ultimately have "made_way (mkdirs_loop (d @ ''/'') cs ?fs) st (names ((d @ ''/'') @ cs))"
      using "2.prems"(4,6) by (intro "2.IH"(1) [OF True, of "d @ ''/''" "[]"]) (simp_all add: c)
    with True show ?thesis by (simp add: c)
  next
    case False
    have "made_way (mkdirs_loop (d @ [c]) cs fs) st (names ((d @ [c]) @ cs))"
      using "2.prems" False
      by (intro "2.IH"(2) [OF False, of dc "dp @ [c]"]) (auto simp: is_sep_def)
    with False show ?thesis by simp
  qed
qed

text \<open>The directories made lie no deeper than the path.\<close>

lemma mkdir_short:
  assumes "d \<noteq> []" "''..'' \<notin> set (names d)" "node_at (mkdir d fs) l = Some Dir" "node_at fs l \<noteq> Some Dir"
  shows "l = loc_of (start_of fs d) (names d)"
proof -
  have "''..'' \<notin> set (components d)" using assms(2) by (auto simp: components_names)
  moreover have "loc_of c (components d) = loc_of c (names d)" for c by (simp add: components_names)
  ultimately show ?thesis
    using assms by (auto simp: mkdir_def locate_def walk_eq start_of_def node_at_set split: if_splits)
qed

lemma mkdirs_loop_short:
  assumes "d @ cs \<noteq> []" "''..'' \<notin> set (names (d @ cs))" "CHR 0x5c \<notin> set cs"
    and "node_at (mkdirs_loop d cs fs) l = Some Dir" "node_at fs l \<noteq> Some Dir"
  shows "length l \<le> length (loc_of (start_of fs (d @ cs)) (names (d @ cs)))"
  using assms
proof (induction d cs fs rule: mkdirs_loop.induct)
  case (1 d fs)
  then show ?case using mkdir_short [of d fs l] by simp
next
  case (2 d c cs fs)
  show ?case
  proof (cases "is_sep c")
    case True
    then have c: "c = CHR ''/''" using "2.prems"(3) by (auto simp: is_sep_def)
    let ?fs = "if d \<noteq> [] then mkdir d fs else fs"
    have n: "names (d @ c # cs) = names d @ names cs" unfolding c by (rule names_append)
    have cwd: "fs_cwd ?fs = fs_cwd fs" using mkdir_only_dirs [of fs d] by (simp add: only_dirs_def)
    show ?thesis
    proof (cases "node_at ?fs l = Some Dir")
      case True
      then have "d \<noteq> []" "node_at (mkdir d fs) l = Some Dir" using "2.prems"(5) by (auto split: if_splits)
      then have "l = loc_of (start_of fs d) (names d)" using "2.prems"(2,5) n by (intro mkdir_short) auto
      moreover have "start_of fs (d @ c # cs) = start_of fs d" using \<open>d \<noteq> []\<close> by (simp add: start_of_def)
      ultimately show ?thesis unfolding n by (simp add: loc_of_def)
    next
      case False
      have "length l \<le> length (loc_of (start_of ?fs ((d @ ''/'') @ cs)) (names ((d @ ''/'') @ cs)))"
        using "2.prems" True by (intro "2.IH"(1) [OF True _ _ _ _ False]) (simp_all add: c)
      moreover have "start_of ?fs p = start_of fs p" for p using cwd by (simp add: start_of_def)
      ultimately show ?thesis by (simp only: c append.assoc append_Cons append_Nil)
    qed
  next
    case False
    with "2.prems" have "length l \<le> length (loc_of (start_of fs ((d @ [c]) @ cs)) (names ((d @ [c]) @ cs)))"
      by (intro "2.IH"(2) [OF False]) simp_all
    then show ?thesis by simp
  qed
qed

lemma slash_join_snoc: "ks \<noteq> [] \<Longrightarrow> slash_join (ks @ [k]) = slash_join ks @ CHR ''/'' # k"
  by (induction ks rule: slash_join.induct) auto

lemma parent_part_snoc: "CHR ''/'' \<notin> set k \<Longrightarrow> CHR 0x5c \<notin> set k \<Longrightarrow> parent_part (p @ CHR ''/'' # k) = Some p"
proof -
  assume k: "CHR ''/'' \<notin> set k" "CHR 0x5c \<notin> set k"
  then have "dropWhile (\<lambda>c. \<not> is_sep c) (rev k @ CHR ''/'' # rev p) = CHR ''/'' # rev p"
    by (intro dropWhile_append_stop) (auto simp: is_sep_def)
  then show ?thesis by (simp add: parent_part_def is_sep_def)
qed

lemma clear_way_store:
  assumes "store_inv s" "''.'' \<notin> set ks"
    and "\<And>i b. i \<le> length ks \<Longrightarrow> node_at (st_fs s) (root_loc s @ take i ks) \<noteq> Some (File b)"
  shows "clear_way (st_fs s) (start_of (st_fs s) (st_root s)) (names (st_root s) @ ks)"
  unfolding clear_way_def
proof (intro allI impI)
  fix i b
  let ?st = "start_of (st_fs s) (st_root s)" and ?n = "names (st_root s)"
  assume i: "i \<le> length (?n @ ks)"
  show "node_at (st_fs s) (loc_of ?st (take i (?n @ ks))) \<noteq> Some (File b)"
  proof (cases "i < length ?n")
    case True
    then show ?thesis using assms(1) by (simp add: store_inv_def dirs_to_def)
  next
    case False
    then have "loc_of ?st (take i (?n @ ks)) = loc_of (root_loc s) (take (i - length ?n) ks)"
      by (simp add: root_loc_def)
    also have "\<dots> = root_loc s @ take (i - length ?n) ks"
      using assms(2) in_set_takeD by (intro loc_of_names) fastforce
    finally show ?thesis using assms(3) [of "i - length ?n" b] i False by simp
  qed
qed

lemma put_succeeds:
  assumes inv: "store_inv s" and k: "valid_key (ks @ [k])" and f: "fs_faults (st_fs s) = []"
    and r: "CHR 0x5c \<notin> set (st_root s)" "node_at (st_fs s) (start_of (st_fs s) (st_root s)) = Some Dir"
    and way: "\<And>i b. i \<le> length ks \<Longrightarrow> node_at (st_fs s) (root_loc s @ take i ks) \<noteq> Some (File b)"
    and free: "node_at (st_fs s) (root_loc s @ ks @ [k]) \<noteq> Some Dir" "(root_loc s @ ks @ [k]) \<noteq> []"
  shows "fst (fs_put s (slash_join (ks @ [k])) v) = STORE_OK"
proof -
  define q where "q = (if ks = [] then st_root s else st_root s @ CHR ''/'' # slash_join ks)"
  have pl: "\<And>c. c \<in> set ks \<Longrightarrow> plain_name c" "plain_name k" using k by (auto simp: valid_key_def)
  have path: "join_path (st_root s) (slash_join (ks @ [k])) = q @ CHR ''/'' # k"
    by (simp add: join_path_def q_def slash_join_snoc)
  have nq: "names q = names (st_root s) @ ks" using names_join [OF pl(1)] by (simp add: q_def names_append)
  have "CHR 0x5c \<notin> set (slash_join ks)"
    using pl(1) by (induction ks rule: slash_join.induct) (auto simp: plain_name_def)
  then have bs: "CHR 0x5c \<notin> set q" using r(1) by (auto simp: q_def)
  have st: "start_of (st_fs s) q = start_of (st_fs s) (st_root s)" "q \<noteq> []"
    using inv by (auto simp: q_def start_of_def store_inv_def)
  have dots: "''..'' \<notin> set (names q)" "''.'' \<notin> set ks"
    using inv pl(1) unfolding nq by (auto simp: store_inv_def plain_name_def)
  let ?fs = "mkdirs (q @ CHR ''/'' # k) (st_fs s)"
  have loop: "?fs = mkdirs_loop [] q (st_fs s)"
    using parent_part_snoc [of k q] pl(2) by (simp add: mkdirs_def plain_name_def)
  have "clear_way (st_fs s) (start_of (st_fs s) q) (names q)"
    unfolding st(1) nq using clear_way_store [OF inv dots(2) way] .
  then have "made_way (mkdirs_loop [] q (st_fs s)) (start_of (st_fs s) q) (names ([] @ q))"
    using bs st r(2) dots(1) by (intro mkdirs_loop_makes [of "[]" "[]" "[]"]) (simp_all add: made_way_def)
  then have made: "dirs_to ?fs (start_of (st_fs s) (st_root s)) (names (st_root s) @ ks)"
      "node_at ?fs (loc_of (root_loc s) ks) = Some Dir"
    using nq st(1) loop by (simp_all add: made_dirs_to root_loc_def)
  have od: "only_dirs (st_fs s) ?fs" by (rule mkdirs_only_dirs)
  have "dirs_to ?fs (root_loc s) (ks @ [k])"
    using made by (simp add: dirs_to_append dirs_to_Cons root_loc_def) (simp add: dirs_to_def)
  then have "dirs_to (?fs\<lparr>fs_faults := []\<rparr>) (root_loc s) (ks @ [k])"
      "dirs_to (?fs\<lparr>fs_faults := []\<rparr>) (start_of (st_fs s) (st_root s)) (names (st_root s))"
    using made(1) by (simp_all add: dirs_to_append) (simp_all add: dirs_to_def)
  then have loc: "locate (?fs\<lparr>fs_faults := []\<rparr>) (q @ CHR ''/'' # k) = Some (root_loc s @ ks @ [k])"
    using locate_key [OF _ _ valid_key_place(4) [OF k], of s "?fs\<lparr>fs_faults := []\<rparr>"] valid_key_place(2,3) [OF k] inv od path by (simp add: store_inv_def only_dirs_def)
  have "length (root_loc s @ ks @ [k]) > length (loc_of (start_of (st_fs s) q) (names q))"
    using loc_of_names [OF dots(2)] by (simp add: nq st(1) root_loc_def)
  then have "node_at ?fs (root_loc s @ ks @ [k]) \<noteq> Some Dir"
    using mkdirs_loop_short [of "[]" q "st_fs s" "root_loc s @ ks @ [k]"] dots(1) st(2) bs free loop by auto
  then show ?thesis
    using loc f od path by (simp add: fs_put_def write_file_def Let_def only_dirs_def split: prod.splits)
qed

section \<open>Properties of the store\<close>

text \<open>
  An object that is stored is read back: when no file stands where a directory is needed
  and no directory where the file goes, and the disk does not fail, a write succeeds, creates
  the directories of the key, and is read back; the objects of all other keys are as before.
\<close>

theorem store_put_get:
  assumes "store_inv s" "valid_key (ks @ [k])" "fs_faults (st_fs s) = []"
    and "CHR 0x5c \<notin> set (st_root s)" "node_at (st_fs s) (start_of (st_fs s) (st_root s)) = Some Dir"
    and "\<forall>i \<le> length ks. \<forall>b. node_at (st_fs s) (root_loc s @ take i ks) \<noteq> Some (File b)"
    and "node_at (st_fs s) (root_loc s @ ks @ [k]) \<noteq> Some Dir"
  shows "\<exists>s'. fs_put s (slash_join (ks @ [k])) v = (STORE_OK, s') \<and> fs_get s' (slash_join (ks @ [k])) = (STORE_OK, v) \<and>
    store_inv s' \<and> (\<forall>ks'. ks' \<noteq> ks @ [k] \<longrightarrow> object_view s' ks' = object_view s ks')"
proof -
  obtain st s' where p: "fs_put s (slash_join (ks @ [k])) v = (st, s')" by fastforce
  have st: "st = STORE_OK" using put_succeeds [OF assms(1-5), of v] assms(6,7) p by simp
  note v = valid_key_place [OF assms(2)] and inv = put_inv [OF assms(1) valid_key_place(4) [OF assms(2)] p]
    and pv = put_view [OF assms(1) valid_key_place(4) [OF assms(2)] p]
  then have "fs_get s' (slash_join (ks @ [k])) = (STORE_OK, v)" using st dots_valid [OF assms(2)] by (intro view_get) auto
  with p st inv pv(2) v(3) show ?thesis by auto
qed

definition demo_fs :: "write_fault option list \<Rightarrow> filesystem" where
  "demo_fs faults = \<lparr>fs_nodes = [], fs_cwd = [], fs_dir_size = -1, fs_faults = faults\<rparr>"

definition demo_store :: "write_fault option list \<Rightarrow> cookbook_store_fs" where
  "demo_store faults = cookbook_store_open_fs (Some ''/data/objects'') (demo_fs faults)"

lemma demo_store_eq: "demo_store f = \<lparr>st_root = ''/data/objects'',
    st_fs = (demo_fs f)\<lparr>fs_nodes := [([''data'', ''objects''], Dir), ([''data''], Dir)]\<rparr>\<rparr>"
  by (simp add: demo_store_def cookbook_store_open_fs_def demo_fs_def mkdirs_def parent_part_def is_sep_def mkdir_def
      locate_def components_def node_at_def set_node_def)

lemma demo_root: "root_loc (demo_store f) = [''data'', ''objects'']" "start_of (st_fs (demo_store f)) (st_root (demo_store f)) = []"
  "names ''/data/objects'' = [''data'', ''objects'']"
  by (simp_all add: demo_store_eq root_loc_def start_of_def names_def)

lemma demo_node: "node_at (st_fs (demo_store f)) l =
    (if l \<in> {[], [''data''], [''data'', ''objects'']} then Some Dir else None)"
  by (simp add: demo_store_eq node_at_def)

lemma demo_store_inv: "store_inv (demo_store f)"
proof -
  have "fs_tree (st_fs (demo_store f))" by (auto simp: fs_tree_def demo_node split: if_splits)
  moreover have r: "st_root (demo_store f) = ''/data/objects''" by (simp add: demo_store_eq)
  moreover have "dirs_to (st_fs (demo_store f)) [] [''data'', ''objects'']"
    by (auto simp: dirs_to_Cons demo_node) (simp add: dirs_to_def)
  ultimately show ?thesis
    unfolding store_inv_def demo_root(1,2) demo_node by (simp add: demo_root(3) r)
qed

theorem store_put_get_witness:
  "\<exists>s'. fs_put (demo_store []) (slash_join ([''org'', ''acme''] @ [''now.pasta''])) [1, 2] = (STORE_OK, s') \<and>
     fs_get s' (slash_join ([''org'', ''acme''] @ [''now.pasta''])) = (STORE_OK, [1, 2]) \<and> store_inv s' \<and>
     (\<forall>ks'. ks' \<noteq> [''org'', ''acme''] @ [''now.pasta''] \<longrightarrow> object_view s' ks' = object_view (demo_store []) ks')"
  by (rule store_put_get [OF demo_store_inv])
     (auto simp: valid_key_def plain_name_def demo_root demo_node, simp_all add: demo_store_eq demo_fs_def)


text \<open>
  A write that fails halfway leaves the part it wrote as an object: the store reports an
  error, but the key exists from then on and is served with the cut content.
\<close>

theorem short_write_leaves_object:
  assumes "n < length v"
  shows "\<exists>s'. fs_put (demo_store [Some (Short_write n)]) ''x'' v = (STORE_ERROR, s') \<and>
     fs_exists s' ''x'' = STORE_OK \<and> fs_get s' ''x'' = (STORE_OK, take n v)"
proof -
  let ?s = "demo_store [Some (Short_write n)]"
  have p: "join_path ''/data/objects'' ''x'' = ''/data/objects/x''" by (simp add: join_path_def)
  have m: "mkdirs ''/data/objects/x'' (st_fs ?s) = st_fs ?s"
    by (simp add: demo_store_eq demo_fs_def mkdirs_def parent_part_def is_sep_def mkdir_def locate_def components_def node_at_def)
  have "fs_put ?s ''x'' v = (STORE_ERROR, ?s\<lparr>st_fs := set_node [''data'', ''objects'', ''x''] (File (take n v))
      ((st_fs ?s)\<lparr>fs_faults := []\<rparr>)\<rparr>)"
    using assms p m by (simp add: fs_put_def write_file_def Let_def)
       (simp add: demo_store_eq demo_fs_def locate_def components_def node_at_def)
  then show ?thesis
    by (simp add: fs_exists_def fs_get_def access_ok_def p demo_store_eq demo_fs_def join_path_def locate_def components_def
        node_at_def set_node_def)
qed

theorem short_write_leaves_object_witness:
  "\<exists>s'. fs_put (demo_store [Some (Short_write 1)]) ''x'' [1, 2, 3] = (STORE_ERROR, s') \<and>
     fs_exists s' ''x'' = STORE_OK \<and> fs_get s' ''x'' = (STORE_OK, take 1 [1, 2, 3])"
  by (rule short_write_leaves_object) simp

end
