(* ===== verification/Request.thy ===== *)
theory Request
  imports Complex_Main Http Store Gzip Semver
begin

text \<open>
  The part of \<^verbatim>\<open>src/src/main/c/cookbook_server.c\<close> that every handler shares: the state of
  the server, content negotiation, JSON output, the coordinates in a path and their validation,
  rate limiting, the audit log and the authorization of a request. What the code takes from
  outside is a field of \<open>environment\<close>: the clock, the signature under the key of the registry,
  the parser and writer of documents and the aggregation of policies, the two conversions of
  floating point numbers, random bytes and what enters a token identifier, the password hash, what
  the directory, the identity provider and the peers answer, and the text that happens to lie behind
  a buffer without terminator.
\<close>

datatype write_mode = COMPACT | COMPACT_SORTED | PRETTY_SORTED

record environment =
  env_now :: int
  env_utc :: "int \<Rightarrow> string"
  env_sign :: "byte list \<Rightarrow> byte list option"
  env_verify :: "byte list \<Rightarrow> byte list \<Rightarrow> bool"
  env_parse :: "string \<Rightarrow> pasta_value option"
  env_parse_msg :: "string \<Rightarrow> string"
  env_parse_pos :: "string \<Rightarrow> int \<times> int"
  env_write :: "write_mode \<Rightarrow> pasta_value \<Rightarrow> string option"
  env_atof :: "string \<Rightarrow> rat"
  env_fmt_double :: "pasta_value \<Rightarrow> string"
  env_deflate :: "byte list \<Rightarrow> byte list option"
  env_behind :: string
  env_iso :: "int \<Rightarrow> string"
  env_conflate :: "string \<Rightarrow> string list \<Rightarrow> pasta_value option"
  env_entropy :: "nat \<Rightarrow> byte list"
  env_jti_counter :: u64
  env_jti_address :: u64
  env_argon_hash :: "byte list \<Rightarrow> byte list \<Rightarrow> string option"
  env_argon_verify :: "string \<Rightarrow> byte list \<Rightarrow> bool option"
  env_ldap :: "string \<Rightarrow> string \<Rightarrow> string option option"
  env_oidc :: "string \<Rightarrow> string \<Rightarrow> string option"
  env_idp :: "string \<Rightarrow> int \<Rightarrow> string \<Rightarrow> string option"
  env_verify_by :: "byte list \<Rightarrow> byte list \<Rightarrow> byte list \<Rightarrow> bool"
  env_peer_keys :: "cookbook_db \<Rightarrow> string \<Rightarrow> string option list"
  env_peer :: "cookbook_peer \<Rightarrow> string \<Rightarrow> string \<Rightarrow> string option \<Rightarrow> (nat \<times> byte list option) option"

section \<open>The state of the server\<close>

record rate_bucket =
  rb_sub :: string
  rb_count :: int
  rb_window_start :: int

record cookbook_metrics =
  requests_total :: int
  requests_get :: int
  requests_put :: int
  requests_post :: int
  responses_2xx :: int
  responses_4xx :: int
  responses_5xx :: int
  artifacts_published :: int
  artifacts_yanked :: int
  artifacts_resolved :: int
  auth_tokens_issued :: int
  auth_failures :: int
  bytes_uploaded :: int
  bytes_downloaded :: int

record device_code_entry =
  dc_device_code :: string
  dc_user_code :: string
  dc_subject :: string
  dc_groups :: string
  dc_authorized :: int
  dc_expires_at :: int

record cookbook_server =
  srv_db :: cookbook_db
  srv_store :: cookbook_store_fs
  srv_registry_id :: string
  srv_max_upload_bytes :: nat
  srv_pending_timeout_sec :: int
  srv_jwt_ttl_sec :: int
  srv_rate_limit_per_min :: int
  srv_has_registry_key :: bool
  srv_registry_pk :: "byte list"
  srv_rate_buckets :: "rate_bucket list"
  srv_metrics :: cookbook_metrics
  srv_grid_enabled :: bool
  srv_grid_max_hops :: int
  srv_grid_peer_auth :: bool
  srv_ldap_url :: "string option"
  srv_oidc_issuer :: "string option"
  srv_oidc_client_id :: "string option"
  srv_revocations :: cookbook_revocation_list
  srv_audit_auth :: "string list option"
  srv_audit_access :: "string list option"
  srv_audit_admin :: "string list option"
  srv_object_cache_ttl_sec :: int
  srv_device_codes :: "device_code_entry list"

definition metrics_map :: "(cookbook_metrics \<Rightarrow> cookbook_metrics) \<Rightarrow> cookbook_server \<Rightarrow> cookbook_server" where
  "metrics_map f srv = srv\<lparr>srv_metrics := f (srv_metrics srv)\<rparr>"

definition inc_4xx :: "cookbook_server \<Rightarrow> cookbook_server" where
  "inc_4xx = metrics_map (\<lambda>m. m\<lparr>responses_4xx := responses_4xx m + 1\<rparr>)"

definition inc_5xx :: "cookbook_server \<Rightarrow> cookbook_server" where
  "inc_5xx = metrics_map (\<lambda>m. m\<lparr>responses_5xx := responses_5xx m + 1\<rparr>)"

definition inc_2xx :: "cookbook_server \<Rightarrow> cookbook_server" where
  "inc_2xx = metrics_map (\<lambda>m. m\<lparr>responses_2xx := responses_2xx m + 1\<rparr>)"

definition inc_total :: "cookbook_server \<Rightarrow> cookbook_server" where
  "inc_total = metrics_map (\<lambda>m. m\<lparr>requests_total := requests_total m + 1\<rparr>)"

definition inc_get :: "cookbook_server \<Rightarrow> cookbook_server" where
  "inc_get = metrics_map (\<lambda>m. m\<lparr>requests_get := requests_get m + 1\<rparr>)"

definition inc_put :: "cookbook_server \<Rightarrow> cookbook_server" where
  "inc_put = metrics_map (\<lambda>m. m\<lparr>requests_put := requests_put m + 1\<rparr>)"

definition inc_post :: "cookbook_server \<Rightarrow> cookbook_server" where
  "inc_post = metrics_map (\<lambda>m. m\<lparr>requests_post := requests_post m + 1\<rparr>)"

definition inc_published :: "cookbook_server \<Rightarrow> cookbook_server" where
  "inc_published = metrics_map (\<lambda>m. m\<lparr>artifacts_published := artifacts_published m + 1\<rparr>)"

definition inc_yanked :: "cookbook_server \<Rightarrow> cookbook_server" where
  "inc_yanked = metrics_map (\<lambda>m. m\<lparr>artifacts_yanked := artifacts_yanked m + 1\<rparr>)"

definition inc_resolved :: "cookbook_server \<Rightarrow> cookbook_server" where
  "inc_resolved = metrics_map (\<lambda>m. m\<lparr>artifacts_resolved := artifacts_resolved m + 1\<rparr>)"

definition add_uploaded :: "int \<Rightarrow> cookbook_server \<Rightarrow> cookbook_server" where
  "add_uploaded n = metrics_map (\<lambda>m. m\<lparr>bytes_uploaded := bytes_uploaded m + n\<rparr>)"

definition add_downloaded :: "int \<Rightarrow> cookbook_server \<Rightarrow> cookbook_server" where
  "add_downloaded n = metrics_map (\<lambda>m. m\<lparr>bytes_downloaded := bytes_downloaded m + n\<rparr>)"

definition inc_auth_failures :: "cookbook_server \<Rightarrow> cookbook_server" where
  "inc_auth_failures = metrics_map (\<lambda>m. m\<lparr>auth_failures := auth_failures m + 1\<rparr>)"

section \<open>Responses\<close>

text \<open>
  What a handler sends: a JSON text with \<open>send_json\<close>, headers followed by a body, or a body after
  \<open>mg_send_http_ok\<close>.
\<close>

datatype response =
    Send_json nat string
  | Send_body nat "(string \<times> string) list" "byte list"
  | Send_ok string "byte list"

fun response_status :: "response \<Rightarrow> nat" where
  "response_status (Send_json s _) = s"
| "response_status (Send_body s _ _) = s"
| "response_status (Send_ok _ _) = 200"

definition reason_of :: "nat \<Rightarrow> string" where
  "reason_of status = (if status < 300 then ''OK'' else ''Error'')"

definition send_json :: "nat \<Rightarrow> string \<Rightarrow> shim_connection \<Rightarrow> shim_connection option" where
  "send_json status body =
     shim_printf (reply_text status (reason_of status)
       [(''Content-Type'', ''application/json''), (''Content-Length'', show_nat (length body))] body)"

fun send :: "response \<Rightarrow> shim_connection \<Rightarrow> shim_connection option" where
  "send (Send_json status body) sc = send_json status body sc"
| "send (Send_body status hs body) sc =
     map_option (shim_write body)
       (shim_printf (reply_text status (if status = 307 then ''Temporary Redirect''
          else if status = 404 then ''Not Found'' else reason_of status) hs []) sc)"
| "send (Send_ok content_type body) sc = Some (shim_write body (shim_send_http_ok content_type sc))"

definition error_json :: "string \<Rightarrow> string" where
  "error_json msg = ''{'' @ quote ''error'' @ '':'' @ quote msg @ ''}'' @ nl"

definition accepts_gzip :: "shim_request_info \<Rightarrow> bool" where
  "accepts_gzip ri =
     (\<exists>(n, v) \<in> set (http_headers ri). map tolower n = map tolower ''Accept-Encoding'' \<and> strstr v ''gzip'' \<noteq> None)"

definition send_response_gzip ::
  "environment \<Rightarrow> shim_request_info \<Rightarrow> nat \<Rightarrow> string \<Rightarrow> (string \<times> string) list \<Rightarrow> byte list \<Rightarrow> response" where
  "send_response_gzip env ri status content_type extra body =
     (let plain = Send_body status ([(''Content-Type'', content_type), (''Content-Length'', show_nat (length body))] @ extra) body
      in if length body > 256 \<and> accepts_gzip ri then
           (case cookbook_gzip_compress (env_deflate env) body of
              Some gz \<Rightarrow>
                if length gz < length body
                then Send_body status ([(''Content-Type'', content_type), (''Content-Encoding'', ''gzip''),
                       (''Content-Length'', show_nat (length gz))] @ extra) gz
                else plain
            | None \<Rightarrow> plain)
         else plain)"

section \<open>Reading the body\<close>

function read_loop :: "nat \<Rightarrow> byte list \<Rightarrow> shim_connection \<Rightarrow> byte list \<times> shim_connection" where
  "read_loop want acc sc =
     (if length acc \<ge> want then (acc, sc)
      else (let (d, sc) = shim_read (want - length acc) sc
            in if d = [] then (acc, sc) else read_loop want (acc @ d) sc))"
  by pat_completeness auto
termination
  by (relation "measure (\<lambda>(want, acc, sc). want - length acc)") (auto simp flip: length_greater_0_conv)

declare read_loop.simps [simp del]

text \<open>Without a length: read until the end, refuse when the maximum is reached.\<close>

function read_open :: "nat \<Rightarrow> nat \<Rightarrow> byte list \<Rightarrow> shim_connection \<Rightarrow> byte list option \<times> shim_connection" where
  "read_open max_bytes cap acc sc =
     (if max_bytes > 0 \<and> length acc \<ge> max_bytes then (None, sc)
      else (let cap = (if length acc \<ge> cap
                       then (if max_bytes > 0 \<and> cap * 2 > max_bytes then max_bytes + 1 else cap * 2) else cap);
                (d, sc') = shim_read (cap - length acc) sc
            in if d = [] then (Some acc, sc') else read_open max_bytes cap (acc @ d) sc'))"
  by pat_completeness auto
termination
proof (relation "measure (\<lambda>(m, cap, acc, sc). length (sc_body sc) - sc_body_pos sc)")
  fix m cap and acc :: "byte list" and sc cap' and x :: "byte list \<times> shim_connection" and d sc'
  assume "x = shim_read (cap' - length acc) sc" "(d, sc') = x" "d \<noteq> []"
  then show "((m, cap', acc @ d, sc'), m, cap, acc, sc)
     \<in> measure (\<lambda>(m, cap, acc, sc). length (sc_body sc) - sc_body_pos sc)"
    by (auto simp: shim_read_def Let_def split: if_splits)
qed simp

declare read_open.simps [simp del]

definition nonempty :: "'a list \<Rightarrow> 'a list option" where
  "nonempty xs = (if xs = [] then None else Some xs)"

definition read_body :: "nat \<Rightarrow> shim_connection \<Rightarrow> byte list option \<times> shim_connection" where
  "read_body max_bytes sc =
     (let cl = content_length (sc_ri sc)
      in if max_bytes > 0 \<and> cl > int max_bytes then (None, sc)
         else if cl \<le> 0 then
           (let (b, sc) = read_open max_bytes 65536 [] sc in (Option.bind b nonempty, sc))
         else (let (b, sc) = read_loop (nat cl) [] sc in (nonempty b, sc)))"

section \<open>Content negotiation\<close>

datatype content_pref = CT_PASTA | CT_JSON | CT_UNKNOWN

record accept_q =
  q_pasta :: rat
  q_json :: rat
  q_text :: rat
  q_star :: rat

definition strtok_comma :: "string \<Rightarrow> string list" where
  "strtok_comma s = filter (\<lambda>t. t \<noteq> []) (split_commas s)"

definition token_q :: "(string \<Rightarrow> rat) \<Rightarrow> string \<Rightarrow> rat" where
  "token_q atof tok =
     (case strstr tok '';q='' of
        Some qp \<Rightarrow> atof (drop 3 qp)
      | None \<Rightarrow> (case strstr tok ''; q='' of Some qp \<Rightarrow> atof (drop 4 qp) | None \<Rightarrow> 1))"

definition accept_token :: "(string \<Rightarrow> rat) \<Rightarrow> accept_q \<Rightarrow> string \<Rightarrow> accept_q" where
  "accept_token atof qs t =
     (let tok = dropWhile (\<lambda>c. c = CHR '' '') t; q = token_q atof tok
      in if strstr tok ''application/x-pasta'' \<noteq> None \<or> strstr tok ''application/pasta'' \<noteq> None then qs\<lparr>q_pasta := q\<rparr>
         else if strstr tok ''application/json'' \<noteq> None then qs\<lparr>q_json := q\<rparr>
         else if strstr tok ''text/plain'' \<noteq> None then qs\<lparr>q_text := q\<rparr>
         else if strstr tok ''*/*'' \<noteq> None then qs\<lparr>q_star := q\<rparr>
         else qs)"

definition accept_choice :: "accept_q \<Rightarrow> content_pref" where
  "accept_choice qs =
     (let p = (if q_text qs > q_pasta qs then q_text qs else q_pasta qs);
          p = (if q_star qs \<ge> 0 \<and> p < 0 \<and> q_json qs < 0 then q_star qs else p)
      in if p < 0 \<and> q_json qs < 0 then CT_UNKNOWN
         else if q_json qs > p then CT_JSON else CT_PASTA)"

definition parse_accept :: "(string \<Rightarrow> rat) \<Rightarrow> shim_request_info \<Rightarrow> content_pref" where
  "parse_accept atof ri =
     (case grid_get_header (http_headers ri) ''Accept'' of
        None \<Rightarrow> CT_PASTA
      | Some accept \<Rightarrow>
          if accept = [] then CT_PASTA
          else accept_choice (foldl (accept_token atof) \<lparr>q_pasta = -1, q_json = -1, q_text = -1, q_star = -1\<rparr>
                 (strtok_comma (bounded 1024 accept))))"

section \<open>JSON\<close>

definition c_str :: "string \<Rightarrow> string" where
  "c_str s = takeWhile (\<lambda>c. c \<noteq> CHR 0x00) s"

definition json_escape :: "char \<Rightarrow> string" where
  "json_escape c =
     (if c = CHR 0x22 then [CHR 0x5c, CHR 0x22]
      else if c = CHR 0x5c then [CHR 0x5c, CHR 0x5c]
      else if c = CHR 0x0a then [CHR 0x5c, CHR ''n'']
      else if c = CHR 0x0d then [CHR 0x5c, CHR ''r'']
      else if c = CHR 0x09 then [CHR 0x5c, CHR ''t'']
      else [c])"

fun comma_sep :: "string list \<Rightarrow> string" where
  "comma_sep [] = []"
| "comma_sep [t] = t"
| "comma_sep (t # ts) = t @ '','' @ comma_sep ts"

text \<open>
  A number that is a whole one of at most \<open>10\<^sup>1\<^sup>5\<close> is written in decimal; every other one as
  \<open>%.17g\<close> writes it. Labels have no case of their own.
\<close>

fun pasta_to_json :: "(pasta_value \<Rightarrow> string) \<Rightarrow> pasta_value \<Rightarrow> string" where
  "pasta_to_json fmt PNull = ''null''"
| "pasta_to_json fmt (PBool b) = (if b then ''true'' else ''false'')"
| "pasta_to_json fmt (PInteger i) = (if abs i \<le> 10 ^ 15 then show_int i else fmt (PInteger i))"
| "pasta_to_json fmt (PNumber n) = fmt (PNumber n)"
| "pasta_to_json fmt (PString s) = [CHR 0x22] @ concat (map json_escape s) @ [CHR 0x22]"
| "pasta_to_json fmt (PBlob s) = [CHR 0x22, CHR 0x22]"
| "pasta_to_json fmt (PLabel l) = ''null''"
| "pasta_to_json fmt (PArray vs) = ''['' @ comma_sep (map (\<lambda>v. c_str (pasta_to_json fmt v)) vs) @ '']''"
| "pasta_to_json fmt (PMap kvs) =
     ''{'' @ comma_sep (map (\<lambda>(k, v). quote (c_str k) @ '':'' @ c_str (pasta_to_json fmt v)) kvs) @ ''}''"

definition validate_ascii :: "byte list \<Rightarrow> nat" where
  "validate_ascii data =
     (case find_index (\<lambda>c. c = 0 \<or> c > 0x7F) data of None \<Rightarrow> 0 | Some i \<Rightarrow> i + 1)"

section \<open>Paths and coordinates\<close>

text \<open>\<open>strtol(hex, NULL, 16)\<close> on two characters.\<close>

definition strtol16 :: "string \<Rightarrow> int" where
  "strtol16 s =
     (let t = dropWhile isspace s;
          neg = (t \<noteq> [] \<and> hd t = CHR ''-'');
          r = (if t \<noteq> [] \<and> (hd t = CHR ''-'' \<or> hd t = CHR ''+'') then tl t else t);
          ds = map (\<lambda>c. the (hex_val c)) (takeWhile (\<lambda>c. hex_val c \<noteq> None) r);
          v = foldl (\<lambda>a d. 16 * a + int d) 0 ds
      in if neg then - v else v)"

fun url_decode :: "string \<Rightarrow> string" where
  "url_decode (c # a # b # s) =
     (if c = CHR ''%'' then char_of (nat (strtol16 [a, b] mod 256)) # url_decode s
      else (if c = CHR ''+'' then CHR '' '' else c) # url_decode (a # b # s))"
| "url_decode (c # s) = (if c = CHR ''+'' then CHR '' '' else c) # url_decode s"
| "url_decode [] = []"

text \<open>A decoded NUL ends the path.\<close>

definition path_after :: "string \<Rightarrow> string \<Rightarrow> string option" where
  "path_after uri pre = (if has_prefix uri pre then Some (c_str (url_decode (drop (length pre) uri))) else None)"

definition before_last :: "char \<Rightarrow> string \<Rightarrow> string" where
  "before_last c s = rev (tl (dropWhile (\<lambda>x. x \<noteq> c) (rev s)))"

definition after_last :: "char \<Rightarrow> string \<Rightarrow> string" where
  "after_last c s = rev (takeWhile (\<lambda>x. x \<noteq> c) (rev s))"

definition slash_to_dot :: "string \<Rightarrow> string" where
  "slash_to_dot s = map (\<lambda>c. if c = CHR ''/'' then CHR ''.'' else c) s"

definition split_coord :: "string \<Rightarrow> (string \<times> string \<times> string) option" where
  "split_coord path =
     (if CHR ''/'' \<notin> set path then None
      else (let h = before_last (CHR ''/'') path
            in if h = [] \<or> CHR ''/'' \<notin> set h then None
               else Some (slash_to_dot (before_last (CHR ''/'') h), after_last (CHR ''/'') h, after_last (CHR ''/'') path)))"

definition MAX_GROUP_LEN :: nat where "MAX_GROUP_LEN = 128"
definition MAX_ARTIFACT_LEN :: nat where "MAX_ARTIFACT_LEN = 64"
definition MAX_VERSION_LEN :: nat where "MAX_VERSION_LEN = 64"

text \<open>\<open>*p < 0x20\<close> on a signed character: the bytes above 0x7F are negative.\<close>

definition validate_path_segment :: "string \<Rightarrow> bool" where
  "validate_path_segment s \<longleftrightarrow>
     s \<noteq> [] \<and> strstr s ''..'' = None \<and> CHR 0x5c \<notin> set s \<and> (\<forall>c \<in> set s. CHR 0x20 \<le> c \<and> c < CHR 0x80)"

definition group_char :: "char \<Rightarrow> bool" where
  "group_char c \<longleftrightarrow> c = CHR ''.'' \<or> c = CHR ''-'' \<or> c = CHR ''_'' \<or> islower c \<or> isdigit c"

definition artifact_char :: "char \<Rightarrow> bool" where
  "artifact_char c \<longleftrightarrow> c = CHR ''-'' \<or> c = CHR ''_'' \<or> islower c \<or> isdigit c"

definition validate_group :: "string \<Rightarrow> bool" where
  "validate_group g \<longleftrightarrow> g \<noteq> [] \<and> length g \<le> MAX_GROUP_LEN \<and> validate_path_segment g \<and> (\<forall>c \<in> set g. group_char c)"

definition validate_artifact :: "string \<Rightarrow> bool" where
  "validate_artifact a \<longleftrightarrow>
     a \<noteq> [] \<and> length a \<le> MAX_ARTIFACT_LEN \<and> validate_path_segment a \<and> (\<forall>c \<in> set a. artifact_char c)"

definition validate_version :: "string \<Rightarrow> bool" where
  "validate_version v \<longleftrightarrow> v \<noteq> [] \<and> length v \<le> MAX_VERSION_LEN \<and> cookbook_semver_parse v \<noteq> None"

section \<open>Rate limiting\<close>

text \<open>The buckets are a list with the newest in front; the first with the name is used.\<close>

definition bucket_step :: "int \<Rightarrow> rate_bucket \<Rightarrow> rate_bucket" where
  "bucket_step now b =
     (let b = (if now - rb_window_start b \<ge> 60 then b\<lparr>rb_window_start := now, rb_count := 0\<rparr> else b)
      in b\<lparr>rb_count := rb_count b + 1\<rparr>)"

fun bump_bucket :: "int \<Rightarrow> string \<Rightarrow> rate_bucket list \<Rightarrow> (rate_bucket \<times> rate_bucket list) option" where
  "bump_bucket now sub [] = None"
| "bump_bucket now sub (b # bs) =
     (if rb_sub b = sub then Some (bucket_step now b, bucket_step now b # bs)
      else map_option (\<lambda>(x, bs). (x, b # bs)) (bump_bucket now sub bs))"

definition check_rate_limit :: "int \<Rightarrow> cookbook_server \<Rightarrow> string \<Rightarrow> bool \<times> cookbook_server" where
  "check_rate_limit now srv sub =
     (if srv_rate_limit_per_min srv \<le> 0 \<or> sub = [] then (False, srv)
      else (let (b, bs) = (case bump_bucket now sub (srv_rate_buckets srv) of
                             Some r \<Rightarrow> r
                           | None \<Rightarrow>
                               (let b = bucket_step now \<lparr>rb_sub = bounded 128 sub, rb_count = 0, rb_window_start = now\<rparr>
                                in (b, b # srv_rate_buckets srv)))
            in (rb_count b > srv_rate_limit_per_min srv, srv\<lparr>srv_rate_buckets := bs\<rparr>)))"

section \<open>The audit log\<close>

definition safe_target :: "string \<Rightarrow> string" where
  "safe_target t = map (\<lambda>c. if c = CHR 0x22 then CHR 0x27 else c) (take 511 t)"

definition field :: "string \<Rightarrow> string \<Rightarrow> string" where
  "field name val = name @ '': '' @ quote val"

definition audit_line :: "string \<Rightarrow> string \<Rightarrow> string \<Rightarrow> string \<Rightarrow> string \<Rightarrow> string" where
  "audit_line ts event subject target result =
     ''{ '' @ field ''timestamp'' ts @ '', '' @ field ''event'' event @ '', '' @ field ''subject'' subject @ '', '' @
     (if target \<noteq> [] then field ''target'' (safe_target target) @ '', '' else []) @
     field ''result'' result @ '' }'' @ nl"

text \<open>
  The line is built in 1024 bytes, but as many bytes are written to the log as it would have
  had without the limit.
\<close>

definition append_line :: "string \<Rightarrow> string list option \<Rightarrow> string list option" where
  "append_line line f = map_option (\<lambda>ls. ls @ [line]) f"

definition audit_log :: "environment \<Rightarrow> string \<Rightarrow> string \<Rightarrow> string \<Rightarrow> string \<Rightarrow> cookbook_server \<Rightarrow> cookbook_server" where
  "audit_log env event subject target result srv =
     (let line = audit_line (env_utc env (env_now env)) event subject target result
      in if event = ''auth'' then srv\<lparr>srv_audit_auth := append_line line (srv_audit_auth srv)\<rparr>
         else if event = ''admin'' then srv\<lparr>srv_audit_admin := append_line line (srv_audit_admin srv)\<rparr>
         else srv\<lparr>srv_audit_access := append_line line (srv_audit_access srv)\<rparr>)"

section \<open>Authorization\<close>

definition claims_zero :: cookbook_jwt_claims where
  "claims_zero = \<lparr>claim_sub = [], claim_groups = [], claim_jti = [], claim_grants = None, claim_exclude = None,
     claim_exp = 0, claim_iat = 0, claim_version = 0, claim_valid = False\<rparr>"

definition extract_bearer_jwt :: "environment \<Rightarrow> cookbook_server \<Rightarrow> shim_request_info \<Rightarrow> cookbook_jwt_claims option" where
  "extract_bearer_jwt env srv ri =
     (if \<not> srv_has_registry_key srv then None
      else do {
        auth \<leftarrow> grid_get_header (http_headers ri) ''Authorization'';
        if \<not> has_prefix auth ''Bearer '' then None
        else do {
          claims \<leftarrow> cookbook_jwt_verify (env_verify env) (env_now env) (drop 7 auth);
          if claim_jti claims \<noteq> [] \<and> cookbook_revocation_check (srv_revocations srv) (claim_jti claims) then None
          else Some claims
        }
      })"

definition permits :: "cookbook_jwt_claims \<Rightarrow> string \<Rightarrow> char \<Rightarrow> bool" where
  "permits claims group_id c =
     (if claim_version claims = 2
      then (case claim_grants claims of
              None \<Rightarrow> False
            | Some gj \<Rightarrow> cookbook_auth_check gj (claim_exclude claims) group_id c)
      else c = CHR ''r'' \<or> cookbook_jwt_has_group claims group_id)"

text \<open>The claims of an allowed request, or the response of a denied one.\<close>

definition require_auth_v2 ::
  "environment \<Rightarrow> cookbook_server \<Rightarrow> shim_request_info \<Rightarrow> string \<Rightarrow> char \<Rightarrow> (response + cookbook_jwt_claims) \<times> cookbook_server" where
  "require_auth_v2 env srv ri group_id c =
     (if \<not> srv_has_registry_key srv then (Inr claims_zero, srv)
      else case extract_bearer_jwt env srv ri of
        None \<Rightarrow>
          (Inl (Send_json 401 (error_json ''Valid Bearer JWT required'')),
           audit_log env ''auth'' ''unknown'' group_id ''jwt-invalid'' (inc_auth_failures (inc_4xx srv)))
      | Some claims \<Rightarrow>
          (let (blocked, srv) = check_rate_limit (env_now env) srv (claim_sub claims)
           in if blocked then
                (Inl (Send_json 429 (error_json ''Rate limit exceeded'')),
                 audit_log env ''auth'' (claim_sub claims) group_id ''rate-limited'' (inc_4xx srv))
              else if \<not> permits claims group_id c then
                (Inl (Send_json 403 (error_json (if claim_version claims = 2 then ''Insufficient permissions''
                        else ''JWT does not authorize this group''))),
                 audit_log env ''auth'' (claim_sub claims) group_id ''denied'' (inc_auth_failures (inc_4xx srv)))
              else (Inr claims, srv)))"

section \<open>Coordinates\<close>

lemma last_parts:
  assumes "c \<notin> set t"
  shows "before_last c (p @ c # t) = p" "after_last c (p @ c # t) = t"
proof -
  have "takeWhile (\<lambda>x. x \<noteq> c) (rev t @ c # rev p) = rev t" "dropWhile (\<lambda>x. x \<noteq> c) (rev t @ c # rev p) = c # rev p"
    using assms span_until [of c "rev t" "c # rev p"] by simp_all
  then show "before_last c (p @ c # t) = p" "after_last c (p @ c # t) = t"
    by (simp_all add: before_last_def after_last_def)
qed

lemma split_coord_parts:
  assumes "CHR ''/'' \<notin> set a" "CHR ''/'' \<notin> set t"
  shows "split_coord (g @ ''/'' @ a @ ''/'' @ t) = Some (slash_to_dot g, a, t)"
proof -
  have "g @ ''/'' @ a @ ''/'' @ t = (g @ CHR ''/'' # a) @ CHR ''/'' # t" by simp
  then show ?thesis
    using last_parts [OF assms(2), of "g @ CHR ''/'' # a"] last_parts [OF assms(1), of g]
    unfolding split_coord_def Let_def by (simp add: in_set_conv_decomp)
qed

lemma slash_to_dot_join: "(\<And>c. c \<in> set gs \<Longrightarrow> CHR ''/'' \<notin> set c) \<Longrightarrow> slash_to_dot (slash_join gs) = concat (map (\<lambda>g. g @ ''.'') (butlast gs)) @ (if gs = [] then [] else last gs)"
proof (induction gs rule: slash_join.induct)
  case (2 c)
  then show ?case by (auto simp: slash_to_dot_def intro!: map_idI)
next
  case (3 c d cs)
  have "map (\<lambda>x. if x = CHR ''/'' then CHR ''.'' else x) c = c" using "3.prems" [of c] by (auto intro!: map_idI)
  with 3 show ?case by (simp add: slash_to_dot_def)
qed (simp add: slash_to_dot_def)

lemma coord_chars:
  "\<not> group_char (CHR ''/'')" "\<not> group_char (CHR 0x5c)"
  "\<not> artifact_char (CHR ''/'')" "\<not> artifact_char (CHR 0x5c)" "\<not> artifact_char (CHR ''.'')"
  by code_simp+

lemma validate_group_path:
  assumes "validate_group g"
  shows "CHR ''/'' \<notin> set g" "CHR 0x5c \<notin> set g" "strstr g ''..'' = None"
  using assms coord_chars by (auto simp: validate_group_def validate_path_segment_def)

lemma validate_artifact_plain: "validate_artifact a \<Longrightarrow> plain_name a"
proof -
  assume a: "validate_artifact a"
  then have "\<forall>c \<in> set a. artifact_char c" "a \<noteq> []" by (auto simp: validate_artifact_def)
  then have "CHR ''/'' \<notin> set a" "CHR 0x5c \<notin> set a" "CHR ''.'' \<notin> set a" "a \<noteq> []" using coord_chars by blast+
  then show ?thesis by (auto simp: plain_name_def)
qed

section \<open>Bodies\<close>

lemma read_loop_rest:
  assumes "sc_body_pos sc + (want - length acc) \<le> length (sc_body sc)" "length acc \<le> want"
  shows "fst (read_loop want acc sc) = acc @ take (want - length acc) (drop (sc_body_pos sc) (sc_body sc))"
proof (cases "length acc = want")
  case True
  then show ?thesis by (simp add: read_loop.simps)
next
  case False
  with assms have "shim_read (want - length acc) sc =
      (take (want - length acc) (drop (sc_body_pos sc) (sc_body sc)), sc\<lparr>sc_body_pos := sc_body_pos sc + (want - length acc)\<rparr>)"
    "take (want - length acc) (drop (sc_body_pos sc) (sc_body sc)) \<noteq> []"
    by (auto simp: shim_read_def Let_def min_def)
  with False assms show ?thesis by (subst read_loop.simps) (simp add: read_loop.simps [of want "acc @ x" for x])
qed

text \<open>
  C35. Reading a body ends and returns it whole: nothing for an empty one and for one larger than the
  limit, where 0 is no limit.
\<close>

theorem read_body_exact:
  "fst (read_body max_bytes (shim_init ctx)) =
     (if hc_body ctx = [] \<or> max_bytes > 0 \<and> length (hc_body ctx) > max_bytes then None else Some (hc_body ctx))"
proof (cases "hc_body ctx = []")
  case True
  then show ?thesis
    by (auto simp: read_body_def shim_init_def read_open.simps shim_read_def nonempty_def Let_def split: prod.splits)
next
  case False
  have "fst (read_loop (length (hc_body ctx)) [] (shim_init ctx)) = hc_body ctx"
    by (subst read_loop_rest) (simp_all add: shim_init_def)
  with False show ?thesis
    by (auto simp: read_body_def nonempty_def Let_def shim_init_def split: prod.splits)
qed

section \<open>Rate limiting\<close>

text \<open>The state of the bucket of a name.\<close>

definition bucket_of :: "string \<Rightarrow> rate_bucket list \<Rightarrow> rate_bucket option" where
  "bucket_of sub bs = find (\<lambda>b. rb_sub b = sub) bs"

lemma bucket_step_sub [simp]: "rb_sub (bucket_step now b) = rb_sub b"
  by (simp add: bucket_step_def Let_def)

lemma bump_bucket_None: "bump_bucket now sub bs = None \<longleftrightarrow> bucket_of sub bs = None"
  by (induction bs) (auto simp: bucket_of_def)

lemma bump_bucket_Some:
  assumes "bump_bucket now sub bs = Some (b, bs')"
  shows "map_option (bucket_step now) (bucket_of sub bs) = Some b \<and>
     bucket_of s bs' = (if s = sub then Some b else bucket_of s bs)"
  using assms
proof (induction bs arbitrary: bs')
  case (Cons a bs)
  then show ?case by (cases "rb_sub a = sub") (auto simp: bucket_of_def)
qed simp

text \<open>One request: the bucket of its name steps, a new one is made when there is none.\<close>

definition next_bucket :: "int \<Rightarrow> string \<Rightarrow> rate_bucket option \<Rightarrow> rate_bucket" where
  "next_bucket now sub b =
     bucket_step now (case b of Some b \<Rightarrow> b | None \<Rightarrow> \<lparr>rb_sub = sub, rb_count = 0, rb_window_start = now\<rparr>)"

lemma check_rate_limit_spec:
  assumes "srv_rate_limit_per_min srv > 0" "sub \<noteq> []" "length sub < 128" "check_rate_limit now srv sub = (blocked, srv')"
  shows "blocked \<longleftrightarrow> rb_count (next_bucket now sub (bucket_of sub (srv_rate_buckets srv))) > srv_rate_limit_per_min srv"
    and "bucket_of s (srv_rate_buckets srv') =
       (if s = sub then Some (next_bucket now sub (bucket_of sub (srv_rate_buckets srv))) else bucket_of s (srv_rate_buckets srv))"
    and "srv' = srv\<lparr>srv_rate_buckets := srv_rate_buckets srv'\<rparr>"
proof -
  let ?bs = "srv_rate_buckets srv" and ?b = "next_bucket now sub (bucket_of sub (srv_rate_buckets srv))"
  show "srv' = srv\<lparr>srv_rate_buckets := srv_rate_buckets srv'\<rparr>"
    using assms by (auto simp: check_rate_limit_def split: prod.splits)
  have "(blocked \<longleftrightarrow> rb_count ?b > srv_rate_limit_per_min srv) \<and>
     bucket_of s (srv_rate_buckets srv') = (if s = sub then Some ?b else bucket_of s ?bs)"
  proof (cases "bump_bucket now sub ?bs")
    case None
    then have "bucket_of sub ?bs = None" by (simp add: bump_bucket_None)
    with None assms show ?thesis
      by (auto simp: check_rate_limit_def next_bucket_def Let_def bucket_of_def)
  next
    case (Some r)
    obtain b bs where r: "r = (b, bs)" by (cases r)
    note b = bump_bucket_Some [OF Some [unfolded r], of s]
    then have "b = ?b" by (auto simp: next_bucket_def)
    with Some r assms b show ?thesis by (auto simp: check_rate_limit_def)
  qed
  then show "blocked \<longleftrightarrow> rb_count ?b > srv_rate_limit_per_min srv"
    "bucket_of s (srv_rate_buckets srv') = (if s = sub then Some ?b else bucket_of s ?bs)" by blast+
qed

text \<open>A sequence of requests, each with its time and name; the names of those let through.\<close>

fun serve_all :: "(int \<times> string) list \<Rightarrow> cookbook_server \<Rightarrow> string list \<times> cookbook_server" where
  "serve_all [] srv = ([], srv)"
| "serve_all ((now, sub) # rs) srv =
     (let (blocked, srv) = check_rate_limit now srv sub; (passed, srv) = serve_all rs srv
      in (if blocked then passed else sub # passed, srv))"

text \<open>How many more requests of a name can pass before the time \<open>t\<close>: what is left of the window,
  and a whole limit when a new one can start.\<close>

definition budget :: "int \<Rightarrow> int \<Rightarrow> rate_bucket option \<Rightarrow> int" where
  "budget limit t b =
     (case b of
        None \<Rightarrow> limit
      | Some b \<Rightarrow> max 0 (limit - max 0 (rb_count b)) + (if t - rb_window_start b > 60 then limit else 0))"

lemma budget_step:
  assumes "limit > 0" "now < t" "t \<le> now0 + 60" "now0 \<le> now"
    and "\<And>b'. b = Some b' \<Longrightarrow> rb_count b' \<ge> 0 \<and> rb_window_start b' \<le> now"
  shows "budget limit t (Some (next_bucket now sub b)) + (if rb_count (next_bucket now sub b) > limit then 0 else 1)
     \<le> budget limit t b"
    and "rb_count (next_bucket now sub b) \<ge> 0 \<and> rb_window_start (next_bucket now sub b) \<le> now"
  using assms by (auto simp: budget_def next_bucket_def bucket_step_def Let_def split: option.splits)


text \<open>Requests within one minute, in the order of their times.\<close>

definition in_minute :: "int \<Rightarrow> (int \<times> string) list \<Rightarrow> bool" where
  "in_minute t0 rs \<longleftrightarrow> sorted (map fst rs) \<and>
     (\<forall>(now, s) \<in> set rs. t0 \<le> now \<and> now < t0 + 60 \<and> s \<noteq> [] \<and> length s < 128)"

lemma serve_all_budget:
  assumes "srv_rate_limit_per_min srv > 0" "in_minute t0 rs"
    and "\<And>b now s. bucket_of sub (srv_rate_buckets srv) = Some b \<Longrightarrow> (now, s) \<in> set rs \<Longrightarrow> rb_count b \<ge> 0 \<and> rb_window_start b \<le> now"
  shows "int (count_list (fst (serve_all rs srv)) sub)
     \<le> max 0 (budget (srv_rate_limit_per_min srv) (t0 + 60) (bucket_of sub (srv_rate_buckets srv)))"
  using assms
proof (induction rs arbitrary: srv)
  case (Cons r rs)
  obtain now s where r: "r = (now, s)" by (cases r)
  obtain blocked srv' where c: "check_rate_limit now srv s = (blocked, srv')" by fastforce
  obtain passed srv'' where p: "serve_all rs srv' = (passed, srv'')" by fastforce
  let ?l = "srv_rate_limit_per_min srv" and ?b = "bucket_of sub (srv_rate_buckets srv)"
  have s: "s \<noteq> []" "length s < 128" and t: "t0 \<le> now" "now < t0 + 60" and le: "\<forall>x \<in> fst ` set rs. now \<le> x"
    and rs: "in_minute t0 rs" using Cons.prems(2) by (auto simp: in_minute_def r)
  note spec = check_rate_limit_spec [OF Cons.prems(1) s c]
  have l: "srv_rate_limit_per_min srv' = ?l" by (subst spec(3)) simp
  have b': "bucket_of sub (srv_rate_buckets srv') = (if sub = s then Some (next_bucket now s ?b) else ?b)"
    using spec(2) [of sub] by auto
  note step = budget_step [OF Cons.prems(1) t(2) order.refl t(1), of ?b s]
  have ok: "rb_count b \<ge> 0 \<and> rb_window_start b \<le> now" if "?b = Some b" for b
    using Cons.prems(3) [OF that, of now s] by (simp add: r)
  have IH: "int (count_list passed sub) \<le> max 0 (budget ?l (t0 + 60) (bucket_of sub (srv_rate_buckets srv')))"
    using Cons.IH [of srv'] rs Cons.prems l b' step(2) [OF ok] le by (force simp: p r)
  show ?case
  proof (cases "sub = s")
    case True
    with IH b' step(1) [OF ok] spec(1) Cons.prems(1) show ?thesis
      by (auto simp: r c p budget_def split: if_splits option.splits)
  next
    case False
    with IH b' show ?thesis by (simp add: r c p)
  qed
qed simp


definition demo_server :: "int \<Rightarrow> cookbook_server" where
  "demo_server limit = \<lparr>srv_db = db_empty, srv_store = demo_store [], srv_registry_id = ''east'',
     srv_max_upload_bytes = 1000000, srv_pending_timeout_sec = 300, srv_jwt_ttl_sec = 3600, srv_rate_limit_per_min = limit,
     srv_has_registry_key = True, srv_registry_pk = replicate 32 7, srv_rate_buckets = [],
     srv_metrics = \<lparr>requests_total = 0, requests_get = 0, requests_put = 0, requests_post = 0, responses_2xx = 0,
       responses_4xx = 0, responses_5xx = 0, artifacts_published = 0, artifacts_yanked = 0, artifacts_resolved = 0,
       auth_tokens_issued = 0, auth_failures = 0, bytes_uploaded = 0, bytes_downloaded = 0\<rparr>,
     srv_grid_enabled = False, srv_grid_max_hops = 3, srv_grid_peer_auth = False, srv_ldap_url = None,
     srv_oidc_issuer = None, srv_oidc_client_id = None, srv_revocations = cookbook_revocation_init 1024, srv_audit_auth = None,
     srv_audit_access = None, srv_audit_admin = None, srv_object_cache_ttl_sec = 0, srv_device_codes = []\<rparr>"


section \<open>Authorization\<close>

text \<open>The status of a denied request; 200 for one let through.\<close>

definition auth_status :: "response + cookbook_jwt_claims \<Rightarrow> nat" where
  "auth_status r = (case r of Inl d \<Rightarrow> response_status d | Inr claims \<Rightarrow> 200)"

lemma require_auth_open: "\<not> srv_has_registry_key srv \<Longrightarrow> require_auth_v2 env srv ri g c = (Inr claims_zero, srv)"
  by (simp add: require_auth_v2_def)

lemma require_auth_unlimited:
  assumes "srv_has_registry_key srv" "srv_rate_limit_per_min srv \<le> 0"
  shows "auth_status (fst (require_auth_v2 env srv ri g c)) =
     (case extract_bearer_jwt env srv ri of None \<Rightarrow> 401 | Some claims \<Rightarrow> if permits claims g c then 200 else 403)"
  using assms by (simp add: require_auth_v2_def auth_status_def check_rate_limit_def split: option.splits)

text \<open>
  A token issued for a policy and sent as a bearer token decides requests as the policy does:
  a request is let through exactly when the policy allows it, refused with 403 otherwise, and
  with 401 once the token has expired or is revoked.
\<close>

lemma bearer_token_decides:
  assumes sg: "signature_pair (env_sign env) (env_verify env)"
    and ok: "payload_ok sub groups [] gs es" "distinct (map fst gs)"
    and len: "length sub < 128" "length sub + length (groups_text groups) \<le> 400" "length (policy_json gs es) \<le> 3500"
    and t: "0 \<le> now" "now \<le> LONG_MAX" "0 < now + ttl" "now + ttl \<le> LONG_MAX"
    and jti: "jti = generate_jti seed_time cnt addr 64"
  shows "\<exists>token. cookbook_jwt_create_v2 (env_sign env) now jti sub groups (policy_json gs es) ttl = Inr token \<and>
     (\<forall>srv ri now' group_id c.
        srv_has_registry_key srv \<longrightarrow> srv_rate_limit_per_min srv \<le> 0 \<longrightarrow>
        grid_get_header (http_headers ri) ''Authorization'' = Some (''Bearer '' @ token) \<longrightarrow>
        auth_status (fst (require_auth_v2 (env\<lparr>env_now := now'\<rparr>) srv ri group_id c)) =
          (if now' > now + ttl \<or> cookbook_revocation_check (srv_revocations srv) jti then 401
           else if policy_allows gs es group_id c then 200 else 403))"
proof (rule token_v2_claims [OF sg ok len t(1,2) order.strict_implies_order [OF t(3)] t(4) jti], goal_cases)
  case (1 token claims)
  have bearer: "extract_bearer_jwt (env\<lparr>env_now := now'\<rparr>) srv ri =
      (if now' > now + ttl \<or> cookbook_revocation_check (srv_revocations srv) jti then None else Some claims)"
    if "srv_has_registry_key srv" "grid_get_header (http_headers ri) ''Authorization'' = Some (''Bearer '' @ token)" for now' srv ri
    using that 1 t(3) by (simp add: extract_bearer_jwt_def has_prefix_def)
  have permits: "permits claims group_id c = policy_allows gs es group_id c" for group_id c
    using 1 by (auto simp: permits_def)
  show ?case
    using 1(1) by (intro exI [of _ token] conjI allI impI) (simp_all add: require_auth_unlimited bearer permits)
qed

text \<open>An environment and a request with a bearer token.\<close>

definition signing_env :: environment where
  "signing_env = \<lparr>env_now = 1000, env_utc = show_int, env_sign = demo_sign, env_verify = demo_verify,
     env_parse = (\<lambda>t. None), env_parse_msg = (\<lambda>t. []), env_parse_pos = (\<lambda>t. (1, 1)), env_write = (\<lambda>m d. None), env_atof = (\<lambda>t. 1),
     env_fmt_double = (\<lambda>d. []), env_deflate = (\<lambda>b. None), env_behind = [], env_iso = show_int, env_conflate = (\<lambda>r d. None),
     env_entropy = (\<lambda>n. replicate n 0), env_jti_counter = 2, env_jti_address = 3, env_argon_hash = (\<lambda>t s. Some (string_of t)),
     env_argon_verify = (\<lambda>h t. Some (h = string_of t)), env_ldap = (\<lambda>s p. None), env_oidc = (\<lambda>c s. None),
     env_idp = (\<lambda>h p r. None), env_verify_by = (\<lambda>k s m. False), env_peer_keys = (\<lambda>db sql. []), env_peer = (\<lambda>p m q h. None)\<rparr>"

definition bearer_request :: "string \<Rightarrow> shim_request_info" where
  "bearer_request token = \<lparr>request_method = ''GET'', local_uri = ''/'', query_string = None,
     http_headers = [(''Authorization'', ''Bearer '' @ token)], content_length = 0\<rparr>"

theorem bearer_token_decides_witness:
  "\<exists>token. cookbook_jwt_create_v2 demo_sign 1000 (generate_jti 1 2 3 64) ''bob'' None
       (policy_json [(''org.acme'', ''rw'')] [''org.acme.x'']) 60 = Inr token \<and>
     auth_status (fst (require_auth_v2 (signing_env\<lparr>env_now := 1010\<rparr>) (demo_server 0) (bearer_request token) ''org.acme'' CHR ''w'')) = 200 \<and>
     auth_status (fst (require_auth_v2 (signing_env\<lparr>env_now := 1010\<rparr>) (demo_server 0) (bearer_request token) ''org.acme.x'' CHR ''w'')) = 403 \<and>
     auth_status (fst (require_auth_v2 (signing_env\<lparr>env_now := 2000\<rparr>) (demo_server 0) (bearer_request token) ''org.acme'' CHR ''w'')) = 401"
proof -
  let ?gs = "[(''org.acme'', ''rw'')]" and ?es = "[''org.acme.x'']"
  have "\<exists>token. cookbook_jwt_create_v2 (env_sign signing_env) 1000 (generate_jti 1 2 3 64) ''bob'' None (policy_json ?gs ?es) 60 = Inr token \<and>
     (\<forall>srv ri now' group_id c.
        srv_has_registry_key srv \<longrightarrow> srv_rate_limit_per_min srv \<le> 0 \<longrightarrow>
        grid_get_header (http_headers ri) ''Authorization'' = Some (''Bearer '' @ token) \<longrightarrow>
        auth_status (fst (require_auth_v2 (signing_env\<lparr>env_now := now'\<rparr>) srv ri group_id c)) =
          (if now' > 1000 + 60 \<or> cookbook_revocation_check (srv_revocations srv) (generate_jti 1 2 3 64) then 401
           else if policy_allows ?gs ?es group_id c then 200 else 403))"
    by (rule bearer_token_decides [OF _ _ _ _ _ _ _ _ _ _ refl])
       (use demo_signature_pair in \<open>simp_all add: signing_env_def payload_ok_def json_safe_def groups_text_def string_or_empty_def
          reserved_def policy_json_def grants_open_def exclude_open_def quote_def flags_def true_text_def LONG_MAX_def\<close>)
  then obtain token where t: "cookbook_jwt_create_v2 demo_sign 1000 (generate_jti 1 2 3 64) ''bob'' None (policy_json ?gs ?es) 60 = Inr token"
    "\<And>now' group_id c. auth_status (fst (require_auth_v2 (signing_env\<lparr>env_now := now'\<rparr>) (demo_server 0) (bearer_request token) group_id c)) =
          (if now' > 1060 then 401 else if policy_allows ?gs ?es group_id c then 200 else 403)"
    by (auto simp: signing_env_def demo_server_def bearer_request_def grid_get_header_def cookbook_revocation_check_def cookbook_revocation_init_def)
  have "policy_allows ?gs ?es ''org.acme'' CHR ''w''" "\<not> policy_allows ?gs ?es ''org.acme.x'' CHR ''w''"
    by (auto simp: policy_allows_def effective_grant_def governs_def specific_def)
  with t show ?thesis by auto
qed

text \<open>
  A path of a group with dots or slashes, an artifact and a version is taken apart into them.
\<close>

theorem split_coord_roundtrip:
  assumes "validate_group (slash_to_dot p)" "validate_artifact a" "CHR ''/'' \<notin> set v"
  shows "split_coord (p @ ''/'' @ a @ ''/'' @ v) = Some (slash_to_dot p, a, v)"
  using validate_artifact_plain [OF assms(2)] assms(3) by (intro split_coord_parts) (simp_all add: plain_name_def)

theorem split_coord_roundtrip_witness:
  "split_coord (''org/acme'' @ ''/'' @ ''core'' @ ''/'' @ ''1.0.0'') = Some (slash_to_dot ''org/acme'', ''core'', ''1.0.0'')"
proof (rule split_coord_roundtrip)
  show "validate_group (slash_to_dot ''org/acme'')" "validate_artifact ''core''" by code_simp+
qed simp

end
