(* ===== verification/Keys.thy ===== *)
theory Keys
  imports Store
begin

text \<open>
  The keys a request can make: paths that were checked for two dots in a row, cut at the size of a
  buffer, or with the extension of a sidecar file. None of them leaves the store.
\<close>

section \<open>Keys without a step up\<close>

text \<open>No two dots in a row; no component that starts with two dots. The second survives a cut.\<close>

definition no_dotdot :: "string \<Rightarrow> bool" where
  "no_dotdot p \<longleftrightarrow> (\<forall>j. Suc j < length p \<longrightarrow> p ! j \<noteq> CHR ''.'' \<or> p ! Suc j \<noteq> CHR ''.'')"

definition no_up :: "string \<Rightarrow> bool" where
  "no_up p \<longleftrightarrow> (\<forall>i. i + 2 < length (CHR ''/'' # p) \<longrightarrow>
     \<not> ((CHR ''/'' # p) ! i = CHR ''/'' \<and> (CHR ''/'' # p) ! (i + 1) = CHR ''.'' \<and> (CHR ''/'' # p) ! (i + 2) = CHR ''.''))"

lemma strstr_no_dotdot: "strstr p ''..'' = None \<Longrightarrow> no_dotdot p"
proof (induction p)
  case (Cons c p)
  then have "no_dotdot p" "take 2 (c # p) \<noteq> ''..''" by (auto split: if_splits)
  then show ?case
    unfolding no_dotdot_def by (auto simp: nth_Cons numeral_2_eq_2 split: nat.splits) (cases p; simp)
qed (simp add: no_dotdot_def)

lemma no_dotdot_append:
  assumes "no_dotdot p" "no_dotdot q"
  shows "no_dotdot (p @ CHR ''/'' # q)"
  unfolding no_dotdot_def
proof (intro allI impI)
  fix j
  assume j: "Suc j < length (p @ CHR ''/'' # q)"
  consider "Suc j < length p" | "Suc j = length p" | "j = length p" | k where "j = Suc (length p + k)"
    by (metis less_antisym not_less_eq less_iff_Suc_add linorder_neqE_nat)
  then show "(p @ CHR ''/'' # q) ! j \<noteq> CHR ''.'' \<or> (p @ CHR ''/'' # q) ! Suc j \<noteq> CHR ''.''"
  proof cases
    case 1
    with assms(1) show ?thesis by (auto simp: no_dotdot_def nth_append)
  next
    case 4
    with assms(2) j show ?thesis by (auto simp: no_dotdot_def nth_append)
  qed (simp_all add: nth_append)
qed

lemma no_dotdot_up: "no_dotdot p \<Longrightarrow> no_up p"
  unfolding no_dotdot_def no_up_def by simp

lemma no_up_take: "no_up p \<Longrightarrow> no_up (take n p)"
  unfolding no_up_def by (auto simp: nth_Cons' split: if_splits)

lemma slash_join_append: "as \<noteq> [] \<Longrightarrow> bs \<noteq> [] \<Longrightarrow> slash_join (as @ bs) = slash_join as @ CHR ''/'' # slash_join bs"
  by (induction as rule: slash_join.induct) (auto simp: neq_Nil_conv)

lemma slash_join_split: "slash_join (split_slash p) = p"
proof (induction p)
  case (Cons c p)
  obtain t ts where t: "split_slash p = t # ts" by (cases "split_slash p") auto
  with Cons show ?case by (cases ts) auto
qed simp

lemma split_slash_sub:
  assumes "c \<in> set (split_slash p)"
  obtains x y where "CHR ''/'' # p = x @ CHR ''/'' # c @ y"
proof -
  from assms obtain as bs where ab: "split_slash p = as @ c # bs" by (meson split_list)
  have p: "p = slash_join (as @ c # bs)" using slash_join_split [of p] ab by simp
  have tail: "\<exists>y. slash_join (c # bs) = c @ y" by (cases bs) auto
  show ?thesis
  proof (cases "as = []")
    case True
    with p tail that [of "[]"] show ?thesis by auto
  next
    case False
    then have "p = slash_join as @ CHR ''/'' # slash_join (c # bs)" using slash_join_append [of as "c # bs"] p by simp
    with tail that [of "CHR ''/'' # slash_join as"] show ?thesis by auto
  qed
qed

lemma no_up_safe: "no_up p \<Longrightarrow> safe_key p"
proof (rule ccontr)
  assume u: "no_up p" and "\<not> safe_key p"
  then have "''..'' \<in> set (split_slash p)" by (auto simp: safe_key_def names_def)
  then obtain x y where "CHR ''/'' # p = x @ CHR ''/'' # ''..'' @ y" by (rule split_slash_sub)
  then have e: "CHR ''/'' # p = x @ [CHR ''/'', CHR ''.'', CHR ''.''] @ y" by simp
  have "length x + 2 < length (CHR ''/'' # p)" unfolding e by simp
  moreover have "(CHR ''/'' # p) ! length x = CHR ''/''" "(CHR ''/'' # p) ! (length x + 1) = CHR ''.''"
    "(CHR ''/'' # p) ! (length x + 2) = CHR ''.''" unfolding e by (simp_all add: nth_append)
  ultimately show False using u unfolding no_up_def by blast
qed

text \<open>An extension adds no step up, unless the last component is a single dot.\<close>

lemma no_up_ext:
  assumes "no_dotdot p" "CHR ''.'' \<notin> set e" "last (parts p) \<noteq> ''.''"
  shows "no_up (p @ CHR ''.'' # e)"
  unfolding no_up_def
proof (intro allI impI notI, elim conjE)
  fix i
  let ?s = "CHR ''/'' # p @ CHR ''.'' # e"
  assume i: "i + 2 < length ?s" "?s ! i = CHR ''/''" "?s ! (i + 1) = CHR ''.''" "?s ! (i + 2) = CHR ''.''"
  have "i + 2 \<le> Suc (length p)"
  proof (rule ccontr)
    assume "\<not> i + 2 \<le> Suc (length p)"
    then have "?s ! (i + 2) = e ! (i - length p)" "i - length p < length e"
      using i(1) by (auto simp: nth_append nth_Cons' Suc_diff_le)
    with i(4) assms(2) show False by (metis nth_mem)
  qed
  then consider "i + 2 < Suc (length p)" | "i + 1 = length p" by linarith
  then show False
  proof cases
    case 1
    then have "p ! i = CHR ''.''" "p ! Suc i = CHR ''.''" "Suc i < length p" using i(3,4) by (auto simp: nth_append)
    with assms(1) show False by (auto simp: no_dotdot_def)
  next
    case 2
    then have "CHR ''/'' # p = take i (CHR ''/'' # p) @ [CHR ''/'', CHR ''.'']"
      using i(2,3) by (intro nth_equalityI) (auto simp: nth_append nth_Cons' less_Suc_eq split: if_splits)
    then obtain q where "CHR ''/'' # p = q @ ''/.''" by metis
    then have "last (names p) = ''.''" "last p = CHR ''.''" "p \<noteq> []"
      by (cases q; auto simp: names_append names_plain)+
    with assms(3) show False by (simp add: parts_def)
  qed
qed

lemma split_slash_ext:
  "CHR ''/'' \<notin> set e \<Longrightarrow> split_slash (p @ e) = butlast (split_slash p) @ [last (split_slash p) @ e]"
proof (induction p)
  case (Cons c p)
  obtain t ts where t: "split_slash p = t # ts" by (cases "split_slash p") auto
  with Cons show ?case by (cases ts) auto
qed (simp add: split_slash_plain)

lemma place_ext:
  assumes "CHR ''/'' \<notin> set e" "2 \<le> length e"
  obtains ks c where "place (p @ e) = ks @ [c @ e]"
proof -
  have "last (split_slash p) @ e \<noteq> ''.''" "last (split_slash p) @ e \<noteq> []" using assms(2) by (auto simp: append_eq_Cons_conv)
  then show ?thesis
    using split_slash_ext [OF assms(1), of p] by (intro that) (simp add: place_def names_def)
qed

end
