(* ===== verification/Publish.thy ===== *)
theory Publish
  imports Request Keys Sha256 "HOL-Library.Product_Lexorder"
begin

text \<open>
  Publishing, \<^verbatim>\<open>src/src/main/c/cookbook_server.c\<close>: the statements on the artifact tables, the
  upload of a file of an artifact with its sidecars and its registration, the withdrawal of a
  version, and the background job that clears what was never finished. A handler returns its
  response and the new state; \<open>None\<close> where the code leaves defined behaviour.
\<close>

section \<open>Statements on the artifact tables\<close>

definition srv_exec ::
  "(cookbook_db \<Rightarrow> cookbook_db_status \<times> cookbook_db) \<Rightarrow> cookbook_server \<Rightarrow> cookbook_db_status \<times> cookbook_server" where
  "srv_exec stmt srv = (let (st, db) = db_exec stmt (srv_db srv) in (st, srv\<lparr>srv_db := db\<rparr>))"

definition srv_rows :: "(cookbook_db \<Rightarrow> 'r list) \<Rightarrow> cookbook_server \<Rightarrow> 'r list option \<times> cookbook_server" where
  "srv_rows sel srv =
     (let (fault, db) = db_next (srv_db srv)
      in (if fault then None else Some (sel db), srv\<lparr>srv_db := db\<rparr>))"

text \<open>\<open>INSERT OR IGNORE\<close> keeps a present row, but a missing parent row is an error.\<close>

definition insert_group :: "group_row \<Rightarrow> cookbook_db \<Rightarrow> cookbook_db_status \<times> cookbook_db" where
  "insert_group r db = (DB_OK, db\<lparr>db_groups := row_ignore grp_group_id r (db_groups db)\<rparr>)"

definition art_key :: "artifact_row \<Rightarrow> string \<times> string \<times> string \<times> string" where
  "art_key r = (art_group_id r, art_artifact r, art_version r, art_triple r)"

definition insert_artifact :: "artifact_row \<Rightarrow> cookbook_db \<Rightarrow> cookbook_db_status \<times> cookbook_db" where
  "insert_artifact r db =
     (if coord_id r \<in> coord_id ` set (db_artifacts db) \<or> art_key r \<in> art_key ` set (db_artifacts db) then (DB_OK, db)
      else if art_group_id r \<notin> grp_group_id ` set (db_groups db) then (DB_CONSTRAINT, db)
      else (DB_OK, db\<lparr>db_artifacts := db_artifacts db @ [r]\<rparr>))"

definition insert_semver :: "semver_row \<Rightarrow> cookbook_db \<Rightarrow> cookbook_db_status \<times> cookbook_db" where
  "insert_semver r db =
     (if sv_coord_id r \<notin> coord_id ` set (db_artifacts db) then (DB_CONSTRAINT, db)
      else (DB_OK, db\<lparr>db_artifact_semver := db_artifact_semver db @ [r]\<rparr>))"

definition same_version :: "string \<Rightarrow> string \<Rightarrow> string \<Rightarrow> artifact_row \<Rightarrow> bool" where
  "same_version g a v r \<longleftrightarrow> art_group_id r = g \<and> art_artifact r = a \<and> art_version r = v"

definition update_published :: "string \<Rightarrow> string \<Rightarrow> string \<Rightarrow> string \<Rightarrow> cookbook_db \<Rightarrow> cookbook_db_status \<times> cookbook_db" where
  "update_published now g a v db =
     (DB_OK, db\<lparr>db_artifacts := row_update (\<lambda>r. same_version g a v r \<and> art_status r = ''pending'')
        (\<lambda>r. r\<lparr>art_status := ''published'', art_published_at := Some now\<rparr>) (db_artifacts db)\<rparr>)"

definition update_yanked :: "string option \<Rightarrow> string \<Rightarrow> string \<Rightarrow> string \<Rightarrow> cookbook_db \<Rightarrow> cookbook_db_status \<times> cookbook_db" where
  "update_yanked reason g a v db =
     (DB_OK, db\<lparr>db_artifacts := row_update (same_version g a v)
        (\<lambda>r. r\<lparr>art_yanked := 1, art_yank_reason := reason\<rparr>) (db_artifacts db)\<rparr>)"

definition delete_semver :: "string \<Rightarrow> cookbook_db \<Rightarrow> cookbook_db_status \<times> cookbook_db" where
  "delete_semver cid db =
     (DB_OK, db\<lparr>db_artifact_semver := filter (\<lambda>s. sv_coord_id s \<noteq> cid) (db_artifact_semver db)\<rparr>)"

text \<open>A row that another one refers to cannot be deleted.\<close>

definition delete_pending :: "string \<Rightarrow> cookbook_db \<Rightarrow> cookbook_db_status \<times> cookbook_db" where
  "delete_pending cid db =
     (let gone = (\<lambda>r. coord_id r = cid \<and> art_status r = ''pending'')
      in if \<exists>r \<in> set (db_artifacts db). gone r \<and> coord_id r \<in> sv_coord_id ` set (db_artifact_semver db)
         then (DB_CONSTRAINT, db)
         else (DB_OK, db\<lparr>db_artifacts := filter (\<lambda>r. \<not> gone r) (db_artifacts db)\<rparr>))"

section \<open>The object store of the server\<close>

definition srv_put :: "string \<Rightarrow> byte list \<Rightarrow> cookbook_server \<Rightarrow> cookbook_store_status \<times> cookbook_server" where
  "srv_put key data srv = (let (st, s) = fs_put (srv_store srv) key data in (st, srv\<lparr>srv_store := s\<rparr>))"

definition srv_del :: "string \<Rightarrow> cookbook_server \<Rightarrow> cookbook_server" where
  "srv_del key srv = srv\<lparr>srv_store := snd (fs_del (srv_store srv) key)\<rparr>"

section \<open>The platform in a file name\<close>

definition strip_extension :: "string \<Rightarrow> string" where
  "strip_extension base =
     (case strstr base ''.tar.'' of
        Some rest \<Rightarrow> take (length base - length rest) base
      | None \<Rightarrow> if CHR ''.'' \<in> set base then before_last (CHR ''.'') base else base)"

definition triple_text :: "string \<Rightarrow> string" where
  "triple_text t =
     (case strchr t (CHR ''-'') of
        None \<Rightarrow> ''noarch''
      | Some d1 \<Rightarrow>
          (let os_str = takeWhile (\<lambda>c. c \<noteq> CHR ''-'') t; arch = tl d1
           in case strchr arch (CHR ''-'') of
                Some d2 \<Rightarrow> bounded 128 (os_str @ '':'' @ takeWhile (\<lambda>c. c \<noteq> CHR ''-'') arch @ '':'' @ tl d2)
              | None \<Rightarrow> bounded 128 (os_str @ '':'' @ arch)))"

definition extract_triple :: "string \<Rightarrow> string \<Rightarrow> string \<Rightarrow> string" where
  "extract_triple filename artifact version =
     (let base = strip_extension (bounded 256 filename);
          pre = bounded 256 (artifact @ ''-'' @ version @ ''-'');
          triple_part = drop (length pre) base
      in if \<not> has_prefix base pre \<or> triple_part = [] \<or> triple_part = ''noarch'' then ''noarch''
         else triple_text (bounded 128 triple_part))"

section \<open>Two-phase publishing\<close>

definition dots_to_slashes :: "string \<Rightarrow> string" where
  "dots_to_slashes s = map (\<lambda>c. if c = CHR ''.'' then CHR ''/'' else c) s"

definition pasta_key :: "cookbook_server \<Rightarrow> string \<Rightarrow> string \<Rightarrow> string \<Rightarrow> string" where
  "pasta_key srv grp art ver =
     bounded 512 (srv_registry_id srv @ ''/'' @ dots_to_slashes (bounded 256 grp) @ ''/'' @ art @ ''/'' @ ver @ ''/now.pasta'')"

definition try_publish :: "environment \<Rightarrow> string \<Rightarrow> string \<Rightarrow> string \<Rightarrow> cookbook_server \<Rightarrow> cookbook_server" where
  "try_publish env grp art ver srv =
     (if fs_exists (srv_store srv) (pasta_key srv grp art ver) \<noteq> STORE_OK then srv
      else snd (srv_exec (update_published (env_utc env (env_now env)) grp art ver) srv))"

text \<open>The registration of a descriptor whose fields are valid.\<close>

definition is_snapshot :: "cookbook_semver \<Rightarrow> bool" where
  "is_snapshot sv \<longleftrightarrow> strstr (pre_release sv) ''SNAPSHOT'' \<noteq> None"

definition new_artifact :: "string \<Rightarrow> string \<Rightarrow> string \<Rightarrow> string \<Rightarrow> string \<Rightarrow> cookbook_semver \<Rightarrow> string \<Rightarrow> nat \<Rightarrow> string \<Rightarrow> artifact_row" where
  "new_artifact coord grp art ver triple sv sha len now =
     \<lparr>coord_id = coord, art_group_id = grp, art_artifact = art, art_version = ver, art_triple = triple,
      art_snapshot = (if is_snapshot sv then 1 else 0), art_yanked = 0, art_yank_reason = None,
      art_status = ''pending'', art_sha256 = sha, art_descriptor_sha256 = Some sha, art_signed = 0,
      art_size_bytes = int len, art_pending_since = Some now, art_published_at = None, art_published_by = None\<rparr>"

definition coord_text :: "string \<Rightarrow> string \<Rightarrow> string \<Rightarrow> string \<Rightarrow> string" where
  "coord_text grp art ver triple = bounded 256 (grp @ '':'' @ art @ '':'' @ ver @ '':'' @ triple)"

definition register_rows ::
  "environment \<Rightarrow> string \<Rightarrow> string \<Rightarrow> string \<Rightarrow> string \<Rightarrow> string \<Rightarrow> cookbook_semver \<Rightarrow> string \<Rightarrow> nat \<Rightarrow> cookbook_server \<Rightarrow> cookbook_server" where
  "register_rows env sub grp art ver triple sv sha len srv =
     (let owner = (if sub \<noteq> [] then sub else ''anonymous'');
          coord = coord_text grp art ver triple;
          srv = snd (srv_exec (insert_group \<lparr>grp_group_id = grp, grp_owner_sub = owner, grp_created_at = None, grp_description = None\<rparr>) srv);
          srv = snd (srv_exec (insert_artifact
                  (new_artifact coord grp art ver triple sv sha len (env_utc env (env_now env)))) srv);
          srv = snd (srv_exec (insert_semver \<lparr>sv_coord_id = coord, sv_major = major sv, sv_minor = minor sv, sv_patch = patch sv,
                  sv_pre_release = pre_release sv, sv_build_meta = build_meta sv\<rparr>) srv)
      in try_publish env grp art ver srv)"

text \<open>The three fields of a descriptor, where all are strings.\<close>

definition descriptor_fields :: "pasta_value \<Rightarrow> (string \<times> string \<times> string) option" where
  "descriptor_fields doc = do {
     g \<leftarrow> Option.bind (tpasta_map_get doc ''group'') tpasta_get_string;
     a \<leftarrow> Option.bind (tpasta_map_get doc ''artifact'') tpasta_get_string;
     v \<leftarrow> Option.bind (tpasta_map_get doc ''version'') tpasta_get_string;
     Some (g, a, v)
   }"

definition descriptor_valid :: "string \<Rightarrow> string \<Rightarrow> string \<Rightarrow> cookbook_semver option" where
  "descriptor_valid grp art ver =
     (if (\<exists>c \<in> set art. isupper c) \<or> \<not> validate_group grp \<or> \<not> validate_artifact art then None
      else cookbook_semver_parse ver)"

section \<open>Uploading\<close>

definition sha_hex :: "byte list \<Rightarrow> string" where
  "sha_hex body = cookbook_sha256_hex (replicate 64 0) body"

definition text_json :: "nat \<Rightarrow> string \<Rightarrow> response" where
  "text_json status msg = Send_json status (error_json msg)"

definition em_dash :: string where
  "em_dash = [CHR 0xe2, CHR 0x80, CHR 0x94]"

definition json_pair :: "string \<Rightarrow> string \<Rightarrow> string" where
  "json_pair k v = quote k @ '':'' @ quote v"

text \<open>What is wrong with the body of a descriptor or of an attestation, if anything.\<close>

definition ends_with :: "string \<Rightarrow> string \<Rightarrow> bool" where
  "ends_with s t \<longleftrightarrow> length s \<ge> length t \<and> drop (length s - length t) s = t"

definition check_repro :: "environment \<Rightarrow> byte list \<Rightarrow> response option" where
  "check_repro env body =
     (if validate_ascii body \<noteq> 0
      then Some (text_json 400 (''Non-ASCII byte at offset '' @ show_nat (validate_ascii body) @ '' in .repro file''))
      else case env_parse env (string_of body) of
        None \<Rightarrow> Some (text_json 400 ''Invalid .repro file: must be valid pasta'')
      | Some repro \<Rightarrow>
          if tpasta_type repro = PASTA_MAP \<and> tpasta_map_get repro ''format'' \<noteq> None \<and>
             tpasta_map_get repro ''artifact_hash'' \<noteq> None then None
          else Some (text_json 400 (''Invalid .repro file: requires '' @ [CHR 0x27] @ ''format'' @ [CHR 0x27] @ '' and '' @
                 [CHR 0x27] @ ''artifact_hash'' @ [CHR 0x27] @ '' fields'')))"

definition check_upload :: "environment \<Rightarrow> string \<Rightarrow> byte list \<Rightarrow> response option" where
  "check_upload env filename body =
     (if filename = ''now.pasta'' \<and> validate_ascii body \<noteq> 0
      then Some (text_json 400 (''Non-ASCII byte at offset '' @ show_nat (validate_ascii body) @ '' '' @ em_dash @
             '' Pasta requires US-ASCII input''))
      else if length filename > 6 \<and> ends_with filename ''.repro'' then check_repro env body
      else None)"

text \<open>The signature of the registry over the hash, stored beside the object.\<close>

definition countersign :: "environment \<Rightarrow> string \<Rightarrow> string \<Rightarrow> cookbook_server \<Rightarrow> cookbook_server" where
  "countersign env key sha srv =
     (if \<not> srv_has_registry_key srv then srv
      else case env_sign env (bytes_of sha) of
        None \<Rightarrow> srv
      | Some sg \<Rightarrow> snd (srv_put (bounded 512 (key @ ''.countersig'')) sg srv))"

text \<open>The descriptor of an upload: refused, with the object removed, or registered.\<close>

definition register_descriptor ::
  "environment \<Rightarrow> string \<Rightarrow> string \<Rightarrow> string \<Rightarrow> string \<Rightarrow> byte list \<Rightarrow> cookbook_server \<Rightarrow> response option \<times> cookbook_server" where
  "register_descriptor env sub key triple sha body srv =
     (case env_parse env (string_of body) of
        None \<Rightarrow>
          (Some (Send_json 400 (bounded 512 (''{'' @ quote ''error'' @ '':'' @
             quote (''Invalid now.pasta: '' @ env_parse_msg env (string_of body)) @ ''}'' @ nl))), srv_del key srv)
      | Some doc \<Rightarrow>
          (case descriptor_fields doc of
             None \<Rightarrow> (None, srv)
           | Some (grp, art, ver) \<Rightarrow>
               (case descriptor_valid grp art ver of
                  None \<Rightarrow>
                    (Some (text_json 400 (''Descriptor validation failed: artifact must be lowercase, version must be '' @
                       ''valid semver, group/artifact must match naming rules'')),
                     audit_log env ''publish'' sub key ''validation-failed'' (srv_del key srv))
                | Some sv \<Rightarrow>
                    (let srv = snd (srv_put (bounded 512 (key @ ''.sha256'')) (bytes_of sha) srv)
                     in (None, register_rows env sub grp art ver triple sv sha (length body) srv)))))"

text \<open>The upload itself, once the body is there and the coordinate is free.\<close>

definition store_upload ::
  "environment \<Rightarrow> string \<Rightarrow> string \<Rightarrow> string \<Rightarrow> string \<Rightarrow> string \<Rightarrow> string \<Rightarrow> byte list \<Rightarrow> cookbook_server \<Rightarrow> response \<times> cookbook_server" where
  "store_upload env sub key group_id artifact version filename body srv =
     (let sha = sha_hex body;
          triple = extract_triple filename artifact version;
          (st, srv) = srv_put key body srv
      in if st \<noteq> STORE_OK then (text_json 500 ''Storage error'', srv)
         else (let srv = countersign env key sha srv;
                   (refused, srv) = (if filename = ''now.pasta'' then register_descriptor env sub key triple sha body srv
                                     else (None, try_publish env group_id artifact version srv))
               in case refused of
                    Some r \<Rightarrow> (r, srv)
                  | None \<Rightarrow>
                      (Send_json 201 (bounded 256 (''{'' @ json_pair ''status'' ''created'' @ '','' @ json_pair ''sha256'' sha @
                         '','' @ json_pair ''triple'' triple @ ''}'' @ nl)),
                       audit_log env ''publish'' sub key ''ok''
                         (add_uploaded (int (length body)) (inc_published (inc_2xx srv))))))"

definition artifact_put ::
  "environment \<Rightarrow> string \<Rightarrow> string \<Rightarrow> string \<Rightarrow> string \<Rightarrow> string \<Rightarrow> string \<Rightarrow> shim_connection \<Rightarrow> cookbook_server \<Rightarrow> response \<times> cookbook_server" where
  "artifact_put env sub key group_id artifact version filename sc srv =
     (if \<not> validate_group group_id \<or> \<not> validate_artifact artifact
      then (text_json 400 ''Invalid group or artifact identifier'', srv)
      else if fs_exists (srv_store srv) key = STORE_OK
      then (text_json 409 ''Release coordinate already published'', audit_log env ''publish'' sub key ''duplicate'' srv)
      else case fst (read_body (srv_max_upload_bytes srv) sc) of
        None \<Rightarrow>
          (if srv_max_upload_bytes srv > 0 \<and> content_length (sc_ri sc) > int (srv_max_upload_bytes srv)
           then text_json 413 ''Artifact exceeds maximum upload size'' else text_json 400 ''Empty body'', srv)
      | Some body \<Rightarrow>
          (case check_upload env filename body of
             Some r \<Rightarrow> (r, inc_4xx srv)
           | None \<Rightarrow> store_upload env sub key group_id artifact version filename body srv))"

section \<open>Withdrawing a version\<close>

text \<open>The body is searched as a C string; it has no terminator of its own.\<close>

definition body_text :: "environment \<Rightarrow> byte list \<Rightarrow> string" where
  "body_text env body = (if 0 \<in> set body then c_string body else string_of body @ env_behind env)"

definition yank_reason_of :: "string \<Rightarrow> string" where
  "yank_reason_of t =
     (case strstr t (quote ''reason'' @ '':'') of
        None \<Rightarrow> []
      | Some rp \<Rightarrow>
          (let rp = dropWhile (\<lambda>c. c = CHR '' '' \<or> c = CHR 0x09) (drop 9 rp)
           in if rp \<noteq> [] \<and> hd rp = CHR 0x22 \<and> CHR 0x22 \<in> set (tl rp)
              then take 255 (takeWhile (\<lambda>c. c \<noteq> CHR 0x22) (tl rp)) else []))"

definition yank_version ::
  "environment \<Rightarrow> string \<Rightarrow> string \<Rightarrow> string \<Rightarrow> string \<Rightarrow> string \<Rightarrow> shim_connection \<Rightarrow> cookbook_server \<Rightarrow> response \<times> cookbook_server" where
  "yank_version env sub path g a v sc srv =
     (let reason = (case fst (read_body 4096 sc) of None \<Rightarrow> [] | Some b \<Rightarrow> yank_reason_of (body_text env b));
          (st, srv) = srv_exec (update_yanked (if reason = [] then None else Some reason) g a v) srv
      in if st \<noteq> DB_OK then (text_json 500 ''Database error'', inc_5xx srv)
         else (Send_json 200 (if reason = [] then ''{'' @ json_pair ''status'' ''yanked'' @ ''}'' @ nl
                 else bounded 384 (''{'' @ json_pair ''status'' ''yanked'' @ '','' @ json_pair ''reason'' reason @ ''}'' @ nl)),
               audit_log env ''yank'' sub path ''ok'' (inc_yanked (inc_2xx srv))))"

definition handle_yank ::
  "environment \<Rightarrow> string \<Rightarrow> shim_connection \<Rightarrow> cookbook_server \<Rightarrow> response \<times> cookbook_server" where
  "handle_yank env path sc srv =
     (case split_coord path of
        None \<Rightarrow> (text_json 400 ''Malformed yank path'', srv)
      | Some (g, a, v) \<Rightarrow>
          if \<not> validate_group g \<or> \<not> validate_artifact a \<or> \<not> validate_version v
          then (text_json 400 ''Invalid group, artifact, or version'', srv)
          else (case require_auth_v2 env srv (sc_ri sc) g (CHR ''w'') of
                  (Inl r, srv) \<Rightarrow> (r, srv)
                | (Inr claims, srv) \<Rightarrow> yank_version env (bounded 128 (claim_sub claims)) path g a v sc srv))"

section \<open>The background job\<close>

definition sql_less :: "string \<Rightarrow> string \<Rightarrow> bool" where
  "sql_less a b \<longleftrightarrow> memcmp a b < 0 \<or> memcmp a b = 0 \<and> length a < length b"

definition stale_row :: "string \<Rightarrow> artifact_row \<Rightarrow> bool" where
  "stale_row cutoff r \<longleftrightarrow> art_status r = ''pending'' \<and> (\<exists>t. art_pending_since r = Some t \<and> sql_less t cutoff)"

definition delete_stale :: "string \<Rightarrow> cookbook_server \<Rightarrow> cookbook_server" where
  "delete_stale cid srv = snd (srv_exec (delete_pending cid) (snd (srv_exec (delete_semver cid) srv)))"

text \<open>At most a hundred rows are collected.\<close>

definition stale_collect :: "string \<Rightarrow> cookbook_server \<Rightarrow> string list \<times> cookbook_server" where
  "stale_collect cutoff srv =
     (let (rows, srv) = srv_rows (\<lambda>db. map coord_id (filter (stale_row cutoff) (db_artifacts db))) srv
      in (take 100 (case rows of None \<Rightarrow> [] | Some ids \<Rightarrow> ids), srv))"

definition reconcile_stale_pending :: "environment \<Rightarrow> cookbook_server \<Rightarrow> cookbook_server" where
  "reconcile_stale_pending env srv =
     (let cutoff = env_utc env (env_now env - srv_pending_timeout_sec srv);
          (ids, srv) = stale_collect cutoff srv
      in fold delete_stale ids srv)"

definition expired_rows :: "int \<Rightarrow> cookbook_db \<Rightarrow> object_cache_row list" where
  "expired_rows cutoff db = filter (\<lambda>r. oc_created_at r < cutoff) (db_object_cache db)"

definition delete_cache_row :: "string \<Rightarrow> cookbook_db \<Rightarrow> cookbook_db_status \<times> cookbook_db" where
  "delete_cache_row k db =
     (DB_OK, db\<lparr>db_object_cache := filter (\<lambda>r. oc_cache_key r \<noteq> k) (db_object_cache db)\<rparr>)"

definition evict_row :: "object_cache_row \<Rightarrow> cookbook_server \<Rightarrow> cookbook_server" where
  "evict_row r srv = snd (srv_exec (delete_cache_row (oc_cache_key r)) (srv_del (oc_store_key r) srv))"

definition evict_expired_objects :: "environment \<Rightarrow> cookbook_server \<Rightarrow> cookbook_server" where
  "evict_expired_objects env srv =
     (if srv_object_cache_ttl_sec srv \<le> 0 then srv
      else (let cutoff = env_now env - srv_object_cache_ttl_sec srv;
                (counted, srv) = srv_rows (\<lambda>db. expired_rows cutoff db) srv;
                cap = (case counted of None \<Rightarrow> 0 | Some rows \<Rightarrow> length rows)
            in if cap = 0 then srv
               else (let (rows, srv) = srv_rows (\<lambda>db. expired_rows cutoff db) srv
                     in fold evict_row (take cap (case rows of None \<Rightarrow> [] | Some rs \<Rightarrow> rs)) srv)))"

definition reconcile_tick :: "environment \<Rightarrow> cookbook_server \<Rightarrow> cookbook_server" where
  "reconcile_tick env srv = evict_expired_objects env (reconcile_stale_pending env srv)"

section \<open>What the parts of a handler leave alone\<close>

lemmas counters = metrics_map_def inc_2xx_def inc_4xx_def inc_5xx_def inc_total_def inc_get_def inc_put_def inc_post_def
  inc_published_def inc_yanked_def inc_resolved_def inc_auth_failures_def add_uploaded_def add_downloaded_def

lemma audit_log_frame [simp]:
  "srv_db (audit_log env e s t r srv) = srv_db srv" "srv_store (audit_log env e s t r srv) = srv_store srv"
  "srv_registry_id (audit_log env e s t r srv) = srv_registry_id srv"
  "srv_has_registry_key (audit_log env e s t r srv) = srv_has_registry_key srv"
  by (simp_all add: audit_log_def Let_def)

lemma rate_limit_frame:
  assumes "check_rate_limit now srv sub = (blocked, srv')"
  shows "srv_db srv' = srv_db srv" "srv_store srv' = srv_store srv" "srv_registry_id srv' = srv_registry_id srv"
    "srv_has_registry_key srv' = srv_has_registry_key srv"
  using assms by (auto simp: check_rate_limit_def Let_def split: prod.splits if_splits)

lemma require_auth_frame:
  assumes "require_auth_v2 env srv ri g c = (x, srv')"
  shows "srv_db srv' = srv_db srv" "srv_store srv' = srv_store srv" "srv_registry_id srv' = srv_registry_id srv"
    "srv_has_registry_key srv' = srv_has_registry_key srv"
  using assms
  by (auto simp: require_auth_v2_def counters dest: rate_limit_frame split: if_splits option.splits prod.splits)

lemma srv_exec_frame [simp]:
  "srv_store (snd (srv_exec stmt srv)) = srv_store srv" "srv_registry_id (snd (srv_exec stmt srv)) = srv_registry_id srv"
  "srv_has_registry_key (snd (srv_exec stmt srv)) = srv_has_registry_key srv"
  by (simp_all add: srv_exec_def split: prod.splits)

lemma srv_exec_eqD:
  assumes "srv_exec stmt srv = (st, srv')"
  shows "srv_store srv' = srv_store srv" "srv_registry_id srv' = srv_registry_id srv" "srv' = snd (srv_exec stmt srv)"
  using assms srv_exec_frame [of stmt srv] by simp_all

lemma srv_rows_frame:
  assumes "srv_rows sel srv = (rows, srv')"
  shows "srv_store srv' = srv_store srv" "srv_registry_id srv' = srv_registry_id srv"
    "db_artifacts (srv_db srv') = db_artifacts (srv_db srv)" "db_groups (srv_db srv') = db_groups (srv_db srv)"
    "db_artifact_semver (srv_db srv') = db_artifact_semver (srv_db srv)" "db_object_cache (srv_db srv') = db_object_cache (srv_db srv)"
    "rows = Some rs \<Longrightarrow> \<exists>db. rs = sel db \<and> srv_db srv' = db"
  using assms by (auto simp: srv_rows_def dest: db_next_eqD split: prod.splits if_splits)

lemma srv_put_frame [simp]:
  "srv_db (snd (srv_put k v srv)) = srv_db srv" "srv_registry_id (snd (srv_put k v srv)) = srv_registry_id srv"
  "srv_has_registry_key (snd (srv_put k v srv)) = srv_has_registry_key srv"
  "srv_store (snd (srv_put k v srv)) = snd (fs_put (srv_store srv) k v)"
  by (simp_all add: srv_put_def split: prod.splits)

lemma srv_del_frame [simp]:
  "srv_db (srv_del k srv) = srv_db srv" "srv_registry_id (srv_del k srv) = srv_registry_id srv"
  "srv_has_registry_key (srv_del k srv) = srv_has_registry_key srv" "srv_store (srv_del k srv) = snd (fs_del (srv_store srv) k)"
  by (simp_all add: srv_del_def)

lemma countersign_frame [simp]:
  "srv_db (countersign env key sha srv) = srv_db srv" "srv_registry_id (countersign env key sha srv) = srv_registry_id srv"
  by (simp_all add: countersign_def split: option.splits)

lemma try_publish_frame [simp]:
  "srv_store (try_publish env g a v srv) = srv_store srv" "srv_registry_id (try_publish env g a v srv) = srv_registry_id srv"
  by (simp_all add: try_publish_def)

lemma register_rows_frame [simp]:
  "srv_store (register_rows env sub g a v t sv sha n srv) = srv_store srv"
  "srv_registry_id (register_rows env sub g a v t sv sha n srv) = srv_registry_id srv"
  by (simp_all add: register_rows_def Let_def)

section \<open>The tables stay consistent\<close>

text \<open>
  Every key is unique, every reference leads to a row, and the rows of artifacts carry valid
  coordinates and one of the two states.
\<close>

definition row_ok :: "artifact_row \<Rightarrow> bool" where
  "row_ok r \<longleftrightarrow> validate_group (art_group_id r) \<and> validate_artifact (art_artifact r) \<and>
     cookbook_semver_parse (art_version r) \<noteq> None \<and> art_status r \<in> {''pending'', ''published''} \<and> art_yanked r \<in> {0, 1}"

definition db_ok :: "cookbook_db \<Rightarrow> bool" where
  "db_ok db \<longleftrightarrow>
     distinct (map grp_group_id (db_groups db)) \<and> distinct (map coord_id (db_artifacts db)) \<and>
     distinct (map art_key (db_artifacts db)) \<and>
     art_group_id ` set (db_artifacts db) \<subseteq> grp_group_id ` set (db_groups db) \<and>
     sv_coord_id ` set (db_artifact_semver db) \<subseteq> coord_id ` set (db_artifacts db) \<and>
     (\<forall>r \<in> set (db_artifacts db). row_ok r)"

lemma db_ok_tables:
  "db_groups db' = db_groups db \<Longrightarrow> db_artifacts db' = db_artifacts db \<Longrightarrow> db_artifact_semver db' = db_artifact_semver db \<Longrightarrow>
   db_ok db' = db_ok db"
  by (simp add: db_ok_def)

lemma db_exec_ok: "db_ok db \<Longrightarrow> (\<And>db. db_ok db \<Longrightarrow> db_ok (snd (stmt db))) \<Longrightarrow> db_ok (snd (db_exec stmt db))"
proof -
  assume db: "db_ok db" and stmt: "\<And>db. db_ok db \<Longrightarrow> db_ok (snd (stmt db))"
  obtain f db' where n: "db_next db = (f, db')" by fastforce
  have "db_ok db' = db_ok db" using db_next_eqD [OF n] by (intro db_ok_tables)
  with db stmt n show ?thesis by (simp add: db_exec_def)
qed

lemma srv_exec_ok:
  "db_ok (srv_db srv) \<Longrightarrow> (\<And>db. db_ok db \<Longrightarrow> db_ok (snd (stmt db))) \<Longrightarrow> db_ok (srv_db (snd (srv_exec stmt srv)))"
  using db_exec_ok [of "srv_db srv" stmt] by (auto simp: srv_exec_def split: prod.splits)

lemma insert_group_ok: "db_ok db \<Longrightarrow> db_ok (snd (insert_group r db))"
  using row_ignore_distinct [of grp_group_id "db_groups db" r]
  by (auto simp: db_ok_def insert_group_def row_ignore_def split: if_splits)

lemma insert_artifact_ok: "row_ok r \<Longrightarrow> db_ok db \<Longrightarrow> db_ok (snd (insert_artifact r db))"
  by (auto simp: db_ok_def insert_artifact_def)

lemma insert_semver_ok: "db_ok db \<Longrightarrow> db_ok (snd (insert_semver r db))"
  by (auto simp: db_ok_def insert_semver_def)

lemma update_rows_ok:
  assumes "db_ok db" "\<And>r. coord_id (f r) = coord_id r \<and> art_key (f r) = art_key r \<and> (row_ok r \<longrightarrow> row_ok (f r))"
  shows "db_ok (db\<lparr>db_artifacts := row_update p f (db_artifacts db)\<rparr>)"
proof -
  have keys: "map coord_id (row_update p f rs) = map coord_id rs" "map art_key (row_update p f rs) = map art_key rs" for rs
    using assms(2) by (simp_all add: row_update_def)
  then have "map art_group_id (row_update p f rs) = map art_group_id rs" for rs
    using assms(2) by (auto simp: row_update_def art_key_def)
  then have "art_group_id ` set (row_update p f rs) = art_group_id ` set rs" "coord_id ` set (row_update p f rs) = coord_id ` set rs" for rs
    using keys(1) by (metis set_map)+
  moreover have "\<forall>r \<in> set (row_update p f (db_artifacts db)). row_ok r"
    using assms by (auto simp: db_ok_def row_update_def)
  ultimately show ?thesis using keys assms(1) by (simp add: db_ok_def)
qed

lemma update_published_ok: "db_ok db \<Longrightarrow> db_ok (snd (update_published now g a v db))"
  unfolding update_published_def by simp (rule update_rows_ok; simp add: art_key_def row_ok_def)

lemma update_yanked_ok: "db_ok db \<Longrightarrow> db_ok (snd (update_yanked reason g a v db))"
  unfolding update_yanked_def by simp (rule update_rows_ok; simp add: art_key_def row_ok_def)

lemma delete_semver_ok: "db_ok db \<Longrightarrow> db_ok (snd (delete_semver c db))"
  by (auto simp: db_ok_def delete_semver_def)

lemma delete_pending_ok: "db_ok db \<Longrightarrow> db_ok (snd (delete_pending c db))"
  by (auto simp: db_ok_def delete_pending_def Let_def distinct_map_filter image_iff subset_iff) metis

lemma delete_cache_row_ok: "db_ok db \<Longrightarrow> db_ok (snd (delete_cache_row c db))"
  by (simp add: db_ok_def delete_cache_row_def)

lemma descriptor_valid_row:
  "descriptor_valid g a v = Some sv \<Longrightarrow> row_ok (new_artifact c g a v t sv sha n now)"
  by (auto simp: descriptor_valid_def row_ok_def new_artifact_def split: if_splits)

lemma try_publish_ok: "db_ok (srv_db srv) \<Longrightarrow> db_ok (srv_db (try_publish env g a v srv))"
  by (simp add: try_publish_def srv_exec_ok update_published_ok)

lemma register_rows_ok:
  "db_ok (srv_db srv) \<Longrightarrow> descriptor_valid g a v = Some sv \<Longrightarrow> db_ok (srv_db (register_rows env sub g a v t sv sha n srv))"
  unfolding register_rows_def Let_def
  by (intro try_publish_ok srv_exec_ok insert_semver_ok insert_artifact_ok insert_group_ok descriptor_valid_row) assumption+

lemma register_descriptor_ok:
  "db_ok (srv_db srv) \<Longrightarrow> db_ok (srv_db (snd (register_descriptor env sub key t sha body srv)))"
  by (auto simp: register_descriptor_def Let_def intro: register_rows_ok split: option.splits)

lemma store_upload_ok:
  "db_ok (srv_db srv) \<Longrightarrow> db_ok (srv_db (snd (store_upload env sub key g a v fn body srv)))"
  using register_descriptor_ok try_publish_ok
  by (auto simp: store_upload_def Let_def counters split: prod.splits option.splits if_splits)
     (metis (no_types, lifting) countersign_frame(1) srv_put_frame(1) snd_conv)+

lemma artifact_put_ok: "db_ok (srv_db srv) \<Longrightarrow> db_ok (srv_db (snd (artifact_put env sub key g a v fn sc srv)))"
  by (auto simp: artifact_put_def counters intro: store_upload_ok split: option.splits)

text \<open>A withdrawal marks the rows of its version, or does nothing.\<close>

lemma yank_version_effect:
  obtains reason where "srv_db (snd (yank_version env sub path g a v sc srv)) = srv_db (snd (srv_exec (update_yanked reason g a v) srv))"
    "srv_store (snd (yank_version env sub path g a v sc srv)) = srv_store srv"
    "srv_registry_id (snd (yank_version env sub path g a v sc srv)) = srv_registry_id srv"
    "response_status (fst (yank_version env sub path g a v sc srv)) = 200 \<Longrightarrow> fst (srv_exec (update_yanked reason g a v) srv) = DB_OK"
proof -
  define reason where "reason = (case fst (read_body 4096 sc) of None \<Rightarrow> [] | Some b \<Rightarrow> yank_reason_of (body_text env b))"
  obtain st srv' where e: "srv_exec (update_yanked (if reason = [] then None else Some reason) g a v) srv = (st, srv')" by fastforce
  then have "yank_version env sub path g a v sc srv =
     (if st \<noteq> DB_OK then (text_json 500 ''Database error'', inc_5xx srv')
      else (Send_json 200 (if reason = [] then ''{'' @ json_pair ''status'' ''yanked'' @ ''}'' @ nl
              else bounded 384 (''{'' @ json_pair ''status'' ''yanked'' @ '','' @ json_pair ''reason'' reason @ ''}'' @ nl)),
            audit_log env ''yank'' sub path ''ok'' (inc_yanked (inc_2xx srv'))))"
    by (simp only: yank_version_def Let_def reason_def [symmetric] prod.case)
  then show ?thesis
    using srv_exec_eqD(1,2) [OF e] e
    by (intro that [of "if reason = [] then None else Some reason"]) (simp_all add: counters text_json_def split: if_splits)
qed

lemma handle_yank_effect:
  obtains (same) "srv_db (snd (handle_yank env path sc srv)) = srv_db srv"
      "srv_store (snd (handle_yank env path sc srv)) = srv_store srv"
      "srv_registry_id (snd (handle_yank env path sc srv)) = srv_registry_id srv"
  | (yanked) reason g a v srv1 where "srv_db srv1 = srv_db srv"
      "srv_db (snd (handle_yank env path sc srv)) = srv_db (snd (srv_exec (update_yanked reason g a v) srv1))"
      "srv_store (snd (handle_yank env path sc srv)) = srv_store srv"
      "srv_registry_id (snd (handle_yank env path sc srv)) = srv_registry_id srv"
proof -
  show ?thesis
  proof (cases "split_coord path")
    case None
    then show ?thesis by (intro same) (simp_all add: handle_yank_def)
  next
    case (Some t)
    obtain g a v where t: "t = (g, a, v)" by (cases t)
    obtain x srv1 where auth: "require_auth_v2 env srv (sc_ri sc) g (CHR ''w'') = (x, srv1)" by fastforce
    note f = require_auth_frame [OF auth]
    show ?thesis
    proof (cases "validate_group g \<and> validate_artifact a \<and> validate_version v")
      case False
      with Some t show ?thesis by (intro same) (auto simp: handle_yank_def)
    next
      case ok: True
      show ?thesis
      proof (cases x)
        case (Inl r)
        with Some t ok auth f show ?thesis by (intro same) (simp_all add: handle_yank_def)
      next
        case (Inr claims)
        with Some t ok auth have h: "handle_yank env path sc srv = yank_version env (bounded 128 (claim_sub claims)) path g a v sc srv1"
          by (simp add: handle_yank_def)
        show ?thesis
          by (rule yank_version_effect [of env "bounded 128 (claim_sub claims)" path g a v sc srv1])
             (use yanked [OF f(1)] f h in simp)
      qed
    qed
  qed
qed

lemma handle_yank_ok: "db_ok (srv_db srv) \<Longrightarrow> db_ok (srv_db (snd (handle_yank env path sc srv)))"
  by (rule handle_yank_effect [of env path sc srv]) (simp_all add: srv_exec_ok update_yanked_ok)

section \<open>The objects stay\<close>

text \<open>Names of the files the registry adds beside an upload.\<close>

definition sidecar :: "string list \<Rightarrow> bool" where
  "sidecar ks \<longleftrightarrow> ks \<noteq> [] \<and> (ends_with (last ks) ''.countersig'' \<or> ends_with (last ks) ''.sha256'')"

text \<open>
  The store goes on: it is still a store, what exists stays, and, when \<open>short\<close> says that no key was
  cut, no object but a sidecar changes.
\<close>

definition keeps :: "bool \<Rightarrow> cookbook_store_fs \<Rightarrow> cookbook_store_fs \<Rightarrow> bool" where
  "keeps short s s' \<longleftrightarrow> store_inv s' \<and> root_loc s' = root_loc s \<and>
     (\<forall>k. safe_key k \<and> fs_exists s k = STORE_OK \<longrightarrow> fs_exists s' k = STORE_OK) \<and>
     (short \<longrightarrow> (\<forall>ks v. \<not> sidecar ks \<and> object_view s ks = Some v \<longrightarrow> object_view s' ks = Some v))"

lemma keeps_refl: "store_inv s \<Longrightarrow> keeps short s s"
  by (simp add: keeps_def)

lemma keeps_trans: "keeps short s s' \<Longrightarrow> keeps short s' s'' \<Longrightarrow> keeps short s s''"
  by (simp add: keeps_def)

lemma put_root_loc: "store_inv s \<Longrightarrow> safe_key key \<Longrightarrow> root_loc (snd (fs_put s key v)) = root_loc s"
  using put_nodes [of s key v "fst (fs_put s key v)" "snd (fs_put s key v)"] by (simp add: root_loc_def start_of_def)

lemma fresh_put_keeps:
  assumes "store_inv s" "safe_key key" "fs_exists s key \<noteq> STORE_OK"
  shows "keeps short s (snd (fs_put s key v))"
proof -
  obtain st s' where p: "fs_put s key v = (st, s')" by fastforce
  show ?thesis
    using put_inv [OF assms(1,2) p] put_exists [OF assms(1,2) p] put_new_place [OF assms(1,2) p assms(3)]
      put_root_loc [OF assms(1,2), of v] by (simp add: keeps_def p)
qed

lemma ends_with_append: "ends_with (c @ e) e"
  by (simp add: ends_with_def)

lemma put_sidecar_keeps:
  assumes "store_inv s" "no_dotdot key" "last (parts key) \<noteq> ''.''" "e \<in> {''.countersig'', ''.sha256''}"
    and "short \<longrightarrow> length key \<le> 500"
  shows "keeps short s (snd (fs_put s (bounded 512 (key @ e)) v))"
proof -
  let ?k = "bounded 512 (key @ e)"
  obtain st s' where p: "fs_put s ?k v = (st, s')" by fastforce
  obtain f where e: "e = CHR ''.'' # f" "CHR ''.'' \<notin> set f" "CHR ''/'' \<notin> set e" "2 \<le> length e" "length e \<le> 11"
    using assms(4) by auto
  have k: "safe_key ?k"
    using no_up_safe [OF no_up_take [OF no_up_ext [OF assms(2) e(2) assms(3)]]] by (simp add: e(1) bounded_def)
  have "object_view s' ks = Some w" if "short" "\<not> sidecar ks" "object_view s ks = Some w" for ks w
  proof -
    have "?k = key @ e" using assms(5) that(1) e(5) by (intro bounded_id) simp
    moreover obtain js c where "place (key @ e) = js @ [c @ e]" using e(3,4) by (rule place_ext)
    ultimately have "ks \<noteq> place ?k" using that(2) assms(4) ends_with_append by (auto simp: sidecar_def)
    with put_view(2) [OF assms(1) k p, of ks] that(3) show ?thesis by simp
  qed
  with put_inv [OF assms(1) k p] put_exists [OF assms(1) k p] put_root_loc [OF assms(1) k, of v] show ?thesis
    by (simp add: keeps_def p)
qed

text \<open>An object that was added can be taken out again.\<close>

lemma del_new_keeps:
  assumes s: "store_inv s" and kept: "keeps short s s2" and key: "safe_key key" "place key \<noteq> []"
    and free: "node_at (st_fs s) (root_loc s @ place key) = None"
  shows "keeps short s (snd (fs_del s2 key))"
proof -
  obtain st s3 where d: "fs_del s2 key = (st, s3)" by fastforce
  have s2: "store_inv s2" using kept by (simp add: keeps_def)
  have "fs_exists s3 k = STORE_OK" if "safe_key k" "fs_exists s k = STORE_OK" for k
  proof (rule del_exists [OF s2 key d that(1)])
    show "place k \<noteq> place key" using that free exists_iff [OF s that(1)] by auto
    show "fs_exists s2 k = STORE_OK" using kept that by (simp add: keeps_def)
  qed
  moreover have "object_view s3 ks = Some v" if "short" "\<not> sidecar ks" "object_view s ks = Some v" for ks v
  proof -
    have "ks \<noteq> place key" using that(3) free by (auto simp: object_view_def)
    then show ?thesis using del_view(2) [OF s2 key d] kept that by (simp add: keeps_def)
  qed
  moreover have "root_loc s3 = root_loc s"
    using del_root [OF d] root_loc_fs [of "st_fs s3" s2] kept by (metis keeps_def)
  ultimately show ?thesis using del_inv [OF s2 key d] by (simp add: keeps_def d)
qed

lemma countersign_keeps:
  assumes "store_inv (srv_store srv)" "no_dotdot key" "last (parts key) \<noteq> ''.''" "short \<longrightarrow> length key \<le> 500"
  shows "keeps short (srv_store srv) (srv_store (countersign env key sha srv))"
  using put_sidecar_keeps [OF assms(1-3), of "''.countersig''" short] assms(4) keeps_refl [OF assms(1), of short]
  by (auto simp: countersign_def split: option.splits)

lemma register_descriptor_keeps:
  assumes s: "store_inv s" and kept: "keeps short s (srv_store srv)"
    and key: "no_dotdot key" "last (parts key) \<noteq> ''.''" "place key \<noteq> []" "short \<longrightarrow> length key \<le> 500"
    and free: "node_at (st_fs s) (root_loc s @ place key) = None"
  shows "keeps short s (srv_store (snd (register_descriptor env sub key t sha body srv)))"
proof -
  have "store_inv (srv_store srv)" using kept by (simp add: keeps_def)
  note put = keeps_trans [OF kept put_sidecar_keeps [OF this key(1,2) _ key(4), of "''.sha256''"]]
    and del = del_new_keeps [OF s kept no_up_safe [OF no_dotdot_up [OF key(1)]] key(3) free]
  show ?thesis using kept put del by (auto simp: register_descriptor_def Let_def split: option.splits)
qed

lemma store_upload_keeps:
  assumes s: "store_inv (srv_store srv)" and new: "fs_exists (srv_store srv) key \<noteq> STORE_OK"
    and key: "no_dotdot key" "place key \<noteq> []" "short \<longrightarrow> length key \<le> 500"
  shows "keeps short (srv_store srv) (srv_store (snd (store_upload env sub key g a v fn body srv)))"
proof -
  let ?s = "srv_store srv"
  have safe: "safe_key key" by (rule no_up_safe [OF no_dotdot_up [OF key(1)]])
  obtain st srv1 where p: "srv_put key body srv = (st, srv1)" by fastforce
  then have fp: "fs_put ?s key body = (st, srv_store srv1)" by (auto simp: srv_put_def split: prod.splits)
  have k1: "keeps short ?s (srv_store srv1)" using fresh_put_keeps [OF s safe new, of short body] fp by simp
  show ?thesis
  proof (cases "st = STORE_OK")
    case False
    with k1 p show ?thesis by (simp add: store_upload_def Let_def)
  next
    case True
    have free: "node_at (st_fs ?s) (root_loc ?s @ place key) = None" using put_new_place [OF s safe fp new] True by blast
    have no_dot: "last (parts key) \<noteq> ''.''" using s safe fp by (cases rule: put_cases) (auto simp: True)
    define srv2 where "srv2 = countersign env key (sha_hex body) srv1"
    have k2: "keeps short ?s (srv_store srv2)"
      using keeps_trans [OF k1 countersign_keeps [OF _ key(1) no_dot key(3)]] k1 by (simp add: srv2_def keeps_def)
    have "keeps short ?s (srv_store (snd (register_descriptor env sub key t (sha_hex body) body srv2)))" for t
      by (rule register_descriptor_keeps [OF s k2 key(1) no_dot key(2,3) free])
    with k2 p True show ?thesis
      by (auto simp: store_upload_def Let_def counters srv2_def [symmetric] split: prod.splits option.splits)
         (metis snd_conv)+
  qed
qed

lemma artifact_put_keeps:
  assumes "store_inv (srv_store srv)" "no_dotdot key" "place key \<noteq> []" "short \<longrightarrow> length key \<le> 500"
  shows "keeps short (srv_store srv) (srv_store (snd (artifact_put env sub key g a v fn sc srv)))"
  using store_upload_keeps [OF assms(1) _ assms(2-4)] keeps_refl [OF assms(1)]
  by (auto simp: artifact_put_def counters split: option.splits)

end
