(* ===== verification/Serve.thy ===== *)
theory Serve
  imports Publish
begin

text \<open>
  Reading, \<^verbatim>\<open>src/src/main/c/cookbook_server.c\<close>: downloads with the installed view of a
  descriptor, content negotiation and the search at peers, the resolution of a version range, the
  artifact handler as a whole, and the probes. A handler returns its response and the new state;
  \<open>None\<close> where the code leaves defined behaviour.
\<close>

section \<open>The installed view of a descriptor\<close>

definition build_only :: "string list" where
  "build_only = [''build'', ''test'', ''dev-dependencies'', ''scripts'', ''bench'', ''ci'', ''hooks'', ''profile'']"

definition is_build_only_field :: "string \<Rightarrow> bool" where
  "is_build_only_field key \<longleftrightarrow> key \<in> set build_only"

text \<open>Each kept value is written and parsed again to copy it.\<close>

definition copy_value :: "environment \<Rightarrow> pasta_value \<Rightarrow> pasta_value option" where
  "copy_value env v = Option.bind (env_write env COMPACT v) (\<lambda>t. env_parse env (c_str t))"

definition strip_field :: "environment \<Rightarrow> string \<times> pasta_value \<Rightarrow> (string \<times> pasta_value) list \<Rightarrow> (string \<times> pasta_value) list" where
  "strip_field env = (\<lambda>(k, v) kvs.
     if is_build_only_field k then kvs
     else case copy_value env v of None \<Rightarrow> kvs | Some w \<Rightarrow> entry_put kvs k w)"

definition strip_descriptor :: "environment \<Rightarrow> byte list \<Rightarrow> byte list option" where
  "strip_descriptor env body =
     (case env_parse env (string_of body) of
        Some (PMap kvs) \<Rightarrow>
          map_option (\<lambda>t. bytes_of (c_str t)) (env_write env COMPACT_SORTED (PMap (fold (strip_field env) kvs [])))
      | _ \<Rightarrow> None)"

section \<open>Searching the peers\<close>

text \<open>The headers with the grants of the token; \<open>None\<close> when building them writes out of bounds.\<close>

definition grant_headers_of :: "cookbook_jwt_claims \<Rightarrow> string option option" where
  "grant_headers_of claims =
     (case build_grid_grant_headers claims of
        None \<Rightarrow> Some None
      | Some None \<Rightarrow> None
      | Some (Some h) \<Rightarrow> Some (Some h))"

definition load_peers :: "cookbook_server \<Rightarrow> cookbook_peer list \<times> cookbook_server" where
  "load_peers srv = (let (ps, db) = cookbook_grid_load_peers (srv_db srv) in (ps, srv\<lparr>srv_db := db\<rparr>))"

text \<open>The first peer that has the file: a redirect to it, or its content.\<close>

definition ask_artifact :: "environment \<Rightarrow> string \<Rightarrow> string option \<Rightarrow> cookbook_peer \<Rightarrow> response option" where
  "ask_artifact env path hdrs peer =
     (let grid_path = bounded 2048 (''/grid/artifact/'' @ path)
      in if peer_mode peer = CHR ''r'' then
           (case env_peer env peer ''HEAD'' grid_path hdrs of
              Some (status, _) \<Rightarrow>
                if status \<noteq> 200 then None else Some (Send_body 307 [(''Location'', bounded 2048 (peer_url peer @ ''/artifact/'' @ path)),
                  (''X-Cookbook-Source'', peer_id peer), (''Content-Length'', ''0'')] [])
            | None \<Rightarrow> None)
         else
           (case env_peer env peer ''GET'' grid_path hdrs of
              Some (status, Some body) \<Rightarrow>
                if status \<noteq> 200 then None else Some (Send_body 200 [(''Content-Type'', ''application/octet-stream''),
                  (''Content-Length'', show_nat (length body)), (''X-Cookbook-Source'', peer_id peer)] body)
            | _ \<Rightarrow> None))"

fun artifact_fan_out :: "environment \<Rightarrow> string \<Rightarrow> string option \<Rightarrow> cookbook_peer list \<Rightarrow> response option" where
  "artifact_fan_out env path hdrs [] = None"
| "artifact_fan_out env path hdrs (p # ps) =
     (case ask_artifact env path hdrs p of Some r \<Rightarrow> Some r | None \<Rightarrow> artifact_fan_out env path hdrs ps)"

definition is_local_request :: "cookbook_server \<Rightarrow> shim_request_info \<Rightarrow> bool" where
  "is_local_request srv ri \<longleftrightarrow> srv_grid_enabled srv \<and> grid_get_via (http_headers ri) = None"

section \<open>Downloads\<close>

definition query_has :: "shim_request_info \<Rightarrow> string \<Rightarrow> bool" where
  "query_has ri t = (case query_string ri of None \<Rightarrow> False | Some q \<Rightarrow> strstr q t \<noteq> None)"

definition pasta_type_text :: string where
  "pasta_type_text = ''application/x-pasta; charset=US-ASCII''"

definition content_type_of :: "string \<Rightarrow> string \<Rightarrow> string" where
  "content_type_of path filename =
     (if strstr path ''.sha256'' \<noteq> None then ''text/plain''
      else if strstr path ''.sig'' \<noteq> None then ''application/octet-stream''
      else if filename = ''now.pasta'' then pasta_type_text
      else if strstr path ''.tar.gz'' \<noteq> None then ''application/gzip''
      else if strstr path ''.tar.zst'' \<noteq> None then ''application/zstd''
      else ''application/octet-stream'')"

definition serves_pasta :: "string \<Rightarrow> string \<Rightarrow> bool" where
  "serves_pasta path filename \<longleftrightarrow>
     strstr path ''.sha256'' = None \<and> strstr path ''.sig'' = None \<and> filename = ''now.pasta''"

definition flag_one :: "int \<Rightarrow> bool" where
  "flag_one v \<longleftrightarrow> hd (show_int v) = CHR ''1''"

definition yanked_hdrs :: "string \<Rightarrow> string \<Rightarrow> string \<Rightarrow> cookbook_server \<Rightarrow> (string \<times> string) list \<times> cookbook_server" where
  "yanked_hdrs g a v srv =
     (let (rows, srv) = srv_rows (\<lambda>db. take 1 (filter (same_version g a v) (db_artifacts db))) srv
      in (case rows of
            Some [r] \<Rightarrow>
              if flag_one (art_yanked r) then
                (''X-Now-Yanked'', ''true'') #
                (case art_yank_reason r of
                   Some t \<Rightarrow> if t \<noteq> [] then [(''X-Now-Yank-Reason'', bounded 256 t)] else []
                 | None \<Rightarrow> [])
              else []
          | _ \<Rightarrow> [], srv))"

text \<open>The descriptor in the form the client prefers, when one other than the stored one can be made.\<close>

definition converted ::
  "environment \<Rightarrow> shim_request_info \<Rightarrow> (string \<times> string) list \<Rightarrow> content_pref \<Rightarrow> byte list \<Rightarrow> (response \<times> nat) option" where
  "converted env ri yh pref data =
     (let parsed = env_parse env (string_of data);
          json = (if pref = CT_JSON then map_option (\<lambda>d. bytes_of (c_str (pasta_to_json (env_fmt_double env) d))) parsed else None)
      in case json of
           Some j \<Rightarrow>
             Some (Send_body 200 ([(''Content-Type'', ''application/json''), (''Content-Length'', show_nat (length j))] @ yh) j, length j)
         | None \<Rightarrow>
             if query_has ri ''pretty''
             then map_option (\<lambda>t. let b = bytes_of (c_str t) in (send_response_gzip env ri 200 pasta_type_text yh b, length b))
                    (Option.bind parsed (env_write env PRETTY_SORTED))
             else None)"

definition not_acceptable :: "string \<Rightarrow> response" where
  "not_acceptable kinds = text_json 406 (''Not Acceptable '' @ em_dash @ '' supported: '' @ kinds)"

definition serve_object ::
  "environment \<Rightarrow> shim_request_info \<Rightarrow> string \<Rightarrow> string \<Rightarrow> string \<Rightarrow> string \<Rightarrow> string \<Rightarrow> byte list \<Rightarrow> cookbook_server \<Rightarrow> response \<times> cookbook_server" where
  "serve_object env ri path g a v filename data srv =
     (let (yh, srv) = yanked_hdrs g a v srv;
          is_pasta = serves_pasta path filename;
          data = (if is_pasta then (case strip_descriptor env data of Some d \<Rightarrow> d | None \<Rightarrow> data) else data);
          pref = parse_accept (env_atof env) ri;
          raw = (Send_body 200 ([(''Content-Type'', content_type_of path filename),
                   (''Content-Length'', show_nat (length data))] @ yh) data, length data)
      in if is_pasta \<and> pref = CT_UNKNOWN
         then (not_acceptable ''application/x-pasta, application/json, text/plain'', inc_4xx srv)
         else (let (r, n) = (if is_pasta then (case converted env ri yh pref data of Some c \<Rightarrow> c | None \<Rightarrow> raw) else raw)
               in (r, add_downloaded (int n) (inc_2xx srv))))"

definition serve_repro :: "environment \<Rightarrow> shim_request_info \<Rightarrow> string \<Rightarrow> cookbook_server \<Rightarrow> response \<times> cookbook_server" where
  "serve_repro env ri key srv =
     (case fs_get (srv_store srv) (bounded 512 (key @ ''.repro'')) of
        (STORE_OK, data) \<Rightarrow> (send_response_gzip env ri 200 pasta_type_text [] data, inc_2xx srv)
      | _ \<Rightarrow> (text_json 404 ''No reproducibility attestation found'', inc_4xx srv))"

definition fan_out_or_404 ::
  "environment \<Rightarrow> shim_request_info \<Rightarrow> cookbook_jwt_claims \<Rightarrow> string \<Rightarrow> cookbook_server \<Rightarrow> (response \<times> cookbook_server) option" where
  "fan_out_or_404 env ri claims path srv =
     (if \<not> is_local_request srv ri then Some (text_json 404 ''Not found'', srv)
      else do {
        hdrs \<leftarrow> grant_headers_of claims;
        let (peers, srv) = load_peers srv;
        Some (case artifact_fan_out env path hdrs peers of Some r \<Rightarrow> r | None \<Rightarrow> text_json 404 ''Not found'', srv)
      })"

definition artifact_get ::
  "environment \<Rightarrow> shim_request_info \<Rightarrow> cookbook_jwt_claims \<Rightarrow> string \<Rightarrow> string \<Rightarrow> string \<Rightarrow> string \<Rightarrow> string \<Rightarrow> string \<Rightarrow> cookbook_server \<Rightarrow>
   (response \<times> cookbook_server) option" where
  "artifact_get env ri claims path key g a v filename srv =
     (if query_has ri ''repro'' then Some (serve_repro env ri key srv)
      else case fs_get (srv_store srv) key of
        (STORE_OK, data) \<Rightarrow> Some (serve_object env ri path g a v filename data srv)
      | (STORE_NOT_FOUND, _) \<Rightarrow> fan_out_or_404 env ri claims path srv
      | _ \<Rightarrow> Some (text_json 500 ''Storage error'', srv))"

section \<open>The artifact handler\<close>

text \<open>
  The last three parts of the path are artifact, version and file, what is before them is the
  group. The value is \<open>None\<close> when the search for the third slash starts before the path.
\<close>

definition split_artifact_path :: "string \<Rightarrow> (string \<times> string \<times> string \<times> string) option option" where
  "split_artifact_path path =
     (if CHR ''/'' \<notin> set path then Some None
      else (let h3 = before_last (CHR ''/'') path; filename = after_last (CHR ''/'') path
            in if h3 = [] \<or> CHR ''/'' \<notin> set h3 then Some None
               else (let h2 = before_last (CHR ''/'') h3; version = after_last (CHR ''/'') h3
                     in if h2 = [] then None
                        else if CHR ''/'' \<notin> set h2 then Some None
                        else Some (Some (slash_to_dot (before_last (CHR ''/'') h2), after_last (CHR ''/'') h2, version, filename)))))"

definition count_request :: "string \<Rightarrow> cookbook_server \<Rightarrow> cookbook_server" where
  "count_request m srv =
     (let srv = inc_total srv
      in if m = ''GET'' then inc_get srv else if m = ''PUT'' then inc_put srv else if m = ''POST'' then inc_post srv else srv)"

definition artifact_access ::
  "environment \<Rightarrow> string \<Rightarrow> string \<Rightarrow> string \<Rightarrow> string \<Rightarrow> string \<Rightarrow> shim_connection \<Rightarrow> cookbook_server \<Rightarrow> (response \<times> cookbook_server) option" where
  "artifact_access env path g a v filename sc srv =
     (let ri = sc_ri sc
      in case require_auth_v2 env srv ri g (if request_method ri = ''PUT'' then CHR ''c'' else CHR ''r'') of
           (Inl r, srv) \<Rightarrow> Some (r, srv)
         | (Inr claims, srv) \<Rightarrow>
             (let key = srv_registry_id srv @ ''/'' @ path
              in if request_method ri = ''GET'' then artifact_get env ri claims path key g a v filename srv
                 else if request_method ri = ''PUT'' then Some (artifact_put env (claim_sub claims) key g a v filename sc srv)
                 else Some (text_json 405 ''Method not allowed'', srv)))"

definition handle_artifact :: "environment \<Rightarrow> shim_connection \<Rightarrow> cookbook_server \<Rightarrow> (response \<times> cookbook_server) option" where
  "handle_artifact env sc srv =
     (let ri = sc_ri sc; srv = count_request (request_method ri) srv
      in case path_after (local_uri ri) ''/artifact/'' of
           None \<Rightarrow> Some (text_json 400 ''Bad request'', srv)
         | Some path \<Rightarrow>
             if \<not> validate_path_segment path then Some (text_json 400 ''Invalid path'', srv)
             else if length path > 5 \<and> ends_with path ''/yank'' \<and> request_method ri = ''POST''
             then Some (handle_yank env (take (length path - 5) path) sc srv)
             else do {
               parts \<leftarrow> split_artifact_path path;
               (case parts of
                  None \<Rightarrow> Some (text_json 400 ''Malformed artifact path'', srv)
                | Some (g, a, v, filename) \<Rightarrow> artifact_access env path g a v filename sc srv)
             })"

section \<open>Resolving a range\<close>

record resolve_row =
  rr_version :: string
  rr_snapshot :: int
  rr_triple :: string
  rr_yanked :: int
  rr_yank_reason :: "string option"

text \<open>Artifacts joined with their version numbers, in falling order of the numbers.\<close>

definition resolve_rows :: "string \<Rightarrow> string \<Rightarrow> bool \<Rightarrow> cookbook_db \<Rightarrow> resolve_row list" where
  "resolve_rows g a include_yanked db =
     map (\<lambda>(r, s). \<lparr>rr_version = art_version r, rr_snapshot = art_snapshot r, rr_triple = art_triple r,
            rr_yanked = art_yanked r, rr_yank_reason = art_yank_reason r\<rparr>)
       (sort_key (\<lambda>(r, s). (- sv_major s, - sv_minor s, - sv_patch s))
          (concat (map (\<lambda>r. map (\<lambda>s. (r, s)) (filter (\<lambda>s. sv_coord_id s = coord_id r) (db_artifact_semver db)))
             (filter (\<lambda>r. art_group_id r = g \<and> art_artifact r = a \<and> art_status r = ''published'' \<and>
                 (include_yanked \<or> art_yanked r = 0)) (db_artifacts db)))))"

definition row_matches :: "cookbook_range \<Rightarrow> bool \<Rightarrow> resolve_row \<Rightarrow> bool" where
  "row_matches rng include_snapshots r \<longleftrightarrow>
     (include_snapshots \<or> \<not> flag_one (rr_snapshot r)) \<and>
     (case cookbook_semver_parse (rr_version r) of None \<Rightarrow> False | Some sv \<Rightarrow> cookbook_range_satisfies rng sv)"

definition bool_text :: "bool \<Rightarrow> string" where
  "bool_text b = (if b then ''true'' else ''false'')"

definition row_json :: "bool \<Rightarrow> resolve_row \<Rightarrow> string" where
  "row_json include_yanked r =
     (let yanked = include_yanked \<and> flag_one (rr_yanked r);
          reason = (case rr_yank_reason r of None \<Rightarrow> [] | Some t \<Rightarrow> t)
      in ''{'' @ json_pair ''version'' (rr_version r) @ '','' @ quote ''snapshot'' @ '':'' @ bool_text (flag_one (rr_snapshot r)) @
         '','' @ quote ''triples'' @ '':['' @ quote (rr_triple r) @ '']'' @
         (if yanked then '','' @ quote ''yanked'' @ '':true'' @
            (if reason \<noteq> [] then '','' @ json_pair ''yank_reason'' reason else []) else []) @ ''}'')"

definition resolve_filter_cb ::
  "cookbook_range \<Rightarrow> bool \<Rightarrow> bool \<Rightarrow> resolve_row \<Rightarrow> cbuf \<times> nat \<Rightarrow> (cbuf \<times> nat) option" where
  "resolve_filter_cb rng include_snapshots include_yanked r = (\<lambda>(b, count).
     if \<not> row_matches rng include_snapshots r then Some (b, count)
     else do {
       b \<leftarrow> (if count > 0 then snprintf_at '','' b else Some b);
       b \<leftarrow> snprintf_at (row_json include_yanked r) b;
       Some (b, count + 1)
     })"

fun resolve_loop :: "cookbook_range \<Rightarrow> bool \<Rightarrow> bool \<Rightarrow> resolve_row list \<Rightarrow> cbuf \<times> nat \<Rightarrow> (cbuf \<times> nat) option" where
  "resolve_loop rng sn yk [] st = Some st"
| "resolve_loop rng sn yk (r # rs) st = do { st \<leftarrow> resolve_filter_cb rng sn yk r st; resolve_loop rng sn yk rs st }"

text \<open>The versions a peer answers with: what is between the start of its array and the last bracket.\<close>

definition peer_versions :: "string \<Rightarrow> string option" where
  "peer_versions body = do {
     vs \<leftarrow> strstr body (quote ''versions'' @ '':['');
     let vs = drop 12 vs;
     if CHR '']'' \<notin> set vs \<or> before_last (CHR '']'') vs = [] then None else Some (before_last (CHR '']'') vs)
   }"

definition ask_resolve :: "environment \<Rightarrow> string \<Rightarrow> string option \<Rightarrow> cookbook_peer \<Rightarrow> string option" where
  "ask_resolve env grid_path hdrs peer =
     (case env_peer env peer ''GET'' grid_path hdrs of
        Some (status, Some body) \<Rightarrow>
          if status \<noteq> 200 then None
          else (case peer_versions (c_string body) of
             Some vs \<Rightarrow> if length vs < 8191 then Some vs else None
           | None \<Rightarrow> None)
      | _ \<Rightarrow> None)"

fun resolve_fan_out :: "environment \<Rightarrow> string \<Rightarrow> string option \<Rightarrow> cookbook_peer list \<Rightarrow> string" where
  "resolve_fan_out env grid_path hdrs [] = []"
| "resolve_fan_out env grid_path hdrs (p # ps) =
     (case ask_resolve env grid_path hdrs p of Some vs \<Rightarrow> vs | None \<Rightarrow> resolve_fan_out env grid_path hdrs ps)"

definition resolve_grid_path :: "string \<Rightarrow> shim_request_info \<Rightarrow> string" where
  "resolve_grid_path path ri =
     (let p = bounded 2048 (''/grid/resolve/'' @ path)
      in case query_string ri of
           Some q \<Rightarrow> if q \<noteq> [] then bounded 2048 (p @ ''?'' @ q) else p
         | None \<Rightarrow> p)"

definition versions_json :: "string \<Rightarrow> string" where
  "versions_json t = bounded 8320 (''{'' @ quote ''versions'' @ '':['' @ t @ '']}'' @ nl)"

definition resolve_reply ::
  "environment \<Rightarrow> shim_request_info \<Rightarrow> string \<Rightarrow> string \<Rightarrow> string \<Rightarrow> cookbook_server \<Rightarrow> response \<times> cookbook_server" where
  "resolve_reply env ri sub path text srv =
     (let srv = audit_log env ''resolve'' sub path ''ok'' (inc_resolved (inc_2xx srv));
          pref = parse_accept (env_atof env) ri;
          response = versions_json text;
          mode = (if query_has ri ''pretty'' then PRETTY_SORTED else COMPACT_SORTED)
      in if pref = CT_UNKNOWN then (not_acceptable ''application/x-pasta, application/json'', inc_4xx srv)
         else case (if pref = CT_PASTA then Option.bind (env_parse env response) (env_write env mode) else None) of
           Some t \<Rightarrow> (send_response_gzip env ri 200 pasta_type_text [] (bytes_of (c_str t)), srv)
         | None \<Rightarrow> (Send_json 200 response, srv))"

definition resolve_query ::
  "environment \<Rightarrow> shim_request_info \<Rightarrow> cookbook_jwt_claims \<Rightarrow> string \<Rightarrow> string \<Rightarrow> string \<Rightarrow> cookbook_range \<Rightarrow> cookbook_server \<Rightarrow>
   (response \<times> cookbook_server) option" where
  "resolve_query env ri claims path g a rng srv =
     (let sn = query_has ri ''snapshot=true''; yk = query_has ri ''include_yanked=true'';
          (rows, srv) = srv_rows (resolve_rows g a yk) srv
      in case rows of
           None \<Rightarrow> Some (text_json 500 ''Database error'', inc_5xx srv)
         | Some rows \<Rightarrow> do {
             (b, count) \<leftarrow> resolve_loop rng sn yk rows (cbuf_new 8192, 0);
             if count = 0 \<and> is_local_request srv ri then do {
               hdrs \<leftarrow> grant_headers_of claims;
               let (peers, srv) = load_peers srv;
               Some (resolve_reply env ri (claim_sub claims) path
                 (resolve_fan_out env (resolve_grid_path path ri) hdrs peers) srv)
             } else Some (resolve_reply env ri (claim_sub claims) path (cb_text b) srv)
           })"

definition handle_resolve :: "environment \<Rightarrow> shim_connection \<Rightarrow> cookbook_server \<Rightarrow> (response \<times> cookbook_server) option" where
  "handle_resolve env sc srv =
     (let ri = sc_ri sc; srv = inc_get (inc_total srv)
      in if request_method ri \<noteq> ''GET'' then Some (text_json 405 ''Method not allowed'', inc_4xx srv)
         else case path_after (local_uri ri) ''/resolve/'' of
           None \<Rightarrow> Some (text_json 400 ''Bad request'', srv)
         | Some path \<Rightarrow>
             (case split_coord path of
                None \<Rightarrow> Some (text_json 400 ''Malformed path'', srv)
              | Some (g, a, range_str) \<Rightarrow>
                  if \<not> validate_group g \<or> \<not> validate_artifact a
                  then Some (text_json 400 ''Invalid group or artifact identifier'', srv)
                  else (case require_auth_v2 env srv ri g (CHR ''r'') of
                          (Inl r, srv) \<Rightarrow> Some (r, srv)
                        | (Inr claims, srv) \<Rightarrow>
                            (case cookbook_range_parse range_str of
                               None \<Rightarrow> Some (text_json 400 ''Malformed range string'', srv)
                             | Some rng \<Rightarrow> resolve_query env ri claims path g a rng srv))))"

end
