(* ===== verification/Caches.thy ===== *)
theory Caches
  imports Serve
begin

text \<open>
  The object and graph caches and the probes of \<^verbatim>\<open>src/src/main/c/cookbook_server.c\<close>. The caches keep
  their files in the same store as the artifacts, under the names \<open>objects\<close> and \<open>graphs\<close>.
\<close>

section \<open>The object cache\<close>

definition object_key :: "cookbook_server \<Rightarrow> string \<Rightarrow> string" where
  "object_key srv ck = srv_registry_id srv @ ''/objects/'' @ ck"

definition graph_key :: "cookbook_server \<Rightarrow> string \<Rightarrow> string" where
  "graph_key srv gk = srv_registry_id srv @ ''/graphs/'' @ gk"

definition replace_cache_row :: "object_cache_row \<Rightarrow> cookbook_db \<Rightarrow> cookbook_db_status \<times> cookbook_db" where
  "replace_cache_row r db = (DB_OK, db\<lparr>db_object_cache := row_replace oc_cache_key r (db_object_cache db)\<rparr>)"

definition octets :: "byte list \<Rightarrow> (string \<times> string) list" where
  "octets data = [(''Content-Type'', ''application/octet-stream''), (''Content-Length'', show_nat (length data))]"

definition head_missing :: response where
  "head_missing = Send_body 404 [(''Content-Length'', ''0'')] []"

definition objects_get :: "string \<Rightarrow> cookbook_server \<Rightarrow> response \<times> cookbook_server" where
  "objects_get key srv =
     (let srv = inc_get srv; (st, data) = fs_get (srv_store srv) key
      in if st = STORE_NOT_FOUND then (text_json 404 ''Object not found'', inc_4xx srv)
         else (Send_ok ''application/octet-stream'' data, add_downloaded (int (length data)) (inc_2xx srv)))"

definition objects_head :: "string \<Rightarrow> cookbook_server \<Rightarrow> response \<times> cookbook_server" where
  "objects_head key srv =
     (let srv = inc_get srv; (st, data) = fs_get (srv_store srv) key
      in (if st = STORE_NOT_FOUND then head_missing else Send_body 200 (octets data) [], srv))"

text \<open>The upload of a body that was read, and its row for the eviction.\<close>

definition cache_object :: "environment \<Rightarrow> string \<Rightarrow> string \<Rightarrow> string \<Rightarrow> byte list \<Rightarrow> cookbook_server \<Rightarrow> response \<times> cookbook_server" where
  "cache_object env sub ck key body srv =
     (let (st, srv) = srv_put key body srv
      in if st \<noteq> STORE_OK then (text_json 500 ''Store write failed'', srv)
         else (let srv = add_uploaded (int (length body)) (inc_2xx srv);
                   srv = snd (srv_exec (replace_cache_row \<lparr>oc_cache_key = ck, oc_store_key = key,
                           oc_size_bytes = int (length body), oc_created_at = env_now env\<rparr>) srv)
               in (Send_json 201 (''{'' @ json_pair ''status'' ''stored'' @ ''}'' @ nl), audit_log env ''objects'' sub ck ''stored'' srv)))"

definition objects_put ::
  "environment \<Rightarrow> string \<Rightarrow> string \<Rightarrow> shim_connection \<Rightarrow> cookbook_server \<Rightarrow> response \<times> cookbook_server" where
  "objects_put env ck key sc srv =
     (case require_auth_v2 env (inc_put srv) (sc_ri sc) ''_objects'' (CHR ''c'') of
        (Inl r, srv) \<Rightarrow> (r, srv)
      | (Inr claims, srv) \<Rightarrow>
          (case fst (read_body (if srv_max_upload_bytes srv > 0 then srv_max_upload_bytes srv else 256 * 1024 * 1024) sc) of
             None \<Rightarrow> (text_json 400 ''Empty body'', inc_4xx srv)
           | Some body \<Rightarrow> cache_object env (claim_sub claims) ck key body srv))"

definition handle_objects :: "environment \<Rightarrow> shim_connection \<Rightarrow> cookbook_server \<Rightarrow> response \<times> cookbook_server" where
  "handle_objects env sc srv =
     (let ri = sc_ri sc; srv = inc_total srv
      in case path_after (local_uri ri) ''/objects/'' of
           None \<Rightarrow> (text_json 400 ''Missing cache key'', inc_4xx srv)
         | Some ck \<Rightarrow>
             if ck = [] then (text_json 400 ''Missing cache key'', inc_4xx srv)
             else if \<not> validate_path_segment ck then (text_json 400 ''Invalid cache key'', inc_4xx srv)
             else if request_method ri = ''GET'' then objects_get (object_key srv ck) srv
             else if request_method ri = ''HEAD'' then objects_head (object_key srv ck) srv
             else if request_method ri = ''PUT'' then objects_put env ck (object_key srv ck) sc srv
             else (text_json 405 ''Method not allowed'', inc_4xx srv))"

section \<open>The graph cache\<close>

definition graphs_get :: "environment \<Rightarrow> shim_request_info \<Rightarrow> string \<Rightarrow> cookbook_server \<Rightarrow> response \<times> cookbook_server" where
  "graphs_get env ri key srv =
     (let srv = inc_get srv; (st, data) = fs_get (srv_store srv) key
      in if st = STORE_NOT_FOUND then (text_json 404 ''Graph not found'', inc_4xx srv)
         else (send_response_gzip env ri 200 pasta_type_text [] data, inc_2xx srv))"

definition graphs_head :: "string \<Rightarrow> cookbook_server \<Rightarrow> response \<times> cookbook_server" where
  "graphs_head key srv =
     (let srv = inc_get srv; (st, data) = fs_get (srv_store srv) key
      in (if st = STORE_NOT_FOUND then head_missing
          else Send_body 200 [(''Content-Type'', pasta_type_text), (''Content-Length'', show_nat (length data)),
                 (''X-Graph-Age'', ''0'')] [], srv))"

definition cache_graph :: "environment \<Rightarrow> string \<Rightarrow> string \<Rightarrow> string \<Rightarrow> byte list \<Rightarrow> cookbook_server \<Rightarrow> response \<times> cookbook_server" where
  "cache_graph env sub gk key body srv =
     (let (st, srv) = srv_put key body srv
      in if st \<noteq> STORE_OK then (text_json 500 ''Store write failed'', srv)
         else (Send_json 201 (''{'' @ json_pair ''status'' ''stored'' @ ''}'' @ nl),
               audit_log env ''access'' sub gk ''graph-stored'' (inc_2xx srv)))"

definition graphs_put ::
  "environment \<Rightarrow> string \<Rightarrow> string \<Rightarrow> shim_connection \<Rightarrow> cookbook_server \<Rightarrow> response \<times> cookbook_server" where
  "graphs_put env gk key sc srv =
     (case require_auth_v2 env (inc_put srv) (sc_ri sc) ''_graphs'' (CHR ''c'') of
        (Inl r, srv) \<Rightarrow> (r, srv)
      | (Inr claims, srv) \<Rightarrow>
          (case fst (read_body (if srv_max_upload_bytes srv > 0 then srv_max_upload_bytes srv else 64 * 1024) sc) of
             None \<Rightarrow> (text_json 400 ''Empty body'', inc_4xx srv)
           | Some body \<Rightarrow> cache_graph env (claim_sub claims) gk key body srv))"

definition handle_graphs :: "environment \<Rightarrow> shim_connection \<Rightarrow> cookbook_server \<Rightarrow> response \<times> cookbook_server" where
  "handle_graphs env sc srv =
     (let ri = sc_ri sc; srv = inc_total srv
      in case path_after (local_uri ri) ''/graphs/'' of
           None \<Rightarrow> (text_json 400 ''Missing graph key'', inc_4xx srv)
         | Some gk \<Rightarrow>
             if gk = [] then (text_json 400 ''Missing graph key'', inc_4xx srv)
             else if \<not> validate_path_segment gk then (text_json 400 ''Invalid graph key'', inc_4xx srv)
             else if request_method ri = ''GET'' then graphs_get env ri (graph_key srv gk) srv
             else if request_method ri = ''HEAD'' then graphs_head (graph_key srv gk) srv
             else if request_method ri = ''PUT'' then graphs_put env gk (graph_key srv gk) sc srv
             else (text_json 405 ''Method not allowed'', inc_4xx srv))"

section \<open>Probes\<close>

definition handle_healthz :: "cookbook_server \<Rightarrow> response \<times> cookbook_server" where
  "handle_healthz srv = (Send_json 200 (''{'' @ json_pair ''status'' ''ok'' @ ''}'' @ nl), srv)"

definition sentinel :: string where
  "sentinel = ''__readyz_probe__''"

definition handle_readyz :: "shim_connection \<Rightarrow> cookbook_server \<Rightarrow> response \<times> cookbook_server" where
  "handle_readyz sc srv =
     (let not_ready = (\<lambda>why. Send_json 503 (''{'' @ json_pair ''status'' ''not ready'' @ '','' @ json_pair ''reason'' why @ ''}'' @ nl))
      in if request_method (sc_ri sc) \<noteq> ''GET'' then (text_json 405 ''Method not allowed'', srv)
         else (let (rows, srv) = srv_rows (\<lambda>db. [()]) srv
               in if rows = None then (not_ready ''database'', srv)
                  else (let (st, srv) = srv_put sentinel (bytes_of ''1'') srv
                        in if st \<noteq> STORE_OK then (not_ready ''object store'', srv)
                           else (Send_json 200 (''{'' @ json_pair ''status'' ''ready'' @ '','' @ json_pair ''db'' ''ok'' @ '','' @
                                   json_pair ''store'' ''ok'' @ ''}'' @ nl), srv_del sentinel srv))))"

definition handle_registry_key :: "shim_connection \<Rightarrow> cookbook_server \<Rightarrow> response \<times> cookbook_server" where
  "handle_registry_key sc srv =
     (if request_method (sc_ri sc) \<noteq> ''GET'' then (text_json 405 ''Method not allowed'', srv)
      else if \<not> srv_has_registry_key srv
      then (Send_json 200 (''{'' @ json_pair ''algorithm'' ''ed25519'' @ '','' @ quote ''public_key'' @ '':null,'' @
              json_pair ''status'' ''not configured'' @ ''}'' @ nl), srv)
      else (Send_json 200 (bounded 256 (''{'' @ json_pair ''algorithm'' ''ed25519'' @ '','' @
              json_pair ''public_key'' (concat (map hex_byte (srv_registry_pk srv))) @ '','' @ json_pair ''status'' ''active'' @ ''}'' @ nl)), srv))"

text \<open>The discovery document is built piece by piece and sent with the length it would have in full.\<close>

definition discovery_pieces :: "cookbook_server \<Rightarrow> string list" where
  "discovery_pieces srv =
     [''{ registry_id: '' @ quote (srv_registry_id srv)] @
     (if srv_has_registry_key srv
      then ['', auth: { enabled: true, methods: ['' @ quote ''token'' @ (if srv_ldap_url srv \<noteq> None then '', '' @ quote ''ldap'' else []) @
              (if srv_oidc_issuer srv \<noteq> None then '', '' @ quote ''oidc'' else []) @ ''], algorithm: '' @ quote ''ed25519'',
            '', public_key: '' @ quote (concat (map hex_byte (srv_registry_pk srv))) @ '' }'']
      else ['', auth: { enabled: false }'']) @
     ['', grid: { enabled: '' @ bool_text (srv_grid_enabled srv) @ '', max_hops: '' @ show_int (srv_grid_max_hops srv) @ '' }'',
      '', endpoints: ['' @ quote ''resolve'' @ '', '' @ quote ''artifact'' @ '', '' @ quote ''auth/token'' @ '', '' @ quote ''auth/revoke'' @
        '', '' @ quote ''keys'' @ '', '' @ quote ''mirror/manifest'' @ '', '' @ quote ''metrics'' @
        '', '' @ quote ''admin/credentials'' @ '', '' @ quote ''admin/groups'' @ '', '' @ quote ''admin/policies'' @
        '', '' @ quote ''admin/peers'' @ '', '' @ quote ''objects'' @ '']'',
      '', content_types: ['' @ quote ''application/x-pasta'' @ '', '' @ quote ''application/pasta'' @ '', '' @ quote ''application/json'' @ '']'',
      '' }'' @ nl]"

definition handle_registry_discovery :: "shim_connection \<Rightarrow> cookbook_server \<Rightarrow> (response \<times> cookbook_server) option" where
  "handle_registry_discovery sc srv =
     (if request_method (sc_ri sc) \<noteq> ''GET'' then Some (text_json 405 ''Method not allowed'', srv)
      else do {
        b \<leftarrow> put_all (discovery_pieces srv) (cbuf_new 2048);
        if cb_pos b > 2048 then None
        else Some (Send_body 200 [(''Content-Type'', pasta_type_text), (''Content-Length'', show_nat (cb_pos b))]
               (bytes_of (cb_text b) @ replicate (cb_pos b - length (cb_text b)) 0), srv)
      })"

end
