(* ===== verification/Frames.thy ===== *)
theory Frames
  imports Caches
begin

text \<open>
  What the handlers outside the artifact and cache routes leave alone: the object store and the four
  tables the invariant of the registry speaks about. The lemmas let a handler be followed call by call.
\<close>

definition tables :: "cookbook_db \<Rightarrow> group_row list \<times> artifact_row list \<times> semver_row list \<times> object_cache_row list" where
  "tables db = (db_groups db, db_artifacts db, db_artifact_semver db, db_object_cache db)"

definition core ::
  "cookbook_server \<Rightarrow> cookbook_store_fs \<times> string \<times> group_row list \<times> artifact_row list \<times> semver_row list \<times> object_cache_row list" where
  "core srv = (srv_store srv, srv_registry_id srv, tables (srv_db srv))"

named_theorems core_intros "a call keeps the core of the state"

lemma core_counters [simp]:
  "core (inc_total srv) = core srv" "core (inc_get srv) = core srv" "core (inc_put srv) = core srv"
  "core (inc_post srv) = core srv" "core (inc_2xx srv) = core srv" "core (inc_4xx srv) = core srv"
  "core (inc_5xx srv) = core srv" "core (inc_auth_failures srv) = core srv"
  "core (audit_log env e s t x srv) = core srv"
  by (simp_all add: core_def counters)

lemma core_fields [simp]:
  "core (srv\<lparr>srv_revocations := rl\<rparr>) = core srv" "core (srv\<lparr>srv_device_codes := dc\<rparr>) = core srv"
  "core (srv\<lparr>srv_rate_buckets := rb\<rparr>) = core srv"
  by (simp_all add: core_def)

lemma core_db: "tables db = tables (srv_db srv) \<Longrightarrow> core (srv\<lparr>srv_db := db\<rparr>) = core srv"
  by (simp add: core_def)

lemma tables_next: "db_next db = (f, db') \<Longrightarrow> tables db' = tables db"
  by (auto simp: tables_def dest: db_next_eqD)

lemma core_rows [core_intros]: "srv_rows sel srv = (rows, srv') \<Longrightarrow> core srv' = core srv"
  by (auto simp: srv_rows_def intro!: core_db dest: tables_next split: prod.splits)

lemma core_exec_snd:
  assumes "\<And>db. tables (snd (stmt db)) = tables db"
  shows "core (snd (srv_exec stmt srv)) = core srv"
proof -
  obtain f db where n: "db_next (srv_db srv) = (f, db)" by fastforce
  have "tables (snd (db_exec stmt (srv_db srv))) = tables (srv_db srv)"
    using assms [of db] tables_next [OF n] by (simp add: db_exec_def n)
  then show ?thesis by (auto simp: srv_exec_def intro!: core_db split: prod.splits)
qed

lemma core_exec: "srv_exec stmt srv = (st, srv') \<Longrightarrow> (\<And>db. tables (snd (stmt db)) = tables db) \<Longrightarrow> core srv' = core srv"
  using core_exec_snd [of stmt srv] by simp

lemma core_auth [core_intros]: "require_auth_v2 env srv ri g c = (x, srv') \<Longrightarrow> core srv' = core srv"
  using require_auth_frame [of env srv ri g c x srv'] by (simp add: core_def)

lemma core_peers [core_intros]: "load_peers srv = (ps, srv') \<Longrightarrow> core srv' = core srv"
  by (auto simp: load_peers_def cookbook_grid_load_peers_def db_query_def intro!: core_db dest: tables_next split: prod.splits)

lemma tables_policy_get: "cookbook_policy_get s db = (x, db') \<Longrightarrow> tables db' = tables db"
  by (auto simp: cookbook_policy_get_def db_query_def Let_def dest: tables_next split: prod.splits)

lemma tables_load_teams: "load_teams ts db = (x, db') \<Longrightarrow> tables db' = tables db"
proof (induction ts arbitrary: db x db')
  case (Cons t ts)
  then show ?case by (auto simp: Let_def dest!: tables_policy_get split: prod.splits) 
qed simp

lemma tables_policy_resolve: "cookbook_policy_resolve parse conflate s db = (x, db') \<Longrightarrow> tables db' = tables db"
  by (auto simp: cookbook_policy_resolve_def Let_def dest!: tables_policy_get tables_load_teams split: prod.splits option.splits)

lemma tables_policy_put: "cookbook_policy_put now s k p db = (ok, db') \<Longrightarrow> tables db' = tables db"
  by (auto simp: cookbook_policy_put_def db_exec_def Let_def tables_def dest: db_next_eqD split: prod.splits if_splits)

lemma tables_policy_delete: "cookbook_policy_delete s db = (ok, db') \<Longrightarrow> tables db' = tables db"
  by (auto simp: cookbook_policy_delete_def db_exec_def Let_def tables_def dest: db_next_eqD split: prod.splits if_splits)

section \<open>Lists in a buffer\<close>

lemma comma_sep_snoc: "comma_sep (ts @ [t]) = (if ts = [] then t else comma_sep ts @ '','' @ t)"
  by (induction ts rule: comma_sep.induct) auto

lemma length_comma_sep_mono: "length (comma_sep ts) \<le> length (comma_sep (ts @ us))"
proof (induction us rule: rev_induct)
  case (snoc u us)
  then show ?case using comma_sep_snoc [of "ts @ us" u] by auto
qed simp

text \<open>One entry of a list, with the comma before it.\<close>

lemma list_entry_exact:
  assumes "cbuf_exact (comma_sep ts) b" "cb_cap b = cap" "length (comma_sep (ts @ [t])) < cap"
  obtains b1 b2 where "(if length ts > 0 then snprintf_at '','' b else Some b) = Some b1"
    "snprintf_at t b1 = Some b2" "cbuf_exact (comma_sep (ts @ [t])) b2" "cb_cap b2 = cap"
proof -
  obtain b1 where b1: "(if length ts > 0 then snprintf_at '','' b else Some b) = Some b1"
      "cbuf_exact (if ts = [] then [] else comma_sep ts @ '','') b1" "cb_cap b1 = cap"
    using snprintf_at_exact [OF assms(1), of "'',''"] assms comma_sep_snoc [of ts t] by (cases ts) auto
  obtain b2 where "snprintf_at t b1 = Some b2" "cbuf_exact (comma_sep (ts @ [t])) b2" "cb_cap b2 = cap"
    using snprintf_at_exact [OF b1(2), of t] b1(3) assms(3) comma_sep_snoc [of ts t] by (cases "ts = []") auto
  with b1(1) that show ?thesis by blast
qed

end
