(* ===== verification/Login.thy ===== *)
theory Login
  imports Frames
begin

text \<open>
  How clients get and lose tokens, \<^verbatim>\<open>src/src/main/c/cookbook_server.c\<close>: \<open>handle_auth_token\<close> with its
  three ways to identify a client, \<open>handle_auth_revoke\<close>, the revocations kept over a restart, and
  the start of a server.
\<close>

section \<open>Credentials\<close>

definition inc_tokens_issued :: "cookbook_server \<Rightarrow> cookbook_server" where
  "inc_tokens_issued = metrics_map (\<lambda>m. m\<lparr>auth_tokens_issued := auth_tokens_issued m + 1\<rparr>)"

text \<open>Hash and groups of the last matching row, cut to the buffers of the lookup.\<close>

definition live_credentials :: "string \<Rightarrow> cookbook_db \<Rightarrow> credential_row list" where
  "live_credentials sub db = filter (\<lambda>r. cred_subject r = sub \<and> cred_revoked_at r = None) (db_credentials db)"

definition cred_lookup_cb :: "credential_row \<Rightarrow> string \<times> string" where
  "cred_lookup_cb r = (bounded 256 (cred_token_hash r), bounded 1024 (cred_groups r))"

definition lookup_credential :: "string \<Rightarrow> cookbook_server \<Rightarrow> (string \<times> string) option \<times> cookbook_server" where
  "lookup_credential sub srv =
     (let (rows, srv) = srv_rows (live_credentials sub) srv
      in (case rows of None \<Rightarrow> None | Some rs \<Rightarrow> map_option cred_lookup_cb (last_option rs), srv))"

definition secret_ok :: "environment \<Rightarrow> string \<Rightarrow> string \<Rightarrow> bool" where
  "secret_ok env secret hash = cookbook_credential_verify (env_argon_verify env) secret hash"

section \<open>Fields of a request body\<close>

text \<open>A text behind \<open>"key":\<close>, possibly after blanks, cut to a buffer of \<open>sz\<close> bytes.\<close>

definition spaced_field :: "string \<Rightarrow> string \<Rightarrow> nat \<Rightarrow> string option" where
  "spaced_field t key sz = do {
     p \<leftarrow> strstr t (quote key @ '':'');
     let p = dropWhile (\<lambda>c. c = CHR '' '' \<or> c = CHR 0x09) (drop (length key + 3) p);
     if p \<noteq> [] \<and> hd p = CHR 0x22 \<and> CHR 0x22 \<in> set (tl p)
     then Some (take (sz - 1) (takeWhile (\<lambda>c. c \<noteq> CHR 0x22) (tl p)))
     else None
   }"

definition field_or :: "string \<Rightarrow> string option \<Rightarrow> string" where
  "field_or d v = (case v of None \<Rightarrow> d | Some t \<Rightarrow> t)"

text \<open>The subject: \<open>sub\<close>, or \<open>subject\<close> where the first name does not occur.\<close>

definition body_subject :: "string \<Rightarrow> string" where
  "body_subject t =
     field_or [] (if strstr t (quote ''sub'' @ '':'') \<noteq> None then spaced_field t ''sub'' 128
                  else spaced_field t ''subject'' 128)"

record token_request =
  tr_sub :: string
  tr_groups :: string
  tr_method :: string
  tr_grant_type :: string
  tr_client_secret :: string
  tr_token :: string

definition parse_token_request :: "string \<Rightarrow> token_request" where
  "parse_token_request t =
     (let sub = body_subject t;
          sub = (if sub = [] then field_or [] (spaced_field t ''client_id'' 128) else sub)
      in \<lparr>tr_sub = sub,
          tr_groups = field_or [] (spaced_field t ''groups'' 1024),
          tr_method = field_or ''token'' (spaced_field t ''method'' 32),
          tr_grant_type = field_or [] (spaced_field t ''grant_type'' 64),
          tr_client_secret = field_or [] (spaced_field t ''client_secret'' 512),
          tr_token = (if sub = [] then [] else field_or [] (spaced_field t ''token'' 512))\<rparr>)"

section \<open>Issuing a token\<close>

definition next_jti :: "environment \<Rightarrow> string" where
  "next_jti env = generate_jti (of_int (env_now env)) (env_jti_counter env) (env_jti_address env) 64"

text \<open>A token of version 2 where a policy resolves for the subject, of version 1 otherwise.\<close>

definition create_token :: "environment \<Rightarrow> string \<Rightarrow> string \<Rightarrow> cookbook_server \<Rightarrow> (jwt_error + string) \<times> int \<times> cookbook_server" where
  "create_token env sub groups srv =
     (let (resolved, db) = cookbook_policy_resolve (env_parse env) (env_conflate env) sub (srv_db srv);
          srv = srv\<lparr>srv_db := db\<rparr>
      in case resolved of
           Some rj \<Rightarrow>
             (cookbook_jwt_create_v2 (env_sign env) (env_now env) (next_jti env) sub
                (if groups = [] then None else Some groups) rj (srv_jwt_ttl_sec srv), 2, srv)
         | None \<Rightarrow>
             (cookbook_jwt_create (env_sign env) (env_now env) (next_jti env) sub (Some groups) (srv_jwt_ttl_sec srv), 1, srv))"

definition token_reply :: "string \<Rightarrow> int \<Rightarrow> int \<Rightarrow> response" where
  "token_reply token ttl version =
     Send_json 200 (bounded 8192 (''{'' @ json_pair ''token'' token @ '','' @ quote ''expires_in'' @ '':'' @ show_int ttl @ '','' @
       quote ''version'' @ '':'' @ show_int version @ ''}'' @ nl))"

definition issue_token :: "environment \<Rightarrow> string \<Rightarrow> string \<Rightarrow> cookbook_server \<Rightarrow> (response \<times> cookbook_server) option" where
  "issue_token env sub groups srv =
     (case create_token env sub groups srv of
        (Inl JWT_OUT_OF_BOUNDS, _, srv) \<Rightarrow> None
      | (Inl JWT_NULL, _, srv) \<Rightarrow> Some (text_json 500 ''Failed to create token'', srv)
      | (Inr token, version, srv) \<Rightarrow>
          Some (token_reply token (srv_jwt_ttl_sec srv) version,
                audit_log env ''auth'' sub ''token-issue'' ''ok'' (inc_tokens_issued (inc_2xx srv))))"

section \<open>The token handler\<close>

definition deny :: "string \<Rightarrow> cookbook_server \<Rightarrow> response \<times> cookbook_server" where
  "deny msg srv = (text_json 401 msg, inc_auth_failures (inc_4xx srv))"

text \<open>Subject and secret in a \<open>Basic\<close> header; the decoded text ends at its first zero byte.\<close>

definition basic_credentials :: "string \<Rightarrow> string + string \<times> string" where
  "basic_credentials b64 =
     (let decoded = cookbook_base64_decode b64 511; t = c_string decoded
      in if decoded = [] then Inl ''Invalid Basic auth encoding''
         else case strchr t (CHR '':'') of
           None \<Rightarrow> Inl ''Invalid Basic auth format''
         | Some rest \<Rightarrow>
             if length rest = length t then Inl ''Invalid Basic auth format''
             else Inr (take 127 (takeWhile (\<lambda>c. c \<noteq> CHR '':'') t), tl rest))"

text \<open>A subject without a credential is given a token all the same.\<close>

definition basic_login :: "environment \<Rightarrow> string \<Rightarrow> cookbook_server \<Rightarrow> (response \<times> cookbook_server) option" where
  "basic_login env b64 srv =
     (case basic_credentials b64 of
        Inl msg \<Rightarrow> Some (deny msg srv)
      | Inr (sub, secret) \<Rightarrow>
          (case lookup_credential sub srv of
             (None, srv) \<Rightarrow> issue_token env sub [] srv
           | (Some (hash, groups), srv) \<Rightarrow>
               if secret_ok env secret hash then issue_token env sub groups srv
               else (let (r, srv) = deny ''Invalid credentials'' srv
                     in Some (r, audit_log env ''auth'' sub ''token-issue'' ''bad-credentials'' srv))))"

text \<open>The directory: the groups it gives, if any, replace those of the request.\<close>

definition ldap_login :: "environment \<Rightarrow> string \<Rightarrow> string \<Rightarrow> string \<Rightarrow> string option" where
  "ldap_login env sub secret groups =
     map_option (\<lambda>g. case g of Some t \<Rightarrow> if t \<noteq> [] then bounded 1024 t else groups | None \<Rightarrow> groups) (env_ldap env sub secret)"

definition local_login :: "environment \<Rightarrow> string \<Rightarrow> string \<Rightarrow> cookbook_server \<Rightarrow> string option \<times> cookbook_server" where
  "local_login env sub secret srv =
     (case lookup_credential sub srv of
        (Some (hash, groups), srv) \<Rightarrow> (if secret_ok env secret hash then Some groups else None, srv)
      | (None, srv) \<Rightarrow> (None, srv))"

text \<open>The directory before or after the local credentials, as the request asks.\<close>

definition verify_chain :: "environment \<Rightarrow> token_request \<Rightarrow> cookbook_server \<Rightarrow> string option \<times> cookbook_server" where
  "verify_chain env tr srv =
     (let sub = tr_sub tr; secret = tr_token tr; groups = tr_groups tr;
          try_ldap = srv_ldap_url srv \<noteq> None; ldap_first = (tr_method tr = ''ldap'')
      in case (if ldap_first \<and> try_ldap then ldap_login env sub secret groups else None) of
           Some g \<Rightarrow> (Some g, audit_log env ''auth'' sub ''token-issue'' ''ldap-ok'' srv)
         | None \<Rightarrow>
             (case local_login env sub secret srv of
                (Some g, srv) \<Rightarrow> (Some g, srv)
              | (None, srv) \<Rightarrow>
                  (case (if \<not> ldap_first \<and> try_ldap then ldap_login env sub secret groups else None) of
                     Some g \<Rightarrow> (Some g, audit_log env ''auth'' sub ''token-issue'' ''ldap-fallback-ok'' srv)
                   | None \<Rightarrow> (None, srv))))"

definition oidc_login :: "environment \<Rightarrow> token_request \<Rightarrow> cookbook_server \<Rightarrow> (response \<times> cookbook_server) option" where
  "oidc_login env tr srv =
     (let cid = (if tr_sub tr \<noteq> [] then tr_sub tr else field_or [] (srv_oidc_client_id srv))
      in case env_oidc env cid (tr_client_secret tr) of
           None \<Rightarrow> (let (r, srv) = deny ''OIDC client credentials failed'' srv
                    in Some (r, audit_log env ''auth'' cid ''token-issue'' ''oidc-failed'' srv))
         | Some osub \<Rightarrow>
             issue_token env (if bounded 128 osub \<noteq> [] then bounded 128 osub
                              else if tr_sub tr = [] then bounded 128 cid else tr_sub tr) (tr_groups tr) srv)"

definition body_login :: "environment \<Rightarrow> string \<Rightarrow> cookbook_server \<Rightarrow> (response \<times> cookbook_server) option" where
  "body_login env t srv =
     (let tr = parse_token_request t
      in if tr_grant_type tr = ''client_credentials'' \<and> srv_oidc_issuer srv \<noteq> None \<and> tr_client_secret tr \<noteq> []
         then oidc_login env tr srv
         else if tr_sub tr \<noteq> [] \<and> tr_token tr \<noteq> []
         then (case verify_chain env tr srv of
                 (Some groups, srv) \<Rightarrow> issue_token env (tr_sub tr) groups srv
               | (None, srv) \<Rightarrow>
                   (let (r, srv) = deny ''Invalid credentials'' srv
                    in Some (r, audit_log env ''auth'' (tr_sub tr) ''token-issue''
                         (if tr_method tr = ''ldap'' then ''ldap+local-failed'' else ''local+ldap-failed'') srv)))
         else if tr_sub tr = []
         then Some (text_json 400 (''Missing '' @ [CHR 0x27] @ ''sub'' @ [CHR 0x27] @ '' or '' @ [CHR 0x27] @ ''subject'' @
                [CHR 0x27] @ '' field''), srv)
         else issue_token env (tr_sub tr) (tr_groups tr) srv)"

definition handle_auth_token :: "environment \<Rightarrow> shim_connection \<Rightarrow> cookbook_server \<Rightarrow> (response \<times> cookbook_server) option" where
  "handle_auth_token env sc srv =
     (let ri = sc_ri sc; srv = inc_post (inc_total srv)
      in if request_method ri \<noteq> ''POST'' then Some (text_json 405 ''Method not allowed'', inc_4xx srv)
         else if \<not> srv_has_registry_key srv
         then Some (text_json 503 (''Auth not configured '' @ em_dash @ '' no registry key''), srv)
         else case grid_get_header (http_headers ri) ''Authorization'' of
           Some h \<Rightarrow>
             if has_prefix h ''Basic '' then basic_login env (drop 6 h) srv
             else (case fst (read_body 4096 sc) of
                     None \<Rightarrow> Some (text_json 400 ''Authorization header or body required'', srv)
                   | Some b \<Rightarrow> body_login env (body_text env b) srv)
         | None \<Rightarrow>
             (case fst (read_body 4096 sc) of
                None \<Rightarrow> Some (text_json 400 ''Authorization header or body required'', srv)
              | Some b \<Rightarrow> body_login env (body_text env b) srv))"

section \<open>Revocation\<close>

definition insert_revocation :: "revocation_row \<Rightarrow> cookbook_db \<Rightarrow> cookbook_db_status \<times> cookbook_db" where
  "insert_revocation r db = (DB_OK, db\<lparr>db_revocations := row_ignore rev_jti r (db_revocations db)\<rparr>)"

text \<open>The token in the body: missing, without end, or there.\<close>

definition revoke_field :: "string \<Rightarrow> string + string" where
  "revoke_field t =
     (case strstr t (quote ''token'' @ '':'' @ [CHR 0x22]) of
        None \<Rightarrow> Inl (''Missing '' @ [CHR 0x27] @ ''token'' @ [CHR 0x27] @ '' field'')
      | Some p \<Rightarrow>
          (let p = drop 9 p in
           if CHR 0x22 \<in> set p then Inr (takeWhile (\<lambda>c. c \<noteq> CHR 0x22) p) else Inl ''Malformed token field''))"

definition revoke_claims :: "environment \<Rightarrow> cookbook_jwt_claims \<Rightarrow> cookbook_server \<Rightarrow> response \<times> cookbook_server" where
  "revoke_claims env claims srv =
     (if claim_jti claims = [] then (text_json 400 ''Token has no jti claim (pre-revocation era)'', inc_4xx srv)
      else case cookbook_revocation_add (env_now env) (claim_jti claims) (claim_exp claims) (srv_revocations srv) of
        (False, rl) \<Rightarrow> (text_json 507 ''Revocation list full'', srv\<lparr>srv_revocations := rl\<rparr>)
      | (True, rl) \<Rightarrow>
          (let srv = srv\<lparr>srv_revocations := rl\<rparr>;
               srv = snd (srv_exec (insert_revocation \<lparr>rev_jti = claim_jti claims, rev_subject = Some (claim_sub claims),
                       rev_revoked_at = env_utc env (env_now env), rev_expires_at = claim_exp claims\<rparr>) srv)
           in (Send_json 200 (''{'' @ json_pair ''status'' ''revoked'' @ ''}'' @ nl),
               inc_2xx (audit_log env ''auth'' (claim_sub claims) ''token-revoke'' ''ok'' srv))))"

definition handle_auth_revoke :: "environment \<Rightarrow> shim_connection \<Rightarrow> cookbook_server \<Rightarrow> response \<times> cookbook_server" where
  "handle_auth_revoke env sc srv =
     (let srv = inc_post (inc_total srv)
      in if request_method (sc_ri sc) \<noteq> ''POST'' then (text_json 405 ''Method not allowed'', inc_4xx srv)
         else if \<not> srv_has_registry_key srv then (text_json 503 ''Auth not configured'', srv)
         else case fst (read_body 16384 sc) of
           None \<Rightarrow> (text_json 400 (''Body required with '' @ [CHR 0x27] @ ''token'' @ [CHR 0x27] @ '' field''), srv)
         | Some b \<Rightarrow>
             (case revoke_field (body_text env b) of
                Inl msg \<Rightarrow> (text_json 400 msg, inc_4xx srv)
              | Inr token \<Rightarrow>
                  (case cookbook_jwt_verify (env_verify env) (env_now env) token of
                     None \<Rightarrow> (text_json 401 ''Invalid or expired token'', inc_4xx srv)
                   | Some claims \<Rightarrow> revoke_claims env claims srv)))"

section \<open>The start of a server\<close>

text \<open>Revocations that have not expired are read back, and the others deleted.\<close>

definition revoke_load_cb :: "int \<Rightarrow> revocation_row \<Rightarrow> cookbook_revocation_list \<Rightarrow> cookbook_revocation_list" where
  "revoke_load_cb now r rl = snd (cookbook_revocation_add now (rev_jti r) (rev_expires_at r) rl)"

definition delete_expired_revocations :: "int \<Rightarrow> cookbook_db \<Rightarrow> cookbook_db_status \<times> cookbook_db" where
  "delete_expired_revocations now db =
     (DB_OK, db\<lparr>db_revocations := filter (\<lambda>r. \<not> rev_expires_at r \<le> now) (db_revocations db)\<rparr>)"

definition load_revocations :: "environment \<Rightarrow> cookbook_server \<Rightarrow> cookbook_server" where
  "load_revocations env srv =
     (let now = env_now env;
          (rows, srv) = srv_rows (\<lambda>db. filter (\<lambda>r. rev_expires_at r > now) (db_revocations db)) srv;
          rl = fold (revoke_load_cb now) (case rows of None \<Rightarrow> [] | Some rs \<Rightarrow> rs) (cookbook_revocation_init 4096)
      in snd (srv_exec (delete_expired_revocations now) (srv\<lparr>srv_revocations := rl\<rparr>)))"

text \<open>The options that set up the state; where a key pair is missing, requests are not authorized.\<close>

record cookbook_server_opts =
  opt_db :: cookbook_db
  opt_store :: cookbook_store_fs
  opt_registry_id :: "string option"
  opt_max_upload_mb :: int
  opt_pending_timeout_sec :: int
  opt_jwt_ttl_sec :: int
  opt_rate_limit_per_min :: int
  opt_grid_enabled :: bool
  opt_grid_max_hops :: int
  opt_grid_peer_auth :: bool
  opt_object_cache_ttl_sec :: int
  opt_ldap_url :: "string option"
  opt_oidc_issuer :: "string option"
  opt_oidc_client_id :: "string option"
  opt_audit_log :: bool
  opt_registry_pk :: "byte list option"

definition metrics_zero :: cookbook_metrics where
  "metrics_zero = \<lparr>requests_total = 0, requests_get = 0, requests_put = 0, requests_post = 0, responses_2xx = 0,
     responses_4xx = 0, responses_5xx = 0, artifacts_published = 0, artifacts_yanked = 0, artifacts_resolved = 0,
     auth_tokens_issued = 0, auth_failures = 0, bytes_uploaded = 0, bytes_downloaded = 0\<rparr>"

definition GRID_MAX_HOPS_DEFAULT :: int where
  "GRID_MAX_HOPS_DEFAULT = 3"

definition positive_or :: "int \<Rightarrow> int \<Rightarrow> int" where
  "positive_or d n = (if n > 0 then n else d)"

definition cookbook_server_start :: "environment \<Rightarrow> cookbook_server_opts \<Rightarrow> cookbook_server" where
  "cookbook_server_start env opts =
     (let logs = (if opt_audit_log opts then Some [] else None)
      in load_revocations env
        \<lparr>srv_db = opt_db opts, srv_store = opt_store opts,
         srv_registry_id = field_or ''central'' (opt_registry_id opts),
         srv_max_upload_bytes = nat (positive_or 0 (opt_max_upload_mb opts)) * 1024 * 1024,
         srv_pending_timeout_sec = positive_or 3600 (opt_pending_timeout_sec opts),
         srv_jwt_ttl_sec = positive_or 3600 (opt_jwt_ttl_sec opts),
         srv_rate_limit_per_min = opt_rate_limit_per_min opts,
         srv_has_registry_key = (opt_registry_pk opts \<noteq> None),
         srv_registry_pk = (case opt_registry_pk opts of None \<Rightarrow> replicate 32 0 | Some pk \<Rightarrow> pk),
         srv_rate_buckets = [], srv_metrics = metrics_zero,
         srv_grid_enabled = opt_grid_enabled opts,
         srv_grid_max_hops = positive_or GRID_MAX_HOPS_DEFAULT (opt_grid_max_hops opts),
         srv_grid_peer_auth = opt_grid_peer_auth opts,
         srv_ldap_url = opt_ldap_url opts, srv_oidc_issuer = opt_oidc_issuer opts,
         srv_oidc_client_id = (if opt_oidc_issuer opts = None then None else opt_oidc_client_id opts),
         srv_revocations = cookbook_revocation_init 4096,
         srv_audit_auth = logs, srv_audit_access = logs, srv_audit_admin = logs,
         srv_object_cache_ttl_sec = opt_object_cache_ttl_sec opts, srv_device_codes = []\<rparr>)"

section \<open>What the handlers keep\<close>

lemma core_tokens_issued [simp]: "core (inc_tokens_issued srv) = core srv"
  by (simp add: core_def inc_tokens_issued_def metrics_map_def)

lemma core_lookup [core_intros]: "lookup_credential sub srv = (x, srv') \<Longrightarrow> core srv' = core srv"
  by (auto simp: lookup_credential_def dest: core_rows split: prod.splits)

lemma core_create_token [core_intros]: "create_token env sub groups srv = (t, v, srv') \<Longrightarrow> core srv' = core srv"
  by (auto simp: create_token_def Let_def dest!: tables_policy_resolve split: prod.splits option.splits)
     (simp_all add: core_db)

lemma core_issue [core_intros]: "issue_token env sub groups srv = Some (r, srv') \<Longrightarrow> core srv' = core srv"
  by (auto simp: issue_token_def dest!: core_create_token split: prod.splits sum.splits jwt_error.splits)

lemma core_deny [simp]: "core (snd (deny msg srv)) = core srv"
  by (simp add: deny_def)

lemma core_deny_eq [core_intros]: "deny msg srv = (r, srv') \<Longrightarrow> core srv' = core srv"
  using core_deny [of msg srv] by simp

lemma core_basic: "basic_login env b64 srv = Some (r, srv') \<Longrightarrow> core srv' = core srv"
  by (auto simp: basic_login_def Let_def dest!: core_intros split: prod.splits sum.splits option.splits if_splits)

lemma core_local [core_intros]: "local_login env sub secret srv = (x, srv') \<Longrightarrow> core srv' = core srv"
  by (auto simp: local_login_def dest!: core_intros split: prod.splits option.splits if_splits)

lemma core_chain [core_intros]: "verify_chain env tr srv = (x, srv') \<Longrightarrow> core srv' = core srv"
  by (auto simp: verify_chain_def Let_def dest!: core_local split: prod.splits option.splits if_splits)

lemma core_body: "body_login env t srv = Some (r, srv') \<Longrightarrow> core srv' = core srv"
  by (auto simp: body_login_def oidc_login_def Let_def dest!: core_intros split: prod.splits sum.splits option.splits if_splits)

lemma handle_auth_token_core: "handle_auth_token env sc srv = Some (r, srv') \<Longrightarrow> core srv' = core srv"
  by (auto simp: handle_auth_token_def Let_def dest!: core_basic core_body split: option.splits if_splits)

lemma revoke_claims_core [simp]: "core (snd (revoke_claims env claims srv)) = core srv"
  by (simp add: revoke_claims_def Let_def core_exec_snd insert_revocation_def tables_def split: prod.splits bool.splits)

lemma handle_auth_revoke_core: "core (snd (handle_auth_revoke env sc srv)) = core srv"
  by (simp add: handle_auth_revoke_def Let_def split: option.splits sum.splits)

lemma load_revocations_core: "core (load_revocations env srv) = core srv"
  by (auto simp: load_revocations_def Let_def core_exec_snd delete_expired_revocations_def tables_def dest: core_rows split: prod.splits)

section \<open>Logins\<close>

definition post_key :: "environment \<Rightarrow> shim_connection \<Rightarrow> cookbook_server \<Rightarrow> bool" where
  "post_key env sc srv \<longleftrightarrow> request_method (sc_ri sc) = ''POST'' \<and> srv_has_registry_key srv"

definition group_list :: "string \<Rightarrow> string option" where
  "group_list groups = (if groups = [] then None else Some groups)"

text \<open>
  What a client gets when a policy resolves for the subject: a token that decides its requests as the
  policy does, until it expires or is revoked.
\<close>

definition decides :: "environment \<Rightarrow> string \<Rightarrow> (string \<times> string) list \<Rightarrow> string list \<Rightarrow> int \<Rightarrow> string \<Rightarrow> bool" where
  "decides env token gs es expires jti \<longleftrightarrow>
     (\<forall>srv ri now' group_id c.
        srv_has_registry_key srv \<longrightarrow> srv_rate_limit_per_min srv \<le> 0 \<longrightarrow>
        grid_get_header (http_headers ri) ''Authorization'' = Some (''Bearer '' @ token) \<longrightarrow>
        auth_status (fst (require_auth_v2 (env\<lparr>env_now := now'\<rparr>) srv ri group_id c)) =
          (if now' > expires \<or> cookbook_revocation_check (srv_revocations srv) jti then 401
           else if policy_allows gs es group_id c then 200 else 403))"

lemma create_policy_token:
  assumes sg: "signature_pair (env_sign env) (env_verify env)"
    and res: "fst (cookbook_policy_resolve (env_parse env) (env_conflate env) sub (srv_db srv)) = Some (policy_json gs es)"
    and ok: "payload_ok sub (group_list groups) [] gs es" "distinct (map fst gs)"
    and len: "length sub < 128" "length sub + length groups \<le> 400" "length (policy_json gs es) \<le> 3500"
    and t: "0 \<le> env_now env" "env_now env \<le> LONG_MAX" "0 < srv_jwt_ttl_sec srv" "env_now env + srv_jwt_ttl_sec srv \<le> LONG_MAX"
  obtains token db where "create_token env sub groups srv = (Inr token, 2, srv\<lparr>srv_db := db\<rparr>)"
    "decides env token gs es (env_now env + srv_jwt_ttl_sec srv) (next_jti env)"
proof -
  obtain db where r: "cookbook_policy_resolve (env_parse env) (env_conflate env) sub (srv_db srv) = (Some (policy_json gs es), db)"
    using res by (metis prod.collapse)
  have "length sub + length (groups_text (group_list groups)) \<le> 400"
    using len(2) by (simp add: group_list_def groups_text_def string_or_empty_def)
  from bearer_token_decides [OF sg ok len(1) this len(3) t(1,2) _ t(4) refl] t(1,3)
  obtain token where "cookbook_jwt_create_v2 (env_sign env) (env_now env) (next_jti env) sub (group_list groups) (policy_json gs es)
      (srv_jwt_ttl_sec srv) = Inr token" and d: "decides env token gs es (env_now env + srv_jwt_ttl_sec srv) (next_jti env)"
    unfolding decides_def next_jti_def by (metis add_nonneg_pos)
  then have "create_token env sub groups srv = (Inr token, 2, srv\<lparr>srv_db := db\<rparr>)"
    by (simp add: create_token_def r group_list_def)
  with d that show ?thesis by blast
qed

lemma issue_policy_token:
  assumes sg: "signature_pair (env_sign env) (env_verify env)"
    and res: "fst (cookbook_policy_resolve (env_parse env) (env_conflate env) sub (srv_db srv)) = Some (policy_json gs es)"
    and ok: "payload_ok sub (group_list groups) [] gs es" "distinct (map fst gs)"
    and len: "length sub < 128" "length sub + length groups \<le> 400" "length (policy_json gs es) \<le> 3500"
    and t: "0 \<le> env_now env" "env_now env \<le> LONG_MAX" "0 < srv_jwt_ttl_sec srv" "env_now env + srv_jwt_ttl_sec srv \<le> LONG_MAX"
  obtains token srv' where "issue_token env sub groups srv = Some (token_reply token (srv_jwt_ttl_sec srv) 2, srv')"
    "decides env token gs es (env_now env + srv_jwt_ttl_sec srv) (next_jti env)"
proof -
  obtain token db where "create_token env sub groups srv = (Inr token, 2, srv\<lparr>srv_db := db\<rparr>)"
    "decides env token gs es (env_now env + srv_jwt_ttl_sec srv) (next_jti env)"
    by (rule create_policy_token [OF assms])
  with that show ?thesis by (simp add: issue_token_def)
qed

text \<open>One credential of the subject, and no failing query.\<close>

lemma lookup_one:
  assumes "db_faults (srv_db srv) = []" "live_credentials sub (srv_db srv) = [row]"
  shows "lookup_credential sub srv = (Some (bounded 256 (cred_token_hash row), bounded 1024 (cred_groups row)), srv)"
  using assms by (simp add: lookup_credential_def srv_rows_def cred_lookup_cb_def last_option_def Let_def)

lemma basic_handled:
  assumes "post_key env sc srv" "grid_get_header (http_headers (sc_ri sc)) ''Authorization'' = Some (''Basic '' @ b64)"
  shows "handle_auth_token env sc srv = basic_login env b64 (inc_post (inc_total srv))"
  using assms by (simp add: handle_auth_token_def post_key_def has_prefix_def counters)


lemma body_text_bytes:
  assumes "CHR 0x00 \<notin> set s"
  shows "body_text env (bytes_of s) = s @ env_behind env"
proof -
  have "0 \<notin> set (bytes_of s)"
  proof
    assume "0 \<in> set (bytes_of s)"
    then have "char_of (unat (0 :: byte)) \<in> set (string_of (bytes_of s))" unfolding string_of_def set_map by (rule imageI)
    moreover have "char_of (unat (0 :: byte)) = CHR 0x00" by code_simp
    ultimately have "CHR 0x00 \<in> set (string_of (bytes_of s))" by simp
    with assms show False by simp
  qed
  then show ?thesis by (simp add: body_text_def)
qed

text \<open>A registry that knows one subject with a credential and a policy.\<close>

definition login_env :: environment where
  "login_env = signing_env\<lparr>env_parse := (\<lambda>t. if t = ''doc'' then Some (PMap sample_policy) else Some (PMap [])),
     env_conflate := (\<lambda>recipe docs. Some (PMap sample_policy))\<rparr>"

definition bob :: credential_row where
  "bob = \<lparr>cred_subject = ''bob'', cred_token_hash = ''pw'', cred_groups = ''dev'', cred_created_at = None, cred_revoked_at = None\<rparr>"

definition login_server :: cookbook_server where
  "login_server = (demo_server 0)\<lparr>srv_db := db_empty\<lparr>db_credentials := [bob],
     db_policies := [\<lparr>pol_subject = ''bob'', pol_kind = ''user'', pol_pastlet = ''doc'', pol_updated_at = []\<rparr>]\<rparr>\<rparr>"

definition login_request :: "(string \<times> string) list \<Rightarrow> byte list \<Rightarrow> shim_connection" where
  "login_request hs body = \<lparr>sc_ctx = \<lparr>hc_method = 1, hc_path = Some ''/auth/token'', hc_query = None, hc_header = (\<lambda>_. None),
       hc_body = body, hc_set_headers = [], hc_stream = None, hc_ended = False\<rparr>,
     sc_ri = \<lparr>request_method = ''POST'', local_uri = ''/auth/token'', query_string = None, http_headers = hs,
       content_length = int (length body)\<rparr>,
     sc_status_sent = False, sc_resp_status = 0, sc_body = body, sc_body_pos = 0\<rparr>"

lemma sample_policy_parts:
  "extract_teams (PMap sample_policy) = []"
  "serialize_grants_json (PMap sample_policy) = Some (policy_json [(''org'', ''r''), (''org.acme'', ''rwc'')] [''org.acme.secret''])"
  by code_simp+

lemma sample_recipe: "build_recipe (section_keys (env_parse login_env) ''grants'' [''doc'']) (section_keys (env_parse login_env) ''exclude'' [''doc'']) \<noteq> None"
proof -
  have "section_keys (env_parse login_env) k [''doc''] = section_keys (\<lambda>t. Some (PMap sample_policy)) k [''doc'']" for k
    by (simp add: login_env_def section_keys_def)
  moreover have "build_recipe (section_keys (\<lambda>t. Some (PMap sample_policy)) ''grants'' [''doc''])
      (section_keys (\<lambda>t. Some (PMap sample_policy)) ''exclude'' [''doc'']) \<noteq> None" by code_simp
  ultimately show ?thesis by simp
qed

lemma login_policy:
  "fst (cookbook_policy_resolve (env_parse login_env) (env_conflate login_env) ''bob'' (srv_db login_server)) =
     Some (policy_json [(''org'', ''r''), (''org.acme'', ''rwc'')] [''org.acme.secret''])"
proof -
  have "cookbook_policy_get ''bob'' (srv_db login_server) = (Some ''doc'', srv_db login_server)"
    by (simp add: cookbook_policy_get_def login_server_def db_query_def db_empty_def last_option_def)
  moreover have "env_parse login_env ''doc'' = Some (PMap sample_policy)" "env_conflate login_env = (\<lambda>r d. Some (PMap sample_policy))"
    by (simp_all add: login_env_def)
  ultimately show ?thesis
    using sample_recipe by (auto simp: cookbook_policy_resolve_def sample_policy_parts)
qed

lemma login_signature: "signature_pair (env_sign login_env) (env_verify login_env)"
  using demo_signature_pair by (simp add: login_env_def signing_env_def)

lemma login_payload:
  "payload_ok ''bob'' (group_list (bounded 1024 (cred_groups bob))) [] [(''org'', ''r''), (''org.acme'', ''rwc'')] [''org.acme.secret'']"
  "length (policy_json [(''org'', ''r''), (''org.acme'', ''rwc'')] [''org.acme.secret'']) \<le> 3500"
  by (simp_all add: payload_ok_def json_safe_def groups_text_def string_or_empty_def group_list_def bounded_def bob_def
      reserved_def policy_json_def grants_open_def exclude_open_def quote_def flags_def true_text_def)

lemma login_server_facts:
  "srv_has_registry_key login_server" "db_faults (srv_db login_server) = []" "live_credentials ''bob'' (srv_db login_server) = [bob]"
  "srv_jwt_ttl_sec login_server = 3600" "env_now login_env = 1000" "srv_oidc_issuer login_server = None"
  by (simp_all add: login_server_def demo_server_def live_credentials_def bob_def login_env_def signing_env_def db_empty_def)


section \<open>A token for a name\<close>

lemma body_handled:
  assumes "post_key env sc srv" "grid_get_header (http_headers (sc_ri sc)) ''Authorization'' = None"
    "fst (read_body 4096 sc) = Some b"
  shows "handle_auth_token env sc srv = body_login env (body_text env b) (inc_post (inc_total srv))"
  using assms by (simp add: handle_auth_token_def post_key_def counters)

text \<open>
  C38. A request whose body names a subject and nothing else gets the token of that subject, whether or not
  the subject has a credential: the table of credentials is not even looked at.
\<close>

theorem open_issuance:
  assumes "post_key env sc srv" "grid_get_header (http_headers (sc_ri sc)) ''Authorization'' = None"
    "fst (read_body 4096 sc) = Some b" "tr = parse_token_request (body_text env b)"
    "tr_sub tr \<noteq> []" "tr_token tr = []" "tr_client_secret tr = []"
    and sg: "signature_pair (env_sign env) (env_verify env)"
    and res: "fst (cookbook_policy_resolve (env_parse env) (env_conflate env) (tr_sub tr) (srv_db srv)) = Some (policy_json gs es)"
    and ok: "payload_ok (tr_sub tr) (group_list (tr_groups tr)) [] gs es" "distinct (map fst gs)"
    and len: "length (tr_sub tr) < 128" "length (tr_sub tr) + length (tr_groups tr) \<le> 400" "length (policy_json gs es) \<le> 3500"
    and t: "0 \<le> env_now env" "env_now env \<le> LONG_MAX" "0 < srv_jwt_ttl_sec srv" "env_now env + srv_jwt_ttl_sec srv \<le> LONG_MAX"
  shows "\<exists>token srv'. handle_auth_token env sc srv = Some (token_reply token (srv_jwt_ttl_sec srv) 2, srv') \<and>
     decides env token gs es (env_now env + srv_jwt_ttl_sec srv) (next_jti env)"
proof -
  define s where "s = inc_post (inc_total srv)"
  have s: "srv_db s = srv_db srv" "srv_jwt_ttl_sec s = srv_jwt_ttl_sec srv" by (simp_all add: s_def counters)
  have "handle_auth_token env sc srv = issue_token env (tr_sub tr) (tr_groups tr) s"
    using body_handled [OF assms(1-3)] assms(4-7) by (simp add: body_login_def s_def Let_def)
  moreover obtain token srv' where "issue_token env (tr_sub tr) (tr_groups tr) s = Some (token_reply token (srv_jwt_ttl_sec s) 2, srv')"
    "decides env token gs es (env_now env + srv_jwt_ttl_sec s) (next_jti env)"
    by (rule issue_policy_token [OF sg, of "tr_sub tr" s gs es "tr_groups tr"]) (use res ok len t in \<open>simp_all add: s\<close>)
  ultimately show ?thesis by (auto simp: s)
qed

theorem open_issuance_witness:
  "live_credentials ''bob'' (srv_db login_server) \<noteq> [] \<and>
   (\<exists>token srv'. handle_auth_token login_env (login_request [] (bytes_of (''{'' @ json_pair ''sub'' ''bob'' @ ''}''))) login_server =
        Some (token_reply token 3600 2, srv') \<and>
      decides login_env token [(''org'', ''r''), (''org.acme'', ''rwc'')] [''org.acme.secret''] 4600 (next_jti login_env))"
proof
  let ?b = "bytes_of (''{'' @ json_pair ''sub'' ''bob'' @ ''}'')"
  let ?tr = "\<lparr>tr_sub = ''bob'', tr_groups = [], tr_method = ''token'', tr_grant_type = [], tr_client_secret = [], tr_token = []\<rparr>"
  have body: "fst (read_body 4096 (login_request [] ?b)) = Some ?b"
    by (simp add: login_request_def read_body_def read_loop.simps shim_read_def nonempty_def Let_def json_pair_def quote_def bytes_of_def)
  have body_is: "body_text login_env ?b = ''{'' @ json_pair ''sub'' ''bob'' @ ''}''"
    by (subst body_text_bytes) (simp_all add: json_pair_def quote_def login_env_def signing_env_def)
  have tr: "?tr = parse_token_request (body_text login_env ?b)" unfolding body_is by code_simp
  show "\<exists>token srv'. handle_auth_token login_env (login_request [] ?b) login_server = Some (token_reply token 3600 2, srv') \<and>
      decides login_env token [(''org'', ''r''), (''org.acme'', ''rwc'')] [''org.acme.secret''] 4600 (next_jti login_env)"
    using open_issuance [where srv = login_server and gs = "[(''org'', ''r''), (''org.acme'', ''rwc'')]" and es = "[''org.acme.secret'']",
        OF _ _ body tr _ _ _ login_signature] login_policy login_payload
    by (simp add: login_server_facts post_key_def login_request_def grid_get_header_def LONG_MAX_def payload_ok_def
        group_list_def groups_text_def string_or_empty_def json_safe_def)
qed (simp add: login_server_facts)

section \<open>Revoked tokens\<close>

lemma verify_claims:
  assumes "cookbook_jwt_verify v now token = Some c" "cookbook_jwt_verify v now' token = Some c'"
  shows "c' = c"
  using assms by (auto simp: cookbook_jwt_verify_def Let_def split: Option.bind_splits if_splits)

lemma verify_jti_length: "cookbook_jwt_verify v now token = Some c \<Longrightarrow> length (claim_jti c) < 64"
proof -
  have "length (string_or_empty (json_get_string t k 64)) < 64" for t k
    by (auto simp: json_get_string_def string_or_empty_def Let_def split: Option.bind_splits option.splits)
  then have "length (claim_jti (read_claims t)) < 64" for t by (simp add: read_claims_def Let_def)
  moreover assume "cookbook_jwt_verify v now token = Some c"
  then have "\<exists>t. c = read_claims t" by (auto simp: cookbook_jwt_verify_def Let_def split: Option.bind_splits if_splits)
  ultimately show ?thesis by auto
qed

lemma revocation_added:
  assumes "cookbook_revocation_add now jti x rl = (True, rl')" "length jti < 64"
  shows "cookbook_revocation_check rl' jti"
  using assms by (auto simp: cookbook_revocation_add_def cookbook_revocation_check_def bounded_def Let_def split: if_splits)

lemma srv_exec_revocations [simp]: "srv_revocations (snd (srv_exec stmt srv)) = srv_revocations srv"
  by (simp add: srv_exec_def split: prod.splits)

lemma audit_revocations [simp]: "srv_revocations (audit_log env e s t x srv) = srv_revocations srv"
  by (simp add: audit_log_def Let_def)


definition demo_token :: string where
  "demo_token = ''h.eyJqdGkiOiJqIn0.'' @ replicate 86 (CHR ''A'')"

definition trusting_env :: environment where
  "trusting_env = login_env\<lparr>env_verify := (\<lambda>sg m. True)\<rparr>"

lemma demo_token_claims:
  "map_option (\<lambda>c. (claim_jti c, claim_exp c)) (cookbook_jwt_verify (env_verify trusting_env) (env_now trusting_env) demo_token) = Some (''j'', 0)"
proof -
  have "map_option (\<lambda>c. (claim_jti c, claim_exp c)) (cookbook_jwt_verify (\<lambda>sg m. True) 1000 demo_token) = Some (''j'', 0)" by code_simp
  then show ?thesis by (simp add: trusting_env_def login_env_def signing_env_def)
qed


section \<open>Revocations over a restart\<close>

definition revoked_live :: "int \<Rightarrow> string \<Rightarrow> cookbook_revocation_list \<Rightarrow> bool" where
  "revoked_live now jti rl \<longleftrightarrow> (\<exists>e \<in> set (rl_entries rl). re_jti e = jti \<and> re_exp e > now)"

lemma load_one:
  fixes rl :: cookbook_revocation_list
  assumes "length (rl_entries rl) < rl_capacity rl"
  shows "revoked_live now j rl \<Longrightarrow> revoked_live now j (revoke_load_cb now r rl)"
    and "rev_expires_at r > now \<Longrightarrow> length (rev_jti r) < 64 \<Longrightarrow> revoked_live now (rev_jti r) (revoke_load_cb now r rl)"
    and "length (rl_entries (revoke_load_cb now r rl)) \<le> Suc (length (rl_entries rl))"
    and "rl_capacity (revoke_load_cb now r rl) = rl_capacity rl"
proof -
  have n: "length (filter (\<lambda>e. re_exp e > now) (rl_entries rl)) \<le> length (rl_entries rl)" by simp
  with assms show "revoked_live now j rl \<Longrightarrow> revoked_live now j (revoke_load_cb now r rl)"
    "rev_expires_at r > now \<Longrightarrow> length (rev_jti r) < 64 \<Longrightarrow> revoked_live now (rev_jti r) (revoke_load_cb now r rl)"
    "length (rl_entries (revoke_load_cb now r rl)) \<le> Suc (length (rl_entries rl))"
    "rl_capacity (revoke_load_cb now r rl) = rl_capacity rl"
    by (auto simp: revoked_live_def revoke_load_cb_def cookbook_revocation_add_def revocation_prune_filter bounded_def Let_def
        simp del: length_filter_le)
qed

lemma load_all:
  assumes "length (rl_entries rl) + length rs \<le> rl_capacity rl" "\<forall>r \<in> set rs. rev_expires_at r > now"
  shows "revoked_live now j rl \<or> j \<in> rev_jti ` set rs \<Longrightarrow> length j < 64 \<Longrightarrow> revoked_live now j (fold (revoke_load_cb now) rs rl)"
  using assms
proof (induction rs arbitrary: rl)
  case (Cons r rs)
  have "length (rl_entries rl) < rl_capacity rl" using Cons.prems(3) by simp
  note one = load_one [OF this, where now = now and r = r]
  have "length (rl_entries (revoke_load_cb now r rl)) + length rs \<le> rl_capacity (revoke_load_cb now r rl)"
    using Cons.prems(3) one(3,4) by simp
  with Cons.IH [of "revoke_load_cb now r rl"] Cons.prems one show ?case by auto
qed simp

text \<open>
  C33. A revocation that was stored is in force again after a restart, for as long as its token has not
  expired.
\<close>

theorem revocations_survive_restart:
  assumes "db_faults (opt_db opts) = []" "r \<in> set (db_revocations (opt_db opts))" "rev_expires_at r > env_now env"
    and "length (rev_jti r) < 64" "length (db_revocations (opt_db opts)) \<le> 4096"
  shows "cookbook_revocation_check (srv_revocations (cookbook_server_start env opts)) (rev_jti r)"
proof -
  let ?rs = "filter (\<lambda>r. rev_expires_at r > env_now env) (db_revocations (opt_db opts))"
  have start: "srv_revocations (cookbook_server_start env opts) = fold (revoke_load_cb (env_now env)) ?rs (cookbook_revocation_init 4096)"
    using assms(1) by (simp add: cookbook_server_start_def load_revocations_def srv_rows_def Let_def)
  have "length ?rs \<le> 4096" using assms(5) by (meson le_trans length_filter_le)
  then have "revoked_live (env_now env) (rev_jti r) (fold (revoke_load_cb (env_now env)) ?rs (cookbook_revocation_init 4096))"
    using assms(2-4) by (intro load_all) (auto simp: cookbook_revocation_init_def)
  then show ?thesis unfolding start revoked_live_def cookbook_revocation_check_def by (metis image_eqI)
qed

definition restart_opts :: cookbook_server_opts where
  "restart_opts = \<lparr>opt_db = db_empty\<lparr>db_revocations := [\<lparr>rev_jti = ''j'', rev_subject = None, rev_revoked_at = [], rev_expires_at = 1500\<rparr>]\<rparr>,
     opt_store = demo_store [], opt_registry_id = None, opt_max_upload_mb = 1, opt_pending_timeout_sec = 0, opt_jwt_ttl_sec = 0,
     opt_rate_limit_per_min = 0, opt_grid_enabled = False, opt_grid_max_hops = 0, opt_grid_peer_auth = False,
     opt_object_cache_ttl_sec = 0, opt_ldap_url = None, opt_oidc_issuer = None, opt_oidc_client_id = None, opt_audit_log = False,
     opt_registry_pk = Some (replicate 32 7)\<rparr>"

theorem revocations_survive_restart_witness:
  "cookbook_revocation_check (srv_revocations (cookbook_server_start login_env restart_opts)) ''j''"
  using revocations_survive_restart [of restart_opts "\<lparr>rev_jti = ''j'', rev_subject = None, rev_revoked_at = [], rev_expires_at = 1500\<rparr>" login_env]
  by (simp add: restart_opts_def db_empty_def login_server_facts)

end
