(* ===== verification/Device.thy ===== *)
theory Device
  imports Login Connpool
begin

text \<open>
  The device flow of \<^verbatim>\<open>src/src/main/c/cookbook_server.c\<close>: a device asks for a pair of codes, its user
  confirms the short one with a credential, and the device exchanges the long one for a token. With
  an identity provider configured, the requests are passed on to it first.
\<close>

section \<open>Codes\<close>

definition user_alphabet :: string where
  "user_alphabet = ''ABCDEFGHJKLMNPQRSTUVWXYZ23456789''"

text \<open>A character of the literal, its terminator, or a read behind it.\<close>

definition alpha_at :: "byte \<Rightarrow> char option" where
  "alpha_at i = (if unat i < 32 then Some (user_alphabet ! unat i) else if unat i = 32 then Some (CHR 0x00) else None)"

fun alpha_all :: "byte list \<Rightarrow> string option" where
  "alpha_all [] = Some []"
| "alpha_all (i # is) = do { c \<leftarrow> alpha_at i; cs \<leftarrow> alpha_all is; Some (c # cs) }"

unbundle bit_operations_syntax

definition user_code_index :: "byte list \<Rightarrow> byte list" where
  "user_code_index r =
     [r ! 0 AND 0x1F, drop_bit 5 (r ! 0) OR push_bit 3 (r ! 1 AND 3), drop_bit 2 (r ! 1) AND 0x1F,
      drop_bit 7 (r ! 1) OR push_bit 1 (r ! 2 AND 0xF), drop_bit 4 (r ! 2) OR push_bit 4 (r ! 3 AND 1),
      drop_bit 1 (r ! 3) AND 0x1F, drop_bit 6 (r ! 3) OR push_bit 2 (r ! 0 AND 0xF), drop_bit 3 (r ! 2) AND 0x1F]"

definition generate_user_code :: "byte list \<Rightarrow> string option" where
  "generate_user_code r = do {
     cs \<leftarrow> alpha_all (user_code_index r);
     Some (c_str (take 4 cs @ ''-'' @ drop 4 cs))
   }"

definition device_code_of :: "byte list \<Rightarrow> string" where
  "device_code_of r = concat (map hex_byte r)"

section \<open>The identity provider\<close>

text \<open>Host and port of the issuer: a port follows the first colon, else one slash at the end is dropped.\<close>

definition idp_address :: "string \<Rightarrow> string \<times> int" where
  "idp_address issuer =
     (let (hp, port) = (if has_prefix issuer ''https://'' then (drop 8 issuer, 443)
                        else if has_prefix issuer ''http://'' then (drop 7 issuer, 80) else (issuer, 443));
          host = bounded 256 hp;
          (host, port) = (case strchr host (CHR '':'') of
             Some c \<Rightarrow> (takeWhile (\<lambda>x. x \<noteq> CHR '':'') host, atoi (tl c))
           | None \<Rightarrow> (host, port))
      in (if host \<noteq> [] \<and> last host = CHR ''/'' then butlast host else host, port))"

definition idp_request :: "string \<Rightarrow> string \<Rightarrow> int \<Rightarrow> string \<Rightarrow> string" where
  "idp_request path host len body =
     ''POST '' @ path @ '' HTTP/1.1'' @ crlf @ ''Host: '' @ host @ crlf @
     ''Content-Type: application/x-www-form-urlencoded'' @ crlf @ ''Content-Length: '' @ show_int len @ crlf @
     ''Connection: close'' @ crlf @ crlf @ body"

text \<open>
  One exchange: the status and the body of the answer, where there is one. The request is built in
  1024 bytes and sent with the length it would have had; \<open>None\<close> when that is more.
\<close>

definition idp_exchange :: "environment \<Rightarrow> string \<Rightarrow> string \<Rightarrow> string \<Rightarrow> nat \<Rightarrow> nat \<Rightarrow> (int \<times> string option) option option" where
  "idp_exchange env issuer path post body_cap resp_cap =
     (let (host, port) = idp_address issuer;
          request = idp_request path host (int (length post)) (bounded body_cap post)
      in case env_idp env host port (bounded 1024 request) of
           None \<Rightarrow> Some None
         | Some resp \<Rightarrow>
             if length request > 1024 then None
             else (let resp = bounded resp_cap (c_str resp)
                   in Some (Some (case strchr resp (CHR '' '') of Some p \<Rightarrow> atoi (tl p) | None \<Rightarrow> 0,
                        map_option (drop 4) (strstr resp (crlf @ crlf))))))"

definition oidc_client :: "cookbook_server \<Rightarrow> string" where
  "oidc_client srv = field_or ''cookbook'' (srv_oidc_client_id srv)"

section \<open>Asking for codes\<close>

definition prune_codes :: "int \<Rightarrow> device_code_entry list \<Rightarrow> device_code_entry list" where
  "prune_codes now codes = compact (\<lambda>e. dc_expires_at e > now) codes"

definition device_reply :: "device_code_entry \<Rightarrow> response" where
  "device_reply e = Send_json 200 (bounded 1024 (''{'' @ json_pair ''device_code'' (dc_device_code e) @ '','' @
     json_pair ''user_code'' (dc_user_code e) @ '','' @
     json_pair ''verification_uri'' ''http://localhost:8080/auth/device/verify'' @ '','' @
     quote ''interval'' @ '':5,'' @ quote ''expires_in'' @ '':900}'' @ nl))"

definition new_device_code :: "environment \<Rightarrow> cookbook_server \<Rightarrow> (response \<times> cookbook_server) option" where
  "new_device_code env srv =
     (let srv = srv\<lparr>srv_device_codes := prune_codes (env_now env) (srv_device_codes srv)\<rparr>
      in if length (srv_device_codes srv) \<ge> 64 then Some (text_json 503 ''Too many pending device codes'', srv)
         else do {
           uc \<leftarrow> generate_user_code (env_entropy env 4);
           let e = \<lparr>dc_device_code = device_code_of (env_entropy env 16), dc_user_code = uc, dc_subject = [], dc_groups = [],
                     dc_authorized = 0, dc_expires_at = env_now env + 900\<rparr>;
           Some (device_reply e, inc_2xx (audit_log env ''auth'' ''unknown'' ''device-code-issued'' ''ok''
             (srv\<lparr>srv_device_codes := srv_device_codes srv @ [e]\<rparr>)))
         })"

definition handle_auth_device :: "environment \<Rightarrow> shim_connection \<Rightarrow> cookbook_server \<Rightarrow> (response \<times> cookbook_server) option" where
  "handle_auth_device env sc srv =
     (let srv = inc_post (inc_total srv)
      in if request_method (sc_ri sc) \<noteq> ''POST'' then Some (text_json 405 ''Method not allowed'', srv)
         else if \<not> srv_has_registry_key srv then Some (text_json 503 ''Auth not configured'', srv)
         else case srv_oidc_issuer srv of
           None \<Rightarrow> new_device_code env srv
         | Some issuer \<Rightarrow> do {
             answer \<leftarrow> idp_exchange env issuer ''/oauth/device'' (''client_id='' @ oidc_client srv @ ''&scope=openid'') 256 4096;
             (case answer of
                Some (status, Some body) \<Rightarrow>
                  if status = 200
                  then Some (Send_json 200 body, inc_2xx (audit_log env ''auth'' ''unknown'' ''device-code-proxy'' ''ok'' srv))
                  else new_device_code env srv
              | _ \<Rightarrow> new_device_code env srv)
           })"

section \<open>Polling for the token\<close>

definition pending_reply :: response where
  "pending_reply = Send_body 428 [(''Content-Type'', ''application/json''), (''Content-Length'', ''40'')]
     (bytes_of (error_json ''authorization_pending''))"

text \<open>
  The entry is overwritten by the last one before the audit line is written, which takes the
  subject from the place of the entry.
\<close>

definition redeem_code :: "environment \<Rightarrow> nat \<Rightarrow> cookbook_server \<Rightarrow> (response \<times> cookbook_server) option" where
  "redeem_code env i srv =
     (let codes = srv_device_codes srv; e = codes ! i
      in case create_token env (dc_subject e) (dc_groups e) srv of
           (Inl JWT_OUT_OF_BOUNDS, _, srv) \<Rightarrow> None
         | (Inl JWT_NULL, _, srv) \<Rightarrow>
             Some (text_json 500 ''Token creation failed'', srv\<lparr>srv_device_codes := swap_remove codes i\<rparr>)
         | (Inr token, version, srv) \<Rightarrow>
             (let srv = srv\<lparr>srv_device_codes := swap_remove codes i\<rparr>
              in Some (token_reply token (srv_jwt_ttl_sec srv) version,
                   inc_tokens_issued (inc_2xx (audit_log env ''auth'' (dc_subject (last codes)) ''device-code-token'' ''ok'' srv)))))"

definition poll_code :: "environment \<Rightarrow> string \<Rightarrow> cookbook_server \<Rightarrow> (response \<times> cookbook_server) option" where
  "poll_code env dc srv =
     (case find_index (\<lambda>e. dc_device_code e = dc) (srv_device_codes srv) of
        None \<Rightarrow> Some (text_json 400 ''Invalid device_code'', srv)
      | Some i \<Rightarrow>
          (let e = srv_device_codes srv ! i
           in if dc_expires_at e \<le> env_now env then Some (text_json 400 ''expired_token'', srv)
              else if dc_authorized e = 0 then Some (pending_reply, srv)
              else if dc_authorized e < 0
              then Some (text_json 403 ''access_denied'', srv\<lparr>srv_device_codes := swap_remove (srv_device_codes srv) i\<rparr>)
              else redeem_code env i srv))"

text \<open>The answer of the provider to a poll: a token, still pending, an error to pass on, or nothing.\<close>

definition proxy_token :: "environment \<Rightarrow> string \<Rightarrow> string \<Rightarrow> cookbook_server \<Rightarrow> (response \<times> cookbook_server) option" where
  "proxy_token env dc body srv =
     (let sub = field_or [] (json_get_string body ''sub'' 128);
          sub = (if sub = [] then bounded 128 (oidc_client srv) else sub)
      in case create_token env sub [] srv of
           (Inl JWT_OUT_OF_BOUNDS, _, srv) \<Rightarrow> None
         | (Inl JWT_NULL, _, srv) \<Rightarrow> poll_code env dc srv
         | (Inr token, version, srv) \<Rightarrow>
             Some (token_reply token (srv_jwt_ttl_sec srv) version,
               inc_tokens_issued (inc_2xx (audit_log env ''auth'' sub ''device-code-proxy-token'' ''ok'' srv))))"

definition proxy_poll :: "environment \<Rightarrow> string \<Rightarrow> string \<Rightarrow> cookbook_server \<Rightarrow> (response \<times> cookbook_server) option" where
  "proxy_poll env issuer dc srv = do {
     answer \<leftarrow> idp_exchange env issuer ''/oauth/token''
       (''grant_type=urn%3Aietf%3Aparams%3Aoauth%3Agrant-type%3Adevice_code&device_code='' @ dc @ ''&client_id='' @ oidc_client srv)
       512 8192;
     (case answer of
        Some (status, Some body) \<Rightarrow>
          if status = 200 then proxy_token env dc body srv
          else if status = 428 \<or> status = 400 then
            Some (if strstr body ''authorization_pending'' \<noteq> None \<or> strstr body ''slow_down'' \<noteq> None then pending_reply
                  else Send_json (nat status) body, srv)
          else poll_code env dc srv
      | _ \<Rightarrow> poll_code env dc srv)
   }"

definition handle_auth_device_token :: "environment \<Rightarrow> shim_connection \<Rightarrow> cookbook_server \<Rightarrow> (response \<times> cookbook_server) option" where
  "handle_auth_device_token env sc srv =
     (let srv = inc_post (inc_total srv)
      in if request_method (sc_ri sc) \<noteq> ''POST'' then Some (text_json 405 ''Method not allowed'', srv)
         else case fst (read_body 4096 sc) of
           None \<Rightarrow> Some (text_json 400 ''Body required'', srv)
         | Some b \<Rightarrow>
             (let dc = field_or [] (json_get_string (body_text env b) ''device_code'' 64)
              in if dc = [] then Some (text_json 400 ''Missing device_code'', srv)
                 else case srv_oidc_issuer srv of
                   Some issuer \<Rightarrow> proxy_poll env issuer dc srv
                 | None \<Rightarrow> poll_code env dc srv))"

section \<open>Confirming a code\<close>

definition verify_subject :: "string \<Rightarrow> string" where
  "verify_subject t =
     field_or [] (if strstr t (quote ''subject'' @ '':'' @ [CHR 0x22]) \<noteq> None then json_get_string t ''subject'' 128
                  else json_get_string t ''sub'' 128)"

definition authorize_code :: "environment \<Rightarrow> string \<Rightarrow> string \<Rightarrow> string \<Rightarrow> cookbook_server \<Rightarrow> response \<times> cookbook_server" where
  "authorize_code env uc sub groups srv =
     (case find_index (\<lambda>e. dc_user_code e = uc) (srv_device_codes srv) of
        None \<Rightarrow> (text_json 404 ''Unknown user_code'', srv)
      | Some i \<Rightarrow>
          (let e = srv_device_codes srv ! i
           in if dc_expires_at e \<le> env_now env then (text_json 400 ''Device code expired'', srv)
              else (Send_json 200 (''{'' @ json_pair ''status'' ''authorized'' @ ''}'' @ nl),
                    inc_2xx (audit_log env ''auth'' sub ''device-verify'' ''ok''
                      (srv\<lparr>srv_device_codes := (srv_device_codes srv)
                         [i := e\<lparr>dc_subject := bounded 128 sub, dc_groups := bounded 1024 groups, dc_authorized := 1\<rparr>]\<rparr>)))))"

definition verify_code :: "environment \<Rightarrow> string \<Rightarrow> string \<Rightarrow> string \<Rightarrow> cookbook_server \<Rightarrow> response \<times> cookbook_server" where
  "verify_code env uc sub secret srv =
     (case lookup_credential sub srv of
        (Some (hash, groups), srv) \<Rightarrow>
          if secret_ok env secret hash then authorize_code env uc sub groups srv
          else (text_json 401 ''Invalid credentials'', audit_log env ''auth'' sub ''device-verify'' ''bad-credentials'' srv)
      | (None, srv) \<Rightarrow> (text_json 401 ''Invalid credentials'', audit_log env ''auth'' sub ''device-verify'' ''bad-credentials'' srv))"

definition handle_auth_device_verify :: "environment \<Rightarrow> shim_connection \<Rightarrow> cookbook_server \<Rightarrow> response \<times> cookbook_server" where
  "handle_auth_device_verify env sc srv =
     (let srv = inc_total srv
      in if request_method (sc_ri sc) \<noteq> ''POST'' then (text_json 405 ''Method not allowed'', srv)
         else case fst (read_body 4096 sc) of
           None \<Rightarrow> (text_json 400 ''Body required'', srv)
         | Some b \<Rightarrow>
             (let t = body_text env b; uc = field_or [] (json_get_string t ''user_code'' 16);
                  sub = verify_subject t; secret = field_or [] (json_get_string t ''token'' 512)
              in if uc = [] \<or> sub = [] \<or> secret = []
                 then (text_json 400 ''user_code, subject, and token required'', srv)
                 else verify_code env uc sub secret srv))"

section \<open>What the handlers keep\<close>

lemma core_new_code: "new_device_code env srv = Some (r, srv') \<Longrightarrow> core srv' = core srv"
  by (auto simp: new_device_code_def Let_def split: if_splits Option.bind_splits)

lemma handle_auth_device_core: "handle_auth_device env sc srv = Some (r, srv') \<Longrightarrow> core srv' = core srv"
  by (auto simp: handle_auth_device_def Let_def dest!: core_new_code split: if_splits option.splits Option.bind_splits prod.splits)

lemma core_poll: "poll_code env dc srv = Some (r, srv') \<Longrightarrow> core srv' = core srv"
  by (auto simp: poll_code_def redeem_code_def Let_def dest!: core_create_token
      split: option.splits if_splits prod.splits sum.splits jwt_error.splits)

lemma core_proxy_token: "proxy_token env dc body srv = Some (r, srv') \<Longrightarrow> core srv' = core srv"
  by (auto simp: proxy_token_def Let_def dest!: core_create_token core_poll
      split: option.splits if_splits prod.splits sum.splits jwt_error.splits)

lemma core_proxy: "proxy_poll env issuer dc srv = Some (r, srv') \<Longrightarrow> core srv' = core srv"
  by (auto simp: proxy_poll_def dest!: core_poll core_proxy_token split: option.splits if_splits prod.splits Option.bind_splits)

lemma handle_auth_device_token_core: "handle_auth_device_token env sc srv = Some (r, srv') \<Longrightarrow> core srv' = core srv"
  by (auto simp: handle_auth_device_token_def Let_def dest!: core_poll core_proxy split: if_splits option.splits)

lemma core_verify: "core (snd (verify_code env uc sub secret srv)) = core srv"
  by (auto simp: verify_code_def authorize_code_def Let_def dest!: core_lookup split: option.splits prod.splits)

lemma handle_auth_device_verify_core: "core (snd (handle_auth_device_verify env sc srv)) = core srv"
  by (simp add: handle_auth_device_verify_def Let_def core_verify split: option.splits)

section \<open>The user code\<close>

lemma byte_below_32: "unat (x :: byte) < 32 \<longleftrightarrow> drop_bit 5 x = 0"
proof -
  have "drop_bit 5 x = 0 \<longleftrightarrow> unat x div 2 ^ 5 = 0" by (metis drop_bit_eq_div unat_drop_bit_eq unsigned_0 unsigned_eq_0_iff)
  then show ?thesis by (simp add: div_eq_0_iff)
qed

lemma alpha_at_safe: "drop_bit 5 x = 0 \<Longrightarrow> alpha_at x \<noteq> None"
  by (simp add: alpha_at_def byte_below_32)

lemma alpha_all_None: "alpha_all is = None \<longleftrightarrow> (\<exists>i \<in> set is. alpha_at i = None)"
  by (induction "is") (auto split: Option.bind_splits)

lemma user_code_safe:
  "drop_bit 5 (a AND 0x1F :: byte) = 0" "drop_bit 5 (drop_bit 5 a OR push_bit 3 (b AND 3) :: byte) = 0"
  "drop_bit 5 (drop_bit 7 a OR push_bit 1 (b AND 0xF) :: byte) = 0" "drop_bit 5 (drop_bit 4 a OR push_bit 4 (b AND 1) :: byte) = 0"
proof -
  have z: "drop_bit 5 (31 :: byte) = 0" "drop_bit 5 (push_bit 3 3 :: byte) = 0" "drop_bit 5 (push_bit 1 15 :: byte) = 0"
    "drop_bit 5 (push_bit 4 1 :: byte) = 0" by code_simp+
  have far: "drop_bit n (x :: byte) = 0" if "n \<ge> 8" for n x proof -
    have "unat x < 2 ^ n" by (rule less_le_trans [OF unsigned_less]) (use power_increasing [OF that, of "2 :: nat"] in simp)
    moreover have "unat (drop_bit n x) = unat x div 2 ^ n" by (metis unat_drop_bit_eq drop_bit_eq_div)
    ultimately have "unat (drop_bit n x) = 0" by simp
    then show ?thesis by (simp add: unsigned_eq_0_iff)
  qed
  show "drop_bit 5 (a AND 0x1F :: byte) = 0" "drop_bit 5 (drop_bit 5 a OR push_bit 3 (b AND 3) :: byte) = 0"
    "drop_bit 5 (drop_bit 7 a OR push_bit 1 (b AND 0xF) :: byte) = 0" "drop_bit 5 (drop_bit 4 a OR push_bit 4 (b AND 1) :: byte) = 0"
    unfolding push_bit_and drop_bit_or drop_bit_and z drop_bit_drop_bit by (simp_all add: far)
qed

lemma last_index: "unat (drop_bit 6 d OR push_bit 2 (a AND 0xF) :: byte) = 4 * (unat a mod 16) + unat d div 64"
proof -
  have m: "unat (a AND 0xF) = unat a mod 16"
  proof -
    have "(0xF :: byte) = mask 4" by code_simp
    then have "a AND 0xF = take_bit 4 a" by (simp only: take_bit_eq_mask)
    then have "unat (a AND 0xF) = take_bit 4 (unat a)" by (simp only: unsigned_take_bit_eq)
    then show ?thesis by (simp add: take_bit_eq_mod)
  qed
  have "drop_bit 6 d AND push_bit 2 (a AND 0xF) = 0"
    by (rule bit_word_eqI) (auto simp: bit_simps dest: bit_imp_le_length)
  then have "drop_bit 6 d OR push_bit 2 (a AND 0xF) = drop_bit 6 d + push_bit 2 (a AND 0xF)"
    by (rule disjunctive_add_eq_or [symmetric])
  moreover have "unat (push_bit 2 (a AND 0xF)) = 4 * (unat a mod 16)"
    by (simp add: push_bit_eq_mult unat_word_ariths m)
  moreover have "unat (drop_bit 6 d) = unat d div 2 ^ 6" by (metis unat_drop_bit_eq drop_bit_eq_div)
  moreover have "unat d div 64 < 4" using unsigned_less [of d, where ?'a = nat] by simp
  ultimately show ?thesis by (simp add: unat_word_ariths)
qed

text \<open>
  The code for the user is built from four random bytes. Its seventh letter is taken from behind the
  text of 32 letters for close to half of them: when the low half of the first byte is above 8, or is 8
  and the last byte is at least 64.
\<close>

theorem user_code_overread:
  "generate_user_code [a, b, c, d] = None \<longleftrightarrow> 4 * (unat a mod 16) + unat d div 64 > 32"
proof -
  note safe = user_code_safe [THEN alpha_at_safe]
  have "generate_user_code [a, b, c, d] = None \<longleftrightarrow> (\<exists>i \<in> set (user_code_index [a, b, c, d]). alpha_at i = None)"
    by (simp only: generate_user_code_def alpha_all_None [symmetric]) (auto split: Option.bind_splits)
  also have "user_code_index [a, b, c, d] =
     [a AND 0x1F, drop_bit 5 a OR push_bit 3 (b AND 3), drop_bit 2 b AND 0x1F, drop_bit 7 b OR push_bit 1 (c AND 0xF),
      drop_bit 4 c OR push_bit 4 (d AND 1), drop_bit 1 d AND 0x1F, drop_bit 6 d OR push_bit 2 (a AND 0xF), drop_bit 3 c AND 0x1F]"
    by (simp add: user_code_index_def)
  also have "(\<exists>i \<in> set \<dots>. alpha_at i = None) \<longleftrightarrow> alpha_at (drop_bit 6 d OR push_bit 2 (a AND 0xF)) = None"
    by (simp only: list.set Set.bex_simps safe HOL.simp_thms)
  also have "\<dots> \<longleftrightarrow> unat (drop_bit 6 d OR push_bit 2 (a AND 0xF)) > 32" by (auto simp: alpha_at_def)
  finally show ?thesis by (simp only: last_index)
qed

section \<open>Runs of the flow\<close>

interpretation device_codes: pruned_table prune_codes "\<lambda>now e. dc_expires_at e > now"
  by unfold_locales (simp add: prune_codes_def compact_filter)

text \<open>The code and the subject a confirmation gives a valid secret for.\<close>

definition confirmed :: "environment \<Rightarrow> shim_connection \<Rightarrow> cookbook_server \<Rightarrow> (string \<times> string) set" where
  "confirmed env sc srv =
     (case fst (read_body 4096 sc) of
        None \<Rightarrow> {}
      | Some b \<Rightarrow>
          (let t = body_text env b; sub = verify_subject t
           in if fst (local_login env sub (field_or [] (json_get_string t ''token'' 512)) (inc_total srv)) \<noteq> None
              then {(field_or [] (json_get_string t ''user_code'' 16), bounded 128 sub)} else {}))"

text \<open>The state of the server with what has been confirmed since it had no codes.\<close>

inductive device_run :: "(string \<times> string) set \<Rightarrow> cookbook_server \<Rightarrow> bool" where
  Start: "srv_device_codes srv = [] \<Longrightarrow> device_run {} srv"
| Ask: "device_run cs srv \<Longrightarrow> handle_auth_device env sc srv = Some (r, srv') \<Longrightarrow> device_run cs srv'"
| Poll: "device_run cs srv \<Longrightarrow> handle_auth_device_token env sc srv = Some (r, srv') \<Longrightarrow> device_run cs srv'"
| Confirm: "device_run cs srv \<Longrightarrow> handle_auth_device_verify env sc srv = (r, srv') \<Longrightarrow> device_run (confirmed env sc srv \<union> cs) srv'"

definition code_ok :: "(string \<times> string) set \<Rightarrow> device_code_entry \<Rightarrow> bool" where
  "code_ok cs e \<longleftrightarrow> dc_authorized e = 0 \<or> (dc_user_code e, dc_subject e) \<in> cs"

definition codes_ok :: "(string \<times> string) set \<Rightarrow> cookbook_server \<Rightarrow> bool" where
  "codes_ok cs srv \<longleftrightarrow> length (srv_device_codes srv) \<le> 64 \<and> (\<forall>e \<in> set (srv_device_codes srv). code_ok cs e)"

lemma codes_counters [simp]:
  "srv_device_codes (inc_total srv) = srv_device_codes srv" "srv_device_codes (inc_post srv) = srv_device_codes srv"
  "srv_device_codes (inc_2xx srv) = srv_device_codes srv" "srv_device_codes (inc_4xx srv) = srv_device_codes srv"
  "srv_device_codes (inc_tokens_issued srv) = srv_device_codes srv" "srv_device_codes (audit_log env e s t x srv) = srv_device_codes srv"
  by (simp_all add: counters inc_tokens_issued_def audit_log_def Let_def)

lemma codes_create: "create_token env sub groups srv = (t, v, srv') \<Longrightarrow> srv_device_codes srv' = srv_device_codes srv"
  by (auto simp: create_token_def Let_def split: prod.splits option.splits)

lemma codes_lookup: "lookup_credential sub srv = (x, srv') \<Longrightarrow> srv_device_codes srv' = srv_device_codes srv"
  by (auto simp: lookup_credential_def srv_rows_def Let_def split: prod.splits if_splits)

lemma swap_remove_set: "i < length es \<Longrightarrow> set (swap_remove es i) \<subseteq> set es \<and> length (swap_remove es i) < length es"
  using swap_remove_perm [of i es] by (metis lessI list.set_intros(2) mset_eq_setD size_mset length_Cons subsetI)

lemma codes_ok_less:
  "codes_ok cs srv \<Longrightarrow> set (srv_device_codes srv') \<subseteq> set (srv_device_codes srv) \<Longrightarrow>
   length (srv_device_codes srv') \<le> length (srv_device_codes srv) \<Longrightarrow> codes_ok cs srv'"
  by (auto simp: codes_ok_def)

lemma poll_codes:
  assumes "poll_code env dc srv = Some (r, srv')"
  shows "set (srv_device_codes srv') \<subseteq> set (srv_device_codes srv) \<and> length (srv_device_codes srv') \<le> length (srv_device_codes srv)"
proof (cases "find_index (\<lambda>e. dc_device_code e = dc) (srv_device_codes srv)")
  case None
  with assms show ?thesis by (simp add: poll_code_def)
next
  case (Some i)
  then have "i < length (srv_device_codes srv)" by (simp add: find_index_Some)
  note sr = swap_remove_set [OF this]
  have "srv_device_codes srv' \<in> {srv_device_codes srv, swap_remove (srv_device_codes srv) i}"
    using assms Some by (auto simp: poll_code_def redeem_code_def Let_def
        split: if_splits prod.splits sum.splits jwt_error.splits)
  with sr show ?thesis by auto
qed

lemma new_code_ok: "codes_ok cs srv \<Longrightarrow> new_device_code env srv = Some (r, srv') \<Longrightarrow> codes_ok cs srv'"
  using device_codes.prune_length [of "env_now env" "srv_device_codes srv"]
  by (auto simp: new_device_code_def codes_ok_def code_ok_def device_codes.prune_mem Let_def split: if_splits Option.bind_splits)

lemma ask_ok: "codes_ok cs srv \<Longrightarrow> handle_auth_device env sc srv = Some (r, srv') \<Longrightarrow> codes_ok cs srv'"
proof -
  assume ok: "codes_ok cs srv"
  have s: "codes_ok cs (inc_post (inc_total srv))" "codes_ok cs (inc_2xx (audit_log env e u t x (inc_post (inc_total srv))))" for e u t x
    using ok by (simp_all add: codes_ok_def)
  show "handle_auth_device env sc srv = Some (r, srv') \<Longrightarrow> codes_ok cs srv'"
    using s new_code_ok [OF s(1)]
    by (auto simp: handle_auth_device_def Let_def split: if_splits option.splits Option.bind_splits prod.splits)
qed

lemma proxy_codes:
  assumes "proxy_poll env issuer dc srv = Some (r, srv')"
  shows "set (srv_device_codes srv') \<subseteq> set (srv_device_codes srv) \<and> length (srv_device_codes srv') \<le> length (srv_device_codes srv)"
proof -
  have "set (srv_device_codes srv') \<subseteq> set (srv_device_codes srv) \<and> length (srv_device_codes srv') \<le> length (srv_device_codes srv)"
    if "proxy_token env dc body srv = Some (r, srv')" for body
    using that by (auto simp: proxy_token_def Let_def dest!: codes_create poll_codes split: prod.splits sum.splits jwt_error.splits)
  then show ?thesis using assms
    by (auto simp: proxy_poll_def dest: poll_codes split: option.splits if_splits prod.splits Option.bind_splits)
qed

lemma poll_ok: "codes_ok cs srv \<Longrightarrow> handle_auth_device_token env sc srv = Some (r, srv') \<Longrightarrow> codes_ok cs srv'"
  using poll_codes [of env _ "inc_post (inc_total srv)" r srv'] proxy_codes [of env _ _ "inc_post (inc_total srv)" r srv']
  by (auto simp: handle_auth_device_token_def Let_def intro: codes_ok_less split: if_splits option.splits)

lemma code_ok_mono: "code_ok cs e \<Longrightarrow> code_ok (cs' \<union> cs) e"
  by (auto simp: code_ok_def)

lemma confirm_ok:
  assumes "codes_ok cs srv" "handle_auth_device_verify env sc srv = (r, srv')"
  shows "codes_ok (confirmed env sc srv \<union> cs) srv'"
proof -
  let ?s = "inc_total srv"
  have same: "codes_ok (confirmed env sc srv \<union> cs) srv'" if "srv_device_codes srv' = srv_device_codes srv"
    using assms(1) that code_ok_mono by (auto simp: codes_ok_def)
  have verify: "codes_ok ({(uc, bounded 128 sub)} \<union> cs) srv' \<or> srv_device_codes srv' = srv_device_codes srv"
    if "authorize_code env uc sub groups s1 = (r, srv')" and s1: "srv_device_codes s1 = srv_device_codes srv" for uc sub groups s1
  proof (cases "find_index (\<lambda>e. dc_user_code e = uc) (srv_device_codes srv)")
    case None
    with that show ?thesis by (simp add: authorize_code_def)
  next
    case (Some i)
    let ?e = "srv_device_codes srv ! i"
    let ?e' = "?e\<lparr>dc_subject := bounded 128 sub, dc_groups := bounded 1024 groups, dc_authorized := 1\<rparr>"
    have "dc_user_code ?e = uc" "i < length (srv_device_codes srv)" using find_index_Some [OF Some] by simp_all
    moreover have "srv_device_codes srv' \<in> {srv_device_codes srv, (srv_device_codes srv)[i := ?e']}"
      using that Some by (auto simp: authorize_code_def Let_def split: if_splits)
    ultimately show ?thesis
      using assms(1) by (auto simp: codes_ok_def code_ok_def dest!: set_update_subset_insert [THEN subsetD])
  qed
  show ?thesis
  proof (cases "fst (read_body 4096 sc)")
    case None
    with assms(2) same show ?thesis by (auto simp: handle_auth_device_verify_def Let_def split: if_splits)
  next
    case (Some b)
    define t where "t = body_text env b"
    define uc where "uc = field_or [] (json_get_string t ''user_code'' 16)"
    define sub where "sub = verify_subject t"
    define secret where "secret = field_or [] (json_get_string t ''token'' 512)"
    obtain x s1 where l: "lookup_credential sub ?s = (x, s1)" by fastforce
    have s1: "srv_device_codes s1 = srv_device_codes srv" using codes_lookup [OF l] by simp
    note defs = t_def [symmetric] uc_def [symmetric] sub_def [symmetric] secret_def [symmetric]
    have conf: "confirmed env sc srv = (if fst (local_login env sub secret ?s) \<noteq> None then {(uc, bounded 128 sub)} else {})"
      by (simp add: confirmed_def Some Let_def defs)
    show ?thesis
    proof (cases "\<exists>hash groups. x = Some (hash, groups) \<and> secret_ok env secret hash")
      case True
      then obtain hash groups where x: "x = Some (hash, groups)" "secret_ok env secret hash" by blast
      have "confirmed env sc srv = {(uc, bounded 128 sub)}" by (simp add: conf local_login_def l x)
      moreover have "srv_device_codes srv' = srv_device_codes srv \<or> authorize_code env uc sub groups s1 = (r, srv')"
        using assms(2) Some x by (auto simp: handle_auth_device_verify_def Let_def defs verify_code_def l split: if_splits)
      ultimately show ?thesis using verify [OF _ s1] same by auto
    next
      case False
      then have "srv_device_codes srv' = srv_device_codes srv"
        using assms(2) Some s1 by (auto simp: handle_auth_device_verify_def Let_def defs verify_code_def l split: if_splits option.splits)
      then show ?thesis by (rule same)
    qed
  qed
qed

lemma device_run_ok: "device_run cs srv \<Longrightarrow> codes_ok cs srv"
proof (induction rule: device_run.induct)
  case (Start srv)
  then show ?case by (simp add: codes_ok_def)
qed (auto intro: ask_ok poll_ok confirm_ok)

lemma token_reply_status [simp]: "response_status (token_reply token ttl v) = 200"
  by (simp add: token_reply_def)

lemma poll_200:
  assumes "poll_code env dc srv = Some (r, srv')" "response_status r = 200"
  obtains i where "find_index (\<lambda>e. dc_device_code e = dc) (srv_device_codes srv) = Some i"
    "dc_expires_at (srv_device_codes srv ! i) > env_now env" "dc_authorized (srv_device_codes srv ! i) > 0"
    "srv_device_codes srv' = swap_remove (srv_device_codes srv) i"
proof (cases "find_index (\<lambda>e. dc_device_code e = dc) (srv_device_codes srv)")
  case None
  with assms show ?thesis by (auto simp: poll_code_def text_json_def)
next
  case (Some i)
  with assms that show ?thesis
    by (auto simp: poll_code_def redeem_code_def text_json_def pending_reply_def Let_def
        split: if_splits prod.splits sum.splits jwt_error.splits)
qed


text \<open>The flow of a device, with random bytes that are all zero.\<close>

definition demo_code :: device_code_entry where
  "demo_code = \<lparr>dc_device_code = replicate 32 (CHR ''0''), dc_user_code = ''AAAA-AAAA'', dc_subject = [], dc_groups = [],
     dc_authorized = 0, dc_expires_at = 1900\<rparr>"

definition login_like :: "cookbook_server \<Rightarrow> bool" where
  "login_like srv \<longleftrightarrow> srv_db srv = srv_db login_server \<and> srv_has_registry_key srv \<and> srv_oidc_issuer srv = None \<and> srv_jwt_ttl_sec srv = 3600"

lemma login_like_counters [simp]:
  "login_like (inc_total srv) = login_like srv" "login_like (inc_post srv) = login_like srv" "login_like (inc_2xx srv) = login_like srv"
  "login_like (audit_log env e s t x srv) = login_like srv" "login_like (srv\<lparr>srv_device_codes := c\<rparr>) = login_like srv"
  by (simp_all add: login_like_def counters audit_log_def Let_def)

lemma read_post: "b \<noteq> [] \<Longrightarrow> length b \<le> 4096 \<Longrightarrow> fst (read_body 4096 (login_request hs b)) = Some b"
  by (simp add: login_request_def read_body_def read_loop.simps shim_read_def nonempty_def Let_def)

lemma demo_ask:
  obtains r srv where "handle_auth_device login_env (login_request [] []) login_server = Some (r, srv)"
    "srv_device_codes srv = [demo_code]" "login_like srv"
proof -
  have u: "generate_user_code (replicate 4 0) = Some ''AAAA-AAAA''" by code_simp
  have d: "device_code_of (replicate 16 0) = replicate 32 (CHR ''0'')" by code_simp
  have e: "env_entropy login_env n = replicate n 0" for n by (simp add: login_env_def signing_env_def)
  have s: "login_like login_server" "srv_device_codes login_server = []" "request_method (sc_ri (login_request [] [])) = ''POST''"
    by (simp_all add: login_like_def login_server_facts) (simp_all add: login_server_def demo_server_def login_request_def)
  have l: "login_like srv \<Longrightarrow> srv_has_registry_key srv \<and> srv_oidc_issuer srv = None" for srv by (simp add: login_like_def)
  have k: "login_like (inc_post (inc_total login_server))" using s by simp
  show ?thesis
    using that s l [OF k]
    by (simp add: handle_auth_device_def Let_def new_device_code_def e u d prune_codes_def compact_filter demo_code_def login_server_facts)
qed

definition confirm_body :: string where
  "confirm_body = ''{'' @ json_pair ''user_code'' ''AAAA-AAAA'' @ '','' @ json_pair ''subject'' ''bob'' @ '','' @ json_pair ''token'' ''pw'' @ ''}''"

lemma demo_confirm:
  assumes "srv_device_codes srv = [demo_code]" "login_like srv"
  obtains r srv' where "handle_auth_device_verify login_env (login_request [] (bytes_of confirm_body)) srv = (r, srv')"
    "srv_device_codes srv' = [demo_code\<lparr>dc_subject := ''bob'', dc_groups := ''dev'', dc_authorized := 1\<rparr>]" "login_like srv'"
    "confirmed login_env (login_request [] (bytes_of confirm_body)) srv = {(''AAAA-AAAA'', ''bob'')}"
proof -
  let ?sc = "login_request [] (bytes_of confirm_body)"
  have read: "fst (read_body 4096 ?sc) = Some (bytes_of confirm_body)"
    by (rule read_post) (simp_all add: bytes_of_def confirm_body_def json_pair_def quote_def)
  have t: "body_text login_env (bytes_of confirm_body) = confirm_body"
    by (subst body_text_bytes) (simp_all add: confirm_body_def json_pair_def quote_def login_env_def signing_env_def)
  have f: "json_get_string confirm_body ''user_code'' 16 = Some ''AAAA-AAAA''" "verify_subject confirm_body = ''bob''"
    "json_get_string confirm_body ''token'' 512 = Some ''pw''" by code_simp+
  have "lookup_credential ''bob'' (inc_total srv) = (Some (''pw'', ''dev''), inc_total srv)"
    using assms(2) login_server_facts(2,3) lookup_one [of "inc_total srv" "''bob''" bob]
    by (simp add: login_like_def counters bob_def bounded_def)
  moreover have "secret_ok login_env ''pw'' ''pw''"
    by (simp add: secret_ok_def cookbook_credential_verify_def login_env_def signing_env_def)
  moreover have "request_method (sc_ri ?sc) = ''POST''" by (simp add: login_request_def)
  ultimately show ?thesis
    using that read assms
    by (simp add: handle_auth_device_verify_def Let_def t f field_or_def verify_code_def authorize_code_def demo_code_def
        bounded_def login_server_facts confirmed_def local_login_def)
qed

definition poll_body :: string where
  "poll_body = ''{'' @ json_pair ''device_code'' (replicate 32 (CHR ''0'')) @ ''}''"


end
