(* ===== verification/Peers.thy ===== *)
theory Peers
  imports Frames "HOL-Library.Char_ord"
begin

text \<open>
  What a registry tells other registries and mirrors, \<^verbatim>\<open>src/src/main/c/cookbook_server.c\<close>: the
  manifest of what is published, and the peer-facing forms of resolving and downloading.
\<close>

section \<open>The manifest\<close>

text \<open>Group, artifact and version of a row, where the grants of the token show the group.\<close>

definition visible :: "cookbook_jwt_claims \<Rightarrow> string \<Rightarrow> bool" where
  "visible claims g =
     (case claim_grants claims of None \<Rightarrow> True
      | Some gj \<Rightarrow> cookbook_auth_check gj (claim_exclude claims) g (CHR ''r''))"

definition mirror_entry :: "string \<Rightarrow> string \<times> string \<times> string \<Rightarrow> string" where
  "mirror_entry rid = (\<lambda>(g, a, v).
     ''{'' @ json_pair ''group'' g @ '','' @ json_pair ''artifact'' a @ '','' @ json_pair ''version'' v @ '','' @
     json_pair ''base_path'' (rid @ ''/'' @ dots_to_slashes (bounded 256 g) @ ''/'' @ a @ ''/'' @ v) @ ''}'')"

definition mirror_collect_cb ::
  "string \<Rightarrow> cookbook_jwt_claims \<Rightarrow> string \<times> string \<times> string \<Rightarrow> cbuf \<times> nat \<Rightarrow> (cbuf \<times> nat) option" where
  "mirror_collect_cb rid claims c = (\<lambda>(b, count).
     if \<not> visible claims (fst c) then Some (b, count)
     else do {
       b \<leftarrow> (if count > 0 then snprintf_at '','' b else Some b);
       b \<leftarrow> snprintf_at (mirror_entry rid c) b;
       Some (b, count + 1)
     })"

fun mirror_loop ::
  "string \<Rightarrow> cookbook_jwt_claims \<Rightarrow> (string \<times> string \<times> string) list \<Rightarrow> cbuf \<times> nat \<Rightarrow> (cbuf \<times> nat) option" where
  "mirror_loop rid claims [] st = Some st"
| "mirror_loop rid claims (c # cs) st = do { st \<leftarrow> mirror_collect_cb rid claims c st; mirror_loop rid claims cs st }"

definition coord_of :: "artifact_row \<Rightarrow> string \<times> string \<times> string" where
  "coord_of r = (art_group_id r, art_artifact r, art_version r)"

text \<open>All that is published and not withdrawn, one row for each triple, in order of the coordinates.\<close>

definition manifest_rows :: "cookbook_db \<Rightarrow> (string \<times> string \<times> string) list" where
  "manifest_rows db =
     map fst (sort_key fst (remdups (map (\<lambda>r. (coord_of r, art_triple r))
       (filter (\<lambda>r. art_status r = ''published'' \<and> art_yanked r = 0) (db_artifacts db)))))"

text \<open>Rows of one coordinate of a query; withdrawn versions are among them.\<close>

definition coord_rows :: "string \<Rightarrow> string \<Rightarrow> string \<Rightarrow> cookbook_db \<Rightarrow> (string \<times> string \<times> string) list" where
  "coord_rows g a v db =
     map coord_of (filter (\<lambda>r. art_group_id r = g \<and> art_artifact r = a \<and> (v = [] \<or> art_version r = v) \<and>
       art_status r = ''published'') (db_artifacts db))"

section \<open>Manifests of peers\<close>

definition peer_artifacts :: "string \<Rightarrow> string option" where
  "peer_artifacts body = do {
     p \<leftarrow> strstr body (quote ''artifacts'' @ '':['');
     let p = drop 13 p;
     if CHR '']'' \<notin> set p \<or> before_last (CHR '']'') p = [] then None else Some (before_last (CHR '']'') p)
   }"

definition ask_manifest :: "environment \<Rightarrow> cookbook_peer \<Rightarrow> string option" where
  "ask_manifest env peer =
     (case env_peer env peer ''GET'' ''/grid/manifest'' None of
        Some (status, Some body) \<Rightarrow> if status \<noteq> 200 then None else peer_artifacts (c_string body)
      | _ \<Rightarrow> None)"

text \<open>
  The text is copied when it fits; where fewer than two bytes are left the difference of the sizes
  wraps around, and the copy goes behind the buffer.
\<close>

definition merge_text :: "string \<Rightarrow> cbuf \<times> nat \<Rightarrow> (cbuf \<times> nat) option" where
  "merge_text t = (\<lambda>(b, count).
     if cb_pos b + 2 > cb_cap b then None
     else if length t \<ge> cb_cap b - cb_pos b - 2 then Some (b, count)
     else do {
       b \<leftarrow> snprintf_at ((if count > 0 \<and> cb_pos b > 0 then '','' else []) @ t) b;
       Some (b, count + 1)
     })"

fun merge_manifests :: "environment \<Rightarrow> cookbook_peer list \<Rightarrow> cbuf \<times> nat \<Rightarrow> (cbuf \<times> nat) option" where
  "merge_manifests env [] st = Some st"
| "merge_manifests env (p # ps) st =
     (case ask_manifest env p of
        None \<Rightarrow> merge_manifests env ps st
      | Some t \<Rightarrow> do { st \<leftarrow> merge_text t st; merge_manifests env ps st })"

section \<open>The manifest handler\<close>

text \<open>The text is written into a buffer of the position and 128 bytes.\<close>

definition manifest_reply :: "cbuf \<Rightarrow> cookbook_server \<Rightarrow> (response \<times> cookbook_server) option" where
  "manifest_reply b srv =
     (let t = ''{'' @ json_pair ''registry'' (srv_registry_id srv) @ '','' @ quote ''artifacts'' @ '':['' @ cb_text b @ '']}'' @ nl
      in if length t \<ge> cb_pos b + 128 then None else Some (Send_json 200 t, inc_2xx srv))"

definition manifest_all ::
  "environment \<Rightarrow> shim_request_info \<Rightarrow> cookbook_jwt_claims \<Rightarrow> cookbook_server \<Rightarrow> (response \<times> cookbook_server) option" where
  "manifest_all env ri claims srv =
     (let (rows, srv) = srv_rows manifest_rows srv
      in case rows of
           None \<Rightarrow> Some (text_json 500 ''Database error'', inc_5xx srv)
         | Some rows \<Rightarrow> do {
             st \<leftarrow> mirror_loop (srv_registry_id srv) claims rows (cbuf_new 65536, 0);
             if srv_grid_enabled srv \<and> query_has ri ''grid=true'' then do {
               let (peers, srv) = load_peers srv;
               (b, count) \<leftarrow> merge_manifests env peers st;
               manifest_reply b srv
             } else manifest_reply (fst st) srv
           })"

text \<open>One entry \<open>group:artifact\<close> or \<open>group:artifact:version\<close> of the query.\<close>

definition split_entry :: "string \<Rightarrow> string \<times> string \<times> string" where
  "split_entry tok =
     (if CHR '':'' \<notin> set tok then ([], [], [])
      else (let g = take 127 (takeWhile (\<lambda>c. c \<noteq> CHR '':'') tok); r = tl (dropWhile (\<lambda>c. c \<noteq> CHR '':'') tok)
            in if CHR '':'' \<in> set r
               then (g, take 63 (takeWhile (\<lambda>c. c \<noteq> CHR '':'') r), bounded 64 (tl (dropWhile (\<lambda>c. c \<noteq> CHR '':'') r)))
               else (g, bounded 64 r, [])))"

fun coords_loop ::
  "cookbook_jwt_claims \<Rightarrow> string list \<Rightarrow> cookbook_server \<Rightarrow> cbuf \<times> nat \<Rightarrow> ((cbuf \<times> nat) \<times> cookbook_server) option" where
  "coords_loop claims [] srv st = Some (st, srv)"
| "coords_loop claims (tok # toks) srv st =
     (let (g, a, v) = split_entry tok
      in if g = [] \<or> a = [] then coords_loop claims toks srv st
         else (let (rows, srv) = srv_rows (coord_rows g a v) srv
               in do {
                 st \<leftarrow> mirror_loop (srv_registry_id srv) claims (case rows of None \<Rightarrow> [] | Some rs \<Rightarrow> rs) st;
                 coords_loop claims toks srv st
               }))"

definition manifest_coords ::
  "cookbook_jwt_claims \<Rightarrow> string \<Rightarrow> cookbook_server \<Rightarrow> (response \<times> cookbook_server) option" where
  "manifest_coords claims param srv = do {
     ((b, count), srv) \<leftarrow> coords_loop claims (strtok_comma (c_str (url_decode (bounded 4096 param)))) srv (cbuf_new 65536, 0);
     manifest_reply b srv
   }"

definition mirror_access :: "environment \<Rightarrow> shim_request_info \<Rightarrow> cookbook_server \<Rightarrow> cookbook_jwt_claims option" where
  "mirror_access env ri srv =
     (if srv_has_registry_key srv then extract_bearer_jwt env srv ri else Some claims_zero)"

definition handle_mirror_manifest :: "environment \<Rightarrow> shim_connection \<Rightarrow> cookbook_server \<Rightarrow> (response \<times> cookbook_server) option" where
  "handle_mirror_manifest env sc srv =
     (let ri = sc_ri sc; srv = inc_get (inc_total srv)
      in if request_method ri \<noteq> ''GET'' then Some (text_json 405 ''Method not allowed'', inc_4xx srv)
         else case mirror_access env ri srv of
           None \<Rightarrow> Some (text_json 401 ''Valid Bearer JWT required'', inc_auth_failures (inc_4xx srv))
         | Some claims \<Rightarrow>
             (case Option.bind (query_string ri) (\<lambda>q. strstr q ''coords='') of
                None \<Rightarrow> manifest_all env ri claims srv
              | Some p \<Rightarrow> manifest_coords claims (drop 7 p) srv))"

section \<open>Requests of peers\<close>

definition peer_signed :: "environment \<Rightarrow> shim_request_info \<Rightarrow> cookbook_server \<Rightarrow> bool" where
  "peer_signed env ri srv =
     verify_grid_peer_sig (env_verify_by env) (cookbook_grid_load_peer_key (env_peer_keys env) (srv_db srv))
       (srv_grid_peer_auth srv) (env_now env) (request_method ri) (local_uri ri) (http_headers ri)"

text \<open>Why a request of a peer is refused, if it is.\<close>

definition grid_refusal :: "environment \<Rightarrow> shim_request_info \<Rightarrow> cookbook_server \<Rightarrow> response option" where
  "grid_refusal env ri srv =
     (if grid_get_hop_count (http_headers ri) > srv_grid_max_hops srv then Some (text_json 508 ''Grid hop limit exceeded'')
      else if (case grid_get_via (http_headers ri) of None \<Rightarrow> False | Some via \<Rightarrow> cookbook_grid_is_loop (srv_registry_id srv) via)
      then Some (text_json 508 ''Grid loop detected'')
      else if \<not> peer_signed env ri srv then Some (text_json 401 ''Invalid grid peer signature'')
      else None)"

definition grid_versions :: "shim_request_info \<Rightarrow> string \<Rightarrow> string \<Rightarrow> cookbook_range \<Rightarrow> cookbook_server \<Rightarrow> (response \<times> cookbook_server) option" where
  "grid_versions ri g a rng srv =
     (let sn = query_has ri ''snapshot=true''; yk = query_has ri ''include_yanked=true'';
          (rows, srv) = srv_rows (resolve_rows g a yk) srv
      in do {
        (b, count) \<leftarrow> resolve_loop rng sn yk (case rows of None \<Rightarrow> [] | Some rs \<Rightarrow> rs) (cbuf_new 8192, 0);
        Some (Send_json 200 (bounded 8320 (''{'' @ quote ''versions'' @ '':['' @ cb_text b @ ''],'' @
                json_pair ''source'' (srv_registry_id srv) @ ''}'' @ nl)), srv)
      })"

definition handle_grid_resolve :: "environment \<Rightarrow> shim_connection \<Rightarrow> cookbook_server \<Rightarrow> (response \<times> cookbook_server) option" where
  "handle_grid_resolve env sc srv =
     (let ri = sc_ri sc
      in if request_method ri \<noteq> ''GET'' then Some (text_json 405 ''Method not allowed'', srv)
         else case grid_refusal env ri srv of
           Some r \<Rightarrow> Some (r, srv)
         | None \<Rightarrow>
             (case path_after (local_uri ri) ''/grid/resolve/'' of
                None \<Rightarrow> Some (text_json 400 ''Bad request'', srv)
              | Some path \<Rightarrow>
                  (case split_coord path of
                     None \<Rightarrow> Some (text_json 400 ''Malformed path'', srv)
                   | Some (g, a, range_str) \<Rightarrow> do {
                       allowed \<leftarrow> check_grid_auth (http_headers ri) g (CHR ''r'');
                       if \<not> allowed then Some (text_json 403 ''Grid grants deny access to this group'', srv)
                       else (case cookbook_range_parse range_str of
                               None \<Rightarrow> Some (text_json 400 ''Malformed range'', srv)
                             | Some rng \<Rightarrow> grid_versions ri g a rng srv)
                     })))"

text \<open>
  The permission for a path. Where the path has no group, or one of 256 characters or more, nothing is
  checked.
\<close>

definition grid_path_allowed :: "shim_request_info \<Rightarrow> string \<Rightarrow> bool option" where
  "grid_path_allowed ri path = do {
     parts \<leftarrow> split_artifact_path path;
     (case parts of
        None \<Rightarrow> Some True
      | Some (g, _, _, _) \<Rightarrow> if length g \<ge> 256 then Some True else check_grid_auth (http_headers ri) g (CHR ''r''))
   }"

text \<open>
  The answer to \<open>HEAD\<close> tests the status of the store for being nonzero, which success is not.
\<close>

definition grid_head :: "string \<Rightarrow> cookbook_server \<Rightarrow> response" where
  "grid_head key srv =
     Send_body (if fs_exists (srv_store srv) key \<noteq> STORE_OK then 200 else 404) [(''Content-Length'', ''0'')] []"

definition grid_get :: "string \<Rightarrow> cookbook_server \<Rightarrow> response" where
  "grid_get key srv =
     (case fs_get (srv_store srv) key of
        (STORE_OK, data) \<Rightarrow>
          Send_body 200 (octets data @ [(''X-Cookbook-Source'', srv_registry_id srv)]) data
      | (STORE_NOT_FOUND, _) \<Rightarrow> text_json 404 ''Not found''
      | _ \<Rightarrow> text_json 500 ''Storage error'')"

definition handle_grid_artifact :: "environment \<Rightarrow> shim_connection \<Rightarrow> cookbook_server \<Rightarrow> response option" where
  "handle_grid_artifact env sc srv =
     (let ri = sc_ri sc
      in case grid_refusal env ri srv of
           Some r \<Rightarrow> Some r
         | None \<Rightarrow>
             (case path_after (local_uri ri) ''/grid/artifact/'' of
                None \<Rightarrow> Some (text_json 400 ''Bad request'')
              | Some path \<Rightarrow> do {
                  allowed \<leftarrow> grid_path_allowed ri path;
                  let key = srv_registry_id srv @ ''/'' @ path;
                  Some (if \<not> allowed then text_json 403 ''Grid grants deny access''
                        else if request_method ri = ''HEAD'' then grid_head key srv
                        else if request_method ri = ''GET'' then grid_get key srv
                        else text_json 405 ''Method not allowed'')
                }))"

definition handle_grid_manifest :: "environment \<Rightarrow> shim_connection \<Rightarrow> cookbook_server \<Rightarrow> (response \<times> cookbook_server) option" where
  "handle_grid_manifest env sc srv =
     (if \<not> peer_signed env (sc_ri sc) srv then Some (text_json 401 ''Invalid grid peer signature'', srv)
      else handle_mirror_manifest env sc srv)"

section \<open>What the handlers keep\<close>

lemma core_manifest_reply: "manifest_reply b srv = Some (r, srv') \<Longrightarrow> core srv' = core srv"
  by (auto simp: manifest_reply_def Let_def split: if_splits)

lemma core_manifest_all: "manifest_all env ri claims srv = Some (r, srv') \<Longrightarrow> core srv' = core srv"
  by (auto simp: manifest_all_def Let_def dest!: core_manifest_reply core_rows core_peers
      split: option.splits if_splits prod.splits Option.bind_splits)

lemma core_coords_loop: "coords_loop claims toks srv st = Some (x, srv') \<Longrightarrow> core srv' = core srv"
  by (induction claims toks srv st rule: coords_loop.induct)
     (auto simp: Let_def dest!: core_rows split: prod.splits if_splits option.splits Option.bind_splits)

lemma core_manifest_coords: "manifest_coords claims q srv = Some (r, srv') \<Longrightarrow> core srv' = core srv"
  by (auto simp: manifest_coords_def dest!: core_coords_loop core_manifest_reply split: Option.bind_splits)

lemma handle_mirror_manifest_core: "handle_mirror_manifest env sc srv = Some (r, srv') \<Longrightarrow> core srv' = core srv"
  by (auto simp: handle_mirror_manifest_def Let_def dest!: core_manifest_all core_manifest_coords split: if_splits option.splits)

lemma handle_grid_manifest_core: "handle_grid_manifest env sc srv = Some (r, srv') \<Longrightarrow> core srv' = core srv"
  by (auto simp: handle_grid_manifest_def dest: handle_mirror_manifest_core split: if_splits)

lemma core_grid_versions: "grid_versions ri g a rng srv = Some (r, srv') \<Longrightarrow> core srv' = core srv"
  by (auto simp: grid_versions_def Let_def dest!: core_rows split: prod.splits option.splits Option.bind_splits)

lemma handle_grid_resolve_core: "handle_grid_resolve env sc srv = Some (r, srv') \<Longrightarrow> core srv' = core srv"
  by (auto simp: handle_grid_resolve_def Let_def dest: core_grid_versions split: if_splits option.splits Option.bind_splits prod.splits)

section \<open>The manifest lists what is published\<close>

lemma mirror_loop_exact:
  assumes "cbuf_exact (comma_sep ts) b" "cb_cap b = cap"
    and "length (comma_sep (ts @ map (mirror_entry rid) (filter (\<lambda>c. visible claims (fst c)) rows))) < cap"
  shows "\<exists>b' n. mirror_loop rid claims rows (b, length ts) = Some (b', n) \<and>
    cbuf_exact (comma_sep (ts @ map (mirror_entry rid) (filter (\<lambda>c. visible claims (fst c)) rows))) b'"
  using assms
proof (induction rows arbitrary: ts b)
  case Nil
  then show ?case by simp
next
  case (Cons c rows)
  show ?case
  proof (cases "visible claims (fst c)")
    case False
    with Cons.IH [of ts b] Cons.prems show ?thesis by (simp add: mirror_collect_cb_def)
  next
    case True
    let ?t = "mirror_entry rid c"
    have fits: "length (comma_sep (ts @ [?t])) < cap"
      using length_comma_sep_mono [of "ts @ [?t]"] Cons.prems(3) True by (auto intro: le_less_trans)
    obtain b1 b2 where b1: "(if length ts > 0 then snprintf_at '','' b else Some b) = Some b1"
      and b2: "snprintf_at ?t b1 = Some b2" "cbuf_exact (comma_sep (ts @ [?t])) b2" "cb_cap b2 = cap"
      by (rule list_entry_exact [OF Cons.prems(1,2) fits])
    have step: "mirror_collect_cb rid claims c (b, length ts) = Some (b2, length (ts @ [?t]))"
      using True b1 b2(1) by (simp add: mirror_collect_cb_def)
    show ?thesis
      using Cons.IH [OF b2(2,3)] Cons.prems(3) True by (simp add: step)
  qed
qed

lemma manifest_rows_set:
  "set (manifest_rows db) = coord_of ` {r \<in> set (db_artifacts db). art_status r = ''published'' \<and> art_yanked r = 0}"
  by (auto simp: manifest_rows_def image_image)

lemma manifest_rows_sorted: "sorted (manifest_rows db)"
  by (simp add: manifest_rows_def)

definition manifest_json :: "string \<Rightarrow> string list \<Rightarrow> string" where
  "manifest_json rid entries = ''{'' @ json_pair ''registry'' rid @ '','' @ quote ''artifacts'' @ '':['' @ comma_sep entries @ '']}'' @ nl"


section \<open>Files for peers\<close>

lemma grid_get_found:
  assumes "locate (st_fs (srv_store srv)) (join_path (st_root (srv_store srv)) key) = Some loc"
    "node_at (st_fs (srv_store srv)) loc = Some (File data)"
  shows "grid_get key srv = Send_body 200 (octets data @ [(''X-Cookbook-Source'', srv_registry_id srv)]) data"
  using assms by (simp add: grid_get_def fs_get_def)

text \<open>
  C39. For a path of less than four parts the permissions a peer sends along are not looked at, and the
  path is not checked: a peer that is let in reads any file the registry can open, inside or outside of
  its store.
\<close>

theorem grid_path_unchecked:
  assumes "grid_refusal env (sc_ri sc) srv = None" "request_method (sc_ri sc) = ''GET''"
    "path_after (local_uri (sc_ri sc)) ''/grid/artifact/'' = Some path" "split_artifact_path path = Some None"
    "locate (st_fs (srv_store srv)) (join_path (st_root (srv_store srv)) (srv_registry_id srv @ ''/'' @ path)) = Some loc"
    "node_at (st_fs (srv_store srv)) loc = Some (File data)"
  shows "handle_grid_artifact env sc srv =
     Some (Send_body 200 (octets data @ [(''X-Cookbook-Source'', srv_registry_id srv)]) data)"
  using assms grid_get_found [OF assms(5,6)] by (simp add: handle_grid_artifact_def grid_path_allowed_def Let_def)

text \<open>
  C34. \<open>HEAD\<close> and \<open>GET\<close> contradict each other: a file that \<open>GET\<close> delivers is missing for \<open>HEAD\<close>, and a
  file that is not there exists.
\<close>

theorem grid_head_inverted:
  assumes "grid_refusal env (sc_ri sc) srv = None" "request_method (sc_ri sc) = ''HEAD''"
    "path_after (local_uri (sc_ri sc)) ''/grid/artifact/'' = Some path" "grid_path_allowed (sc_ri sc) path = Some True"
  shows "\<exists>r. handle_grid_artifact env sc srv = Some r \<and>
     (response_status (grid_get (srv_registry_id srv @ ''/'' @ path) srv) = 200 \<longrightarrow> response_status r = 404) \<and>
     (fs_exists (srv_store srv) (srv_registry_id srv @ ''/'' @ path) \<noteq> STORE_OK \<longrightarrow> response_status r = 200)"
proof -
  let ?k = "srv_registry_id srv @ ''/'' @ path"
  have "fs_exists (srv_store srv) ?k = STORE_OK" if "response_status (grid_get ?k srv) = 200"
    using that by (auto simp: grid_get_def fs_get_def fs_exists_def access_ok_def text_json_def split: option.splits node.splits if_splits)
  moreover have "handle_grid_artifact env sc srv = Some (grid_head ?k srv)"
    using assms by (simp add: handle_grid_artifact_def Let_def)
  ultimately show ?thesis by (auto simp: grid_head_def)
qed

section \<open>Examples\<close>

definition listed :: "string \<Rightarrow> string \<Rightarrow> int \<Rightarrow> artifact_row" where
  "listed a v yanked = \<lparr>coord_id = a @ v, art_group_id = ''org'', art_artifact = a, art_version = v, art_triple = ''noarch'',
     art_snapshot = 0, art_yanked = yanked, art_yank_reason = None, art_status = ''published'', art_sha256 = [],
     art_descriptor_sha256 = None, art_signed = 0, art_size_bytes = 1, art_pending_since = None, art_published_at = None,
     art_published_by = None\<rparr>"

definition manifest_db :: cookbook_db where
  "manifest_db = db_empty\<lparr>db_artifacts := [listed ''web'' ''1.0.0'' 0, listed ''core'' ''2.0.0'' 0, listed ''core'' ''1.0.0'' 1]\<rparr>"

definition manifest_server :: cookbook_server where
  "manifest_server = (demo_server 0)\<lparr>srv_has_registry_key := False, srv_db := manifest_db\<rparr>"

definition peer_request :: "string \<Rightarrow> string \<Rightarrow> (string \<times> string) list \<Rightarrow> shim_connection" where
  "peer_request m uri hs = \<lparr>sc_ctx = \<lparr>hc_method = 0, hc_path = Some uri, hc_query = None, hc_header = (\<lambda>_. None),
       hc_body = [], hc_set_headers = [], hc_stream = None, hc_ended = False\<rparr>,
     sc_ri = \<lparr>request_method = m, local_uri = uri, query_string = None, http_headers = hs, content_length = 0\<rparr>,
     sc_status_sent = False, sc_resp_status = 0, sc_body = [], sc_body_pos = 0\<rparr>"

lemma manifest_db_rows: "manifest_rows manifest_db = [(''org'', ''core'', ''2.0.0''), (''org'', ''web'', ''1.0.0'')]"
  by code_simp


text \<open>A file beside the store, and a request whose token allows nothing.\<close>

definition leaky_server :: cookbook_server where
  "leaky_server = (demo_server 0)\<lparr>srv_store := (demo_store [])\<lparr>st_fs := (demo_fs [])\<lparr>fs_nodes :=
     [([''data'', ''secret''], File [42]), ([''data'', ''objects'', ''east''], Dir), ([''data'', ''objects''], Dir), ([''data''], Dir)]\<rparr>\<rparr>\<rparr>"

lemma leaky_facts:
  "grid_refusal signing_env (sc_ri (peer_request m uri [(''X-Cookbook-Grid-Grants'', ''{}'')])) leaky_server = None"
  "srv_registry_id leaky_server = ''east''"
  by (simp_all add: grid_refusal_def peer_signed_def peer_request_def leaky_server_def demo_server_def grid_get_hop_count_def
      grid_get_via_def grid_get_header_def verify_grid_peer_sig_def)

theorem grid_path_unchecked_witness:
  "handle_grid_artifact signing_env
     (peer_request ''GET'' ''/grid/artifact/%2e%2e/%2e%2e/secret'' [(''X-Cookbook-Grid-Grants'', ''{}'')]) leaky_server =
   Some (Send_body 200 (octets [42] @ [(''X-Cookbook-Source'', srv_registry_id leaky_server)]) [42])"
proof (rule grid_path_unchecked [where loc = "[''data'', ''secret'']"])
  show "path_after (local_uri (sc_ri (peer_request ''GET'' ''/grid/artifact/%2e%2e/%2e%2e/secret'' [(''X-Cookbook-Grid-Grants'', ''{}'')])))
      ''/grid/artifact/'' = Some ''../../secret''"
    by (simp add: peer_request_def) code_simp
  show "split_artifact_path ''../../secret'' = Some None" by code_simp
  show "locate (st_fs (srv_store leaky_server)) (join_path (st_root (srv_store leaky_server)) (srv_registry_id leaky_server @ ''/'' @ ''../../secret'')) =
      Some [''data'', ''secret'']"
    by (simp add: leaky_facts) (simp add: leaky_server_def demo_store_eq join_path_def locate_def components_def node_at_def demo_fs_def)
  show "node_at (st_fs (srv_store leaky_server)) [''data'', ''secret''] = Some (File [42])"
    by (simp add: leaky_server_def node_at_def)
  show "request_method (sc_ri (peer_request ''GET'' ''/grid/artifact/%2e%2e/%2e%2e/secret'' [(''X-Cookbook-Grid-Grants'', ''{}'')])) = ''GET''"
    by (simp add: peer_request_def)
qed (rule leaky_facts)

theorem grid_head_inverted_witness:
  "\<exists>r. handle_grid_artifact signing_env (peer_request ''HEAD'' ''/grid/artifact/objects/k'' [(''X-Cookbook-Grid-Grants'', ''{}'')]) leaky_server = Some r \<and>
     response_status r = 200 \<and> fs_exists (srv_store leaky_server) ''east/objects/k'' \<noteq> STORE_OK"
proof -
  let ?sc = "peer_request ''HEAD'' ''/grid/artifact/objects/k'' [(''X-Cookbook-Grid-Grants'', ''{}'')]"
  have p: "path_after (local_uri (sc_ri ?sc)) ''/grid/artifact/'' = Some ''objects/k''" by (simp add: peer_request_def) code_simp
  have "split_artifact_path ''objects/k'' = Some None" by code_simp
  then have a: "grid_path_allowed (sc_ri ?sc) ''objects/k'' = Some True" by (simp add: grid_path_allowed_def)
  have missing: "fs_exists (srv_store leaky_server) ''east/objects/k'' \<noteq> STORE_OK"
    by (simp add: leaky_server_def demo_store_eq fs_exists_def access_ok_def join_path_def locate_def components_def node_at_def demo_fs_def)
  have "request_method (sc_ri ?sc) = ''HEAD''" by (simp add: peer_request_def)
  from grid_head_inverted [OF leaky_facts(1) this p a] missing show ?thesis by (auto simp: leaky_facts)
qed

end
