(* ===== verification/Admin.thy ===== *)
theory Admin
  imports Login "HOL-Library.Char_ord"
begin

text \<open>
  Administration, \<^verbatim>\<open>src/src/main/c/cookbook_server.c\<close>: publisher keys, metrics, and the peers, groups,
  credentials and policies under \<^verbatim>\<open>/admin\<close>.
\<close>

definition status_json :: "nat \<Rightarrow> string \<Rightarrow> response" where
  "status_json code t = Send_json code (''{'' @ json_pair ''status'' t @ ''}'' @ nl)"

definition db_error :: response where
  "db_error = text_json 500 ''Database error''"

definition tight_field :: "string \<Rightarrow> string \<Rightarrow> nat \<Rightarrow> string" where
  "tight_field t key sz = field_or [] (json_get_string t key sz)"

section \<open>Publisher keys\<close>

definition revoke_key :: "string \<Rightarrow> string \<Rightarrow> cookbook_db \<Rightarrow> cookbook_db_status \<times> cookbook_db" where
  "revoke_key now k db =
     (DB_OK, db\<lparr>db_publisher_keys := row_update (\<lambda>r. key_id r = k \<and> key_revoked_at r = None)
        (\<lambda>r. r\<lparr>key_revoked_at := Some now\<rparr>) (db_publisher_keys db)\<rparr>)"

text \<open>A key that is there, or whose group is not, is refused.\<close>

definition insert_key :: "key_row \<Rightarrow> cookbook_db \<Rightarrow> cookbook_db_status \<times> cookbook_db" where
  "insert_key r db =
     (case row_insert key_id r (db_publisher_keys db) of
        None \<Rightarrow> (DB_CONSTRAINT, db)
      | Some rows \<Rightarrow>
          if key_group_id r \<notin> grp_group_id ` set (db_groups db) then (DB_CONSTRAINT, db)
          else (DB_OK, db\<lparr>db_publisher_keys := rows\<rparr>))"

definition keys_revoke :: "environment \<Rightarrow> string \<Rightarrow> cookbook_server \<Rightarrow> response \<times> cookbook_server" where
  "keys_revoke env k srv =
     (if \<not> validate_path_segment k then (text_json 400 ''Invalid key ID'', srv)
      else (let (st, srv) = srv_exec (revoke_key (env_utc env (env_now env)) k) srv
            in (if st \<noteq> DB_OK then db_error else status_json 200 ''revoked'', srv)))"

definition keys_register :: "environment \<Rightarrow> shim_request_info \<Rightarrow> string \<Rightarrow> cookbook_server \<Rightarrow> response \<times> cookbook_server" where
  "keys_register env ri t srv =
     (let k = tight_field t ''key_id'' 128; g = tight_field t ''group_id'' 128; pk = tight_field t ''public_key'' 256
      in if k = [] \<or> g = [] \<or> pk = [] then (text_json 400 ''Missing key_id, group_id, or public_key'', srv)
         else case require_auth_v2 env srv ri g (CHR ''c'') of
           (Inl r, srv) \<Rightarrow> (r, srv)
         | (Inr claims, srv) \<Rightarrow>
             (let (st, srv) = srv_exec (insert_key \<lparr>key_id = k, key_group_id = g, key_public_key = pk,
                      key_comment = Some (tight_field t ''comment'' 256), key_added_at = Some (env_utc env (env_now env)),
                      key_revoked_at = None\<rparr>) srv
              in (if st = DB_CONSTRAINT then text_json 409 ''Key ID already exists''
                  else if st \<noteq> DB_OK then db_error else status_json 201 ''registered'', srv)))"

definition handle_keys :: "environment \<Rightarrow> shim_connection \<Rightarrow> cookbook_server \<Rightarrow> response \<times> cookbook_server" where
  "handle_keys env sc srv =
     (if request_method (sc_ri sc) \<noteq> ''POST'' then (text_json 405 ''Method not allowed'', srv)
      else (let path = field_or [] (path_after (local_uri (sc_ri sc)) ''/keys/'')
            in if path \<noteq> [] then
                 (if length path > 7 \<and> ends_with path ''/revoke'' then keys_revoke env (take (length path - 7) path) srv
                  else (text_json 400 ''Unknown keys sub-route'', srv))
               else case fst (read_body 4096 sc) of
                 None \<Rightarrow> (text_json 400 ''Request body required'', srv)
               | Some b \<Rightarrow> keys_register env (sc_ri sc) (body_text env b) srv))"

section \<open>Metrics\<close>

definition metric :: "string \<Rightarrow> string \<Rightarrow> (string \<times> int) list \<Rightarrow> string" where
  "metric name help samples =
     ''# HELP '' @ name @ '' '' @ help @ nl @ ''# TYPE '' @ name @ '' counter'' @ nl @
     concat (map (\<lambda>(label, v). name @ label @ '' '' @ show_int v @ nl) samples)"

definition labelled :: "string \<Rightarrow> string \<Rightarrow> string" where
  "labelled k v = ''{'' @ k @ ''='' @ quote v @ ''}''"

definition metrics_text :: "cookbook_metrics \<Rightarrow> string" where
  "metrics_text m =
     metric ''cookbook_requests_total'' ''Total HTTP requests.'' [([], requests_total m)] @
     metric ''cookbook_requests_by_method'' ''HTTP requests by method.''
       [(labelled ''method'' ''GET'', requests_get m), (labelled ''method'' ''PUT'', requests_put m),
        (labelled ''method'' ''POST'', requests_post m)] @
     metric ''cookbook_responses_by_status'' ''HTTP responses by status class.''
       [(labelled ''class'' ''2xx'', responses_2xx m), (labelled ''class'' ''4xx'', responses_4xx m),
        (labelled ''class'' ''5xx'', responses_5xx m)] @
     metric ''cookbook_artifacts_published_total'' ''Artifacts published.'' [([], artifacts_published m)] @
     metric ''cookbook_artifacts_yanked_total'' ''Artifacts yanked.'' [([], artifacts_yanked m)] @
     metric ''cookbook_artifacts_resolved_total'' ''Version resolutions performed.'' [([], artifacts_resolved m)] @
     metric ''cookbook_auth_tokens_issued_total'' ''JWT tokens issued.'' [([], auth_tokens_issued m)] @
     metric ''cookbook_auth_failures_total'' ''Authentication failures.'' [([], auth_failures m)] @
     metric ''cookbook_bytes_uploaded_total'' ''Bytes uploaded.'' [([], bytes_uploaded m)] @
     metric ''cookbook_bytes_downloaded_total'' ''Bytes downloaded.'' [([], bytes_downloaded m)]"

definition handle_metrics :: "shim_connection \<Rightarrow> cookbook_server \<Rightarrow> response \<times> cookbook_server" where
  "handle_metrics sc srv =
     (if request_method (sc_ri sc) \<noteq> ''GET'' then (text_json 405 ''Method not allowed'', srv)
      else (let t = metrics_text (srv_metrics srv)
            in (Send_body 200 [(''Content-Type'', ''text/plain; version=0.0.4; charset=utf-8''),
                   (''Content-Length'', show_nat (length t))] (bytes_of (bounded 4096 t)), srv)))"

section \<open>Lists in a buffer\<close>

text \<open>
  The lists are written entry by entry into a buffer. The separator is a single byte that is left out
  when the position has passed the buffer; the entry is then written with a wrapped size.
\<close>

definition put_separator :: "nat \<Rightarrow> cbuf \<Rightarrow> cbuf option" where
  "put_separator k b = (if k > 0 \<and> cb_pos b < cb_cap b then snprintf_at '','' b else Some b)"

fun list_loop :: "string list \<Rightarrow> cbuf \<times> nat \<Rightarrow> (cbuf \<times> nat) option" where
  "list_loop [] st = Some st"
| "list_loop (t # ts) (b, k) = do {
     b \<leftarrow> put_separator k b;
     b \<leftarrow> snprintf_at t b;
     list_loop ts (b, k + 1)
   }"

definition rows_or_none :: "'r list option \<Rightarrow> 'r list" where
  "rows_or_none rows = (case rows of None \<Rightarrow> [] | Some rs \<Rightarrow> rs)"

text \<open>A list with a head and a tail around it.\<close>

definition list_reply :: "nat \<Rightarrow> string \<Rightarrow> string list \<Rightarrow> string option" where
  "list_reply cap head entries = do {
     b \<leftarrow> snprintf_at head (cbuf_new cap);
     (b, count) \<leftarrow> list_loop entries (b, 0);
     b \<leftarrow> snprintf_at ('']}'' @ nl) b;
     Some (cb_text b)
   }"

section \<open>Peers\<close>

definition peer_json :: "cookbook_peer \<Rightarrow> string" where
  "peer_json p =
     ''{'' @ json_pair ''peer_id'' (peer_id p) @ '','' @ json_pair ''name'' (peer_name p) @ '','' @ json_pair ''url'' (peer_url p) @
     '','' @ json_pair ''mode'' (if peer_mode p = CHR ''p'' then ''proxy'' else ''redirect'') @ '','' @
     quote ''priority'' @ '':'' @ show_int (peer_priority p) @
     (if peer_has_public_key p then '','' @ json_pair ''public_key'' (concat (map hex_byte (peer_public_key p))) else []) @ ''}''"

fun peers_loop :: "string list \<Rightarrow> bool \<Rightarrow> cbuf \<Rightarrow> cbuf option" where
  "peers_loop [] first b = Some b"
| "peers_loop (t # ts) first b = do {
     b \<leftarrow> (if first then Some b else snprintf_at '','' b);
     b \<leftarrow> snprintf_at t b;
     peers_loop ts False b
   }"

definition peers_list :: "cookbook_server \<Rightarrow> (response \<times> cookbook_server) option" where
  "peers_list srv = do {
     let (peers, srv) = load_peers srv;
     b \<leftarrow> snprintf_at (''{'' @ quote ''peers'' @ '':['') (cbuf_new 8192);
     b \<leftarrow> peers_loop (map peer_json peers) True b;
     b \<leftarrow> snprintf_at ('']}'' @ nl) b;
     Some (Send_json 200 (cb_text b), srv)
   }"

definition is_hex :: "char \<Rightarrow> bool" where
  "is_hex c \<longleftrightarrow> isdigit c \<or> CHR ''a'' \<le> c \<and> c \<le> CHR ''f'' \<or> CHR ''A'' \<le> c \<and> c \<le> CHR ''F''"

text \<open>\<open>INSERT OR REPLACE\<close> removes every row with the same identifier or the same address.\<close>

definition replace_peer :: "peer_row \<Rightarrow> cookbook_db \<Rightarrow> cookbook_db_status \<times> cookbook_db" where
  "replace_peer r db =
     (DB_OK, db\<lparr>db_peers := filter (\<lambda>p. pr_peer_id p \<noteq> pr_peer_id r \<and> pr_url p \<noteq> pr_url r) (db_peers db) @ [r]\<rparr>)"

definition delete_peer :: "string \<Rightarrow> cookbook_db \<Rightarrow> cookbook_db_status \<times> cookbook_db" where
  "delete_peer pid db = (DB_OK, db\<lparr>db_peers := filter (\<lambda>p. pr_peer_id p \<noteq> pid) (db_peers db)\<rparr>)"

definition body_priority :: "string \<Rightarrow> int" where
  "body_priority t = (case strstr t (quote ''priority'' @ '':'') of None \<Rightarrow> 100 | Some p \<Rightarrow> atoi (drop 11 p))"

definition peers_put :: "environment \<Rightarrow> string \<Rightarrow> cookbook_server \<Rightarrow> response \<times> cookbook_server" where
  "peers_put env t srv =
     (let f = (\<lambda>k sz. field_or [] (spaced_field t k sz));
          pid = f ''peer_id'' 128; name = f ''name'' 128; url = f ''url'' 512; pk = f ''public_key'' 128
      in if pid = [] \<or> name = [] \<or> url = [] then (text_json 400 ''peer_id, name, and url required'', srv)
         else if pk \<noteq> [] \<and> length pk \<noteq> 64 then (text_json 400 ''public_key must be 64 hex characters'', srv)
         else if \<not> list_all is_hex pk then (text_json 400 ''public_key contains non-hex chars'', srv)
         else (let (st, srv) = srv_exec (replace_peer \<lparr>pr_peer_id = pid, pr_name = name, pr_url = url,
                        pr_mode = (if f ''mode'' 16 = ''proxy'' then ''proxy'' else ''redirect''), pr_priority = body_priority t,
                        pr_enabled = 1, pr_public_key = (if pk = [] then None else Some pk),
                        pr_added_at = Some (env_iso env (env_now env)), pr_last_status = 0\<rparr>) srv
               in (if st \<noteq> DB_OK then db_error else status_json 200 ''ok'', srv)))"

definition handle_admin_peers :: "environment \<Rightarrow> shim_connection \<Rightarrow> cookbook_server \<Rightarrow> (response \<times> cookbook_server) option" where
  "handle_admin_peers env sc srv =
     (let m = request_method (sc_ri sc)
      in if m = ''GET'' then peers_list srv
         else if m = ''PUT'' then
           (case fst (read_body 4096 sc) of
              None \<Rightarrow> Some (text_json 400 ''Body required'', srv)
            | Some b \<Rightarrow> Some (peers_put env (body_text env b) srv))
         else if m = ''DELETE'' then
           (let path = field_or [] (path_after (local_uri (sc_ri sc)) ''/admin/peers/'')
            in if path = [] then Some (text_json 400 ''Peer ID required'', srv)
               else Some (status_json 200 ''deleted'', snd (srv_exec (delete_peer path) srv)))
         else Some (text_json 405 ''Method not allowed'', srv))"

section \<open>Groups\<close>

text \<open>The group in a path: without slashes at its end, cut, and with dots for slashes.\<close>

definition admin_group :: "string \<Rightarrow> string" where
  "admin_group uri =
     (let path = drop (length ''/admin/groups'') uri
      in if length path \<ge> 2 \<and> hd path = CHR ''/''
         then slash_to_dot (take 255 (rev (dropWhile (\<lambda>c. c = CHR ''/'') (rev (tl path))))) else [])"

definition group_json :: "group_row \<Rightarrow> string" where
  "group_json r =
     ''{'' @ json_pair ''group_id'' (grp_group_id r) @ '','' @ json_pair ''owner'' (grp_owner_sub r) @ '','' @
     json_pair ''created_at'' (field_or [] (grp_created_at r)) @
     (case grp_description r of None \<Rightarrow> [] | Some d \<Rightarrow> '','' @ json_pair ''description'' d) @ ''}''"

text \<open>The single group is followed by a line feed and a terminator at the position the list ended.\<close>

definition group_get :: "string \<Rightarrow> cookbook_server \<Rightarrow> (response \<times> cookbook_server) option" where
  "group_get g srv =
     (let (rows, srv) = srv_rows (\<lambda>db. filter (\<lambda>r. grp_group_id r = g) (db_groups db)) srv
      in do {
        (b, count) \<leftarrow> list_loop (map group_json (rows_or_none rows)) (cbuf_new 2048, 0);
        if count = 0 then Some (text_json 404 ''Group not found'', inc_4xx srv)
        else if cb_pos b + 2 > cb_cap b then None
        else Some (Send_json 200 (cb_text b @ nl), inc_2xx srv)
      })"

definition groups_list :: "cookbook_server \<Rightarrow> (response \<times> cookbook_server) option" where
  "groups_list srv =
     (let (rows, srv) = srv_rows (\<lambda>db. sort_key grp_group_id (db_groups db)) srv
      in do {
        t \<leftarrow> list_reply 16384 (''{'' @ quote ''groups'' @ '':['') (map group_json (rows_or_none rows));
        Some (Send_json 200 t, inc_2xx srv)
      })"

definition insert_new_group :: "group_row \<Rightarrow> cookbook_db \<Rightarrow> cookbook_db_status \<times> cookbook_db" where
  "insert_new_group r db =
     (case row_insert grp_group_id r (db_groups db) of
        None \<Rightarrow> (DB_CONSTRAINT, db) | Some rows \<Rightarrow> (DB_OK, db\<lparr>db_groups := rows\<rparr>))"

definition update_group :: "(group_row \<Rightarrow> group_row) \<Rightarrow> string \<Rightarrow> cookbook_db \<Rightarrow> cookbook_db_status \<times> cookbook_db" where
  "update_group f g db = (DB_OK, db\<lparr>db_groups := row_update (\<lambda>r. grp_group_id r = g) f (db_groups db)\<rparr>)"

text \<open>A group that artifacts or keys refer to cannot be deleted.\<close>

definition delete_group :: "string \<Rightarrow> cookbook_db \<Rightarrow> cookbook_db_status \<times> cookbook_db" where
  "delete_group g db =
     (if g \<in> grp_group_id ` set (db_groups db) \<and>
         (g \<in> art_group_id ` set (db_artifacts db) \<or> g \<in> key_group_id ` set (db_publisher_keys db)) then (DB_CONSTRAINT, db)
      else (DB_OK, db\<lparr>db_groups := filter (\<lambda>r. grp_group_id r \<noteq> g) (db_groups db)\<rparr>))"

definition group_put :: "environment \<Rightarrow> shim_request_info \<Rightarrow> string \<Rightarrow> cookbook_server \<Rightarrow> response \<times> cookbook_server" where
  "group_put env ri t srv =
     (let g = tight_field t ''group_id'' 256; desc = tight_field t ''description'' 512
      in if g = [] then (text_json 400 ''Missing group_id'', inc_4xx srv)
         else case require_auth_v2 env srv ri g (CHR ''c'') of
           (Inl r, srv) \<Rightarrow> (r, srv)
         | (Inr claims, srv) \<Rightarrow>
             (let owner = (if claim_sub claims \<noteq> [] then claim_sub claims else ''anonymous'');
                  (st, srv) = srv_exec (insert_new_group \<lparr>grp_group_id = g, grp_owner_sub = owner,
                       grp_created_at = Some (env_utc env (env_now env)), grp_description = (if desc = [] then None else Some desc)\<rparr>) srv
              in if st \<noteq> DB_OK then (text_json 409 ''Group already exists'', inc_4xx srv)
                 else (Send_json 201 (bounded 512 (''{'' @ json_pair ''status'' ''created'' @ '','' @ json_pair ''group_id'' g @ '','' @
                         json_pair ''owner'' owner @ ''}'' @ nl)),
                       audit_log env ''admin'' owner g ''group-created'' (inc_2xx srv))))"

definition group_update ::
  "environment \<Rightarrow> cookbook_jwt_claims \<Rightarrow> string \<Rightarrow> string \<Rightarrow> cookbook_server \<Rightarrow> response \<times> cookbook_server" where
  "group_update env claims g t srv =
     (let owner = json_get_string t ''owner'' 128; desc = json_get_string t ''description'' 512
      in if owner = None \<and> desc = None then (text_json 400 ''Nothing to update (provide owner or description)'', inc_4xx srv)
         else (let (st1, srv) = (case owner of Some v \<Rightarrow> srv_exec (update_group (\<lambda>r. r\<lparr>grp_owner_sub := v\<rparr>) g) srv | None \<Rightarrow> (DB_OK, srv));
                   (st2, srv) = (case desc of Some v \<Rightarrow> srv_exec (update_group (\<lambda>r. r\<lparr>grp_description := Some v\<rparr>) g) srv | None \<Rightarrow> (DB_OK, srv))
               in if st1 = DB_OK \<and> st2 = DB_OK
                  then (status_json 200 ''updated'', audit_log env ''admin'' (claim_sub claims) g ''group-updated'' (inc_2xx srv))
                  else (text_json 404 ''Group not found'', srv)))"

definition group_patch :: "environment \<Rightarrow> shim_connection \<Rightarrow> string \<Rightarrow> cookbook_server \<Rightarrow> response \<times> cookbook_server" where
  "group_patch env sc g srv =
     (case fst (read_body 4096 sc) of
        None \<Rightarrow> (text_json 400 ''Body required'', inc_4xx srv)
      | Some b \<Rightarrow>
          (case require_auth_v2 env srv (sc_ri sc) g (CHR ''w'') of
             (Inl r, srv) \<Rightarrow> (r, srv)
           | (Inr claims, srv) \<Rightarrow> group_update env claims g (body_text env b) srv))"

text \<open>A failing count is taken for none; the reference of the tables then still keeps the group.\<close>

definition group_delete :: "environment \<Rightarrow> shim_request_info \<Rightarrow> string \<Rightarrow> cookbook_server \<Rightarrow> response \<times> cookbook_server" where
  "group_delete env ri g srv =
     (case require_auth_v2 env srv ri g (CHR ''d'') of
        (Inl r, srv) \<Rightarrow> (r, srv)
      | (Inr claims, srv) \<Rightarrow>
          (let (rows, srv) = srv_rows (\<lambda>db. filter (\<lambda>r. art_group_id r = g) (db_artifacts db)) srv;
               n = length (rows_or_none rows)
           in if n > 0
              then (Send_json 409 (bounded 256 (''{'' @ quote ''error'' @ '':'' @ quote (''Cannot delete group '' @ [CHR 0x27] @ g @
                      [CHR 0x27] @ '': '' @ show_nat n @ '' artifact(s) still reference it'') @ ''}'' @ nl)), inc_4xx srv)
              else (let (st, srv) = srv_exec (delete_group g) srv
                    in if st = DB_OK
                       then (status_json 200 ''deleted'', audit_log env ''admin'' (claim_sub claims) g ''group-deleted'' (inc_2xx srv))
                       else (text_json 404 ''Group not found'', srv))))"

definition handle_admin_groups :: "environment \<Rightarrow> shim_connection \<Rightarrow> cookbook_server \<Rightarrow> (response \<times> cookbook_server) option" where
  "handle_admin_groups env sc srv =
     (let ri = sc_ri sc; m = request_method ri; g = admin_group (local_uri ri); srv = inc_total srv
      in if m = ''GET'' then (if g \<noteq> [] then group_get g srv else groups_list srv)
         else if m = ''PUT'' then
           (case fst (read_body 4096 sc) of
              None \<Rightarrow> Some (text_json 400 ''Body required'', inc_4xx srv)
            | Some b \<Rightarrow> Some (group_put env ri (body_text env b) srv))
         else if m = ''PATCH'' \<and> g \<noteq> [] then Some (group_patch env sc g srv)
         else if m = ''DELETE'' \<and> g \<noteq> [] then Some (group_delete env ri g srv)
         else Some (text_json 405 ''Method not allowed'', inc_4xx srv))"

section \<open>Credentials\<close>

definition credential_json :: "credential_row \<Rightarrow> string" where
  "credential_json r =
     ''{'' @ json_pair ''subject'' (cred_subject r) @ '','' @ json_pair ''groups'' (cred_groups r) @ '','' @
     json_pair ''created_at'' (field_or [] (cred_created_at r)) @
     (if cred_revoked_at r \<noteq> None then '','' @ quote ''revoked'' @ '':true'' else []) @ ''}''"

definition credentials_list :: "cookbook_server \<Rightarrow> (response \<times> cookbook_server) option" where
  "credentials_list srv =
     (let (rows, srv) = srv_rows (\<lambda>db. sort_key cred_subject (db_credentials db)) srv
      in do {
        t \<leftarrow> list_reply 8192 (''{'' @ quote ''credentials'' @ '':['') (map credential_json (rows_or_none rows));
        Some (Send_json 200 t, inc_2xx srv)
      })"

definition revoke_credential :: "string \<Rightarrow> string \<Rightarrow> cookbook_db \<Rightarrow> cookbook_db_status \<times> cookbook_db" where
  "revoke_credential now sub db =
     (DB_OK, db\<lparr>db_credentials := row_update (\<lambda>r. cred_subject r = sub \<and> cred_revoked_at r = None)
        (\<lambda>r. r\<lparr>cred_revoked_at := Some now\<rparr>) (db_credentials db)\<rparr>)"

definition replace_credential :: "credential_row \<Rightarrow> cookbook_db \<Rightarrow> cookbook_db_status \<times> cookbook_db" where
  "replace_credential r db = (DB_OK, db\<lparr>db_credentials := row_replace cred_subject r (db_credentials db)\<rparr>)"

definition delete_credential :: "string \<Rightarrow> cookbook_db \<Rightarrow> cookbook_db_status \<times> cookbook_db" where
  "delete_credential sub db = (DB_OK, db\<lparr>db_credentials := filter (\<lambda>r. cred_subject r \<noteq> sub) (db_credentials db)\<rparr>)"

text \<open>Subject in the path, and whether \<open>/revoke\<close> follows it anywhere.\<close>

definition credential_path :: "string \<Rightarrow> string \<times> bool" where
  "credential_path uri =
     (let path = drop (length ''/admin/credentials'') uri
      in if length path \<ge> 2 \<and> hd path = CHR ''/''
         then (case strstr (tl path) ''/revoke'' of
                 Some r \<Rightarrow> (take 127 (take (length (tl path) - length r) (tl path)), True)
               | None \<Rightarrow> (take 127 (tl path), False))
         else ([], False))"

definition credential_change ::
  "environment \<Rightarrow> string \<Rightarrow> string \<Rightarrow> string \<Rightarrow> string \<Rightarrow> (cookbook_db \<Rightarrow> cookbook_db_status \<times> cookbook_db) \<Rightarrow> cookbook_server \<Rightarrow>
   response \<times> cookbook_server" where
  "credential_change env sub event done failed stmt srv =
     (let (st, srv) = srv_exec stmt srv
      in if st = DB_OK then (status_json 200 done, audit_log env ''admin'' sub event ''ok'' (inc_2xx srv))
         else (text_json 500 failed, srv))"

definition credential_put :: "environment \<Rightarrow> string \<Rightarrow> cookbook_server \<Rightarrow> response \<times> cookbook_server" where
  "credential_put env t srv =
     (let sub = tight_field t ''subject'' 128; secret = tight_field t ''token'' 512; groups = tight_field t ''groups'' 1024
      in if sub = [] \<or> secret = [] \<or> groups = [] then (text_json 400 ''subject, token, and groups required'', inc_4xx srv)
         else case cookbook_credential_hash (\<lambda>n. Some (env_entropy env n)) (env_argon_hash env) secret of
           None \<Rightarrow> (text_json 500 ''Failed to hash credential'', srv)
         | Some hash \<Rightarrow>
             (let (st, srv) = srv_exec (replace_credential \<lparr>cred_subject = sub, cred_token_hash = hash, cred_groups = groups,
                      cred_created_at = Some (env_iso env (env_now env)), cred_revoked_at = None\<rparr>) srv
              in if st = DB_OK
                 then (Send_json 201 (bounded 256 (''{'' @ json_pair ''status'' ''created'' @ '','' @ json_pair ''subject'' sub @ ''}'' @ nl)),
                       audit_log env ''admin'' sub ''credential-create'' ''ok'' (inc_2xx srv))
                 else (text_json 500 ''Failed to store credential'', srv)))"

definition handle_admin_credentials :: "environment \<Rightarrow> shim_connection \<Rightarrow> cookbook_server \<Rightarrow> (response \<times> cookbook_server) option" where
  "handle_admin_credentials env sc srv =
     (let m = request_method (sc_ri sc); (sub, revoke) = credential_path (local_uri (sc_ri sc)); srv = inc_total srv
      in if m = ''GET'' then credentials_list srv
         else if m = ''POST'' \<and> revoke \<and> sub \<noteq> [] then
           Some (credential_change env sub ''credential-revoke'' ''revoked'' ''Failed to revoke credential''
             (revoke_credential (env_iso env (env_now env)) sub) srv)
         else if m = ''PUT'' then
           (case fst (read_body 4096 sc) of
              None \<Rightarrow> Some (text_json 400 ''Body required'', inc_4xx srv)
            | Some b \<Rightarrow> Some (credential_put env (body_text env b) srv))
         else if m = ''DELETE'' \<and> sub \<noteq> [] then
           Some (credential_change env sub ''credential-delete'' ''deleted'' ''Failed to delete credential'' (delete_credential sub) srv)
         else Some (text_json 405 ''Method not allowed'', inc_4xx srv))"

section \<open>Policies\<close>

definition policy_json_row :: "policy_row \<Rightarrow> string" where
  "policy_json_row r =
     ''{'' @ json_pair ''subject'' (pol_subject r) @ '','' @ json_pair ''kind'' (pol_kind r) @ '','' @
     json_pair ''updated_at'' (pol_updated_at r) @ ''}''"

definition policies_list :: "cookbook_server \<Rightarrow> (response \<times> cookbook_server) option" where
  "policies_list srv =
     (let (rows, srv) = srv_rows (\<lambda>db. sort_key pol_subject (db_policies db)) srv
      in do {
        b \<leftarrow> peers_loop (map policy_json_row (rows_or_none rows)) True (cbuf_new 8192);
        Some (Send_json 200 (''{'' @ quote ''policies'' @ '':['' @ cb_text b @ '']}'' @ nl), srv)
      })"

text \<open>What is before \<open>/effective\<close> in the path is resolved; else the stored document is returned.\<close>

definition policy_get :: "environment \<Rightarrow> shim_request_info \<Rightarrow> string \<Rightarrow> cookbook_server \<Rightarrow> response \<times> cookbook_server" where
  "policy_get env ri path srv =
     (case strstr path ''/effective'' of
        Some e \<Rightarrow>
          (let (j, db) = cookbook_policy_resolve (env_parse env) (env_conflate env) (take (length path - length e) path) (srv_db srv)
           in (case j of None \<Rightarrow> text_json 404 ''Policy not found or resolution failed'' | Some t \<Rightarrow> Send_json 200 t, srv\<lparr>srv_db := db\<rparr>))
      | None \<Rightarrow>
          (let (p, db) = cookbook_policy_get path (srv_db srv)
           in (case p of None \<Rightarrow> text_json 404 ''Policy not found''
               | Some t \<Rightarrow> send_response_gzip env ri 200 pasta_type_text [] (bytes_of t), srv\<lparr>srv_db := db\<rparr>)))"

definition policy_kind :: "pasta_value \<Rightarrow> string" where
  "policy_kind doc =
     (case tpasta_map_get doc ''identity'' of
        Some idv \<Rightarrow>
          if tpasta_type idv = PASTA_MAP \<and> Option.bind (tpasta_map_get idv ''kind'') tpasta_get_string = Some ''team'' then ''team''
          else ''user''
      | None \<Rightarrow> ''user'')"

definition policy_store :: "environment \<Rightarrow> string \<Rightarrow> byte list \<Rightarrow> cookbook_server \<Rightarrow> response \<times> cookbook_server" where
  "policy_store env sub body srv =
     (case env_parse env (string_of body) of
        None \<Rightarrow> (let pos = env_parse_pos env (string_of body) in Send_json 400 (bounded 512 (''{'' @ quote ''error'' @ '':'' @
              quote (''Invalid pasta at '' @ show_int (fst pos) @ '':'' @ show_int (snd pos) @ '': '' @ env_parse_msg env (string_of body)) @ ''}'' @ nl)), srv)
      | Some doc \<Rightarrow>
          (let (ok, db) = cookbook_policy_put (env_iso env (env_now env)) sub (policy_kind doc) (body_text env body) (srv_db srv);
               srv = srv\<lparr>srv_db := db\<rparr>
           in if \<not> ok then (db_error, srv)
              else (status_json 200 ''ok'', audit_log env ''admin'' sub ''policy-put'' ''ok'' srv)))"

definition handle_admin_policies :: "environment \<Rightarrow> shim_connection \<Rightarrow> cookbook_server \<Rightarrow> (response \<times> cookbook_server) option" where
  "handle_admin_policies env sc srv =
     (let ri = sc_ri sc; m = request_method ri; path = field_or [] (path_after (local_uri ri) ''/admin/policies/'')
      in if m = ''GET'' then (if path \<noteq> [] then Some (policy_get env ri path srv) else policies_list srv)
         else if m = ''PUT'' then
           (if path = [] then Some (text_json 400 ''Subject required in path'', srv)
            else case fst (read_body 65536 sc) of
              None \<Rightarrow> Some (text_json 400 ''Pastlet body required'', srv)
            | Some b \<Rightarrow> Some (policy_store env (bounded 128 path) b srv))
         else if m = ''DELETE'' then
           (if path = [] then Some (text_json 400 ''Subject required in path'', srv)
            else (let srv = audit_log env ''admin'' path ''policy-delete'' ''ok'' srv;
                      (ok, db) = cookbook_policy_delete path (srv_db srv)
                  in Some (status_json 200 ''deleted'', srv\<lparr>srv_db := db\<rparr>)))
         else Some (text_json 405 ''Method not allowed'', srv))"

section \<open>What the handlers keep\<close>

lemma admin_tables [simp]:
  "tables (snd (revoke_key now k db)) = tables db" "tables (snd (insert_key kr db)) = tables db"
  "tables (snd (replace_peer pr db)) = tables db" "tables (snd (delete_peer pid db)) = tables db"
  "tables (snd (revoke_credential now sub db)) = tables db" "tables (snd (replace_credential cr db)) = tables db"
  "tables (snd (delete_credential sub db)) = tables db"
  by (simp_all add: tables_def revoke_key_def insert_key_def replace_peer_def delete_peer_def revoke_credential_def
      replace_credential_def delete_credential_def split: option.splits)

lemma core_exec_admin: "srv_exec stmt srv = (st, srv') \<Longrightarrow> (\<forall>db. tables (snd (stmt db)) = tables db) \<Longrightarrow> core srv' = core srv"
  using core_exec [of stmt srv st srv'] by blast

lemma handle_keys_core: "core (snd (handle_keys env sc srv)) = core srv"
  by (auto simp: handle_keys_def keys_revoke_def keys_register_def Let_def dest!: core_auth core_exec_admin
      split: option.splits prod.splits sum.splits)

lemma handle_metrics_same: "snd (handle_metrics sc srv) = srv"
  by (simp add: handle_metrics_def Let_def)

lemma peers_put_core: "core (snd (peers_put env t srv)) = core srv"
  by (auto simp: peers_put_def Let_def dest!: core_exec_admin split: prod.splits)

lemma peers_list_core: "peers_list srv = Some (r, srv') \<Longrightarrow> core srv' = core srv"
  by (auto simp: peers_list_def Let_def dest!: core_peers split: prod.splits Option.bind_splits)

lemma handle_admin_peers_core: "handle_admin_peers env sc srv = Some (r, srv') \<Longrightarrow> core srv' = core srv"
  using peers_put_core [of env _ srv]
  by (auto simp: handle_admin_peers_def Let_def core_exec_snd dest!: peers_list_core split: if_splits option.splits) (metis snd_conv)

lemma credential_change_core: "(\<forall>db. tables (snd (stmt db)) = tables db) \<Longrightarrow> core (snd (credential_change env sub e d f stmt srv)) = core srv"
  by (auto simp: credential_change_def dest!: core_exec_admin split: prod.splits)

lemma credential_put_core: "core (snd (credential_put env t srv)) = core srv"
  by (auto simp: credential_put_def Let_def dest!: core_exec_admin split: prod.splits option.splits)

lemma credentials_list_core: "credentials_list srv = Some (r, srv') \<Longrightarrow> core srv' = core srv"
  by (auto simp: credentials_list_def Let_def dest!: core_rows split: prod.splits Option.bind_splits)

lemma snd_eqD: "f = (r, srv') \<Longrightarrow> core (snd f) = c \<Longrightarrow> core srv' = c"
  by simp

lemma handle_admin_credentials_core: "handle_admin_credentials env sc srv = Some (r, srv') \<Longrightarrow> core srv' = core srv"
  by (auto simp: handle_admin_credentials_def Let_def dest!: credentials_list_core snd_eqD [OF _ credential_change_core] snd_eqD [OF _ credential_put_core]
      split: if_splits option.splits prod.splits)

lemma policies_list_core: "policies_list srv = Some (r, srv') \<Longrightarrow> core srv' = core srv"
  by (auto simp: policies_list_def Let_def dest!: core_rows split: prod.splits Option.bind_splits)

lemma policy_get_core: "core (snd (policy_get env ri path srv)) = core srv"
  by (auto simp: policy_get_def Let_def dest!: tables_policy_get tables_policy_resolve intro!: core_db split: prod.splits option.splits)

lemma policy_store_core: "core (snd (policy_store env sub body srv)) = core srv"
  by (auto simp: policy_store_def Let_def dest!: tables_policy_put split: prod.splits option.splits) (simp_all add: core_db)

lemma handle_admin_policies_core: "handle_admin_policies env sc srv = Some (r, srv') \<Longrightarrow> core srv' = core srv"
  by (auto simp: handle_admin_policies_def Let_def dest!: policies_list_core snd_eqD [OF _ policy_get_core] snd_eqD [OF _ policy_store_core]
      tables_policy_delete split: if_splits option.splits prod.splits) (simp_all add: core_db)

text \<open>The statements on groups change one of these tables, and keep it consistent with the others.\<close>

lemma insert_new_group_ok: "db_ok db \<Longrightarrow> db_ok (snd (insert_new_group r db))"
  by (auto simp: db_ok_def insert_new_group_def row_insert_def split: option.splits if_splits)

lemma update_group_ok: "(\<And>r. grp_group_id (f r) = grp_group_id r) \<Longrightarrow> db_ok db \<Longrightarrow> db_ok (snd (update_group f g db))"
  using row_update_keys [of grp_group_id f "\<lambda>r. grp_group_id r = g" "db_groups db"]
  by (simp add: db_ok_def update_group_def) (metis set_map)

lemma delete_group_ok: "db_ok db \<Longrightarrow> db_ok (snd (delete_group g db))"
proof -
  have keys: "grp_group_id ` set (filter (\<lambda>r. grp_group_id r \<noteq> g) rs) = grp_group_id ` set rs - {g}" for rs
    by auto
  assume "db_ok db"
  then show ?thesis
    unfolding db_ok_def delete_group_def by (auto simp: keys distinct_map_filter simp del: set_filter)
qed

lemma group_statements [simp]:
  "db_artifacts (snd (insert_new_group gr db)) = db_artifacts db" "db_object_cache (snd (insert_new_group gr db)) = db_object_cache db"
  "db_artifacts (snd (update_group f g db)) = db_artifacts db" "db_object_cache (snd (update_group f g db)) = db_object_cache db"
  "db_artifacts (snd (delete_group g db)) = db_artifacts db" "db_object_cache (snd (delete_group g db)) = db_object_cache db"
  by (simp_all add: insert_new_group_def update_group_def delete_group_def split: option.splits)

section \<open>Stored credentials and logins\<close>

lemma live_filter: "live_credentials sub db = filter (\<lambda>r. cred_revoked_at r = None) (filter (\<lambda>r. cred_subject r = sub) (db_credentials db))"
  by (simp add: live_credentials_def conj_commute)

lemma replace_live:
  "cred_revoked_at r = None \<Longrightarrow> live_credentials sub (snd (replace_credential r db)) =
     (if sub = cred_subject r then [r] else live_credentials sub db)"
  by (simp add: live_filter replace_credential_def row_replace_lookup)

lemma lookup_no_fault:
  "db_faults (srv_db srv) = [] \<Longrightarrow>
   lookup_credential sub srv = (map_option cred_lookup_cb (last_option (live_credentials sub (srv_db srv))), srv)"
  by (simp add: lookup_credential_def srv_rows_def Let_def)

lemma exec_credentials:
  assumes "srv_exec (replace_credential r) srv = (DB_OK, srv')"
  shows "\<exists>db. srv_db srv' = snd (replace_credential r db) \<and> db_credentials db = db_credentials (srv_db srv) \<and> DB_OK = fst (replace_credential r db)"
  using assms by (auto simp: srv_exec_def db_exec_def Let_def dest!: db_next_eqD(9) split: prod.splits if_splits) (metis snd_conv fst_conv prod.collapse)

text \<open>
  C32. After a credential was stored for a subject, a login of the subject is let through exactly for the
  secrets that verify against the new hash, with the groups that were stored; logins of the other
  subjects are decided as before.
\<close>

theorem credential_roundtrip:
  assumes "credential_put env t srv = (r, srv')" "response_status r = 201" "db_faults (srv_db srv') = []" "db_faults (srv_db srv) = []"
    and "cookbook_credential_hash (\<lambda>n. Some (env_entropy env n)) (env_argon_hash env) (tight_field t ''token'' 512) = Some hash" "length hash < 256"
  shows "fst (local_login env' sub secret srv') =
     (if sub = tight_field t ''subject'' 128
      then if secret_ok env' secret hash then Some (tight_field t ''groups'' 1024) else None
      else fst (local_login env' sub secret srv))"
proof -
  define row where "row = \<lparr>cred_subject = tight_field t ''subject'' 128, cred_token_hash = hash, cred_groups = tight_field t ''groups'' 1024,
     cred_created_at = Some (env_iso env (env_now env)), cred_revoked_at = None\<rparr>"
  have "length (tight_field t ''groups'' 1024) < 1024"
    by (auto simp: tight_field_def field_or_def json_get_string_def Let_def split: option.splits Option.bind_splits)
  then have cb: "cred_lookup_cb row = (hash, tight_field t ''groups'' 1024)"
    using assms(6) by (simp add: cred_lookup_cb_def row_def bounded_def)
  obtain srv1 where x: "srv_exec (replace_credential row) srv = (DB_OK, srv1)" and d: "srv_db srv' = srv_db srv1"
    using assms(1,2,5) by (auto simp: credential_put_def row_def text_json_def counters Let_def split: if_splits prod.splits)
  obtain db where "srv_db srv' = snd (replace_credential row db)" "db_credentials db = db_credentials (srv_db srv)"
    using exec_credentials [OF x] d by auto
  then have live: "live_credentials sub (srv_db srv') = (if sub = cred_subject row then [row] else live_credentials sub (srv_db srv))"
    using replace_live [of row sub db] by (simp add: row_def live_credentials_def)
  show ?thesis
    using lookup_no_fault [OF assms(3), of sub] lookup_no_fault [OF assms(4), of sub] cb
    by (simp add: local_login_def live last_option_def) (simp add: row_def split: option.splits prod.splits)
qed

section \<open>Policies without permission\<close>

text \<open>
  A policy is stored for any client: neither a token nor a signature is asked for, whatever headers
  the request has and whether or not the registry has a key. The subject then has this policy.
\<close>

theorem policy_put_open:
  assumes "request_method (sc_ri sc) = ''PUT''" "path_after (local_uri (sc_ri sc)) ''/admin/policies/'' = Some path" "path \<noteq> []"
    "fst (read_body 65536 sc) = Some body" "env_parse env (string_of body) = Some doc" "db_faults (srv_db srv) = []"
  shows "\<exists>srv'. handle_admin_policies env sc srv = Some (status_json 200 ''ok'', srv') \<and>
     fst (cookbook_policy_get (bounded 128 path) (srv_db srv')) = Some (body_text env body)"
  using assms
  by (simp add: handle_admin_policies_def Let_def field_or_def policy_store_def cookbook_policy_put_def db_exec_def
      cookbook_policy_get_def db_query_def row_replace_def last_option_def)

text \<open>A registry with a key, and requests without any header.\<close>

definition credential_text :: string where
  "credential_text = ''{'' @ json_pair ''subject'' ''amy'' @ '','' @ json_pair ''token'' ''s3'' @ '','' @ json_pair ''groups'' ''dev'' @ ''}''"

theorem credential_roundtrip_witness:
  "fst (local_login login_env ''amy'' ''s3'' (snd (credential_put login_env credential_text login_server))) = Some ''dev'' \<and>
   fst (local_login login_env ''amy'' ''guess'' (snd (credential_put login_env credential_text login_server))) = None \<and>
   fst (local_login login_env ''bob'' ''pw'' (snd (credential_put login_env credential_text login_server))) = Some ''dev''"
proof -
  have f: "tight_field credential_text ''subject'' 128 = ''amy''" "tight_field credential_text ''token'' 512 = ''s3''"
    "tight_field credential_text ''groups'' 1024 = ''dev''" by code_simp+
  have hash: "cookbook_credential_hash (\<lambda>n. Some (env_entropy login_env n)) (env_argon_hash login_env) ''s3'' = Some ''s3''"
    by (simp add: cookbook_credential_hash_def login_env_def signing_env_def)
  obtain r srv' where put: "credential_put login_env credential_text login_server = (r, srv')" by fastforce
  have ok: "response_status r = 201" "db_faults (srv_db srv') = []"
    using put by (simp_all add: credential_put_def f hash srv_exec_def db_exec_def login_server_facts replace_credential_def counters Let_def)
       (auto simp: login_server_def db_empty_def)
  have "secret_ok login_env s h \<longleftrightarrow> s = h" for s h
    by (auto simp: secret_ok_def cookbook_credential_verify_def login_env_def signing_env_def)
  moreover have "fst (local_login login_env ''bob'' ''pw'' login_server) = (if secret_ok login_env ''pw'' ''pw'' then Some ''dev'' else None)"
    using lookup_one [OF login_server_facts(2,3)] by (simp add: local_login_def bob_def bounded_def)
  moreover note credential_roundtrip [OF put ok login_server_facts(2), unfolded f, OF hash]
  ultimately show ?thesis by (simp add: put)
qed

definition open_put :: shim_connection where
  "open_put = (login_request [] [100, 111, 99])\<lparr>sc_ri := \<lparr>request_method = ''PUT'', local_uri = ''/admin/policies/mallory'',
     query_string = None, http_headers = [], content_length = 3\<rparr>\<rparr>"

theorem policy_put_open_witness:
  "srv_has_registry_key login_server \<and> http_headers (sc_ri open_put) = [] \<and>
   (\<exists>srv'. handle_admin_policies login_env open_put login_server = Some (status_json 200 ''ok'', srv') \<and>
      fst (cookbook_policy_get (bounded 128 ''mallory'') (srv_db srv')) = Some (body_text login_env [100, 111, 99]))"
proof (intro conjI)
  show "\<exists>srv'. handle_admin_policies login_env open_put login_server = Some (status_json 200 ''ok'', srv') \<and>
      fst (cookbook_policy_get (bounded 128 ''mallory'') (srv_db srv')) = Some (body_text login_env [100, 111, 99])"
  proof (rule policy_put_open)
    show "path_after (local_uri (sc_ri open_put)) ''/admin/policies/'' = Some ''mallory''"
      by (simp add: open_put_def path_after_def has_prefix_def c_str_def)
    show "fst (read_body 65536 open_put) = Some [100, 111, 99]"
      by (simp add: open_put_def login_request_def read_body_def read_loop.simps shim_read_def nonempty_def Let_def)
    have "string_of [100, 111, 99] = ''doc''" by code_simp
    then show "env_parse login_env (string_of [100, 111, 99]) = Some (PMap sample_policy)" by (simp add: login_env_def)
  qed (simp_all add: login_server_facts open_put_def)
qed (simp_all add: login_server_facts open_put_def)

end
