(* ===== verification/Registry.thy ===== *)
theory Registry
  imports Device Peers Admin
begin

text \<open>
  The registry as a whole: requests to all its handlers and the background job, in any order. The invariant ties the tables to the object store: what is listed
  as published has its descriptor.
\<close>

section \<open>The invariant\<close>

definition registry_ok :: "string \<Rightarrow> bool" where
  "registry_ok rid \<longleftrightarrow> plain_name rid \<and> no_dotdot rid \<and> length rid \<le> 200"

text \<open>
  Rows whose descriptor has a place of its own: the version is short and without slashes, and the
  group is not the one whose files the object cache uses.
\<close>

definition own_space :: "string \<Rightarrow> string \<Rightarrow> bool" where
  "own_space g a \<longleftrightarrow> hd (names (dots_to_slashes g) @ [a]) \<noteq> ''objects''"

definition tidy :: "artifact_row \<Rightarrow> bool" where
  "tidy r \<longleftrightarrow> validate_version (art_version r) \<and> CHR ''/'' \<notin> set (art_version r) \<and>
     own_space (art_group_id r) (art_artifact r)"

definition row_key :: "cookbook_server \<Rightarrow> artifact_row \<Rightarrow> string" where
  "row_key srv r = pasta_key srv (art_group_id r) (art_artifact r) (art_version r)"

definition published_ok :: "cookbook_server \<Rightarrow> artifact_row \<Rightarrow> bool" where
  "published_ok srv r \<longleftrightarrow>
     (art_status r = ''published'' \<and> tidy r \<longrightarrow> fs_exists (srv_store srv) (row_key srv r) = STORE_OK)"

definition cache_ok :: "cookbook_server \<Rightarrow> bool" where
  "cache_ok srv \<longleftrightarrow>
     (\<forall>c \<in> set (db_object_cache (srv_db srv)). \<exists>ck. oc_store_key c = object_key srv ck \<and> no_dotdot ck)"

definition registry_inv :: "cookbook_server \<Rightarrow> bool" where
  "registry_inv srv \<longleftrightarrow> store_inv (srv_store srv) \<and> db_ok (srv_db srv) \<and> registry_ok (srv_registry_id srv) \<and>
     cache_ok srv \<and> (\<forall>r \<in> set (db_artifacts (srv_db srv)). published_ok srv r)"

lemma registry_inv_cong:
  assumes "srv_store srv' = srv_store srv" "srv_registry_id srv' = srv_registry_id srv"
    "db_groups (srv_db srv') = db_groups (srv_db srv)" "db_artifacts (srv_db srv') = db_artifacts (srv_db srv)"
    "db_artifact_semver (srv_db srv') = db_artifact_semver (srv_db srv)" "db_object_cache (srv_db srv') = db_object_cache (srv_db srv)"
  shows "registry_inv srv' = registry_inv srv"
  using assms db_ok_tables [OF assms(3-5)]
  by (simp add: registry_inv_def cache_ok_def published_ok_def row_key_def pasta_key_def object_key_def)

lemma registry_inv_counters [simp]:
  "registry_inv (inc_total srv) = registry_inv srv" "registry_inv (inc_get srv) = registry_inv srv"
  "registry_inv (inc_put srv) = registry_inv srv" "registry_inv (inc_post srv) = registry_inv srv"
  "registry_inv (inc_2xx srv) = registry_inv srv" "registry_inv (inc_4xx srv) = registry_inv srv"
  "registry_inv (inc_5xx srv) = registry_inv srv" "registry_inv (inc_published srv) = registry_inv srv"
  "registry_inv (inc_yanked srv) = registry_inv srv" "registry_inv (inc_resolved srv) = registry_inv srv"
  "registry_inv (add_uploaded n srv) = registry_inv srv" "registry_inv (add_downloaded n srv) = registry_inv srv"
  "registry_inv (audit_log env e s t x srv) = registry_inv srv"
  by (rule registry_inv_cong; simp add: counters)+

lemma registry_inv_auth: "require_auth_v2 env srv ri g c = (x, srv') \<Longrightarrow> registry_inv srv' = registry_inv srv"
  using require_auth_frame [of env srv ri g c x srv'] by (intro registry_inv_cong) simp_all

lemma registry_inv_rows: "srv_rows sel srv = (rows, srv') \<Longrightarrow> registry_inv srv' = registry_inv srv"
  using srv_rows_frame [of sel srv rows srv'] by (intro registry_inv_cong) simp_all

lemma registry_inv_peers: "load_peers srv = (ps, srv') \<Longrightarrow> registry_inv srv' = registry_inv srv"
  by (rule registry_inv_cong)
     (auto simp: load_peers_def cookbook_grid_load_peers_def db_query_def dest: db_next_eqD split: prod.splits)

section \<open>Where the files are\<close>

lemma semver_first_digit: "cookbook_semver_parse v \<noteq> None \<Longrightarrow> v \<noteq> [] \<and> isdigit (hd v)"
  by (auto simp: cookbook_semver_parse_def parse_number_def split: if_splits)

lemma names_no_dot: "CHR ''.'' \<notin> set p \<Longrightarrow> c \<in> set (names p) \<Longrightarrow> CHR ''.'' \<notin> set c"
proof -
  assume p: "CHR ''.'' \<notin> set p" and "c \<in> set (names p)"
  then have "c \<in> set (split_slash p)" by (simp add: names_def)
  then obtain x y where "CHR ''/'' # p = x @ CHR ''/'' # c @ y" by (rule split_slash_sub)
  then have "set c \<subseteq> set (CHR ''/'' # p)" by (metis Un_iff set_append set_ConsD list.set_intros(2) subsetI)
  with p show ?thesis by auto
qed

lemma tidy_names:
  assumes "row_ok r" "tidy r" "registry_ok (srv_registry_id srv)"
  shows "names (row_key srv r) =
     srv_registry_id srv # names (dots_to_slashes (art_group_id r)) @ [art_artifact r, art_version r, ''now.pasta'']"
    and "place (row_key srv r) = names (row_key srv r)" "safe_key (row_key srv r)"
proof -
  let ?g = "art_group_id r" and ?a = "art_artifact r" and ?v = "art_version r" and ?id = "srv_registry_id srv"
  have g: "length ?g \<le> 128" and a: "length ?a \<le> 64" "plain_name ?a" and v: "length ?v \<le> 64"
    using assms(1,2) validate_artifact_plain [of ?a]
    by (auto simp: row_ok_def tidy_def validate_group_def validate_artifact_def validate_version_def
        MAX_GROUP_LEN_def MAX_ARTIFACT_LEN_def MAX_VERSION_LEN_def)
  have digit: "?v \<noteq> []" "isdigit (hd ?v)" using semver_first_digit [of ?v] assms(1) by (auto simp: row_ok_def)
  have slash: "CHR ''/'' \<notin> set ?id" "?id \<noteq> []" "?id \<noteq> ''.''" "?id \<noteq> ''..''" "CHR ''/'' \<notin> set ?a" "?a \<noteq> []"
      "?a \<noteq> ''.''" "?a \<noteq> ''..''" "CHR ''/'' \<notin> set ?v"
    using assms(2,3) a(2) by (auto simp: registry_ok_def plain_name_def tidy_def)
  have "length (?id @ ''/'' @ dots_to_slashes ?g @ ''/'' @ ?a @ ''/'' @ ?v @ ''/now.pasta'') < 512"
    using g a v assms(3) by (simp add: dots_to_slashes_def registry_ok_def)
  then have k: "row_key srv r = ?id @ CHR ''/'' # dots_to_slashes ?g @ CHR ''/'' # ?a @ CHR ''/'' # ?v @ CHR ''/'' # ''now.pasta''"
    using g by (simp add: row_key_def pasta_key_def)
  show n: "names (row_key srv r) = ?id # names (dots_to_slashes ?g) @ [?a, ?v, ''now.pasta'']"
    unfolding k names_append using slash digit(1) by (simp add: names_plain)
  have "CHR ''.'' \<notin> set (dots_to_slashes ?g)" by (auto simp: dots_to_slashes_def)
  then have "\<forall>c \<in> set (names (dots_to_slashes ?g)). CHR ''.'' \<notin> set c" using names_no_dot by blast
  then have "\<forall>c \<in> set (names (dots_to_slashes ?g)). c \<noteq> ''.'' \<and> c \<noteq> ''..''" by auto
  moreover have "?v \<noteq> ''.''" "?v \<noteq> ''..''" using digit isdigit_not_sign by auto
  ultimately have "\<forall>c \<in> set (names (row_key srv r)). c \<noteq> ''.'' \<and> c \<noteq> ''..''" unfolding n using slash by auto
  then show "place (row_key srv r) = names (row_key srv r)" "safe_key (row_key srv r)"
    by (auto simp: place_def safe_key_def filter_id_conv)
qed

text \<open>A change of the store that keeps what exists, at least the descriptors of tidy rows.\<close>

lemma registry_inv_store:
  assumes "registry_inv srv" "store_inv s'"
    and "\<And>r. r \<in> set (db_artifacts (srv_db srv)) \<Longrightarrow> row_ok r \<Longrightarrow> tidy r \<Longrightarrow>
       fs_exists (srv_store srv) (row_key srv r) = STORE_OK \<Longrightarrow> fs_exists s' (row_key srv r) = STORE_OK"
  shows "registry_inv (srv\<lparr>srv_store := s'\<rparr>)"
  using assms
  by (auto simp: registry_inv_def cache_ok_def published_ok_def row_key_def pasta_key_def object_key_def db_ok_def)

lemma registry_inv_keeps:
  assumes "registry_inv srv" "keeps short (srv_store srv) s'"
  shows "registry_inv (srv\<lparr>srv_store := s'\<rparr>)"
  using assms tidy_names(3) by (intro registry_inv_store) (auto simp: keeps_def registry_inv_def)

lemma registry_inv_put:
  assumes "registry_inv srv" "safe_key key"
  shows "registry_inv (snd (srv_put key v srv))"
proof -
  obtain st s' where p: "fs_put (srv_store srv) key v = (st, s')" by fastforce
  have s: "store_inv (srv_store srv)" using assms(1) by (simp add: registry_inv_def)
  have "registry_inv (srv\<lparr>srv_store := s'\<rparr>)"
    using put_inv [OF s assms(2) p] put_exists [OF s assms(2) p] by (intro registry_inv_store [OF assms(1)])
  then show ?thesis by (simp add: srv_put_def p)
qed

lemma registry_inv_del:
  assumes "registry_inv srv" "safe_key key" "place key \<noteq> []"
    and "\<And>r. row_ok r \<Longrightarrow> tidy r \<Longrightarrow> place (row_key srv r) \<noteq> place key"
  shows "registry_inv (srv_del key srv)"
proof -
  obtain st s' where d: "fs_del (srv_store srv) key = (st, s')" by fastforce
  have s: "store_inv (srv_store srv)" "registry_ok (srv_registry_id srv)" using assms(1) by (simp_all add: registry_inv_def)
  have "registry_inv (srv\<lparr>srv_store := s'\<rparr>)"
    using del_inv [OF s(1) assms(2,3) d] del_exists [OF s(1) assms(2,3) d] assms(4) tidy_names(3) [OF _ _ s(2)]
    by (intro registry_inv_store [OF assms(1)]) simp_all
  then show ?thesis by (simp add: srv_del_def d)
qed

section \<open>Statements\<close>

lemma registry_inv_exec:
  assumes "registry_inv srv" "\<And>db. db_ok db \<Longrightarrow> db_ok (snd (stmt db))"
    and "\<And>db c. c \<in> set (db_object_cache (snd (stmt db))) \<Longrightarrow>
      c \<in> set (db_object_cache db) \<or> (\<exists>ck. oc_store_key c = object_key srv ck \<and> no_dotdot ck)"
    and "\<And>db r. r \<in> set (db_artifacts (snd (stmt db))) \<Longrightarrow> \<forall>x \<in> set (db_artifacts db). published_ok srv x \<Longrightarrow> published_ok srv r"
  shows "registry_inv (snd (srv_exec stmt srv))"
proof -
  obtain f db where n: "db_next (srv_db srv) = (f, db)" by fastforce
  note t = db_next_eqD [OF n]
  have "registry_inv (srv\<lparr>srv_db := db\<rparr>)" using assms(1) t registry_inv_cong [of "srv\<lparr>srv_db := db\<rparr>" srv] by simp
  moreover from this have "registry_inv (srv\<lparr>srv_db := snd (stmt db)\<rparr>)"
    using assms(2) [of db] assms(3) [of _ db] assms(4) [of _ db]
    by (fastforce simp: registry_inv_def cache_ok_def published_ok_def row_key_def pasta_key_def object_key_def)
  ultimately show ?thesis by (auto simp: srv_exec_def db_exec_def n split: prod.splits)
qed

lemma registry_inv_moved:
  assumes "registry_inv srv" "keeps short (srv_store srv) (srv_store srv')" "srv_db srv' = srv_db srv"
    "srv_registry_id srv' = srv_registry_id srv"
  shows "registry_inv srv'"
  using registry_inv_keeps [OF assms(1,2)] registry_inv_cong [of srv' "srv\<lparr>srv_store := srv_store srv'\<rparr>"] assms(3,4) by simp

lemma try_publish_inv:
  assumes "registry_inv srv"
  shows "registry_inv (try_publish env g a v srv)"
proof (cases "fs_exists (srv_store srv) (pasta_key srv g a v) = STORE_OK")
  case True
  have "registry_inv (snd (srv_exec (update_published now g a v) srv))" for now
  proof (rule registry_inv_exec [OF assms update_published_ok])
    fix db r
    assume "r \<in> set (db_artifacts (snd (update_published now g a v db)))" "\<forall>x \<in> set (db_artifacts db). published_ok srv x"
    then show "published_ok srv r"
      using True by (auto simp: update_published_def row_update_def published_ok_def row_key_def same_version_def split: if_splits)
  qed (simp_all add: update_published_def)
  with True show ?thesis by (simp add: try_publish_def)
qed (use assms in \<open>simp add: try_publish_def\<close>)

lemma register_rows_inv:
  assumes "registry_inv srv" "descriptor_valid g a v = Some sv"
  shows "registry_inv (register_rows env sub g a v t sv sha n srv)"
proof -
  have "registry_inv (snd (srv_exec (insert_group r) srv))" if "registry_inv srv" for r srv
    by (rule registry_inv_exec [OF that insert_group_ok]) (auto simp: insert_group_def)
  moreover have "registry_inv (snd (srv_exec (insert_artifact (new_artifact c g a v t sv sha n now)) srv))"
    if "registry_inv srv" for c now srv
    by (rule registry_inv_exec [OF that insert_artifact_ok [OF descriptor_valid_row [OF assms(2)]]])
       (auto simp: insert_artifact_def published_ok_def new_artifact_def split: if_splits)
  moreover have "registry_inv (snd (srv_exec (insert_semver r) srv))" if "registry_inv srv" for r srv
    by (rule registry_inv_exec [OF that insert_semver_ok]) (auto simp: insert_semver_def split: if_splits)
  ultimately show ?thesis using assms(1) by (simp add: register_rows_def Let_def try_publish_inv)
qed

section \<open>Uploads\<close>

lemma register_descriptor_inv:
  assumes inv: "registry_inv srv0" and kept: "keeps False (srv_store srv0) (srv_store srv)"
    and same: "srv_db srv = srv_db srv0" "srv_registry_id srv = srv_registry_id srv0"
    and key: "no_dotdot key" "last (parts key) \<noteq> ''.''" "place key \<noteq> []"
    and free: "node_at (st_fs (srv_store srv0)) (root_loc (srv_store srv0) @ place key) = None"
  shows "registry_inv (snd (register_descriptor env sub key t sha body srv))"
proof -
  let ?res = "register_descriptor env sub key t sha body srv"
  have s0: "store_inv (srv_store srv0)" using inv by (simp add: registry_inv_def)
  have s: "registry_inv srv" by (rule registry_inv_moved [OF inv kept same])
  have fk: "keeps False (srv_store srv0) (srv_store (snd ?res))"
    by (rule register_descriptor_keeps [OF s0 kept key _ free]) simp
  have put: "registry_inv (snd (srv_put (bounded 512 (key @ ''.sha256'')) w srv))" for w
  proof (rule registry_inv_moved [OF s])
    show "keeps False (srv_store srv) (srv_store (snd (srv_put (bounded 512 (key @ ''.sha256'')) w srv)))"
      using put_sidecar_keeps [of "srv_store srv" key "''.sha256''" False w] s key by (simp add: registry_inv_def)
  qed simp_all
  show ?thesis
  proof (cases "fst ?res")
    case None
    then show ?thesis
      using s put register_rows_inv by (auto simp: register_descriptor_def Let_def split: option.splits)
  next
    case (Some r)
    then have "srv_db (snd ?res) = srv_db srv" "srv_registry_id (snd ?res) = srv_registry_id srv"
      by (auto simp: register_descriptor_def Let_def split: option.splits)
    with same show ?thesis by (intro registry_inv_moved [OF inv fk]) simp_all
  qed
qed

lemma store_upload_inv:
  assumes inv: "registry_inv srv" and new: "fs_exists (srv_store srv) key \<noteq> STORE_OK"
    and key: "no_dotdot key" "place key \<noteq> []"
  shows "registry_inv (snd (store_upload env sub key g a v fn body srv))"
proof -
  let ?s = "srv_store srv"
  have s: "store_inv ?s" using inv by (simp add: registry_inv_def)
  have safe: "safe_key key" by (rule no_up_safe [OF no_dotdot_up [OF key(1)]])
  obtain st srv1 where p: "srv_put key body srv = (st, srv1)" by fastforce
  then have fp: "fs_put ?s key body = (st, srv_store srv1)" and same: "srv_db srv1 = srv_db srv" "srv_registry_id srv1 = srv_registry_id srv"
    by (auto simp: srv_put_def split: prod.splits)
  have k1: "keeps False ?s (srv_store srv1)" using fresh_put_keeps [OF s safe new, of False body] fp by simp
  show ?thesis
  proof (cases "st = STORE_OK")
    case False
    with registry_inv_moved [OF inv k1 same] p show ?thesis by (simp add: store_upload_def Let_def)
  next
    case True
    have free: "node_at (st_fs ?s) (root_loc ?s @ place key) = None" using put_new_place [OF s safe fp new] True by blast
    have no_dot: "last (parts key) \<noteq> ''.''" using s safe fp by (cases rule: put_cases) (auto simp: True)
    define srv2 where "srv2 = countersign env key (sha_hex body) srv1"
    have k2: "keeps False ?s (srv_store srv2)"
      using keeps_trans [OF k1 countersign_keeps [OF _ key(1) no_dot]] k1 by (simp add: srv2_def keeps_def)
    have same2: "srv_db srv2 = srv_db srv" "srv_registry_id srv2 = srv_registry_id srv" using same by (simp_all add: srv2_def)
    have "registry_inv (snd (register_descriptor env sub key t (sha_hex body) body srv2))" for t
      by (rule register_descriptor_inv [OF inv k2 same2 key(1) no_dot key(2) free])
    moreover have "registry_inv (try_publish env g a v srv2)" by (rule try_publish_inv [OF registry_inv_moved [OF inv k2 same2]])
    ultimately show ?thesis using p True
      by (auto simp: store_upload_def Let_def srv2_def [symmetric] split: prod.splits option.splits) (metis snd_conv)+
  qed
qed

lemma artifact_put_inv:
  "registry_inv srv \<Longrightarrow> no_dotdot key \<Longrightarrow> place key \<noteq> [] \<Longrightarrow> registry_inv (snd (artifact_put env sub key g a v fn sc srv))"
  by (auto simp: artifact_put_def intro: store_upload_inv split: option.splits)

section \<open>The other handlers\<close>

lemma handle_yank_inv:
  assumes "registry_inv srv"
  shows "registry_inv (snd (handle_yank env path sc srv))"
proof (rule handle_yank_effect [of env path sc srv], goal_cases)
  case 1
  then show ?case using assms registry_inv_cong [of "snd (handle_yank env path sc srv)" srv] by simp
next
  case (2 reason g a v srv1)
  define srv2 where "srv2 = srv\<lparr>srv_db := srv_db srv1\<rparr>"
  have "registry_inv srv2" using assms 2(1) registry_inv_cong [of srv2 srv] by (simp add: srv2_def)
  then have "registry_inv (snd (srv_exec (update_yanked reason g a v) srv2))"
    by (rule registry_inv_exec [OF _ update_yanked_ok])
       (auto simp: update_yanked_def row_update_def published_ok_def row_key_def tidy_def split: if_splits)
  moreover have "srv_db (snd (srv_exec (update_yanked reason g a v) srv2)) = srv_db (snd (srv_exec (update_yanked reason g a v) srv1))"
    by (simp add: srv_exec_def srv2_def split: prod.splits)
  ultimately show ?case
    using 2(2-4) registry_inv_cong [of "snd (handle_yank env path sc srv)" "snd (srv_exec (update_yanked reason g a v) srv2)"]
    by (simp add: srv2_def)
qed

lemma artifact_get_inv:
  assumes "registry_inv srv" "artifact_get env ri claims path key g a v fn srv = Some (r, srv')"
  shows "registry_inv srv'"
proof -
  have "registry_inv (snd (serve_object env ri path g a v fn data srv))" for data
    using assms(1) registry_inv_rows by (auto simp: serve_object_def yanked_hdrs_def Let_def split: prod.splits)
  moreover have "registry_inv (snd (serve_repro env ri key srv))"
    using assms(1) by (auto simp: serve_repro_def split: prod.splits cookbook_store_status.splits)
  moreover have "registry_inv srv'" if "fan_out_or_404 env ri claims path srv = Some (r, srv')"
    using assms(1) that registry_inv_peers
    by (auto simp: fan_out_or_404_def split: if_splits Option.bind_splits prod.splits)
  ultimately show ?thesis
    using assms by (auto simp: artifact_get_def split: if_splits prod.splits cookbook_store_status.splits) (metis snd_conv)+
qed

text \<open>The keys of requests.\<close>

lemma request_key:
  assumes "registry_ok rid" "validate_path_segment path"
  shows "no_dotdot (rid @ CHR ''/'' # path)" "place (rid @ CHR ''/'' # path) = rid # place path"
  using assms no_dotdot_append strstr_no_dotdot
  by (auto simp: validate_path_segment_def registry_ok_def place_def names_append names_plain plain_name_def)

lemma no_dotdot_plain: "CHR ''.'' \<notin> set p \<Longrightarrow> no_dotdot p"
  by (auto simp: no_dotdot_def dest: nth_mem)

lemma cache_key:
  assumes "registry_ok rid" "no_dotdot ck" "d \<in> {''objects'', ''graphs''}"
  shows "no_dotdot (rid @ CHR ''/'' # d @ CHR ''/'' # ck)" "place (rid @ CHR ''/'' # d @ CHR ''/'' # ck) = rid # d # place ck"
proof -
  have d: "CHR ''/'' \<notin> set d" "CHR ''.'' \<notin> set d" "d \<noteq> []" "d \<noteq> ''.''" using assms(3) by auto
  show "no_dotdot (rid @ CHR ''/'' # d @ CHR ''/'' # ck)"
    using assms(1,2) no_dotdot_plain [OF d(2)] by (intro no_dotdot_append) (simp_all add: registry_ok_def)
  show "place (rid @ CHR ''/'' # d @ CHR ''/'' # ck) = rid # d # place ck"
    using assms(1) d by (simp add: place_def names_append names_plain registry_ok_def plain_name_def)
qed

lemma handle_artifact_inv:
  assumes "registry_inv srv" "handle_artifact env sc srv = Some (r, srv')"
  shows "registry_inv srv'"
proof -
  define srv1 where "srv1 = count_request (request_method (sc_ri sc)) srv"
  have s1: "registry_inv srv1" using assms(1) by (simp add: srv1_def count_request_def Let_def)
  have access: "registry_inv srv'"
    if "validate_path_segment path" "artifact_access env path g a v fn sc srv1 = Some (r, srv')" for path g a v fn
  proof -
    obtain x srv2 where auth: "require_auth_v2 env srv1 (sc_ri sc) g
        (if request_method (sc_ri sc) = ''PUT'' then CHR ''c'' else CHR ''r'') = (x, srv2)" by fastforce
    have s2: "registry_inv srv2" using registry_inv_auth [OF auth] s1 by simp
    then have "registry_ok (srv_registry_id srv2)" by (simp add: registry_inv_def)
    define key where "key = srv_registry_id srv2 @ ''/'' @ path"
    have key: "no_dotdot key" "place key \<noteq> []" using request_key [OF \<open>registry_ok _\<close> that(1)] by (simp_all add: key_def)
    note res = that(2) [unfolded artifact_access_def Let_def auth prod.case key_def [symmetric]]
    show ?thesis
    proof (cases x)
      case (Inl d)
      with res s2 show ?thesis by simp
    next
      case (Inr claims)
      consider "request_method (sc_ri sc) = ''GET''" | "request_method (sc_ri sc) = ''PUT''"
        | "request_method (sc_ri sc) \<noteq> ''GET''" "request_method (sc_ri sc) \<noteq> ''PUT''" by blast
      then show ?thesis
      proof cases
        case 1
        with res Inr show ?thesis by (intro artifact_get_inv [OF s2]) simp
      next
        case 2
        with res Inr artifact_put_inv [OF s2 key, of env "claim_sub claims" g a v fn sc] show ?thesis by simp
      next
        case 3
        with res Inr s2 show ?thesis by simp
      qed
    qed
  qed
  have yank: "registry_inv srv'" if "handle_yank env path sc srv1 = (r, srv')" for path
    using handle_yank_inv [OF s1, of env path sc] that by simp
  note h = assms(2) [unfolded handle_artifact_def Let_def srv1_def [symmetric]]
  show ?thesis
    using h s1 access yank by (simp split: option.splits if_splits Option.bind_splits prod.splits)
qed

lemma handle_resolve_inv:
  assumes "registry_inv srv" "handle_resolve env sc srv = Some (r, srv')"
  shows "registry_inv srv'"
proof -
  have reply: "registry_inv (snd (resolve_reply env ri sub path t srv)) = registry_inv srv" for ri sub path t srv
    by (auto simp: resolve_reply_def Let_def split: option.splits)
  have query: "registry_inv srv'" if s: "registry_inv srv" and q: "resolve_query env ri claims path g a rg srv = Some (r, srv')" for ri claims path g a rg srv
  proof -
    obtain rows srv1 where rows: "srv_rows (resolve_rows g a (query_has ri ''include_yanked=true'')) srv = (rows, srv1)" by fastforce
    obtain ps srv2 where peers: "load_peers srv1 = (ps, srv2)" by fastforce
    have "registry_inv srv1" "registry_inv srv2"
      using registry_inv_rows [OF rows] registry_inv_peers [OF peers] s by simp_all
    with q rows peers reply show ?thesis
      by (auto simp: resolve_query_def Let_def split: option.splits Option.bind_splits if_splits) (metis snd_conv)+
  qed
  define srv1 where "srv1 = inc_get (inc_total srv)"
  have s1: "registry_inv srv1" using assms(1) by (simp add: srv1_def)
  have auth: "registry_inv srv2" if "require_auth_v2 env srv1 ri g c = (x, srv2)" for ri g c x srv2
    using registry_inv_auth [OF that] s1 by simp
  note h = assms(2) [unfolded handle_resolve_def Let_def srv1_def [symmetric]]
  show ?thesis
    using h s1 by (auto split: option.splits if_splits prod.splits sum.splits dest!: auth dest: query)
qed

lemma counter_ids [simp]:
  "srv_registry_id (inc_total srv) = srv_registry_id srv" "srv_registry_id (inc_put srv) = srv_registry_id srv"
  "srv_registry_id (inc_get srv) = srv_registry_id srv" "srv_registry_id (inc_2xx srv) = srv_registry_id srv"
  "srv_registry_id (add_uploaded n srv) = srv_registry_id srv"
  by (simp_all add: counters)

lemma put_eqD: "srv_put key v srv = (st, srv') \<Longrightarrow> srv' = snd (srv_put key v srv) \<and> srv_registry_id srv' = srv_registry_id srv"
  using srv_put_frame(2) [of key v srv] by simp

lemma cache_object_inv:
  assumes "registry_inv srv" "no_dotdot ck" "key = object_key srv ck"
  shows "registry_inv (snd (cache_object env sub ck key body srv))"
proof -
  obtain st srv2 where p: "srv_put key body srv = (st, srv2)" by fastforce
  have "no_dotdot key"
    using cache_key(1) [OF _ assms(2), of "srv_registry_id srv" "''objects''"] assms(1,3) by (simp add: object_key_def registry_inv_def)
  then have s2: "registry_inv srv2"
    using registry_inv_put [OF assms(1) no_up_safe [OF no_dotdot_up], of key body] put_eqD [OF p] by simp
  have "registry_inv (snd (srv_exec (replace_cache_row \<lparr>oc_cache_key = ck, oc_store_key = key, oc_size_bytes = n, oc_created_at = m\<rparr>)
      (add_uploaded n (inc_2xx srv2))))" for n m
    by (rule registry_inv_exec)
       (use s2 assms(2,3) put_eqD [OF p] in \<open>auto simp: replace_cache_row_def row_replace_def db_ok_def object_key_def\<close>)
  with s2 show ?thesis by (simp add: cache_object_def p Let_def)
qed

lemma handle_objects_inv:
  assumes "registry_inv srv"
  shows "registry_inv (snd (handle_objects env sc srv))"
proof -
  have put: "registry_inv (snd (objects_put env ck (object_key (inc_total srv) ck) sc (inc_total srv)))" if "validate_path_segment ck" for ck
  proof -
    obtain x srv1 where auth: "require_auth_v2 env (inc_put (inc_total srv)) (sc_ri sc) ''_objects'' (CHR ''c'') = (x, srv1)" by fastforce
    have s1: "registry_inv srv1" using registry_inv_auth [OF auth] assms by simp
    have ck: "no_dotdot ck" using that strstr_no_dotdot by (auto simp: validate_path_segment_def)
    have "object_key (inc_total srv) ck = object_key srv1 ck" using require_auth_frame(3) [OF auth] by (simp add: object_key_def)
    with s1 cache_object_inv [OF s1 ck] show ?thesis by (simp add: objects_put_def auth split: sum.splits option.splits)
  qed
  show ?thesis
    using assms put by (simp add: handle_objects_def objects_get_def objects_head_def Let_def split: option.splits prod.splits)
qed

lemma handle_graphs_inv:
  assumes "registry_inv srv"
  shows "registry_inv (snd (handle_graphs env sc srv))"
proof -
  have put: "registry_inv (snd (graphs_put env gk (graph_key (inc_total srv) gk) sc (inc_total srv)))" if "validate_path_segment gk" for gk
  proof -
    obtain x srv1 where auth: "require_auth_v2 env (inc_put (inc_total srv)) (sc_ri sc) ''_graphs'' (CHR ''c'') = (x, srv1)" by fastforce
    have s1: "registry_inv srv1" using registry_inv_auth [OF auth] assms by simp
    have gk: "no_dotdot gk" using that strstr_no_dotdot by (auto simp: validate_path_segment_def)
    then have "no_dotdot (graph_key (inc_total srv) gk)"
      using cache_key(1) [of "srv_registry_id srv" gk "''graphs''"] assms by (simp add: graph_key_def registry_inv_def)
    note put = registry_inv_put [OF s1 no_up_safe [OF no_dotdot_up [OF this]]]
    have "registry_inv (snd (cache_graph env sub gk (graph_key (inc_total srv) gk) body srv1))" for sub body
      using put [of body] by (cases "srv_put (graph_key (inc_total srv) gk) body srv1") (simp add: cache_graph_def)
    with s1 show ?thesis by (simp add: graphs_put_def auth split: sum.splits option.splits)
  qed
  show ?thesis
    using assms put by (simp add: handle_graphs_def graphs_get_def graphs_head_def Let_def split: option.splits prod.splits)
qed

lemma sentinel_key: "names sentinel = [sentinel]" "place sentinel = [sentinel]" "safe_key sentinel"
  by (simp_all add: names_def place_def safe_key_def sentinel_def)

lemma handle_readyz_inv:
  assumes "registry_inv srv"
  shows "registry_inv (snd (handle_readyz sc srv))"
proof -
  obtain rows srv1 where rows: "srv_rows (\<lambda>db. [()]) srv = (rows, srv1)" by fastforce
  obtain st srv2 where p: "srv_put sentinel (bytes_of ''1'') srv1 = (st, srv2)" by fastforce
  have s1: "registry_inv srv1" using registry_inv_rows [OF rows] assms by simp
  have s2: "registry_inv srv2" using registry_inv_put [OF s1 sentinel_key(3)] put_eqD [OF p] by simp
  have "place (row_key srv2 r) \<noteq> place sentinel" if "row_ok r" "tidy r" for r
    using tidy_names [OF that, of srv2] s2 by (simp add: sentinel_key registry_inv_def)
  then have "registry_inv (srv_del sentinel srv2)"
    using registry_inv_del [OF s2 sentinel_key(3)] by (simp add: sentinel_key)
  with s1 s2 assms show ?thesis by (simp add: handle_readyz_def rows p Let_def)
qed

section \<open>The background job\<close>

lemma delete_stale_inv:
  assumes "registry_inv srv"
  shows "registry_inv (delete_stale cid srv)"
proof -
  have "registry_inv (snd (srv_exec (delete_semver cid) srv))"
    by (rule registry_inv_exec [OF assms delete_semver_ok]) (auto simp: delete_semver_def)
  then show ?thesis
    unfolding delete_stale_def
    by (rule registry_inv_exec [OF _ delete_pending_ok]) (auto simp: delete_pending_def Let_def split: if_splits)
qed

lemma fold_inv: "P s \<Longrightarrow> (\<And>x s. x \<in> set xs \<Longrightarrow> P s \<Longrightarrow> P (f x s)) \<Longrightarrow> P (fold f xs s)"
  by (induction xs arbitrary: s) auto

lemma reconcile_inv: "registry_inv srv \<Longrightarrow> registry_inv (reconcile_stale_pending env srv)"
  unfolding reconcile_stale_pending_def stale_collect_def Let_def
  by (auto simp: registry_inv_rows intro: fold_inv delete_stale_inv split: prod.splits)

lemma evict_row_inv:
  assumes "registry_inv srv" "oc_store_key c = object_key srv ck" "no_dotdot ck"
  shows "registry_inv (evict_row c srv) \<and> srv_registry_id (evict_row c srv) = srv_registry_id srv"
proof -
  have id: "registry_ok (srv_registry_id srv)" using assms(1) by (simp add: registry_inv_def)
  have key: "no_dotdot (oc_store_key c)" "place (oc_store_key c) = srv_registry_id srv # ''objects'' # place ck"
    using cache_key [OF id assms(3), of "''objects''"] by (simp_all add: assms(2) object_key_def)
  have "place (row_key srv r) \<noteq> place (oc_store_key c)" if "row_ok r" "tidy r" for r
  proof -
    have "hd (names (dots_to_slashes (art_group_id r)) @ [art_artifact r]) \<noteq> ''objects''"
      using that(2) by (simp add: tidy_def own_space_def)
    then show ?thesis
      using tidy_names(1,2) [OF that id] key(2) by (cases "names (dots_to_slashes (art_group_id r))") auto
  qed
  then have "registry_inv (srv_del (oc_store_key c) srv)"
    using key by (intro registry_inv_del [OF assms(1) no_up_safe [OF no_dotdot_up]]) simp_all
  then have "registry_inv (snd (srv_exec (delete_cache_row (oc_cache_key c)) (srv_del (oc_store_key c) srv)))"
    by (rule registry_inv_exec [OF _ delete_cache_row_ok]) (auto simp: delete_cache_row_def)
  then show ?thesis by (simp add: evict_row_def)
qed

lemma evict_inv:
  assumes "registry_inv srv"
  shows "registry_inv (evict_expired_objects env srv)"
proof -
  let ?q = "\<lambda>db. expired_rows (env_now env - srv_object_cache_ttl_sec srv) db"
  obtain rows1 srv1 where r1: "srv_rows ?q srv = (rows1, srv1)" by fastforce
  obtain rows2 srv2 where r2: "srv_rows ?q srv1 = (rows2, srv2)" by fastforce
  have s: "registry_inv srv1" "registry_inv srv2" using registry_inv_rows [OF r1] registry_inv_rows [OF r2] assms by simp_all
  have ok: "\<exists>ck. oc_store_key c = object_key srv2 ck \<and> no_dotdot ck" if "rows2 = Some rs" "c \<in> set rs" for rs c
    using srv_rows_frame(7) [OF r2 that(1)] that(2) s(2) by (auto simp: registry_inv_def cache_ok_def expired_rows_def)
  have "registry_inv (fold evict_row (take n rs) srv2) \<and> srv_registry_id (fold evict_row (take n rs) srv2) = srv_registry_id srv2"
    if rows: "rows2 = Some rs" for n rs
  proof (rule fold_inv)
    fix c srv'
    assume "c \<in> set (take n rs)" and s': "registry_inv srv' \<and> srv_registry_id srv' = srv_registry_id srv2"
    then obtain ck where "oc_store_key c = object_key srv' ck" "no_dotdot ck"
      using ok [OF rows] by (auto simp: object_key_def dest: in_set_takeD)
    with evict_row_inv [of srv' c ck] s' show "registry_inv (evict_row c srv') \<and> srv_registry_id (evict_row c srv') = srv_registry_id srv2" by simp
  qed (use s in simp)
  then show ?thesis
    using assms s by (simp add: evict_expired_objects_def r1 r2 Let_def split: option.splits)
qed

section \<open>Groups\<close>

lemma registry_inv_core: "core srv' = core srv \<Longrightarrow> registry_inv srv' = registry_inv srv"
  by (rule registry_inv_cong) (simp_all add: core_def tables_def)

lemma registry_inv_group_stmt:
  assumes "registry_inv srv" "\<And>db. db_ok db \<Longrightarrow> db_ok (snd (stmt db))"
    and "\<And>db. db_artifacts (snd (stmt db)) = db_artifacts db" "\<And>db. db_object_cache (snd (stmt db)) = db_object_cache db"
  shows "srv_exec stmt srv = (st, srv') \<Longrightarrow> registry_inv srv'"
  using registry_inv_exec [of srv stmt, OF assms(1,2)] assms(3,4) by simp

lemma registry_inv_group_sql:
  assumes "registry_inv srv"
  shows "srv_exec (insert_new_group r) srv = (st, srv') \<Longrightarrow> registry_inv srv'"
    and "srv_exec (delete_group g) srv = (st, srv') \<Longrightarrow> registry_inv srv'"
    and "srv_exec (update_group (\<lambda>r. r\<lparr>grp_owner_sub := v\<rparr>) g) srv = (st, srv') \<Longrightarrow> registry_inv srv'"
    and "srv_exec (update_group (\<lambda>r. r\<lparr>grp_description := d\<rparr>) g) srv = (st, srv') \<Longrightarrow> registry_inv srv'"
  by (erule registry_inv_group_stmt [OF assms, rotated 3]; simp add: insert_new_group_ok delete_group_ok update_group_ok)+

lemma group_put_inv: "registry_inv srv \<Longrightarrow> group_put env ri t srv = (r, srv') \<Longrightarrow> registry_inv srv'"
  by (auto simp: group_put_def Let_def registry_inv_auth dest: registry_inv_group_sql(1) [rotated]
      split: if_splits prod.splits sum.splits)

lemma group_update_inv: "registry_inv srv \<Longrightarrow> group_update env claims g t srv = (r, srv') \<Longrightarrow> registry_inv srv'"
  by (auto simp: group_update_def Let_def dest: registry_inv_group_sql(3,4) [rotated] split: if_splits prod.splits option.splits)

lemma group_patch_inv: "registry_inv srv \<Longrightarrow> group_patch env sc g srv = (r, srv') \<Longrightarrow> registry_inv srv'"
  by (auto simp: group_patch_def registry_inv_auth dest: group_update_inv [rotated] split: prod.splits sum.splits option.splits)

lemma group_delete_inv: "registry_inv srv \<Longrightarrow> group_delete env ri g srv = (r, srv') \<Longrightarrow> registry_inv srv'"
  by (auto simp: group_delete_def Let_def registry_inv_auth registry_inv_rows dest: registry_inv_group_sql(2) [rotated]
      split: if_splits prod.splits sum.splits)

lemma group_read_core:
  "group_get g srv = Some (r, srv') \<Longrightarrow> core srv' = core srv" "groups_list srv = Some (r, srv') \<Longrightarrow> core srv' = core srv"
  by (auto simp: group_get_def groups_list_def Let_def dest!: core_rows split: prod.splits if_splits Option.bind_splits)

lemma handle_admin_groups_inv:
  assumes "registry_inv srv" "handle_admin_groups env sc srv = Some (r, srv')"
  shows "registry_inv srv'"
proof -
  have s: "registry_inv (inc_total srv)" using assms(1) by simp
  show ?thesis
    using assms(2) s group_read_core [where srv = "inc_total srv", THEN registry_inv_core]
    by (auto simp: handle_admin_groups_def Let_def dest: group_put_inv [OF s] group_patch_inv [OF s] group_delete_inv [OF s]
        split: if_splits option.splits)
qed

section \<open>Runs of the registry\<close>

inductive registry_step :: "cookbook_server \<Rightarrow> cookbook_server \<Rightarrow> bool" where
  Artifact: "handle_artifact env sc srv = Some (r, srv') \<Longrightarrow> registry_step srv srv'"
| Resolve: "handle_resolve env sc srv = Some (r, srv') \<Longrightarrow> registry_step srv srv'"
| Objects: "handle_objects env sc srv = (r, srv') \<Longrightarrow> registry_step srv srv'"
| Graphs: "handle_graphs env sc srv = (r, srv') \<Longrightarrow> registry_step srv srv'"
| Ready: "handle_readyz sc srv = (r, srv') \<Longrightarrow> registry_step srv srv'"
| Token: "handle_auth_token env sc srv = Some (r, srv') \<Longrightarrow> registry_step srv srv'"
| Revoke: "handle_auth_revoke env sc srv = (r, srv') \<Longrightarrow> registry_step srv srv'"
| Device: "handle_auth_device env sc srv = Some (r, srv') \<Longrightarrow> registry_step srv srv'"
| Device_Token: "handle_auth_device_token env sc srv = Some (r, srv') \<Longrightarrow> registry_step srv srv'"
| Device_Verify: "handle_auth_device_verify env sc srv = (r, srv') \<Longrightarrow> registry_step srv srv'"
| Keys: "handle_keys env sc srv = (r, srv') \<Longrightarrow> registry_step srv srv'"
| Mirror: "handle_mirror_manifest env sc srv = Some (r, srv') \<Longrightarrow> registry_step srv srv'"
| Grid_Resolve: "handle_grid_resolve env sc srv = Some (r, srv') \<Longrightarrow> registry_step srv srv'"
| Grid_Manifest: "handle_grid_manifest env sc srv = Some (r, srv') \<Longrightarrow> registry_step srv srv'"
| Admin_Peers: "handle_admin_peers env sc srv = Some (r, srv') \<Longrightarrow> registry_step srv srv'"
| Admin_Groups: "handle_admin_groups env sc srv = Some (r, srv') \<Longrightarrow> registry_step srv srv'"
| Admin_Credentials: "handle_admin_credentials env sc srv = Some (r, srv') \<Longrightarrow> registry_step srv srv'"
| Admin_Policies: "handle_admin_policies env sc srv = Some (r, srv') \<Longrightarrow> registry_step srv srv'"
| Tick: "registry_step srv (reconcile_tick env srv)"

inductive_cases registry_stepE: "registry_step srv srv'"

lemmas handlers_core = handle_auth_token_core handle_auth_device_core handle_auth_device_token_core handle_mirror_manifest_core
  handle_grid_resolve_core handle_grid_manifest_core handle_admin_peers_core handle_admin_credentials_core handle_admin_policies_core
  snd_eqD [OF _ handle_auth_revoke_core] snd_eqD [OF _ handle_auth_device_verify_core] snd_eqD [OF _ handle_keys_core]

lemma registry_step_inv: "registry_step srv srv' \<Longrightarrow> registry_inv srv \<Longrightarrow> registry_inv srv'"
proof (induction rule: registry_step.induct)
  case (Objects env sc srv r srv')
  then show ?case using handle_objects_inv [of srv env sc] by simp
next
  case (Graphs env sc srv r srv')
  then show ?case using handle_graphs_inv [of srv env sc] by simp
next
  case (Ready sc srv r srv')
  then show ?case using handle_readyz_inv [of srv sc] by simp
next
  case (Tick env srv)
  then show ?case by (simp add: reconcile_tick_def evict_inv reconcile_inv)
qed (auto intro: handle_artifact_inv handle_resolve_inv handle_admin_groups_inv dest: handlers_core [THEN registry_inv_core])

text \<open>
  Whatever requests are served and whenever the background job runs, the tables stay consistent
  with one another and with the object store: keys are unique, references lead to rows, and every
  version listed as published has its descriptor in the store.
\<close>

theorem registry_invariant:
  assumes "registry_inv srv" "registry_step\<^sup>*\<^sup>* srv srv'"
  shows "db_ok (srv_db srv') \<and> store_inv (srv_store srv') \<and>
     (\<forall>r \<in> set (db_artifacts (srv_db srv')). art_status r = ''published'' \<and> tidy r \<longrightarrow>
        fs_exists (srv_store srv') (pasta_key srv' (art_group_id r) (art_artifact r) (art_version r)) = STORE_OK)"
proof -
  have "registry_inv srv'" using assms(2,1) by (induction rule: rtranclp_induct) (auto intro: registry_step_inv)
  then show ?thesis by (auto simp: registry_inv_def published_ok_def row_key_def)
qed

end
