(* ===== verification/Lifecycle.thy ===== *)
theory Lifecycle
  imports Registry
begin

text \<open>
  What the registry does for its clients: an upload is published once and stays as it is, a
  withdrawn version is no longer offered, a range is answered with the versions it contains, and
  uploads that were never finished are cleared. The last section proves where this fails.
\<close>

section \<open>Immutability\<close>

lemma path_after_length: "path_after uri p = Some path \<Longrightarrow> length path \<le> length uri"
proof -
  have "length (url_decode s) \<le> length s" for s by (induction s rule: url_decode.induct) auto
  then show "path_after uri p = Some path \<Longrightarrow> length path \<le> length uri"
    using length_takeWhile_le [of _ "url_decode (drop (length p) uri)"]
    by (auto simp: path_after_def c_str_def split: if_splits) (metis diff_le_self le_trans length_drop)
qed

lemma artifact_access_keeps:
  assumes "store_inv (srv_store srv)" "registry_ok (srv_registry_id srv)" "validate_path_segment path"
    and "length (srv_registry_id srv) + length path < 500"
    and "artifact_access env path g a v fn sc srv = Some (r, srv')"
  shows "keeps True (srv_store srv) (srv_store srv')"
proof -
  obtain x srv2 where auth: "require_auth_v2 env srv (sc_ri sc) g
      (if request_method (sc_ri sc) = ''PUT'' then CHR ''c'' else CHR ''r'') = (x, srv2)" by fastforce
  note f = require_auth_frame [OF auth]
  define key where "key = srv_registry_id srv @ ''/'' @ path"
  have key: "no_dotdot key" "place key \<noteq> []" "length key \<le> 500"
    using request_key [OF assms(2,3)] assms(4) by (simp_all add: key_def)
  note res = assms(5) [unfolded artifact_access_def Let_def auth prod.case f(3) key_def [symmetric]]
  have same: "keeps True (srv_store srv) (srv_store srv2)" using keeps_refl [OF assms(1)] f(2) by simp
  show ?thesis
  proof (cases x)
    case (Inl d)
    with res same show ?thesis by simp
  next
    case (Inr claims)
    consider "request_method (sc_ri sc) = ''GET''" | "request_method (sc_ri sc) = ''PUT''"
      | "request_method (sc_ri sc) \<noteq> ''GET''" "request_method (sc_ri sc) \<noteq> ''PUT''" by blast
    then show ?thesis
    proof cases
      case 1
      have "srv_store srv' = srv_store srv2" if "artifact_get env ri claims path key g a v fn srv2 = Some (r, srv')" for ri
        using that srv_rows_frame(1)
        by (auto simp: artifact_get_def serve_repro_def serve_object_def yanked_hdrs_def fan_out_or_404_def load_peers_def counters Let_def
            split: if_splits prod.splits cookbook_store_status.splits Option.bind_splits)
      with 1 res Inr same show ?thesis by simp
    next
      case 2
      with res Inr artifact_put_keeps [of srv2 key True env "claim_sub claims" g a v fn sc] key f(2) assms(1) show ?thesis by simp
    next
      case 3
      with res Inr same show ?thesis by simp
    qed
  qed
qed


section \<open>Publishing\<close>

lemma srv_exec_no_fault:
  "db_faults (srv_db srv) = [] \<Longrightarrow> snd (srv_exec stmt srv) = srv\<lparr>srv_db := snd (stmt (srv_db srv))\<rparr>"
  by (simp add: srv_exec_def db_exec_def split: prod.splits)

text \<open>The row of a fresh coordinate, and its version numbers.\<close>

definition fresh_coord :: "string \<Rightarrow> string \<Rightarrow> string \<Rightarrow> string \<Rightarrow> cookbook_db \<Rightarrow> bool" where
  "fresh_coord g a v t db \<longleftrightarrow>
     (\<forall>r \<in> set (db_artifacts db). coord_id r \<noteq> coord_text g a v t \<and> art_key r \<noteq> (g, a, v, t))"

lemma register_rows_state:
  assumes "db_faults (srv_db srv) = []" "fresh_coord g a v t (srv_db srv)"
  obtains db row sem where "register_rows env sub g a v t sv sha n srv = try_publish env g a v (srv\<lparr>srv_db := db\<rparr>)"
    "db_artifacts db = db_artifacts (srv_db srv) @ [row]" "same_version g a v row" "art_yanked row = 0" "art_sha256 row = sha"
    "art_status row = ''pending''" "sem \<in> set (db_artifact_semver db)" "sv_coord_id sem = coord_id row" "db_faults db = []"
proof -
  let ?c = "coord_text g a v t"
  let ?row = "new_artifact ?c g a v t sv sha n (env_utc env (env_now env))"
  let ?sem = "\<lparr>sv_coord_id = ?c, sv_major = major sv, sv_minor = minor sv, sv_patch = patch sv,
      sv_pre_release = pre_release sv, sv_build_meta = build_meta sv\<rparr>"
  define grp where "grp = \<lparr>grp_group_id = g, grp_owner_sub = (if sub \<noteq> [] then sub else ''anonymous''), grp_created_at = None, grp_description = None\<rparr>"
  define db1 where "db1 = snd (insert_group grp (srv_db srv))"
  define db2 where "db2 = snd (insert_artifact ?row db1)"
  define db3 where "db3 = snd (insert_semver ?sem db2)"
  have g: "g \<in> grp_group_id ` set (db_groups db1)" "db_artifacts db1 = db_artifacts (srv_db srv)" "db_faults db1 = []"
    using assms(1) by (auto simp: db1_def insert_group_def row_ignore_def grp_def)
  then have a: "db_artifacts db2 = db_artifacts (srv_db srv) @ [?row]" "db_faults db2 = []"
    using assms(2) by (auto simp: db2_def insert_artifact_def fresh_coord_def new_artifact_def art_key_def)
  then have m: "db_artifacts db3 = db_artifacts (srv_db srv) @ [?row]" "?sem \<in> set (db_artifact_semver db3)" "db_faults db3 = []"
    by (auto simp: db3_def insert_semver_def new_artifact_def)
  have "register_rows env sub g a v t sv sha n srv = try_publish env g a v (srv\<lparr>srv_db := db3\<rparr>)"
    using assms(1) g(3) a(2)
    by (simp add: register_rows_def Let_def srv_exec_no_fault grp_def [symmetric] db1_def [symmetric] db2_def [symmetric] db3_def [symmetric])
  with m show ?thesis by (intro that [of db3 ?row ?sem]) (simp_all add: same_version_def new_artifact_def)
qed

lemma register_rows_publishes:
  assumes "db_faults (srv_db srv) = []" "fresh_coord g a v t (srv_db srv)"
    and "fs_exists (srv_store srv) (pasta_key srv g a v) = STORE_OK"
  shows "\<exists>row sem. row \<in> set (db_artifacts (srv_db (register_rows env sub g a v t sv sha n srv))) \<and>
      same_version g a v row \<and> art_status row = ''published'' \<and> art_yanked row = 0 \<and> art_sha256 row = sha \<and>
      sem \<in> set (db_artifact_semver (srv_db (register_rows env sub g a v t sv sha n srv))) \<and> sv_coord_id sem = coord_id row"
proof (rule register_rows_state [OF assms(1,2), of env sub sv sha n], goal_cases)
  case (1 db row sem)
  let ?now = "env_utc env (env_now env)" and ?new = "row\<lparr>art_status := ''published'', art_published_at := Some (env_utc env (env_now env))\<rparr>"
  have "pasta_key (srv\<lparr>srv_db := db\<rparr>) g a v = pasta_key srv g a v" by (simp add: pasta_key_def)
  then have "register_rows env sub g a v t sv sha n srv = srv\<lparr>srv_db := snd (update_published ?now g a v db)\<rparr>"
    using assms(3) 1(1,9) by (simp add: try_publish_def srv_exec_no_fault)
  moreover have "?new \<in> set (db_artifacts (snd (update_published ?now g a v db)))"
    using 1(2,3,6) by (simp add: update_published_def row_update_def)
  moreover have "sem \<in> set (db_artifact_semver (snd (update_published ?now g a v db)))" using 1(7) by (simp add: update_published_def)
  ultimately show ?case using 1(3-5,8) by (intro exI [of _ ?new] exI [of _ sem]) (simp add: same_version_def)
qed

text \<open>The descriptor of a group given with slashes is looked up where it was stored.\<close>

lemma dots_slashes: "CHR ''.'' \<notin> set p \<Longrightarrow> dots_to_slashes (slash_to_dot p) = p"
  by (auto simp: dots_to_slashes_def slash_to_dot_def intro!: map_idI)

lemma published_resolvable:
  assumes "row \<in> set (db_artifacts db)" "same_version g a v row" "art_status row = ''published''" "art_yanked row = 0"
    and "sem \<in> set (db_artifact_semver db)" "sv_coord_id sem = coord_id row"
  shows "\<exists>rr \<in> set (resolve_rows g a yk db). rr_version rr = v \<and> rr_triple rr = art_triple row"
  using assms by (force simp: resolve_rows_def same_version_def)

lemma store_upload_publishes:
  assumes inv: "store_inv (srv_store srv)" and new: "fs_exists (srv_store srv) key \<noteq> STORE_OK"
    and key: "no_dotdot key" "place key \<noteq> []" "length key \<le> 500" "\<not> sidecar (place key)" "last (parts key) \<noteq> ''.''"
    and put: "fst (fs_put (srv_store srv) key body) = STORE_OK"
    and doc: "env_parse env (string_of body) = Some doc" "descriptor_fields doc = Some (g, a, v)" "descriptor_valid g a v = Some sv"
    and db: "db_faults (srv_db srv) = []" "fresh_coord g a v t (srv_db srv)" "t = extract_triple ''now.pasta'' ua uv"
    and pk: "pasta_key srv g a v = key"
    and res: "store_upload env sub key ug ua uv ''now.pasta'' body srv = (r, srv')"
  shows "response_status r = 201 \<and> object_view (srv_store srv') (place key) = Some body \<and>
     (\<exists>row sem. row \<in> set (db_artifacts (srv_db srv')) \<and> same_version g a v row \<and> art_status row = ''published'' \<and>
        art_yanked row = 0 \<and> art_sha256 row = sha_hex body \<and> sem \<in> set (db_artifact_semver (srv_db srv')) \<and> sv_coord_id sem = coord_id row)"
proof -
  let ?s = "srv_store srv"
  have safe: "safe_key key" by (rule no_up_safe [OF no_dotdot_up [OF key(1)]])
  obtain srv1 where p: "srv_put key body srv = (STORE_OK, srv1)" using put by (cases "fs_put ?s key body") (auto simp: srv_put_def)
  then have fp: "fs_put ?s key body = (STORE_OK, srv_store srv1)" and same: "srv_db srv1 = srv_db srv" "srv_registry_id srv1 = srv_registry_id srv"
    by (auto simp: srv_put_def split: prod.splits)
  define srv2 where "srv2 = countersign env key (sha_hex body) srv1"
  define srv3 where "srv3 = snd (srv_put (bounded 512 (key @ ''.sha256'')) (bytes_of (sha_hex body)) srv2)"
  have s1: "store_inv (srv_store srv1)" by (rule put_inv [OF inv safe fp])
  have k2: "keeps True (srv_store srv1) (srv_store srv2)" unfolding srv2_def by (rule countersign_keeps [OF s1 key(1,5)]) (simp add: key(3))
  then have s2: "store_inv (srv_store srv2)" by (simp add: keeps_def)
  have "keeps True (srv_store srv2) (srv_store srv3)"
    unfolding srv3_def srv_put_frame by (rule put_sidecar_keeps [OF s2 key(1,5)]) (simp_all add: key(3))
  then have k3: "keeps True (srv_store srv1) (srv_store srv3)" using keeps_trans [OF k2] by simp
  have view: "object_view (srv_store srv3) (place key) = Some body"
    using put_view(1) [OF inv safe fp] k3 key(4) by (simp add: keeps_def)
  have s3: "store_inv (srv_store srv3)" using k3 by (simp add: keeps_def)
  have "srv_db srv3 = srv_db srv" "pasta_key srv3 g a v = key" using same pk by (simp_all add: srv3_def srv2_def pasta_key_def)
  moreover have "fs_exists (srv_store srv3) key = STORE_OK" using view_exists [OF s3 safe _ view] key(5) by simp
  ultimately have rows: "\<exists>row sem. row \<in> set (db_artifacts (srv_db (register_rows env sub g a v t sv sha n srv3))) \<and>
      same_version g a v row \<and> art_status row = ''published'' \<and> art_yanked row = 0 \<and> art_sha256 row = sha \<and>
      sem \<in> set (db_artifact_semver (srv_db (register_rows env sub g a v t sv sha n srv3))) \<and> sv_coord_id sem = coord_id row" for sha n
    using db by (intro register_rows_publishes) simp_all
  have "register_descriptor env sub key t (sha_hex body) body srv2 = (None, register_rows env sub g a v t sv (sha_hex body) (length body) srv3)"
    using doc by (simp add: register_descriptor_def srv3_def Let_def)
  then have res': "response_status r = 201" "srv_db srv' = srv_db (register_rows env sub g a v t sv (sha_hex body) (length body) srv3)"
      "srv_store srv' = srv_store srv3"
    using res p db(3) by (auto simp: store_upload_def Let_def srv2_def [symmetric] counters)
  show ?thesis using rows [of "sha_hex body" "length body"] view res' by simp
qed

text \<open>The path of an artifact: its parts.\<close>

lemma split_artifact_parts:
  assumes "g \<noteq> []" "CHR ''/'' \<notin> set a" "CHR ''/'' \<notin> set v" "CHR ''/'' \<notin> set f"
  shows "split_artifact_path (g @ CHR ''/'' # a @ CHR ''/'' # v @ CHR ''/'' # f) = Some (Some (slash_to_dot g, a, v, f))"
proof -
  let ?h2 = "g @ CHR ''/'' # a" and ?h3 = "(g @ CHR ''/'' # a) @ CHR ''/'' # v"
  have p: "g @ CHR ''/'' # a @ CHR ''/'' # v @ CHR ''/'' # f = ?h3 @ CHR ''/'' # f" by simp
  show ?thesis
    unfolding p split_artifact_path_def Let_def last_parts [OF assms(4)] last_parts [OF assms(3)] last_parts [OF assms(2)]
    using assms(1) by simp
qed

lemma now_pasta_triple: "extract_triple ''now.pasta'' a v = ''noarch''"
proof -
  let ?f = "a @ ''-'' @ v @ ''-''"
  have "\<not> has_prefix ''now'' (bounded 256 ?f)"
  proof
    assume "has_prefix ''now'' (bounded 256 ?f)"
    then have t: "take (length (bounded 256 ?f)) ''now'' = bounded 256 ?f" by (simp add: has_prefix_def)
    then have "length (bounded 256 ?f) \<le> length ''now''" by (metis length_take min.cobounded1)
    then have "bounded 256 ?f = ?f" by (simp add: bounded_def)
    then have "set ?f \<subseteq> set ''now''" using t set_take_subset by metis
    then show False by auto
  qed
  moreover have "strip_extension (bounded 256 ''now.pasta'') = ''now''" by code_simp
  ultimately show ?thesis by (simp add: extract_triple_def)
qed

lemma slash_join_snoc3: "ks \<noteq> [] \<Longrightarrow> slash_join (ks @ [x, y, z]) = slash_join ks @ CHR ''/'' # x @ CHR ''/'' # y @ CHR ''/'' # z"
  using slash_join_append [of ks "[x, y, z]"] by simp


section \<open>Withdrawing\<close>

lemma srv_exec_OK:
  assumes "srv_exec stmt srv = (DB_OK, srv')"
  obtains db where "srv_db srv' = snd (stmt db)" "db_artifacts db = db_artifacts (srv_db srv)"
    "db_artifact_semver db = db_artifact_semver (srv_db srv)"
proof -
  obtain f db where n: "db_next (srv_db srv) = (f, db)" by fastforce
  with assms have "\<not> f" "srv_db srv' = snd (stmt db)" by (auto simp: srv_exec_def db_exec_def split: prod.splits if_splits)
  with db_next_eqD [OF n] that show ?thesis by blast
qed

lemma auth_denied_status: "require_auth_v2 env srv ri g c = (Inl d, srv') \<Longrightarrow> response_status d \<in> {401, 403, 429}"
  by (auto simp: require_auth_v2_def split: if_splits option.splits prod.splits)

lemma resolve_row_source:
  "rr \<in> set (resolve_rows g a yk db) \<Longrightarrow>
   \<exists>r \<in> set (db_artifacts db). art_group_id r = g \<and> art_artifact r = a \<and> art_version r = rr_version rr \<and> (yk \<or> art_yanked r = 0)"
  by (auto simp: resolve_rows_def)

lemma yanked_rows:
  assumes "r \<in> set (db_artifacts (snd (update_yanked reason g a v db)))" "same_version g a v r"
  shows "art_yanked r = 1"
  using assms by (auto simp: update_yanked_def row_update_def)

text \<open>
  C8. A withdrawn version is no longer offered: after a withdrawal that was answered with 200,
  resolving the group and artifact lists no entry of that version, and no object was touched.
\<close>

theorem yank_hides_version:
  assumes "split_coord path = Some (g, a, v)" "handle_yank env path sc srv = (r, srv')" "response_status r = 200"
  shows "(\<forall>rr \<in> set (resolve_rows g a False (srv_db srv')). rr_version rr \<noteq> v) \<and> srv_store srv' = srv_store srv"
proof -
  obtain x srv1 where auth: "require_auth_v2 env srv (sc_ri sc) g (CHR ''w'') = (x, srv1)" by fastforce
  have "\<exists>sub. yank_version env sub path g a v sc srv1 = (r, srv')"
    using assms auth auth_denied_status [of env srv "sc_ri sc" g "CHR ''w''" _ srv1]
    by (auto simp: handle_yank_def text_json_def split: if_splits sum.splits)
  then obtain sub where y: "yank_version env sub path g a v sc srv1 = (r, srv')" by blast
  have "\<exists>reason. srv_db srv' = srv_db (snd (srv_exec (update_yanked reason g a v) srv1)) \<and> srv_store srv' = srv_store srv1 \<and>
      fst (srv_exec (update_yanked reason g a v) srv1) = DB_OK"
  proof (rule yank_version_effect [of env sub path g a v sc srv1], goal_cases)
    case (1 reason)
    note eff = 1 [unfolded y fst_conv snd_conv]
    show ?case using eff(1,2) eff(4) [OF assms(3)] by blast
  qed
  then obtain reason where r: "srv_db srv' = srv_db (snd (srv_exec (update_yanked reason g a v) srv1))" "srv_store srv' = srv_store srv1"
      "fst (srv_exec (update_yanked reason g a v) srv1) = DB_OK" by blast
  obtain st srv2 where x: "srv_exec (update_yanked reason g a v) srv1 = (st, srv2)" by (cases "srv_exec (update_yanked reason g a v) srv1")
  note e = x [unfolded r(3) [unfolded x fst_conv]] r(1) [unfolded x snd_conv] r(2)
  from e(1) obtain db where "srv_db srv2 = snd (update_yanked reason g a v db)" by (rule srv_exec_OK)
  with e(2) have "srv_db srv' = snd (update_yanked reason g a v db)" by simp
  then have "\<forall>rr \<in> set (resolve_rows g a False (srv_db srv')). rr_version rr \<noteq> v"
    using yanked_rows [of _ reason g a v db] resolve_row_source [of _ g a False "srv_db srv'"]
    unfolding same_version_def by (metis zero_neq_one)
  moreover have "srv_store srv' = srv_store srv" using require_auth_frame(2) [OF auth] e(3) by simp
  ultimately show ?thesis ..
qed

section \<open>Resolving\<close>

lemma resolve_loop_exact:
  assumes "cbuf_exact (comma_sep ts) b" "cb_cap b = cap"
    and "length (comma_sep (ts @ map (row_json yk) (filter (row_matches rng sn) rows))) < cap"
  shows "\<exists>b'. resolve_loop rng sn yk rows (b, length ts) =
      Some (b', length ts + length (filter (row_matches rng sn) rows)) \<and>
    cb_text b' = comma_sep (ts @ map (row_json yk) (filter (row_matches rng sn) rows))"
  using assms
proof (induction rows arbitrary: ts b)
  case Nil
  then show ?case by (simp add: cbuf_exact_def)
next
  case (Cons r rows)
  show ?case
  proof (cases "row_matches rng sn r")
    case False
    with Cons.IH [of ts b] Cons.prems show ?thesis by (simp add: resolve_filter_cb_def)
  next
    case True
    let ?t = "row_json yk r"
    have fits: "length (comma_sep (ts @ [?t])) < cap"
      using length_comma_sep_mono [of "ts @ [?t]"] Cons.prems(3) True by (auto intro: le_less_trans)
    obtain b1 b2 where b1: "(if length ts > 0 then snprintf_at '','' b else Some b) = Some b1"
      and b2: "snprintf_at ?t b1 = Some b2" "cbuf_exact (comma_sep (ts @ [?t])) b2" "cb_cap b2 = cap"
      by (rule list_entry_exact [OF Cons.prems(1,2) fits])
    have step: "resolve_filter_cb rng sn yk r (b, length ts) = Some (b2, length (ts @ [?t]))"
      using True b1 b2(1) by (simp add: resolve_filter_cb_def)
    show ?thesis
      using Cons.IH [OF b2(2,3)] Cons.prems(3) True by (simp add: step)
  qed
qed


section \<open>Clearing what was never finished\<close>

lemma delete_stale_db:
  assumes "db_faults (srv_db srv) = []"
  shows "srv_db (delete_stale cid srv) = (srv_db srv)
     \<lparr>db_artifact_semver := filter (\<lambda>s. sv_coord_id s \<noteq> cid) (db_artifact_semver (srv_db srv)),
      db_artifacts := filter (\<lambda>r. \<not> (coord_id r = cid \<and> art_status r = ''pending'')) (db_artifacts (srv_db srv))\<rparr>"
  using assms by (auto simp: delete_stale_def srv_exec_no_fault delete_semver_def delete_pending_def Let_def)

lemma fold_delete_stale:
  "db_faults (srv_db srv) = [] \<Longrightarrow>
   db_artifacts (srv_db (fold delete_stale ids srv)) =
     filter (\<lambda>r. \<not> (coord_id r \<in> set ids \<and> art_status r = ''pending'')) (db_artifacts (srv_db srv)) \<and>
   db_faults (srv_db (fold delete_stale ids srv)) = []"
proof (induction ids arbitrary: srv)
  case (Cons c ids)
  have "db_faults (srv_db (delete_stale c srv)) = []" using delete_stale_db [OF Cons.prems, of c] Cons.prems by simp
  from Cons.IH [OF this] delete_stale_db [OF Cons.prems, of c] show ?case by (auto intro: filter_cong)
qed simp

lemma delete_stale_timeout: "srv_pending_timeout_sec (fold delete_stale ids srv) = srv_pending_timeout_sec srv"
  by (induction ids arbitrary: srv) (simp_all add: delete_stale_def srv_exec_def split: prod.splits)

lemma filter_not_taken: "distinct (map f xs) \<Longrightarrow> filter (\<lambda>x. f x \<notin> set (take n (map f xs))) xs = drop n xs"
proof (induction xs arbitrary: n)
  case (Cons x xs)
  show ?case
  proof (cases n)
    case (Suc k)
    have "filter (\<lambda>y. f y \<notin> insert (f x) (set (take k (map f xs)))) xs = filter (\<lambda>y. f y \<notin> set (take k (map f xs))) xs"
      using Cons.prems by (intro filter_cong) (auto simp: image_iff)
    with Cons Suc show ?thesis by simp
  qed simp
qed simp

text \<open>One round removes the first hundred stale rows.\<close>

lemma reconcile_round:
  assumes "db_ok (srv_db srv)" "db_faults (srv_db srv) = []" "cutoff = env_utc env (env_now env - srv_pending_timeout_sec srv)"
  defines "srv' \<equiv> reconcile_stale_pending env srv"
  shows "filter (stale_row cutoff) (db_artifacts (srv_db srv')) = drop 100 (filter (stale_row cutoff) (db_artifacts (srv_db srv)))"
    and "filter (\<lambda>r. art_status r \<noteq> ''pending'') (db_artifacts (srv_db srv')) = filter (\<lambda>r. art_status r \<noteq> ''pending'') (db_artifacts (srv_db srv))"
    and "db_faults (srv_db srv') = []" "srv_pending_timeout_sec srv' = srv_pending_timeout_sec srv"
proof -
  let ?rs = "db_artifacts (srv_db srv)"
  define ids where "ids = take 100 (map coord_id (filter (stale_row cutoff) ?rs))"
  have srv': "srv' = fold delete_stale ids srv"
    using assms(2) by (simp add: srv'_def reconcile_stale_pending_def stale_collect_def srv_rows_def ids_def assms(3) Let_def)
  note fold = fold_delete_stale [OF assms(2), of ids]
  have "filter (stale_row cutoff) (db_artifacts (srv_db srv')) = filter (\<lambda>r. coord_id r \<notin> set ids) (filter (stale_row cutoff) ?rs)"
    using fold by (auto simp: srv' stale_row_def intro: filter_cong)
  also have "\<dots> = drop 100 (filter (stale_row cutoff) ?rs)"
    unfolding ids_def using assms(1) by (intro filter_not_taken) (simp add: db_ok_def distinct_map_filter)
  finally show "filter (stale_row cutoff) (db_artifacts (srv_db srv')) = drop 100 (filter (stale_row cutoff) ?rs)" .
  show "filter (\<lambda>r. art_status r \<noteq> ''pending'') (db_artifacts (srv_db srv')) = filter (\<lambda>r. art_status r \<noteq> ''pending'') ?rs"
    using fold by (auto simp: srv' intro: filter_cong)
  show "db_faults (srv_db srv') = []" "srv_pending_timeout_sec srv' = srv_pending_timeout_sec srv"
    using fold delete_stale_timeout by (simp_all add: srv')
qed

text \<open>
  C13. Uploads that were never finished are cleared: however many stale rows there are, enough rounds
  of the background job, a hundred rows each, leave none, and no published row is lost on the way.
\<close>

theorem stale_rows_cleared:
  assumes "registry_inv srv" "db_faults (srv_db srv) = []"
    and "length (filter (stale_row (env_utc env (env_now env - srv_pending_timeout_sec srv))) (db_artifacts (srv_db srv))) \<le> 100 * k"
  shows "let srv' = (reconcile_stale_pending env ^^ k) srv
     in filter (stale_row (env_utc env (env_now env - srv_pending_timeout_sec srv))) (db_artifacts (srv_db srv')) = [] \<and>
        filter (\<lambda>r. art_status r = ''published'') (db_artifacts (srv_db srv')) = filter (\<lambda>r. art_status r = ''published'') (db_artifacts (srv_db srv))"
  using assms
proof (induction k arbitrary: srv)
  case 0
  then show ?case by simp
next
  case (Suc k)
  let ?srv = "reconcile_stale_pending env srv"
  have ok: "db_ok (srv_db srv)" using Suc.prems(1) by (simp add: registry_inv_def)
  note round = reconcile_round [OF ok Suc.prems(2) refl, of env]
  have "length (filter (stale_row (env_utc env (env_now env - srv_pending_timeout_sec ?srv))) (db_artifacts (srv_db ?srv))) \<le> 100 * k"
    using round(1,4) Suc.prems(3) by simp
  from Suc.IH [OF reconcile_inv [OF Suc.prems(1)] round(3) this]
  have IH: "let srv' = (reconcile_stale_pending env ^^ k) ?srv
     in filter (stale_row (env_utc env (env_now env - srv_pending_timeout_sec srv))) (db_artifacts (srv_db srv')) = [] \<and>
        filter (\<lambda>r. art_status r = ''published'') (db_artifacts (srv_db srv')) = filter (\<lambda>r. art_status r = ''published'') (db_artifacts (srv_db ?srv))"
    by (simp add: round(4))
  have "filter (\<lambda>r. art_status r = ''published'') (filter (\<lambda>r. art_status r \<noteq> ''pending'') rs) = filter (\<lambda>r. art_status r = ''published'') rs" for rs
    by (auto intro: filter_cong)
  with round(2) have "filter (\<lambda>r. art_status r = ''published'') (db_artifacts (srv_db ?srv)) = filter (\<lambda>r. art_status r = ''published'') (db_artifacts (srv_db srv))"
    by metis
  with IH show ?case by (simp add: funpow_swap1 Let_def)
qed

section \<open>An example\<close>

text \<open>A registry without a key, so that every request is allowed, and an upload of a descriptor.\<close>

definition open_server :: cookbook_server where
  "open_server = (demo_server 0)\<lparr>srv_has_registry_key := False\<rparr>"

definition demo_doc :: pasta_value where
  "demo_doc = PMap [(''group'', PString ''org.acme''), (''artifact'', PString ''core''), (''version'', PString ''1.0.0'')]"

definition demo_env :: environment where
  "demo_env = \<lparr>env_now = 1000, env_utc = show_int, env_sign = demo_sign, env_verify = demo_verify,
     env_parse = (\<lambda>t. Some demo_doc), env_parse_msg = (\<lambda>t. []), env_parse_pos = (\<lambda>t. (1, 1)), env_write = (\<lambda>m d. None), env_atof = (\<lambda>t. 1),
     env_fmt_double = (\<lambda>d. []), env_deflate = (\<lambda>b. None), env_behind = [], env_iso = show_int, env_conflate = (\<lambda>r d. None),
     env_entropy = (\<lambda>n. replicate n 0), env_jti_counter = 2, env_jti_address = 3, env_argon_hash = (\<lambda>t s. Some (string_of t)),
     env_argon_verify = (\<lambda>h t. Some (h = string_of t)), env_ldap = (\<lambda>s p. None), env_oidc = (\<lambda>c s. None),
     env_idp = (\<lambda>h p r. None), env_verify_by = (\<lambda>k s m. False), env_peer_keys = (\<lambda>db sql. []), env_peer = (\<lambda>p m q h. None)\<rparr>"

definition demo_request :: "int \<Rightarrow> string \<Rightarrow> (string \<Rightarrow> string option) \<Rightarrow> byte list \<Rightarrow> shim_connection" where
  "demo_request m uri hdr body = shim_init \<lparr>hc_method = m, hc_path = Some uri, hc_query = None, hc_header = hdr,
     hc_body = body, hc_set_headers = [], hc_stream = None, hc_ended = False\<rparr>"

definition demo_upload :: shim_connection where
  "demo_upload = demo_request 2 ''/artifact/org/acme/core/1.0.0/now.pasta'' (\<lambda>_. None) [123]"

lemma open_server_inv: "registry_inv open_server"
  using demo_store_inv
  by (simp add: registry_inv_def open_server_def demo_server_def db_ok_def db_empty_def registry_ok_def plain_name_def no_dotdot_def
      cache_ok_def less_Suc_eq)

lemma demo_upload_parts:
  "request_method (sc_ri demo_upload) = ''PUT''"
  "path_after (local_uri (sc_ri demo_upload)) ''/artifact/'' = Some (slash_join [''org'', ''acme'', ''core'', ''1.0.0'', ''now.pasta''])"
  "http_headers (sc_ri demo_upload) = []"
  "fst (read_body 1000000 demo_upload) = Some [123]"
     apply (simp add: demo_upload_def demo_request_def shim_init_def method_str_def)
    apply (simp add: demo_upload_def demo_request_def shim_init_def path_after_def has_prefix_def c_str_def)
  apply (simp add: demo_upload_def demo_request_def shim_init_def common_headers_def)
  apply (simp add: demo_upload_def demo_request_def shim_init_def read_body_def read_loop.simps shim_read_def nonempty_def Let_def)
  done

lemma demo_store_accepts:
  "fs_exists (demo_store []) ''east/org/acme/core/1.0.0/now.pasta'' \<noteq> STORE_OK"
  "fst (fs_put (demo_store []) ''east/org/acme/core/1.0.0/now.pasta'' [123]) = STORE_OK"
  by code_simp+

lemma demo_names: "valid_key [''org'', ''acme'', ''core'', ''1.0.0'', ''now.pasta'']"
  "validate_path_segment ''org/acme/core/1.0.0/now.pasta''" "descriptor_valid ''org.acme'' ''core'' ''1.0.0'' = Some
     \<lparr>major = 1, minor = 0, patch = 0, pre_release = [], build_meta = []\<rparr>"
  by code_simp+


theorem registry_invariant_witness:
  "\<exists>r srv'. handle_artifact demo_env demo_upload open_server = Some (r, srv') \<and> db_ok (srv_db srv') \<and> store_inv (srv_store srv') \<and>
     (\<forall>r \<in> set (db_artifacts (srv_db srv')). art_status r = ''published'' \<and> tidy r \<longrightarrow>
        fs_exists (srv_store srv') (pasta_key srv' (art_group_id r) (art_artifact r) (art_version r)) = STORE_OK)"
proof -
  have "split_artifact_path (slash_join [''org'', ''acme'', ''core'', ''1.0.0'', ''now.pasta'']) =
     Some (Some (''org.acme'', ''core'', ''1.0.0'', ''now.pasta''))" by code_simp
  then have "handle_artifact demo_env demo_upload open_server \<noteq> None"
    using demo_upload_parts demo_names(2)
    by (auto simp: handle_artifact_def artifact_access_def Let_def split: prod.splits sum.splits)
  then obtain r srv' where h: "handle_artifact demo_env demo_upload open_server = Some (r, srv')" by auto
  then have "registry_step\<^sup>*\<^sup>* open_server srv'" by (blast intro: registry_step.Artifact)
  from registry_invariant [OF open_server_inv this] h show ?thesis by blast
qed

lemma demo_upload_returns: "srv_has_registry_key srv = False \<Longrightarrow> \<exists>r srv'. handle_artifact demo_env demo_upload srv = Some (r, srv')"
proof -
  have "split_artifact_path (slash_join [''org'', ''acme'', ''core'', ''1.0.0'', ''now.pasta'']) =
     Some (Some (''org.acme'', ''core'', ''1.0.0'', ''now.pasta''))" by code_simp
  then have "handle_artifact demo_env demo_upload srv \<noteq> None"
    using demo_upload_parts demo_names(2)
    by (auto simp: handle_artifact_def artifact_access_def Let_def split: prod.splits sum.splits)
  then show ?thesis by auto
qed


text \<open>The same registry with one version of one artifact.\<close>

definition demo_row :: "string \<Rightarrow> artifact_row" where
  "demo_row status = \<lparr>coord_id = ''c1'', art_group_id = ''org.acme'', art_artifact = ''core'', art_version = ''1.0.0'', art_triple = ''noarch'',
     art_snapshot = 0, art_yanked = 0, art_yank_reason = None, art_status = status, art_sha256 = [], art_descriptor_sha256 = None,
     art_signed = 0, art_size_bytes = 1, art_pending_since = Some ''1'', art_published_at = None, art_published_by = None\<rparr>"

definition demo_listed :: "string \<Rightarrow> cookbook_server" where
  "demo_listed status = open_server\<lparr>srv_db := db_empty
     \<lparr>db_groups := [\<lparr>grp_group_id = ''org.acme'', grp_owner_sub = ''ann'', grp_created_at = None, grp_description = None\<rparr>],
      db_artifacts := [demo_row status],
      db_artifact_semver := [\<lparr>sv_coord_id = ''c1'', sv_major = 1, sv_minor = 0, sv_patch = 0, sv_pre_release = [], sv_build_meta = []\<rparr>]\<rparr>\<rparr>"

theorem yank_hides_version_witness:
  "\<exists>r srv'. handle_yank demo_env ''org/acme/core/1.0.0'' (demo_request 1 [] (\<lambda>_. None) []) (demo_listed ''published'') = (r, srv') \<and>
     map rr_version (resolve_rows ''org.acme'' ''core'' False (srv_db (demo_listed ''published''))) = [''1.0.0''] \<and>
     (\<forall>rr \<in> set (resolve_rows ''org.acme'' ''core'' False (srv_db srv')). rr_version rr \<noteq> ''1.0.0'')"
proof -
  let ?sc = "demo_request 1 [] (\<lambda>_. None) []" and ?srv = "demo_listed ''published''"
  obtain r srv' where h: "handle_yank demo_env ''org/acme/core/1.0.0'' ?sc ?srv = (r, srv')" by fastforce
  have c: "split_coord ''org/acme/core/1.0.0'' = Some (''org.acme'', ''core'', ''1.0.0'')"
    "validate_group ''org.acme''" "validate_artifact ''core''" "validate_version ''1.0.0''" by code_simp+
  have "require_auth_v2 demo_env ?srv ri g w = (Inr claims_zero, ?srv)" for ri g w
    by (rule require_auth_open) (simp add: demo_listed_def open_server_def)
  then have "response_status r = 200"
    using h c by (auto simp: handle_yank_def yank_version_def srv_exec_def db_exec_def demo_listed_def db_empty_def update_yanked_def
        text_json_def Let_def split: prod.splits if_splits)
  moreover have "map rr_version (resolve_rows ''org.acme'' ''core'' False (srv_db ?srv)) = [''1.0.0'']"
    by (simp add: resolve_rows_def demo_listed_def demo_row_def)
  ultimately show ?thesis using yank_hides_version [OF c(1) h] h by auto
qed

definition demo_query :: shim_connection where
  "demo_query = demo_request 0 ''/resolve/org/acme/core/^1.0.0'' (\<lambda>n. if n = ''Accept'' then Some ''application/json'' else None) []"


theorem stale_rows_cleared_witness:
  "filter (stale_row ''700'') (db_artifacts (srv_db (demo_listed ''pending''))) = [demo_row ''pending''] \<and>
   filter (stale_row ''700'') (db_artifacts (srv_db (reconcile_stale_pending demo_env (demo_listed ''pending'')))) = []"
proof -
  let ?srv = "demo_listed ''pending''"
  have inv: "registry_inv ?srv"
  proof -
    have "row_ok (demo_row ''pending'')" by code_simp
    then show ?thesis
      using open_server_inv
      by (simp add: registry_inv_def demo_listed_def db_ok_def db_empty_def cache_ok_def published_ok_def) (simp add: demo_row_def)
  qed
  have cutoff: "env_utc demo_env (env_now demo_env - srv_pending_timeout_sec ?srv) = ''700''"
    by (simp add: demo_env_def demo_listed_def open_server_def demo_server_def) code_simp
  have rows: "filter (stale_row ''700'') (db_artifacts (srv_db ?srv)) = [demo_row ''pending'']"
    by (simp add: demo_listed_def stale_row_def demo_row_def sql_less_def)
  have "db_faults (srv_db ?srv) = []" by (simp add: demo_listed_def db_empty_def)
  from stale_rows_cleared [OF inv this, of demo_env 1] rows show ?thesis by (simp add: cutoff Let_def)
qed

end
