(* ===== verification/Boundaries.thy ===== *)
theory Boundaries
  imports Lifecycle
begin

text \<open>
  Where the guarantees of the registry end: requests that change a stored object, register a
  coordinate of someone else, or make a handler leave its buffers.
\<close>

section \<open>Descriptors for other coordinates\<close>

lemma try_publish_row:
  assumes "row \<in> set (db_artifacts (srv_db srv))"
  shows "\<exists>row' \<in> set (db_artifacts (srv_db (try_publish env g a v srv))).
     art_key row' = art_key row \<and> art_sha256 row' = art_sha256 row \<and> coord_id row' = coord_id row"
proof -
  obtain f db where n: "db_next (srv_db srv) = (f, db)" by fastforce
  have r: "row \<in> set (db_artifacts db)" using assms db_next_eqD(1) [OF n] by simp
  have "\<exists>row' \<in> set (db_artifacts (snd (update_published now g a v db))).
     art_key row' = art_key row \<and> art_sha256 row' = art_sha256 row \<and> coord_id row' = coord_id row" for now
    using r by (intro bexI [of _ "if same_version g a v row \<and> art_status row = ''pending''
        then row\<lparr>art_status := ''published'', art_published_at := Some now\<rparr> else row"])
      (auto simp: update_published_def row_update_def art_key_def)
  with r assms show ?thesis
    by (auto simp: try_publish_def srv_exec_def db_exec_def n split: prod.splits) (metis snd_conv)
qed

text \<open>
  C40. The coordinate in a descriptor is not compared with the one in the URL, for which the request
  was authorized: an upload under any group registers the coordinate its descriptor names, with its
  own hash, when that coordinate is not taken.
\<close>

theorem foreign_descriptor_registered:
  assumes put: "fst (fs_put (srv_store srv) key body) = STORE_OK"
    and doc: "env_parse env (string_of body) = Some doc" "descriptor_fields doc = Some (g, a, v)" "descriptor_valid g a v = Some sv"
    and db: "db_faults (srv_db srv) = []" "fresh_coord g a v ''noarch'' (srv_db srv)"
  shows "\<exists>r srv'. store_upload env sub key url_group url_artifact url_version ''now.pasta'' body srv = (r, srv') \<and> response_status r = 201 \<and>
     (\<exists>row \<in> set (db_artifacts (srv_db srv')). same_version g a v row \<and> art_sha256 row = sha_hex body)"
proof -
  obtain srv1 where p: "srv_put key body srv = (STORE_OK, srv1)" using put by (cases "fs_put (srv_store srv) key body") (auto simp: srv_put_def)
  define srv2 where "srv2 = countersign env key (sha_hex body) srv1"
  define srv3 where "srv3 = snd (srv_put (bounded 512 (key @ ''.sha256'')) (bytes_of (sha_hex body)) srv2)"
  define fin where "fin = register_rows env sub g a v ''noarch'' sv (sha_hex body) (length body) srv3"
  have "srv_db srv3 = srv_db srv" using p srv_put_frame(1) [of key body srv] by (simp add: srv3_def srv2_def)
  then have d3: "db_faults (srv_db srv3) = []" "fresh_coord g a v ''noarch'' (srv_db srv3)" using db by simp_all
  have "\<exists>row \<in> set (db_artifacts (srv_db fin)). same_version g a v row \<and> art_sha256 row = sha_hex body"
  proof (rule register_rows_state [OF d3, of env sub sv "sha_hex body" "length body"], goal_cases)
    case (1 db row sem)
    then have "row \<in> set (db_artifacts (srv_db (srv3\<lparr>srv_db := db\<rparr>)))" by simp
    from try_publish_row [OF this, of env g a v] 1(1,3,5) show ?case
      by (auto simp: fin_def same_version_def art_key_def)
  qed
  moreover have "register_descriptor env sub key ''noarch'' (sha_hex body) body srv2 = (None, fin)"
    using doc by (simp add: register_descriptor_def srv3_def fin_def Let_def)
  then have "\<exists>r srv'. store_upload env sub key url_group url_artifact url_version ''now.pasta'' body srv = (r, srv') \<and> response_status r = 201 \<and>
      srv_db srv' = srv_db fin"
    by (simp add: store_upload_def Let_def p now_pasta_triple srv2_def [symmetric] counters)
  ultimately show ?thesis by metis
qed

theorem foreign_descriptor_registered_witness:
  "\<exists>r srv'. store_upload demo_env ''eve'' ''east/org/evil/x/1/now.pasta'' ''org.evil'' ''x'' ''1'' ''now.pasta'' [123] open_server = (r, srv') \<and>
     response_status r = 201 \<and>
     (\<exists>row \<in> set (db_artifacts (srv_db srv')). same_version ''org.acme'' ''core'' ''1.0.0'' row \<and> art_sha256 row = sha_hex [123])"
proof (rule foreign_descriptor_registered)
  show "fst (fs_put (srv_store open_server) ''east/org/evil/x/1/now.pasta'' [123]) = STORE_OK"
    by (simp add: open_server_def demo_server_def) code_simp
  show "descriptor_fields demo_doc = Some (''org.acme'', ''core'', ''1.0.0'')" by code_simp
  show "descriptor_valid ''org.acme'' ''core'' ''1.0.0'' = Some \<lparr>major = 1, minor = 0, patch = 0, pre_release = [], build_meta = []\<rparr>"
    by (rule demo_names(3))
qed (simp_all add: demo_env_def fresh_coord_def open_server_def demo_server_def db_empty_def)

section \<open>Objects that are overwritten\<close>

text \<open>
  A key of 511 characters is overwritten by its own signature: the name of the signature file is
  cut to the name of the upload, which is answered with 201 and replaced by the signature.
\<close>

theorem long_key_overwritten:
  assumes inv: "store_inv (srv_store srv)" and key: "safe_key key" "length key = 511"
    and sg: "srv_has_registry_key srv" "env_sign env (bytes_of (sha_hex body)) = Some sig" and fn: "fn \<noteq> ''now.pasta''"
    and put: "fs_put (srv_store srv) key body = (STORE_OK, sa)" "fst (fs_put sa key sig) = STORE_OK"
  shows "\<exists>r srv'. store_upload env sub key g a v fn body srv = (r, srv') \<and> response_status r = 201 \<and>
     object_view (srv_store srv') (place key) = Some sig"
proof -
  obtain s2 where p2: "fs_put sa key sig = (STORE_OK, s2)" using put(2) by (cases "fs_put sa key sig") auto
  have sa: "store_inv sa" by (rule put_inv [OF inv key(1) put(1)])
  have cut: "bounded 512 (key @ ''.countersig'') = key" using key(2) by (simp add: bounded_def)
  let ?srv1 = "srv\<lparr>srv_store := sa\<rparr>"
  have "countersign env key (sha_hex body) ?srv1 = srv\<lparr>srv_store := s2\<rparr>"
    using sg p2 by (simp add: countersign_def cut srv_put_def)
  then have "\<exists>r srv'. store_upload env sub key g a v fn body srv = (r, srv') \<and> response_status r = 201 \<and> srv_store srv' = s2"
    using fn put(1) by (simp add: store_upload_def Let_def srv_put_def counters)
  moreover have "object_view s2 (place key) = Some sig" using put_view(1) [OF sa key(1) p2] by simp
  ultimately show ?thesis by metis
qed

text \<open>A key that was written can be written again.\<close>

lemma put_again:
  assumes s: "store_inv s" and k: "valid_key (ks @ [k])" and f: "fs_faults (st_fs s) = []"
    and r: "CHR 0x5c \<notin> set (st_root s)" "node_at (st_fs s) (start_of (st_fs s) (st_root s)) = Some Dir"
    and p: "fs_put s (slash_join (ks @ [k])) v = (STORE_OK, s1)"
  shows "fst (fs_put s1 (slash_join (ks @ [k])) w) = STORE_OK"
proof -
  note place = valid_key_place [OF k] and nodes = put_nodes [OF s valid_key_place(4) [OF k] p]
  have root: "root_loc s1 = root_loc s" "start_of (st_fs s1) (st_root s1) = start_of (st_fs s) (st_root s)"
    using nodes by (simp_all add: root_loc_def start_of_def)
  have n: "node_at (st_fs s1) (root_loc s @ ks @ [k]) = Some (File v)"
    using put_view(1) [OF s place(4) p] place(3) root(1) by (auto simp: object_view_def split: option.splits node.splits)
  have dots: "''.'' \<notin> set (ks @ [k])" using dots_valid [OF k] by blast
  have "dirs_to (st_fs s1) (root_loc s) (ks @ [k])"
    using nodes n dots by (intro tree_dirs_to [where n = "File v"]) (auto simp: store_inv_def loc_of_names)
  then have "node_at (st_fs s1) (loc_of (root_loc s) (take i ks)) = Some Dir" if "i \<le> length ks" for i
    using that by (auto simp: dirs_to_def dest: spec [of _ i])
  moreover have "loc_of (root_loc s) (take i ks) = root_loc s @ take i ks" for i
    using dots by (intro loc_of_names) (auto dest: in_set_takeD)
  ultimately have way: "node_at (st_fs s1) (root_loc s1 @ take i ks) \<noteq> Some (File b)" if "i \<le> length ks" for i b
    using that root(1) by simp
  have faults: "fs_faults (st_fs s1) = []"
    using s place(4) p by (cases rule: put_cases) (use f in \<open>auto simp: only_dirs_def\<close>)
  show ?thesis
    by (rule put_succeeds [OF _ k faults _ _ way]) (use nodes r root n in auto)
qed

definition long_key :: "string list" where
  "long_key = [''east'', replicate 506 (CHR ''x'')]"

theorem long_key_overwritten_witness:
  "\<exists>sig r srv'. demo_sign (bytes_of (sha_hex [123])) = Some sig \<and>
     store_upload demo_env ''ann'' (slash_join long_key) ''g'' ''a'' ''1'' ''f'' [123] (demo_server 0) = (r, srv') \<and> response_status r = 201 \<and>
     object_view (srv_store srv') (place (slash_join long_key)) = Some sig"
proof -
  let ?k = "replicate 506 (CHR ''x'')" and ?s = "demo_store []"
  obtain sig where sig: "demo_sign (bytes_of (sha_hex [123])) = Some sig" by (simp add: demo_sign_def)
  have k: "valid_key ([''east''] @ [?k])"
    by (auto simp: valid_key_def plain_name_def dest!: arg_cong [of _ _ length])
  have r: "CHR 0x5c \<notin> set (st_root ?s)" "node_at (st_fs ?s) (start_of (st_fs ?s) (st_root ?s)) = Some Dir" "fs_faults (st_fs ?s) = []"
    using demo_node [of "[]"] demo_root by (simp_all add: demo_store_eq demo_fs_def)
  have "fst (fs_put ?s (slash_join ([''east''] @ [?k])) [123]) = STORE_OK"
    by (rule put_succeeds [OF demo_store_inv k r(3,1,2)]) (auto simp: demo_root demo_node take_Cons')
  then obtain s1 where p: "fs_put ?s (slash_join ([''east''] @ [?k])) [123] = (STORE_OK, s1)"
    by (cases "fs_put ?s (slash_join ([''east''] @ [?k])) [123]") auto
  have "length (slash_join long_key) = 511" by (simp add: long_key_def)
  then have "\<exists>r srv'. store_upload demo_env ''ann'' (slash_join long_key) ''g'' ''a'' ''1'' ''f'' [123] (demo_server 0) = (r, srv') \<and>
      response_status r = 201 \<and> object_view (srv_store srv') (place (slash_join long_key)) = Some sig"
    using put_again [OF demo_store_inv k r(3,1,2) p, of sig] valid_key_place(4) [OF k] p sig demo_store_inv
    by (intro long_key_overwritten [where sa = s1]) (simp_all add: long_key_def demo_server_def demo_env_def)
  with sig show ?thesis by blast
qed

text \<open>
  C38. The object cache keeps its files among those of the artifact group \<open>objects\<close>: caching an object
  whose name has the form of a coordinate replaces the artifact of that group, published or not.
\<close>

theorem cache_overwrites_artifact:
  assumes inv: "registry_inv srv" and ck: "ck = a @ ''/'' @ v @ ''/'' @ f" "CHR ''/'' \<notin> set a" "CHR ''/'' \<notin> set v" "CHR ''/'' \<notin> set f"
      "validate_path_segment ck"
    and put: "fst (fs_put (srv_store srv) (object_key srv ck) body) = STORE_OK"
  shows "split_artifact_path (''objects/'' @ ck) = Some (Some (''objects'', a, v, f)) \<and>
     object_view (srv_store (snd (cache_object env sub ck (object_key srv ck) body srv)))
       (place (srv_registry_id srv @ ''/'' @ ''objects/'' @ ck)) = Some body"
proof -
  have key: "object_key srv ck = srv_registry_id srv @ ''/'' @ ''objects/'' @ ck" by (simp add: object_key_def)
  have "no_dotdot ck" using ck(5) strstr_no_dotdot by (simp add: validate_path_segment_def)
  then have "no_dotdot (object_key srv ck)"
    using cache_key(1) [of "srv_registry_id srv" ck "''objects''"] inv by (simp add: object_key_def registry_inv_def)
  then have safe: "safe_key (object_key srv ck)" by (rule no_up_safe [OF no_dotdot_up])
  obtain s1 where p: "fs_put (srv_store srv) (object_key srv ck) body = (STORE_OK, s1)"
    using put by (cases "fs_put (srv_store srv) (object_key srv ck) body") auto
  then have "srv_store (snd (cache_object env sub ck (object_key srv ck) body srv)) = s1"
    by (simp add: cache_object_def srv_put_def Let_def counters)
  moreover have "object_view s1 (place (object_key srv ck)) = Some body"
    using inv put_view(1) [OF _ safe p] by (simp add: registry_inv_def)
  moreover have "split_artifact_path (''objects/'' @ ck) = Some (Some (''objects'', a, v, f))"
    using split_artifact_parts [OF _ ck(2-4), of "''objects''"] by (simp add: ck(1) slash_to_dot_def)
  ultimately show ?thesis by (simp add: key)
qed

theorem cache_overwrites_artifact_witness:
  "split_artifact_path (''objects/'' @ ''core/1.0.0/now.pasta'') = Some (Some (''objects'', ''core'', ''1.0.0'', ''now.pasta'')) \<and>
   object_view (srv_store (snd (cache_object demo_env ''eve'' ''core/1.0.0/now.pasta'' (object_key open_server ''core/1.0.0/now.pasta'') [9] open_server)))
     (place (srv_registry_id open_server @ ''/'' @ ''objects/'' @ ''core/1.0.0/now.pasta'')) = Some [9]"
proof (rule cache_overwrites_artifact [OF open_server_inv])
  show "validate_path_segment ''core/1.0.0/now.pasta''" by code_simp
  show "fst (fs_put (srv_store open_server) (object_key open_server ''core/1.0.0/now.pasta'') [9]) = STORE_OK"
    by (simp add: open_server_def demo_server_def object_key_def) code_simp
qed simp_all

section \<open>Buffers\<close>

text \<open>
  A path of the form \<open>/a/f\<close> makes the search for the group start one byte before the path.
\<close>

theorem slash_path_underread:
  assumes "CHR ''/'' \<notin> set a" "CHR ''/'' \<notin> set f"
  shows "split_artifact_path (''/'' @ a @ ''/'' @ f) = None"
proof -
  have p: "''/'' @ a @ ''/'' @ f = (CHR ''/'' # a) @ CHR ''/'' # f" by simp
  show ?thesis
    using last_parts [OF assms(1), of "[]"]
    unfolding p split_artifact_path_def Let_def last_parts [OF assms(2)] by simp
qed

theorem slash_path_underread_witness:
  "handle_artifact demo_env (demo_request 0 ''/artifact//core/f'' (\<lambda>_. None) []) open_server = None"
proof -
  let ?sc = "demo_request 0 ''/artifact//core/f'' (\<lambda>_. None) []"
  have "split_artifact_path ''/core/f'' = None" using slash_path_underread [of "''core''" "''f''"] by simp
  moreover have "path_after (local_uri (sc_ri ?sc)) ''/artifact/'' = Some ''/core/f''" "request_method (sc_ri ?sc) = ''GET''"
    by (simp_all add: demo_request_def shim_init_def method_str_def path_after_def has_prefix_def c_str_def)
  moreover have "validate_path_segment ''/core/f''" by code_simp
  ultimately show ?thesis by (simp add: handle_artifact_def Let_def)
qed

text \<open>The position of the answer to a range, written or not.\<close>

lemma resolve_loop_append:
  "resolve_loop rng sn yk (rs @ rs') st = Option.bind (resolve_loop rng sn yk rs st) (resolve_loop rng sn yk rs')"
  by (induction rs arbitrary: st) (auto split: Option.bind_splits)

lemma resolve_loop_position:
  "resolve_loop rng sn yk rows (b, length ts) = Some (b', n) \<Longrightarrow> cb_pos b = length (comma_sep ts) \<Longrightarrow>
   cb_pos b' = length (comma_sep (ts @ map (row_json yk) (filter (row_matches rng sn) rows))) \<and> cb_cap b' = cb_cap b"
proof (induction rows arbitrary: ts b)
  case (Cons r rows)
  show ?case
  proof (cases "row_matches rng sn r")
    case False
    with Cons.IH [of b ts] Cons.prems show ?thesis by (simp add: resolve_filter_cb_def)
  next
    case True
    then obtain b1 b2 where b: "(if length ts > 0 then snprintf_at '','' b else Some b) = Some b1" "snprintf_at (row_json yk r) b1 = Some b2"
        "resolve_loop rng sn yk rows (b2, length (ts @ [row_json yk r])) = Some (b', n)"
      using Cons.prems(1) by (auto simp: resolve_filter_cb_def split: Option.bind_splits if_splits)
    then have "cb_pos b2 = length (comma_sep (ts @ [row_json yk r]))" "cb_cap b2 = cb_cap b"
      using Cons.prems(2) comma_sep_snoc [of ts "row_json yk r"] by (auto simp: snprintf_at_def split: if_splits)
    with Cons.IH [OF b(3)] True show ?thesis by simp
  qed
qed simp

text \<open>
  More than 8192 bytes of matching versions, followed by one more, make the answer to a range be
  written out of bounds.
\<close>

theorem resolve_overflow:
  assumes "8192 < length (comma_sep (map (row_json yk) (filter (row_matches rng sn) rs)))" "row_matches rng sn r"
  shows "resolve_loop rng sn yk (rs @ r # rs') (cbuf_new 8192, 0) = None"
proof (cases "resolve_loop rng sn yk rs (cbuf_new 8192, 0)")
  case None
  then show ?thesis by (simp add: resolve_loop_append)
next
  case (Some st)
  obtain b n where st: "st = (b, n)" by (cases st)
  have "cb_pos b > 8192" "cb_cap b = 8192"
    using resolve_loop_position [of rng sn yk rs "cbuf_new 8192" "[]" b n] Some st assms(1) by (simp_all add: cbuf_new_def)
  then have "resolve_filter_cb rng sn yk r (b, n) = None"
    using assms(2) by (auto simp: resolve_filter_cb_def snprintf_at_def)
  with Some st show ?thesis by (simp add: resolve_loop_append)
qed

lemma length_comma_sep: "(\<And>t. t \<in> set ts \<Longrightarrow> length t = k) \<Longrightarrow> length (comma_sep ts) = length ts * k + (length ts - 1)"
  by (induction ts rule: comma_sep.induct) auto

theorem resolve_overflow_witness:
  "\<exists>rng. cookbook_range_parse ''^1.0.0'' = Some rng \<and>
     resolve_loop rng False False (replicate 200 \<lparr>rr_version = ''1.0.0'', rr_snapshot = 0, rr_triple = ''noarch'', rr_yanked = 0,
       rr_yank_reason = None\<rparr> @ [\<lparr>rr_version = ''1.0.0'', rr_snapshot = 0, rr_triple = ''noarch'', rr_yanked = 0,
       rr_yank_reason = None\<rparr>]) (cbuf_new 8192, 0) = None"
proof -
  let ?row = "\<lparr>rr_version = ''1.0.0'', rr_snapshot = 0, rr_triple = ''noarch'', rr_yanked = 0, rr_yank_reason = None\<rparr>"
  have "case cookbook_range_parse ''^1.0.0'' of Some rng \<Rightarrow> row_matches rng False ?row | None \<Rightarrow> False" by code_simp
  then obtain rng where rng: "cookbook_range_parse ''^1.0.0'' = Some rng" "row_matches rng False ?row" by (auto split: option.splits)
  have len: "length (row_json False ?row) \<ge> 50" by code_simp
  have "length (comma_sep (replicate 200 (row_json False ?row))) = 200 * length (row_json False ?row) + 199"
    by (subst length_comma_sep [where k = "length (row_json False ?row)"]) (auto simp: in_set_replicate)
  then have "8192 < length (comma_sep (map (row_json False) (filter (row_matches rng False) (replicate 200 ?row))))"
    using len rng(2) by (simp add: filter_replicate)
  from resolve_overflow [OF this rng(2), of "[]"] rng(1) show ?thesis by blast
qed

end
