(* ===== verification/Server.thy ===== *)
theory Server
  imports Lifecycle
begin

text \<open>
  The server as its clients see it: the routes \<open>cookbook_server_start\<close> of
  \<^verbatim>\<open>src/src/main/c/cookbook_server.c\<close> sets up, and a request from the context of the transport
  through dispatch, handler and response. The state before the first request is the one
  \<open>cookbook_server_start\<close> makes.
\<close>

section \<open>Routes\<close>

type_synonym handler = "environment \<Rightarrow> shim_connection \<Rightarrow> cookbook_server \<Rightarrow> (response \<times> cookbook_server) option"

definition handler_table :: "(string \<times> handler) list" where
  "handler_table =
     [(''/healthz'', \<lambda>env sc srv. Some (handle_healthz srv)),
      (''/readyz'', \<lambda>env sc srv. Some (handle_readyz sc srv)),
      (''/.well-known/now-registry-key'', \<lambda>env sc srv. Some (handle_registry_key sc srv)),
      (''/.well-known/now-registry'', \<lambda>env. handle_registry_discovery),
      (''/auth/token'', handle_auth_token),
      (''/auth/revoke'', \<lambda>env sc srv. Some (handle_auth_revoke env sc srv)),
      (''/auth/device/token'', handle_auth_device_token),
      (''/auth/device/verify'', \<lambda>env sc srv. Some (handle_auth_device_verify env sc srv)),
      (''/auth/device'', handle_auth_device),
      (''/keys'', \<lambda>env sc srv. Some (handle_keys env sc srv)),
      (''/metrics'', \<lambda>env sc srv. Some (handle_metrics sc srv)),
      (''/mirror/manifest'', handle_mirror_manifest),
      (''/resolve/'', handle_resolve),
      (''/artifact/'', handle_artifact),
      (''/objects/'', \<lambda>env sc srv. Some (handle_objects env sc srv)),
      (''/graphs/'', \<lambda>env sc srv. Some (handle_graphs env sc srv)),
      (''/grid/resolve/'', handle_grid_resolve),
      (''/grid/artifact/'', \<lambda>env sc srv. map_option (\<lambda>r. (r, srv)) (handle_grid_artifact env sc srv)),
      (''/grid/manifest'', handle_grid_manifest),
      (''/admin/peers'', handle_admin_peers),
      (''/admin/groups'', handle_admin_groups),
      (''/admin/credentials'', handle_admin_credentials),
      (''/admin/policies'', handle_admin_policies)]"

text \<open>The four routes for peers are there only when the grid is enabled.\<close>

definition route_indices :: "bool \<Rightarrow> nat list" where
  "route_indices grid = [0..<16] @ (if grid then [16..<20] else []) @ [20..<23]"

definition cookbook_routes :: "bool \<Rightarrow> route_entry list" where
  "cookbook_routes grid =
     fold (\<lambda>i. cookbook_http_add_route (fst (handler_table ! i)) i) (route_indices grid) []"

section \<open>A request\<close>

definition run_handler :: "environment \<Rightarrow> nat \<Rightarrow> shim_connection \<Rightarrow> cookbook_server \<Rightarrow> (shim_connection \<times> cookbook_server) option" where
  "run_handler env h sc srv = do {
     (r, srv) \<leftarrow> snd (handler_table ! h) env sc srv;
     sc \<leftarrow> send r sc;
     Some (sc, srv)
   }"

definition serve :: "environment \<Rightarrow> route_entry list \<Rightarrow> http_ctx \<Rightarrow> cookbook_server \<Rightarrow> (http_ctx \<times> cookbook_server) option" where
  "serve env = generic_handler (run_handler env)"

inductive server_step :: "route_entry list \<Rightarrow> cookbook_server \<Rightarrow> cookbook_server \<Rightarrow> bool" for routes where
  Request: "serve env routes ctx srv = Some (ctx', srv') \<Longrightarrow> server_step routes srv srv'"
| Background: "server_step routes srv (reconcile_tick env srv)"

inductive_cases server_stepE: "server_step routes srv srv'"

section \<open>Dispatch\<close>

lemma cookbook_routes_eq:
  "cookbook_routes grid = map (\<lambda>i. \<lparr>route_pattern = fst (handler_table ! i), route_handler = i\<rparr>) (route_indices grid)"
proof -
  have "fold (\<lambda>i. cookbook_http_add_route (fst (handler_table ! i)) i) is rs =
      rs @ map (\<lambda>i. \<lparr>route_pattern = fst (handler_table ! i), route_handler = i\<rparr>) is"
    if "length rs + length is \<le> MAX_ROUTES" for "is" rs
    using that by (induction "is" arbitrary: rs) (auto simp: cookbook_http_add_route_def)
  moreover have "length (route_indices grid) \<le> MAX_ROUTES" by (simp add: route_indices_def MAX_ROUTES_def)
  ultimately show ?thesis by (simp add: cookbook_routes_def)
qed

lemma handler_table_size: "length handler_table = 23"
  by (simp add: handler_table_def)

lemma route_handlers: "r \<in> set (cookbook_routes grid) \<Longrightarrow> handler_table ! route_handler r \<in> set handler_table"
  by (rule nth_mem) (auto simp: cookbook_routes_eq route_indices_def handler_table_size split: if_splits)

text \<open>A request that is served ran one of the handlers, or met no route.\<close>

lemma serve_cases:
  assumes "serve env (cookbook_routes grid) ctx srv = Some (ctx', srv')"
  obtains "srv' = srv"
  | r name h where "(name, h) \<in> set handler_table" "h env (shim_init ctx) srv = Some (r, srv')"
      "best_route (case hc_path ctx of None \<Rightarrow> ''/'' | Some p \<Rightarrow> p) (cookbook_routes grid) None 0 \<noteq> None"
      "has_prefix (case hc_path ctx of None \<Rightarrow> ''/'' | Some p \<Rightarrow> p) name"
proof -
  let ?p = "case hc_path ctx of None \<Rightarrow> ''/'' | Some p \<Rightarrow> p"
  show ?thesis
  proof (cases "best_route ?p (cookbook_routes grid) None 0")
    case None
    with assms that(1) show ?thesis by (simp add: serve_def generic_handler_def)
  next
    case (Some b)
    have b: "b \<in> set (cookbook_routes grid)" "has_prefix ?p (route_pattern b)"
      using best_route_longest [where best = None and n = 0 and path = ?p and rs = "cookbook_routes grid"] Some by auto
    obtain r where "snd (handler_table ! route_handler b) env (shim_init ctx) srv = Some (r, srv')"
      using assms Some by (auto simp: serve_def generic_handler_def run_handler_def split: Option.bind_splits)
    moreover have "route_pattern b = fst (handler_table ! route_handler b)" using b(1) by (auto simp: cookbook_routes_eq)
    ultimately show ?thesis
      using that(2) [of "fst (handler_table ! route_handler b)" "snd (handler_table ! route_handler b)"] route_handlers [OF b(1)] b(2) Some
      by simp
  qed
qed

lemma handler_step:
  assumes "(name, h) \<in> set handler_table" "h env sc srv = Some (r, srv')"
  shows "registry_step srv srv' \<or> srv' = srv"
proof -
  have "srv' = srv" if "handle_registry_discovery sc srv = Some (r, srv')"
    using that by (auto simp: handle_registry_discovery_def split: if_splits Option.bind_splits)
  moreover have "handle_healthz srv = (r, srv') \<Longrightarrow> srv' = srv" "handle_registry_key sc srv = (r, srv') \<Longrightarrow> srv' = srv"
    "handle_metrics sc srv = (r, srv') \<Longrightarrow> srv' = srv"
    using handle_metrics_same [of sc srv] by (auto simp: handle_healthz_def handle_registry_key_def split: if_splits)
  ultimately show ?thesis
    using assms unfolding handler_table_def by (auto intro: registry_step.intros)
qed

lemma server_step_registry: "server_step (cookbook_routes grid) srv srv' \<Longrightarrow> registry_step srv srv' \<or> srv' = srv"
  by (erule server_stepE) (auto elim!: serve_cases dest: handler_step intro: registry_step.Tick)

section \<open>The data of the server\<close>

lemma start_core:
  "core (cookbook_server_start env opts) =
     (opt_store opts, field_or ''central'' (opt_registry_id opts), tables (opt_db opts))"
  by (simp add: cookbook_server_start_def load_revocations_core Let_def) (simp add: core_def)

lemma server_runs:
  assumes "(server_step (cookbook_routes grid))\<^sup>*\<^sup>* srv srv'" "registry_inv srv"
  shows "registry_inv srv'"
  using assms by (induction rule: rtranclp_induct) (auto dest: server_step_registry registry_step_inv)


definition demo_opts :: cookbook_server_opts where
  "demo_opts = \<lparr>opt_db = db_empty, opt_store = demo_store [], opt_registry_id = Some ''east'', opt_max_upload_mb = 1,
     opt_pending_timeout_sec = 0, opt_jwt_ttl_sec = 0, opt_rate_limit_per_min = 0, opt_grid_enabled = True, opt_grid_max_hops = 0,
     opt_grid_peer_auth = False, opt_object_cache_ttl_sec = 0, opt_ldap_url = None, opt_oidc_issuer = None,
     opt_oidc_client_id = None, opt_audit_log = False, opt_registry_pk = None\<rparr>"

text \<open>A request that registers a group.\<close>

definition group_ctx :: http_ctx where
  "group_ctx = \<lparr>hc_method = 2, hc_path = Some ''/admin/groups'', hc_query = None, hc_header = (\<lambda>_. None),
     hc_body = bytes_of (''{'' @ json_pair ''group_id'' ''org.acme'' @ ''}''), hc_set_headers = [], hc_stream = None, hc_ended = False\<rparr>"

lemma shim_printf_fits: "text \<noteq> [] \<Longrightarrow> length text \<le> 16384 \<Longrightarrow> \<exists>sc'. shim_printf text sc = Some sc'"
  by (simp add: shim_printf_def printf_buffer_def Let_def split: option.splits)

lemma send_json_fits: "length body \<le> 16000 \<Longrightarrow> status < 1000 \<Longrightarrow> \<exists>sc'. send (Send_json status body) sc = Some sc'"
  using length_show_nat [of status 3] length_show_nat [of "length body" 5]
  by (simp add: send_json_def) (intro shim_printf_fits; simp add: reply_text_def header_lines_def crlf_def reason_of_def)

lemma demo_start:
  "srv_db (cookbook_server_start env demo_opts) = db_empty" "\<not> srv_has_registry_key (cookbook_server_start env demo_opts)"
  by (simp_all add: cookbook_server_start_def load_revocations_def demo_opts_def srv_rows_def srv_exec_def db_exec_def
      delete_expired_revocations_def db_empty_def Let_def)

lemma group_request:
  "request_method (sc_ri (shim_init group_ctx)) = ''PUT''"
  "fst (read_body 4096 (shim_init group_ctx)) = Some (hc_body group_ctx)"
  by (simp_all add: group_ctx_def shim_init_def method_str_def read_body_def read_loop.simps shim_read_def nonempty_def Let_def
      json_pair_def quote_def bytes_of_def)

lemma group_registered:
  "\<exists>ctx' srv'. serve demo_env (cookbook_routes True) group_ctx (cookbook_server_start demo_env demo_opts) = Some (ctx', srv') \<and>
     map grp_group_id (db_groups (srv_db srv')) = [''org.acme'']"
proof -
  let ?s = "inc_total (cookbook_server_start demo_env demo_opts)" and ?sc = "shim_init group_ctx"
  have f: "tight_field (body_text demo_env (hc_body group_ctx)) ''group_id'' 256 = ''org.acme''"
    "tight_field (body_text demo_env (hc_body group_ctx)) ''description'' 512 = []" by code_simp+
  have auth: "require_auth_v2 demo_env ?s (sc_ri ?sc) g c = (Inr claims_zero, ?s)" for g c
    using demo_start(2) by (intro require_auth_open) (simp add: counters)
  have db: "srv_db ?s = db_empty" using demo_start(1) by (simp add: counters)
  obtain body srv' where h: "handle_admin_groups demo_env ?sc (cookbook_server_start demo_env demo_opts) =
      Some (Send_json 201 (bounded 512 body), srv')" and g: "map grp_group_id (db_groups (srv_db srv')) = [''org.acme'']"
    by (simp add: handle_admin_groups_def Let_def group_request group_put_def f auth claims_zero_def srv_exec_def db
        db_exec_def insert_new_group_def row_insert_def db_empty_def) (simp add: counters)
  have "length (bounded 512 body) \<le> 16000" by (rule order_trans [OF less_imp_le [OF length_bounded]]) simp_all
  then obtain sc' where sent: "send (Send_json 201 (bounded 512 body)) ?sc = Some sc'" using send_json_fits [of _ 201 ?sc] by auto
  have route: "best_route ''/admin/groups'' (cookbook_routes True) None 0 = Some \<lparr>route_pattern = ''/admin/groups'', route_handler = 20\<rparr>"
    by (simp add: cookbook_routes_eq route_indices_def handler_table_def has_prefix_def upt_rec)
  have "run_handler demo_env 20 ?sc (cookbook_server_start demo_env demo_opts) = Some (sc', srv')"
    using h sent by (simp add: run_handler_def handler_table_def)
  with g show ?thesis unfolding serve_def generic_handler_def by (simp add: group_ctx_def) (simp add: route group_ctx_def)
qed


section \<open>Requests without a token\<close>

text \<open>A registry that has a key, and a request in which it finds no token it accepts.\<close>

definition anonymous :: "environment \<Rightarrow> shim_request_info \<Rightarrow> cookbook_server \<Rightarrow> bool" where
  "anonymous env ri srv \<longleftrightarrow> srv_has_registry_key srv \<and> extract_bearer_jwt env srv ri = None"

lemma anonymous_cong:
  assumes "srv_has_registry_key srv' = srv_has_registry_key srv" "srv_revocations srv' = srv_revocations srv"
  shows "anonymous env ri srv' = anonymous env ri srv"
  unfolding anonymous_def extract_bearer_jwt_def assms by (rule refl)

lemma anonymous_counters [simp]:
  "anonymous env ri (inc_total srv) = anonymous env ri srv" "anonymous env ri (inc_get srv) = anonymous env ri srv"
  "anonymous env ri (inc_put srv) = anonymous env ri srv" "anonymous env ri (inc_post srv) = anonymous env ri srv"
  "anonymous env ri (count_request m srv) = anonymous env ri srv"
  by (rule anonymous_cong; simp add: counters count_request_def Let_def)+

lemma core_reads [simp]:
  "core (count_request m srv) = core srv" "core (inc_resolved srv) = core srv" "core (add_downloaded n srv) = core srv"
  by (simp_all add: core_def counters count_request_def Let_def)

lemma anonymous_refused:
  assumes "anonymous env ri srv" "require_auth_v2 env srv ri g c = (x, srv')"
  shows "x = Inl (Send_json 401 (error_json ''Valid Bearer JWT required''))"
  using assms by (auto simp: anonymous_def require_auth_v2_def)

lemma anonymous_artifact:
  assumes "anonymous env (sc_ri sc) srv" "handle_artifact env sc srv = Some (r, srv')"
  shows "core srv' = core srv"
  using assms
  by (auto simp: handle_artifact_def artifact_access_def handle_yank_def Let_def
      dest: anonymous_refused [rotated] core_auth split: option.splits if_splits prod.splits sum.splits Option.bind_splits)

lemma resolve_core: "handle_resolve env sc srv = Some (r, srv') \<Longrightarrow> core srv' = core srv"
  by (auto simp: handle_resolve_def resolve_query_def resolve_reply_def Let_def
      dest!: core_auth core_rows core_peers split: option.splits if_splits prod.splits sum.splits Option.bind_splits)

lemma anonymous_objects:
  assumes "anonymous env (sc_ri sc) srv" "handle_objects env sc srv = (r, srv')"
  shows "core srv' = core srv"
  using assms
  by (auto simp: handle_objects_def objects_get_def objects_head_def objects_put_def Let_def
      dest: anonymous_refused [rotated] core_auth split: option.splits if_splits prod.splits sum.splits)

lemma anonymous_graphs:
  assumes "anonymous env (sc_ri sc) srv" "handle_graphs env sc srv = (r, srv')"
  shows "core srv' = core srv"
  using assms
  by (auto simp: handle_graphs_def graphs_get_def graphs_head_def graphs_put_def Let_def
      dest: anonymous_refused [rotated] core_auth split: option.splits if_splits prod.splits sum.splits)

lemma anonymous_groups:
  assumes "anonymous env (sc_ri sc) srv" "handle_admin_groups env sc srv = Some (r, srv')"
  shows "core srv' = core srv"
  using assms
  by (auto simp: handle_admin_groups_def group_put_def group_patch_def group_delete_def Let_def
      dest: anonymous_refused [rotated] core_auth group_read_core split: option.splits if_splits prod.splits sum.splits)

lemma anonymous_handler:
  assumes "(name, h) \<in> set handler_table" "h env sc srv = Some (r, srv')" "anonymous env (sc_ri sc) srv" "name \<noteq> ''/readyz''"
  shows "core srv' = core srv"
proof -
  have "srv' = srv" if "handle_registry_discovery sc srv = Some (r, srv')"
    using that by (auto simp: handle_registry_discovery_def split: if_splits Option.bind_splits)
  moreover have "handle_healthz srv = (r, srv') \<Longrightarrow> srv' = srv" "handle_registry_key sc srv = (r, srv') \<Longrightarrow> srv' = srv"
    "handle_metrics sc srv = (r, srv') \<Longrightarrow> srv' = srv"
    using handle_metrics_same [of sc srv] by (auto simp: handle_healthz_def handle_registry_key_def split: if_splits)
  ultimately show ?thesis
    using assms unfolding handler_table_def
    by (auto dest: handlers_core resolve_core anonymous_artifact [rotated] anonymous_objects [rotated] anonymous_graphs [rotated]
        anonymous_groups [rotated])
qed

text \<open>
  C2. At a registry with a key, a request without an acceptable token changes no stored object, no group,
  no artifact, no version number and no cache entry, whatever its method, path and body. Only the
  readiness probe, which writes and removes its own file, is left out. (Policies, credentials and peers
  are not among what is kept.)
\<close>

theorem unauthenticated_changes_nothing:
  assumes "serve env (cookbook_routes grid) ctx srv = Some (ctx', srv')"
    "srv_has_registry_key srv" "extract_bearer_jwt env srv (sc_ri (shim_init ctx)) = None"
    "\<not> has_prefix (case hc_path ctx of None \<Rightarrow> ''/'' | Some p \<Rightarrow> p) ''/readyz''"
  shows "srv_store srv' = srv_store srv \<and> db_groups (srv_db srv') = db_groups (srv_db srv) \<and>
     db_artifacts (srv_db srv') = db_artifacts (srv_db srv) \<and> db_artifact_semver (srv_db srv') = db_artifact_semver (srv_db srv) \<and>
     db_object_cache (srv_db srv') = db_object_cache (srv_db srv)"
proof -
  have "anonymous env (sc_ri (shim_init ctx)) srv" using assms(2,3) by (simp add: anonymous_def)
  with assms(1,4) have "core srv' = core srv" by (auto elim!: serve_cases dest: anonymous_handler)
  then show ?thesis by (simp add: core_def tables_def)
qed

text \<open>The request above, sent to a registry with a key, is answered with 401.\<close>

lemma group_refused:
  "\<exists>ctx' srv'. serve demo_env (cookbook_routes True) group_ctx (demo_server 0) = Some (ctx', srv') \<and>
     auth_failures (srv_metrics srv') = 1"
proof -
  let ?s = "inc_total (demo_server 0)" and ?sc = "shim_init group_ctx"
  have f: "tight_field (body_text demo_env (hc_body group_ctx)) ''group_id'' 256 = ''org.acme''" by code_simp
  have a: "anonymous demo_env (sc_ri ?sc) ?s"
    by (simp add: anonymous_def extract_bearer_jwt_def group_ctx_def shim_init_def common_headers_def grid_get_header_def)
       (simp add: demo_server_def counters)
  obtain srv' where h: "handle_admin_groups demo_env ?sc (demo_server 0) = Some (Send_json 401 (error_json ''Valid Bearer JWT required''), srv')"
    and m: "auth_failures (srv_metrics srv') = 1"
    using a by (simp add: handle_admin_groups_def Let_def group_request group_put_def f anonymous_def require_auth_v2_def)
       (simp add: audit_log_def counters demo_server_def Let_def)
  have short: "length (error_json ''Valid Bearer JWT required'') \<le> 16000" by (simp add: error_json_def quote_def nl_def)
  obtain sc' where sent: "send (Send_json 401 (error_json ''Valid Bearer JWT required'')) ?sc = Some sc'"
    using send_json_fits [of "error_json ''Valid Bearer JWT required''" 401 ?sc] short by auto
  have route: "best_route ''/admin/groups'' (cookbook_routes True) None 0 = Some \<lparr>route_pattern = ''/admin/groups'', route_handler = 20\<rparr>"
    by (simp add: cookbook_routes_eq route_indices_def handler_table_def has_prefix_def upt_rec)
  have "run_handler demo_env 20 ?sc (demo_server 0) = Some (sc', srv')"
    using h sent by (simp add: run_handler_def handler_table_def)
  with m show ?thesis unfolding serve_def generic_handler_def by (simp add: group_ctx_def) (simp add: route group_ctx_def)
qed

theorem unauthenticated_changes_nothing_witness:
  "\<exists>ctx' srv'. serve demo_env (cookbook_routes True) group_ctx (demo_server 0) = Some (ctx', srv') \<and>
     auth_failures (srv_metrics srv') = 1 \<and> db_groups (srv_db srv') = []"
proof -
  obtain ctx' srv' where s: "serve demo_env (cookbook_routes True) group_ctx (demo_server 0) = Some (ctx', srv')"
    "auth_failures (srv_metrics srv') = 1" using group_refused by (elim exE conjE)
  have "srv_has_registry_key (demo_server 0)" by (simp add: demo_server_def)
  then have "db_groups (srv_db srv') = db_groups (srv_db (demo_server 0))"
    using unauthenticated_changes_nothing [OF s(1)]
    by (simp add: extract_bearer_jwt_def group_ctx_def shim_init_def common_headers_def grid_get_header_def has_prefix_def)
  with s show ?thesis by (auto simp: demo_server_def db_empty_def)
qed

end
