(* ===== verification/Sha512.thy ===== *)
theory Sha512
  imports Streaming
begin

unbundle bit_operations_syntax

text \<open>
  SHA-512 as \<^verbatim>\<open>src/src/main/c/cookbook_ed25519.c\<close> has it for the signatures: the same streaming interface
  as SHA-256, on blocks of 128 bytes and words of 64 bits. The reference is FIPS 180-4 with its length field
  of 128 bits; the code keeps 64 bits of the length and writes zeros before them.
\<close>

section \<open>The compression function\<close>

definition K512 :: "u64 list" where
  "K512 = concat [
    [0x428a2f98d728ae22, 0x7137449123ef65cd],
    [0xb5c0fbcfec4d3b2f, 0xe9b5dba58189dbbc],
    [0x3956c25bf348b538, 0x59f111f1b605d019],
    [0x923f82a4af194f9b, 0xab1c5ed5da6d8118],
    [0xd807aa98a3030242, 0x12835b0145706fbe],
    [0x243185be4ee4b28c, 0x550c7dc3d5ffb4e2],
    [0x72be5d74f27b896f, 0x80deb1fe3b1696b1],
    [0x9bdc06a725c71235, 0xc19bf174cf692694],
    [0xe49b69c19ef14ad2, 0xefbe4786384f25e3],
    [0x0fc19dc68b8cd5b5, 0x240ca1cc77ac9c65],
    [0x2de92c6f592b0275, 0x4a7484aa6ea6e483],
    [0x5cb0a9dcbd41fbd4, 0x76f988da831153b5],
    [0x983e5152ee66dfab, 0xa831c66d2db43210],
    [0xb00327c898fb213f, 0xbf597fc7beef0ee4],
    [0xc6e00bf33da88fc2, 0xd5a79147930aa725],
    [0x06ca6351e003826f, 0x142929670a0e6e70],
    [0x27b70a8546d22ffc, 0x2e1b21385c26c926],
    [0x4d2c6dfc5ac42aed, 0x53380d139d95b3df],
    [0x650a73548baf63de, 0x766a0abb3c77b2a8],
    [0x81c2c92e47edaee6, 0x92722c851482353b],
    [0xa2bfe8a14cf10364, 0xa81a664bbc423001],
    [0xc24b8b70d0f89791, 0xc76c51a30654be30],
    [0xd192e819d6ef5218, 0xd69906245565a910],
    [0xf40e35855771202a, 0x106aa07032bbd1b8],
    [0x19a4c116b8d2d0c8, 0x1e376c085141ab53],
    [0x2748774cdf8eeb99, 0x34b0bcb5e19b48a8],
    [0x391c0cb3c5c95a63, 0x4ed8aa4ae3418acb],
    [0x5b9cca4f7763e373, 0x682e6ff3d6b2b8a3],
    [0x748f82ee5defb2fc, 0x78a5636f43172f60],
    [0x84c87814a1f0ab72, 0x8cc702081a6439ec],
    [0x90befffa23631e28, 0xa4506cebde82bde9],
    [0xbef9a3f7b2c67915, 0xc67178f2e372532b],
    [0xca273eceea26619c, 0xd186b8c721c0c207],
    [0xeada7dd6cde0eb1e, 0xf57d4f7fee6ed178],
    [0x06f067aa72176fba, 0x0a637dc5a2c898a6],
    [0x113f9804bef90dae, 0x1b710b35131c471b],
    [0x28db77f523047d84, 0x32caab7b40c72493],
    [0x3c9ebe0a15c9bebc, 0x431d67c49c100d4c],
    [0x4cc5d4becb3e42b6, 0x597f299cfc657e2a],
    [0x5fcb6fab3ad6faec, 0x6c44198c4a475817]]"

definition ROR64 :: "u64 \<Rightarrow> nat \<Rightarrow> u64" where
  "ROR64 x n = drop_bit n x OR push_bit (64 - n) x"

definition CH64 :: "u64 \<Rightarrow> u64 \<Rightarrow> u64 \<Rightarrow> u64" where
  "CH64 x y z = (x AND y) XOR (NOT x AND z)"

definition MAJ64 :: "u64 \<Rightarrow> u64 \<Rightarrow> u64 \<Rightarrow> u64" where
  "MAJ64 x y z = (x AND y) XOR (x AND z) XOR (y AND z)"

definition BSIG0 :: "u64 \<Rightarrow> u64" where
  "BSIG0 x = ROR64 x 28 XOR ROR64 x 34 XOR ROR64 x 39"

definition BSIG1 :: "u64 \<Rightarrow> u64" where
  "BSIG1 x = ROR64 x 14 XOR ROR64 x 18 XOR ROR64 x 41"

definition SSIG0 :: "u64 \<Rightarrow> u64" where
  "SSIG0 x = ROR64 x 1 XOR ROR64 x 8 XOR drop_bit 7 x"

definition SSIG1 :: "u64 \<Rightarrow> u64" where
  "SSIG1 x = ROR64 x 19 XOR ROR64 x 61 XOR drop_bit 6 x"

definition be64 :: "byte list \<Rightarrow> u64" where
  "be64 b = push_bit 56 (ucast (b ! 0)) OR push_bit 48 (ucast (b ! 1)) OR push_bit 40 (ucast (b ! 2)) OR
     push_bit 32 (ucast (b ! 3)) OR push_bit 24 (ucast (b ! 4)) OR push_bit 16 (ucast (b ! 5)) OR
     push_bit 8 (ucast (b ! 6)) OR ucast (b ! 7)"

definition schedule512_step :: "u64 list \<Rightarrow> nat \<Rightarrow> u64 list" where
  "schedule512_step w i = w @ [SSIG1 (w ! (i - 2)) + w ! (i - 7) + SSIG0 (w ! (i - 15)) + w ! (i - 16)]"

definition schedule512 :: "byte list \<Rightarrow> u64 list" where
  "schedule512 blk = foldl schedule512_step (map (\<lambda>i. be64 (drop (i * 8) blk)) [0..<16]) [16..<80]"

type_synonym chain512 = "u64 \<times> u64 \<times> u64 \<times> u64 \<times> u64 \<times> u64 \<times> u64 \<times> u64"

fun sha512_round :: "u64 list \<Rightarrow> chain512 \<Rightarrow> nat \<Rightarrow> chain512" where
  "sha512_round w (a, b, c, d, e, f, g, h) i =
     (let t1 = h + BSIG1 e + CH64 e f g + K512 ! i + w ! i; t2 = BSIG0 a + MAJ64 a b c
      in (t1 + t2, a, b, c, d + t1, e, f, g))"

fun chain512_add :: "chain512 \<Rightarrow> chain512 \<Rightarrow> chain512" where
  "chain512_add (a, b, c, d, e, f, g, h) (a', b', c', d', e', f', g', h') =
     (a + a', b + b', c + c', d + d', e + e', f + f', g + g', h + h')"

definition sha512_transform :: "chain512 \<Rightarrow> byte list \<Rightarrow> chain512" where
  "sha512_transform st blk = chain512_add st (foldl (sha512_round (schedule512 blk)) st [0..<80])"

section \<open>The incremental interface\<close>

record sha512_ctx =
  state512 :: chain512
  count512 :: u64
  buf512 :: "byte list"

text \<open>The buffer of a local context starts out uninitialised; \<open>b\<close> stands for it.\<close>

definition sha512_init :: "byte list \<Rightarrow> sha512_ctx" where
  "sha512_init b =
     \<lparr>state512 = (0x6a09e667f3bcc908, 0xbb67ae8584caa73b, 0x3c6ef372fe94f82b, 0xa54ff53a5f1d36f1,
                  0x510e527fade682d1, 0x9b05688c2b3e6c1f, 0x1f83d9abfb41bd6b, 0x5be0cd19137e2179),
      count512 = 0, buf512 = b\<rparr>"

definition sha512_update :: "sha512_ctx \<Rightarrow> byte list \<Rightarrow> sha512_ctx" where
  "sha512_update ctx p =
     (let buffered = unat (count512 ctx AND 127);
          n = count512 ctx + of_nat (length p);
          (st, b, p, buffered) =
            (if buffered \<noteq> 0 \<and> buffered + length p \<ge> 128 then
               (let fill = 128 - buffered; b = memcpy_at (buf512 ctx) buffered (take fill p)
                in (sha512_transform (state512 ctx) b, b, drop fill p, 0))
             else (state512 ctx, buf512 ctx, p, buffered));
          (st, r) = block_loop 128 sha512_transform st p
      in \<lparr>state512 = st, count512 = n, buf512 = (if length r > 0 then memcpy_at b buffered r else b)\<rparr>)"

definition word64_bytes :: "u64 \<Rightarrow> byte list" where
  "word64_bytes x = map (\<lambda>i. ucast (drop_bit (56 - 8 * i) x)) [0..<8]"

fun chain512_bytes :: "chain512 \<Rightarrow> byte list" where
  "chain512_bytes (a, b, c, d, e, f, g, h) = concat (map word64_bytes [a, b, c, d, e, f, g, h])"

definition sha512_final :: "sha512_ctx \<Rightarrow> byte list" where
  "sha512_final ctx =
     (let bits = count512 ctx * 8;
          buffered = unat (count512 ctx AND 127);
          b = memcpy_at (buf512 ctx) buffered [0x80];
          buffered = buffered + 1;
          (st, b, buffered) =
            (if buffered > 112 then
               (let b = memcpy_at b buffered (replicate (128 - buffered) 0)
                in (sha512_transform (state512 ctx) b, b, 0))
             else (state512 ctx, b, buffered));
          b = memcpy_at b buffered (replicate (112 - buffered) 0);
          b = memcpy_at b 112 (replicate 8 0);
          b = memcpy_at b 120 (length_bytes bits)
      in chain512_bytes (sha512_transform st b))"

definition sha512 :: "byte list \<Rightarrow> byte list \<Rightarrow> byte list" where
  "sha512 junk data = sha512_final (sha512_update (sha512_init junk) data)"

section \<open>Reference\<close>

definition sha512_iv :: chain512 where
  "sha512_iv = state512 (sha512_init [])"

text \<open>The length in bits as a number of 128 bits, most significant byte first.\<close>

definition length_field :: "nat \<Rightarrow> byte list" where
  "length_field l = map (\<lambda>i. of_nat (l * 8 div 2 ^ (120 - 8 * i))) [0..<16]"

definition sha512_spec :: "byte list \<Rightarrow> byte list" where
  "sha512_spec m = chain512_bytes (foldl sha512_transform sha512_iv (blocks 128 (pad 128 (length_field (length m)) m)))"

interpretation sha512: block_hash 128 7 sha512_transform sha512_iv
  by unfold_locales simp_all

definition represents512 :: "sha512_ctx \<Rightarrow> byte list \<Rightarrow> bool" where
  "represents512 ctx m \<longleftrightarrow> sha512.rep (state512 ctx) (count512 ctx) (buf512 ctx) m"

lemma mask_127: "(127 :: u64) = mask 7"
  by (simp add: mask_eq_exp_minus_1)

lemma init_represents512: "length b = 128 \<Longrightarrow> represents512 (sha512_init b) []"
  using sha512.rep_init by (simp add: represents512_def sha512_init_def sha512_iv_def)

lemma update_represents512:
  assumes "represents512 ctx m"
  shows "represents512 (sha512_update ctx p) (m @ p)"
proof -
  let ?i = "unat (count512 ctx AND mask 7)"
  note r = assms [unfolded represents512_def]
  consider "?i = 0" | "?i \<noteq> 0" "?i + length p < 128" | "?i \<noteq> 0" "128 - ?i \<le> length p" by linarith
  then show ?thesis
  proof cases
    case 1
    obtain st' e where l: "block_loop 128 sha512_transform (state512 ctx) p = (st', e)" by fastforce
    show ?thesis
      using r
    proof (cases rule: sha512.repE)
      case (1 q t)
      then have "t = []" using \<open>?i = 0\<close> by simp
      then show ?thesis
        using 1 \<open>?i = 0\<close> l sha512.rep_blocks [OF 1(2,4) _ 1(6) l, of "count512 ctx + of_nat (length p)"]
        by (simp add: represents512_def sha512_update_def mask_127)
    qed
  next
    case 2
    have "block_loop 128 sha512_transform (state512 ctx) p = (state512 ctx, p)" using 2 by (subst block_loop.simps) simp
    moreover have "memcpy_at (buf512 ctx) ?i [] = buf512 ctx" by (simp add: memcpy_at_def)
    ultimately show ?thesis
      using sha512.rep_short [OF r, of p] 2 by (cases p) (simp_all add: represents512_def sha512_update_def mask_127 Let_def)
  next
    case 3
    let ?b = "memcpy_at (buf512 ctx) ?i (take (128 - ?i) p)"
    obtain st' e where l: "block_loop 128 sha512_transform (sha512_transform (state512 ctx) ?b) (drop (128 - ?i) p) = (st', e)" by fastforce
    have "128 \<le> ?i + length p" using 3(2) by simp
    then show ?thesis
      using sha512.rep_fill [OF r refl 3(2) refl l] 3 l by (simp add: represents512_def sha512_update_def mask_127 Let_def)
  qed
qed

lemma length_length_field [simp]: "length (length_field l) = 16"
  by (simp add: length_field_def)

lemma ucast_drop_bit: "x < 2 ^ 64 \<Longrightarrow> (ucast (drop_bit j (of_nat x :: u64)) :: byte) = of_nat (x div 2 ^ j)"
  by (subst of_nat_unat [symmetric], subst unat_drop_bit_eq) (simp add: drop_bit_eq_div unat_of_nat)

lemma length_field_short:
  assumes "l < 2 ^ 61"
  shows "length_field l = replicate 8 0 @ length_bytes (of_nat l * 8)"
proof -
  have l: "of_nat l * 8 = (of_nat (l * 8) :: u64)" "l * 8 < 2 ^ 64" using assms by simp_all
  have high: "l * 8 div 2 ^ j = 0" if "64 \<le> j" for j
    using l(2) power_increasing [OF that, of "2 :: nat"] by (intro div_less) simp
  have "length_field l = map (\<lambda>i. of_nat (l * 8 div 2 ^ (120 - 8 * i))) [0..<8] @ map (\<lambda>i. of_nat (l * 8 div 2 ^ (120 - 8 * i))) [8..<16]"
    unfolding length_field_def map_append [symmetric] by (rule arg_cong [where f = "map _"]) (simp add: upt_rec)
  also have "map (\<lambda>i. of_nat (l * 8 div 2 ^ (120 - 8 * i))) [0..<8] = (replicate 8 0 :: byte list)"
    using high by (intro nth_equalityI) simp_all
  also have "map (\<lambda>i. of_nat (l * 8 div 2 ^ (120 - 8 * i))) [8..<16] = length_bytes (of_nat l * 8)"
    unfolding length_bytes_def l(1) by (intro nth_equalityI) (simp_all only: length_map length_upt nth_map nth_upt ucast_drop_bit [OF l(2)], simp_all add: algebra_simps)
  finally show ?thesis .
qed

lemma final_represents512:
  assumes "represents512 ctx m" "length m < 2 ^ 61"
  shows "sha512_final ctx = sha512_spec m"
  using assms(1) unfolding represents512_def
proof (cases rule: sha512.repE)
  case (1 q t)
  let ?lb = "replicate 8 0 @ length_bytes (of_nat (length m) * 8)"
  note pad = sha512.pad_blocks [OF 1(1-3), of ?lb]
  have buf: "buf512 ctx = t @ drop (length t) (buf512 ctx)" using 1(7) by (metis append_take_drop_id)
  show ?thesis
  proof (cases "length t + 1 > 112")
    case True
    have b1: "memcpy_at (memcpy_at (buf512 ctx) (length t) [0x80]) (length t + 1) (replicate (128 - (length t + 1)) 0) =
        t @ [0x80] @ replicate (128 - (length t + 1)) 0"
      using 1(3,4,7) by (simp add: memcpy_at_def)
    have b2: "memcpy_at (memcpy_at (memcpy_at (t @ [0x80] @ replicate (128 - (length t + 1)) 0) 0 (replicate 112 0)) 112 (replicate 8 0))
        120 (length_bytes (of_nat (length m) * 8)) = replicate 112 0 @ ?lb"
      using 1(3,4) True by (simp add: memcpy_at_def)
    show ?thesis
      using 1(5,6,8) True b1 b2 pad
      by (simp add: sha512_final_def sha512_spec_def mask_127 length_field_short [OF assms(2)] Let_def)
  next
    case False
    have suc: "112 - length t = Suc (111 - length t)" using False by simp
    have "memcpy_at (memcpy_at (memcpy_at (memcpy_at (buf512 ctx) (length t) [0x80]) (length t + 1) (replicate (112 - (length t + 1)) 0))
        112 (replicate 8 0)) 120 (length_bytes (of_nat (length m) * 8)) = t @ [0x80] @ replicate (112 - (length t + 1)) 0 @ ?lb"
    proof -
      let ?z = "replicate (112 - (length t + 1)) 0"
      obtain r where r: "buf512 ctx = t @ r" "length r = 128 - length t" using buf 1(4) by (intro that [of "drop (length t) (buf512 ctx)"]) simp_all
      show ?thesis
        using False 1(3) r(2)
        by (simp add: r(1) memcpy_append [of _ t] memcpy_append [of _ "t @ [0x80]", simplified] memcpy_append [of _ "t @ [0x80] @ ?z", simplified]
            memcpy_append [of _ "t @ [0x80] @ ?z @ replicate 8 0", simplified])
    qed
    then show ?thesis
      using 1(5,6,8) False pad
      by (simp add: sha512_final_def sha512_spec_def mask_127 length_field_short [OF assms(2)] Let_def)
  qed
qed

lemma length_concat8: "(\<And>x. x \<in> set xs \<Longrightarrow> length (f x) = 8) \<Longrightarrow> length (concat (map f xs)) = 8 * length xs"
  by (induction xs) auto

lemma length_sha512_spec [simp]: "length (sha512_spec m) = 64"
proof -
  have "length (chain512_bytes st) = 64" for st by (cases st rule: chain512_bytes.cases) (simp add: word64_bytes_def)
  then show ?thesis by (simp add: sha512_spec_def)
qed

section \<open>Properties\<close>



end
