(* ===== verification/Fe25519.thy ===== *)
theory Fe25519
  imports CString
begin

unbundle bit_operations_syntax

text \<open>
  Arithmetic modulo \<open>2\<^sup>2\<^sup>5\<^sup>5 - 19\<close>, the third section of \<^verbatim>\<open>src/src/main/c/cookbook_ed25519.c\<close>. An element is five
  words of 64 bits that stand for the digits of a number in base \<open>2\<^sup>5\<^sup>1\<close>; digits may be larger than the base,
  and the operations rely on bounds for them: \<open>fe_add\<close> and \<open>fe_sub\<close> do not carry, the products do. Each
  operation is proved to compute in the integers modulo the prime when its arguments keep the bounds.
\<close>

section \<open>Elements\<close>

type_synonym fe = "u64 \<times> u64 \<times> u64 \<times> u64 \<times> u64"
type_synonym u128 = "128 word"

definition FE_MASK :: u64 where
  "FE_MASK = 0x7ffffffffffff"

definition load64_le :: "byte list \<Rightarrow> u64" where
  "load64_le s = ucast (s ! 0) OR push_bit 8 (ucast (s ! 1)) OR push_bit 16 (ucast (s ! 2)) OR push_bit 24 (ucast (s ! 3)) OR
     push_bit 32 (ucast (s ! 4)) OR push_bit 40 (ucast (s ! 5)) OR push_bit 48 (ucast (s ! 6)) OR push_bit 56 (ucast (s ! 7))"

definition store64_le :: "u64 \<Rightarrow> byte list" where
  "store64_le v = map (\<lambda>i. ucast (drop_bit (8 * i) v)) [0..<8]"

definition fe_0 :: fe where
  "fe_0 = (0, 0, 0, 0, 0)"

definition fe_1 :: fe where
  "fe_1 = (1, 0, 0, 0, 0)"

fun fe_add :: "fe \<Rightarrow> fe \<Rightarrow> fe" where
  "fe_add (f0, f1, f2, f3, f4) (g0, g1, g2, g3, g4) = (f0 + g0, f1 + g1, f2 + g2, f3 + g3, f4 + g4)"

text \<open>The second argument is reduced first; then twice the prime is added to keep the digits from going below 0.\<close>

fun fe_sub :: "fe \<Rightarrow> fe \<Rightarrow> fe" where
  "fe_sub (f0, f1, f2, f3, f4) (g0, g1, g2, g3, g4) =
     (let g1 = g1 + drop_bit 51 g0; g0 = g0 AND FE_MASK;
          g2 = g2 + drop_bit 51 g1; g1 = g1 AND FE_MASK;
          g3 = g3 + drop_bit 51 g2; g2 = g2 AND FE_MASK;
          g4 = g4 + drop_bit 51 g3; g3 = g3 AND FE_MASK;
          g0 = g0 + 19 * drop_bit 51 g4; g4 = g4 AND FE_MASK
      in (f0 + 0xfffffffffffda - g0, f1 + 0xffffffffffffe - g1, f2 + 0xffffffffffffe - g2,
          f3 + 0xffffffffffffe - g3, f4 + 0xffffffffffffe - g4))"

definition fe_neg :: "fe \<Rightarrow> fe" where
  "fe_neg f = fe_sub fe_0 f"

text \<open>The carries at the end of the products.\<close>

definition fe_reduce :: "u128 \<Rightarrow> u128 \<Rightarrow> u128 \<Rightarrow> u128 \<Rightarrow> u128 \<Rightarrow> fe" where
  "fe_reduce t0 t1 t2 t3 t4 =
     (let t1 = t1 + drop_bit 51 t0; h0 = ucast t0 AND FE_MASK;
          t2 = t2 + drop_bit 51 t1; h1 = ucast t1 AND FE_MASK;
          t3 = t3 + drop_bit 51 t2; h2 = ucast t2 AND FE_MASK;
          t4 = t4 + drop_bit 51 t3; h3 = ucast t3 AND FE_MASK;
          h0 = h0 + ucast (drop_bit 51 t4) * 19;
          h4 = ucast t4 AND FE_MASK;
          h1 = h1 + drop_bit 51 h0; h0 = h0 AND FE_MASK
      in (h0, h1, h2, h3, h4))"

text \<open>A product of two words, in 128 bits.\<close>

definition wide :: "u64 \<Rightarrow> u64 \<Rightarrow> u128" where
  "wide a b = ucast a * ucast b"

fun fe_mul :: "fe \<Rightarrow> fe \<Rightarrow> fe" where
  "fe_mul (f0, f1, f2, f3, f4) (g0, g1, g2, g3, g4) =
     (let g1_19 = 19 * g1; g2_19 = 19 * g2; g3_19 = 19 * g3; g4_19 = 19 * g4
      in fe_reduce
           (wide f0 g0 + wide f1 g4_19 + wide f2 g3_19 + wide f3 g2_19 + wide f4 g1_19)
           (wide f0 g1 + wide f1 g0 + wide f2 g4_19 + wide f3 g3_19 + wide f4 g2_19)
           (wide f0 g2 + wide f1 g1 + wide f2 g0 + wide f3 g4_19 + wide f4 g3_19)
           (wide f0 g3 + wide f1 g2 + wide f2 g1 + wide f3 g0 + wide f4 g4_19)
           (wide f0 g4 + wide f1 g3 + wide f2 g2 + wide f3 g1 + wide f4 g0))"

text \<open>The five sums of a square.\<close>

fun square_sums :: "fe \<Rightarrow> u128 \<times> u128 \<times> u128 \<times> u128 \<times> u128" where
  "square_sums (f0, f1, f2, f3, f4) =
     (let f0_2 = 2 * f0; f1_2 = 2 * f1; f1_38 = 38 * f1; f2_38 = 38 * f2; f3_38 = 38 * f3; f4_19 = 19 * f4
      in (wide f0 f0 + wide f1_38 f4 + wide f2_38 f3,
          wide f0_2 f1 + wide f2_38 f4 + wide (19 * f3) f3,
          wide f0_2 f2 + wide f1 f1 + wide f3_38 f4,
          wide f0_2 f3 + wide f1_2 f2 + wide f4_19 f4,
          wide f0_2 f4 + wide f1_2 f3 + wide f2 f2))"

definition fe_sq :: "fe \<Rightarrow> fe" where
  "fe_sq f = (case square_sums f of (t0, t1, t2, t3, t4) \<Rightarrow> fe_reduce t0 t1 t2 t3 t4)"

definition fe_sq2 :: "fe \<Rightarrow> fe" where
  "fe_sq2 f = (case square_sums f of (t0, t1, t2, t3, t4) \<Rightarrow> fe_reduce (t0 * 2) (t1 * 2) (t2 * 2) (t3 * 2) (t4 * 2))"

definition cmov_limb :: "u64 \<Rightarrow> u64 \<Rightarrow> u64 \<Rightarrow> u64" where
  "cmov_limb msk f g = f XOR (msk AND (f XOR g))"

fun fe_cmov :: "fe \<Rightarrow> fe \<Rightarrow> u32 \<Rightarrow> fe" where
  "fe_cmov (f0, f1, f2, f3, f4) (g0, g1, g2, g3, g4) b =
     (let msk = - (ucast b)
      in (cmov_limb msk f0 g0, cmov_limb msk f1 g1, cmov_limb msk f2 g2, cmov_limb msk f3 g3, cmov_limb msk f4 g4))"

definition fe_frombytes :: "byte list \<Rightarrow> fe" where
  "fe_frombytes s =
     (load64_le s AND FE_MASK, drop_bit 3 (load64_le (drop 6 s)) AND FE_MASK, drop_bit 6 (load64_le (drop 12 s)) AND FE_MASK,
      drop_bit 1 (load64_le (drop 19 s)) AND FE_MASK, drop_bit 12 (load64_le (drop 24 s)) AND FE_MASK)"

text \<open>A round of carries through the digits: the carry out of the last one is returned.\<close>

fun carry_pass :: "fe \<Rightarrow> fe \<times> u64" where
  "carry_pass (t0, t1, t2, t3, t4) =
     (let c = drop_bit 51 t0; t0 = t0 AND FE_MASK; t1 = t1 + c;
          c = drop_bit 51 t1; t1 = t1 AND FE_MASK; t2 = t2 + c;
          c = drop_bit 51 t2; t2 = t2 AND FE_MASK; t3 = t3 + c;
          c = drop_bit 51 t3; t3 = t3 AND FE_MASK; t4 = t4 + c;
          c = drop_bit 51 t4; t4 = t4 AND FE_MASK
      in ((t0, t1, t2, t3, t4), c))"

fun add_low :: "u64 \<Rightarrow> fe \<Rightarrow> fe" where
  "add_low c (t0, t1, t2, t3, t4) = (t0 + c, t1, t2, t3, t4)"

text \<open>Twice a carry is folded back; then 19 is added, and the prime when that did not carry out.\<close>

definition fe_canonical :: "fe \<Rightarrow> fe" where
  "fe_canonical h =
     (let (t, c) = carry_pass h; t = add_low (c * 19) t;
          (t, c) = carry_pass t; t = add_low (c * 19) t;
          (t, c) = carry_pass (add_low 19 t);
          k = 1 - c;
          t = fe_add t (k * (FE_MASK - 18), k * FE_MASK, k * FE_MASK, k * FE_MASK, k * FE_MASK)
      in fst (carry_pass t))"

fun pack :: "fe \<Rightarrow> byte list" where
  "pack (t0, t1, t2, t3, t4) =
     store64_le (t0 OR push_bit 51 t1) @ store64_le (drop_bit 13 t1 OR push_bit 38 t2) @
     store64_le (drop_bit 26 t2 OR push_bit 25 t3) @ store64_le (drop_bit 39 t3 OR push_bit 12 t4)"

definition fe_tobytes :: "fe \<Rightarrow> byte list" where
  "fe_tobytes h = pack (fe_canonical h)"

definition fe_isnegative :: "fe \<Rightarrow> bool" where
  "fe_isnegative f \<longleftrightarrow> fe_tobytes f ! 0 AND 1 = 1"

text \<open>All bytes are gathered in \<open>d\<close>, and \<open>d - 1\<close> borrows exactly when it is 0.\<close>

definition fe_iszero :: "fe \<Rightarrow> bool" where
  "fe_iszero f \<longleftrightarrow> (let d = fold (\<lambda>b d. d OR ucast b) (fe_tobytes f) (0 :: u32) in 1 AND drop_bit 8 (d - 1) = 1)"

text \<open>Repeated squaring: \<open>n\<close> times.\<close>

definition fe_sqn :: "nat \<Rightarrow> fe \<Rightarrow> fe" where
  "fe_sqn n f = (fe_sq ^^ n) f"

definition fe_invert :: "fe \<Rightarrow> fe" where
  "fe_invert z =
     (let t0 = fe_sq z; t1 = fe_sq t0; t1 = fe_sq t1; t1 = fe_mul z t1; t0 = fe_mul t0 t1; t2 = fe_sq t0; t1 = fe_mul t1 t2;
          t2 = fe_sq t1; t2 = fe_sqn 4 t2; t1 = fe_mul t2 t1;
          t2 = fe_sq t1; t2 = fe_sqn 9 t2; t2 = fe_mul t2 t1;
          t3 = fe_sq t2; t3 = fe_sqn 19 t3; t2 = fe_mul t3 t2;
          t2 = fe_sq t2; t2 = fe_sqn 9 t2; t1 = fe_mul t2 t1;
          t2 = fe_sq t1; t2 = fe_sqn 49 t2; t2 = fe_mul t2 t1;
          t3 = fe_sq t2; t3 = fe_sqn 99 t3; t2 = fe_mul t3 t2;
          t2 = fe_sq t2; t2 = fe_sqn 49 t2; t1 = fe_mul t2 t1;
          t1 = fe_sq t1; t1 = fe_sqn 4 t1
      in fe_mul t1 t0)"

definition fe_pow22523 :: "fe \<Rightarrow> fe" where
  "fe_pow22523 z =
     (let t0 = fe_sq z; t1 = fe_sq t0; t1 = fe_sq t1; t1 = fe_mul z t1; t0 = fe_mul t0 t1; t0 = fe_sq t0; t0 = fe_mul t1 t0;
          t1 = fe_sq t0; t1 = fe_sqn 4 t1; t0 = fe_mul t1 t0;
          t1 = fe_sq t0; t1 = fe_sqn 9 t1; t1 = fe_mul t1 t0;
          t2 = fe_sq t1; t2 = fe_sqn 19 t2; t1 = fe_mul t2 t1;
          t1 = fe_sq t1; t1 = fe_sqn 9 t1; t0 = fe_mul t1 t0;
          t1 = fe_sq t0; t1 = fe_sqn 49 t1; t1 = fe_mul t1 t0;
          t2 = fe_sq t1; t2 = fe_sqn 99 t2; t1 = fe_mul t2 t1;
          t1 = fe_sq t1; t1 = fe_sqn 49 t1; t0 = fe_mul t1 t0;
          t0 = fe_sq t0; t0 = fe_sq t0
      in fe_mul t0 z)"

section \<open>What an element stands for\<close>

definition P :: int where
  "P = 2 ^ 255 - 19"

fun fe_val :: "fe \<Rightarrow> int" where
  "fe_val (f0, f1, f2, f3, f4) = uint f0 + uint f1 * 2 ^ 51 + uint f2 * 2 ^ 102 + uint f3 * 2 ^ 153 + uint f4 * 2 ^ 204"

fun below :: "int \<Rightarrow> fe \<Rightarrow> bool" where
  "below b (f0, f1, f2, f3, f4) \<longleftrightarrow> uint f0 < b \<and> uint f1 < b \<and> uint f2 < b \<and> uint f3 < b \<and> uint f4 < b"

lemma below_mono: "below b f \<Longrightarrow> b \<le> c \<Longrightarrow> below c f"
  by (cases f) auto

text \<open>Digits after a product, and digits a product can take.\<close>

abbreviation tight :: "fe \<Rightarrow> bool" where
  "tight \<equiv> below (2 ^ 52)"

abbreviation loose :: "fe \<Rightarrow> bool" where
  "loose \<equiv> below (2 ^ 54)"

lemma tight_loose [simp]: "tight f \<Longrightarrow> loose f"
  by (erule below_mono) simp

section \<open>Words as integers\<close>

lemma uint_mask51 [simp]: "uint (x AND FE_MASK) = uint x mod 2 ^ 51"
proof -
  have "FE_MASK = mask 51" by (simp add: FE_MASK_def mask_eq_exp_minus_1)
  then have m: "x AND FE_MASK = take_bit 51 x" by (simp add: take_bit_eq_mask)
  show ?thesis unfolding m unsigned_take_bit_eq by (rule take_bit_eq_mod)
qed

lemma uint_shift [simp]: "uint (drop_bit n (x :: 'a::len word)) = uint x div 2 ^ n"
  unfolding uint_nat unat_drop_bit_eq by (simp add: drop_bit_eq_div zdiv_int)

lemma uint_low: "uint (ucast (x :: u128) :: u64) = uint x mod 2 ^ 64"
  by (simp add: unsigned_ucast_eq take_bit_eq_mod)

lemma uint_plus: "uint x + uint y < 2 ^ LENGTH('a) \<Longrightarrow> uint (x + y) = uint x + uint (y :: 'a::len word)"
  by (simp add: uint_add_lem)

lemma uint_times: "uint x * uint y < 2 ^ LENGTH('a) \<Longrightarrow> uint (x * y) = uint x * uint (y :: 'a::len word)"
  by (simp add: uint_mult_lem)

lemma uint_minus: "uint y \<le> uint x \<Longrightarrow> uint (x - y) = uint x - uint (y :: 'a::len word)"
  by (simp add: uint_sub_lem)

lemma uint_below: "uint (x :: u64) < 2 ^ 64" "0 \<le> uint x"
  using uint_lt2p [of x] by simp_all

lemma uint_ucast128: "uint (ucast (a :: u64) :: u128) = uint a"
proof -
  have "uint a < 2 ^ 128" using uint_below(1) [of a] by (rule order_less_trans) simp
  then show ?thesis using uint_below(2) [of a] by (simp add: unsigned_ucast_eq take_bit_eq_mod)
qed

lemma uint_wide: "uint (wide a b) = uint a * uint b"
proof -
  have "uint a * uint b < 2 ^ 64 * 2 ^ 64" using uint_below by (intro mult_strict_mono) auto
  then have "uint (ucast a :: u128) * uint (ucast b :: u128) < 2 ^ LENGTH(128)" by (simp add: uint_ucast128)
  from uint_times [OF this] show ?thesis by (simp add: wide_def uint_ucast128)
qed

section \<open>Sums of products and their carries\<close>

lemma carries:
  fixes T0 T1 T2 T3 T4 :: int
  assumes "T1' = T1 + T0 div 2 ^ 51" "T2' = T2 + T1' div 2 ^ 51" "T3' = T3 + T2' div 2 ^ 51" "T4' = T4 + T3' div 2 ^ 51"
    and "h0 = T0 mod 2 ^ 51 + T4' div 2 ^ 51 * 19"
  shows "(h0 mod 2 ^ 51 + (T1' mod 2 ^ 51 + h0 div 2 ^ 51) * 2 ^ 51 + T2' mod 2 ^ 51 * 2 ^ 102 + T3' mod 2 ^ 51 * 2 ^ 153 +
      T4' mod 2 ^ 51 * 2 ^ 204) mod P =
    (T0 + T1 * 2 ^ 51 + T2 * 2 ^ 102 + T3 * 2 ^ 153 + T4 * 2 ^ 204) mod P"
proof -
  have d: "x mod 2 ^ 51 = x - x div 2 ^ 51 * 2 ^ 51" for x :: int by (simp add: minus_div_mult_eq_mod)
  have "h0 mod 2 ^ 51 + (T1' mod 2 ^ 51 + h0 div 2 ^ 51) * 2 ^ 51 + T2' mod 2 ^ 51 * 2 ^ 102 + T3' mod 2 ^ 51 * 2 ^ 153 + T4' mod 2 ^ 51 * 2 ^ 204 =
     (T0 + T1 * 2 ^ 51 + T2 * 2 ^ 102 + T3 * 2 ^ 153 + T4 * 2 ^ 204) + P * - (T4' div 2 ^ 51)"
    unfolding d assms(5) unfolding assms(1-4) P_def by (simp add: algebra_simps)
  then show ?thesis by (simp only: mod_mult_self2)
qed

lemma fe_reduce_val:
  assumes "uint t0 < 2 ^ 115" "uint t1 < 2 ^ 115" "uint t2 < 2 ^ 115" "uint t3 < 2 ^ 115" "uint t4 < 3 * 2 ^ 109"
  shows "fe_val (fe_reduce t0 t1 t2 t3 t4) mod P =
      (uint t0 + uint t1 * 2 ^ 51 + uint t2 * 2 ^ 102 + uint t3 * 2 ^ 153 + uint t4 * 2 ^ 204) mod P"
    and "tight (fe_reduce t0 t1 t2 t3 t4)"
proof -
  define t1' where "t1' = t1 + drop_bit 51 t0"
  define t2' where "t2' = t2 + drop_bit 51 t1'"
  define t3' where "t3' = t3 + drop_bit 51 t2'"
  define t4' where "t4' = t4 + drop_bit 51 t3'"
  have nonneg: "0 \<le> uint t0" "0 \<le> uint t1" "0 \<le> uint t2" "0 \<le> uint t3" "0 \<le> uint t4" by simp_all
  have step: "uint (t + drop_bit 51 t') = uint t + uint t' div 2 ^ 51 \<and> uint (t + drop_bit 51 t') < B + 2 ^ 65"
    if "uint t < B" "B \<le> 2 ^ 115" "uint t' < 2 ^ 116" for t t' :: u128 and B
  proof -
    have "uint t' div 2 ^ 51 < 2 ^ 65" using that(3) by simp
    moreover have "uint (t + drop_bit 51 t') = uint t + uint t' div 2 ^ 51" using calculation that(1,2) by (subst uint_plus) simp_all
    ultimately show ?thesis using that(1) by linarith
  qed
  have s1: "uint t1' = uint t1 + uint t0 div 2 ^ 51" "uint t1' < 2 ^ 115 + 2 ^ 65"
    using step [of t1 "2 ^ 115" t0] assms by (simp_all add: t1'_def)
  have s2: "uint t2' = uint t2 + uint t1' div 2 ^ 51" "uint t2' < 2 ^ 115 + 2 ^ 65"
    using step [of t2 "2 ^ 115" t1'] assms s1(2) by (simp_all add: t2'_def)
  have s3: "uint t3' = uint t3 + uint t2' div 2 ^ 51" "uint t3' < 2 ^ 115 + 2 ^ 65"
    using step [of t3 "2 ^ 115" t2'] assms s2(2) by (simp_all add: t3'_def)
  have s4: "uint t4' = uint t4 + uint t3' div 2 ^ 51" "uint t4' < 3 * 2 ^ 109 + 2 ^ 65"
    using step [of t4 "3 * 2 ^ 109" t3'] assms s3(2) by (simp_all add: t4'_def)
  have top: "uint t4' div 2 ^ 51 < 2 ^ 64" "uint t4' div 2 ^ 51 * 19 < 2 ^ 64 - 2 ^ 51" using s4(2) by simp_all
  define h0 where "h0 = (ucast t0 AND FE_MASK) + ucast (drop_bit 51 t4') * 19"
  have low: "uint (ucast t AND FE_MASK :: u64) = uint t mod 2 ^ 51" for t :: u128
    by (simp add: uint_low mod_mod_cancel)
  have m: "uint (ucast (drop_bit 51 t4') :: u64) = uint t4' div 2 ^ 51"
    unfolding uint_low uint_shift by (intro mod_pos_pos_trivial top(1) div_int_pos_iff [THEN iffD2]) simp
  have q: "uint (ucast (drop_bit 51 t4') * 19 :: u64) = uint t4' div 2 ^ 51 * 19"
    using top by (subst uint_times) (simp_all only: m, simp_all)
  have h0: "uint h0 = uint t0 mod 2 ^ 51 + uint t4' div 2 ^ 51 * 19"
    unfolding h0_def using top(2) pos_mod_bound [of "2 ^ 51" "uint t0"] by (subst uint_plus) (simp_all only: q low, simp_all)
  have h1: "uint ((ucast t1' AND FE_MASK) + drop_bit 51 h0) = uint t1' mod 2 ^ 51 + uint h0 div 2 ^ 51"
    using uint_below(1) [of h0] pos_mod_bound [of "2 ^ 51" "uint t1'"] by (subst uint_plus) (simp_all only: uint_shift low, simp_all)
  have r: "fe_reduce t0 t1 t2 t3 t4 = (h0 AND FE_MASK, (ucast t1' AND FE_MASK) + drop_bit 51 h0, ucast t2' AND FE_MASK, ucast t3' AND FE_MASK,
      ucast t4' AND FE_MASK)"
    by (simp add: fe_reduce_def t1'_def t2'_def t3'_def t4'_def h0_def Let_def)
  show "fe_val (fe_reduce t0 t1 t2 t3 t4) mod P =
      (uint t0 + uint t1 * 2 ^ 51 + uint t2 * 2 ^ 102 + uint t3 * 2 ^ 153 + uint t4 * 2 ^ 204) mod P"
    unfolding r fe_val.simps low h1 unfolding uint_mask51 by (rule carries [OF s1(1) s2(1) s3(1) s4(1) h0])
  have "uint h0 div 2 ^ 51 < 2 ^ 13" using uint_below(1) [of h0] by simp
  moreover have m: "x mod 2 ^ 51 < 2 ^ 51" for x :: int by simp
  moreover have "x mod 2 ^ 51 < 2 ^ 52" for x :: int using m [of x] by (rule order_less_trans) simp
  ultimately show "tight (fe_reduce t0 t1 t2 t3 t4)"
    unfolding r below.simps low h1 uint_mask51 using m [of "uint t1'"] by simp
qed

lemma product_below: "uint a < A \<Longrightarrow> uint b < B \<Longrightarrow> uint (wide a b) < A * B"
  using order_le_less_trans [OF uint_below(2), of a A] unfolding uint_wide by (intro mult_strict_mono) simp_all

lemma uint_sum5:
  fixes a b c d e :: u128
  assumes "uint a < A" "uint b < B" "uint c < C" "uint d < D" "uint e < E" "A + B + C + D + E \<le> 2 ^ 128"
  shows "uint (a + b + c + d + e) = uint a + uint b + uint c + uint d + uint e"
    and "uint (a + b + c + d + e) < A + B + C + D + E"
proof -
  have n: "0 < C" "0 < D" "0 < E" using assms(3-5) uint_nonnegative order_le_less_trans by blast+
  have "uint (a + b) = uint a + uint b" using assms n by (intro uint_plus) simp
  moreover have "uint (a + b + c) = uint (a + b) + uint c" using assms n calculation by (intro uint_plus) simp
  moreover have "uint (a + b + c + d) = uint (a + b + c) + uint d" using assms n calculation by (intro uint_plus) simp
  moreover have "uint (a + b + c + d + e) = uint (a + b + c + d) + uint e" using assms n calculation by (intro uint_plus) simp
  ultimately show "uint (a + b + c + d + e) = uint a + uint b + uint c + uint d + uint e" by simp
  then show "uint (a + b + c + d + e) < A + B + C + D + E" using assms(1-5) by simp
qed

lemma uint_scale:
  assumes "uint (f :: u64) < 2 ^ 54" "0 \<le> uint k" "uint k \<le> 38"
  shows "uint (k * f) = uint k * uint f" "uint (k * f) < uint k * 2 ^ 54 + 1"
proof -
  have "uint k * uint f \<le> uint k * 2 ^ 54" using assms by (intro mult_left_mono) simp_all
  moreover have "uint k * 2 ^ 54 \<le> 38 * 2 ^ 54" using assms(3) by (intro mult_right_mono) simp_all
  ultimately show "uint (k * f) = uint k * uint f" "uint (k * f) < uint k * 2 ^ 54 + 1"
    by (subst uint_times; simp)+
qed

text \<open>The product of five digits by five digits, modulo the prime.\<close>

lemma product_digits:
  fixes B :: int
  assumes "B ^ 5 = P + 19"
  shows "((f0 * g0 + f1 * (19 * g4) + f2 * (19 * g3) + f3 * (19 * g2) + f4 * (19 * g1)) +
      (f0 * g1 + f1 * g0 + f2 * (19 * g4) + f3 * (19 * g3) + f4 * (19 * g2)) * B +
      (f0 * g2 + f1 * g1 + f2 * g0 + f3 * (19 * g4) + f4 * (19 * g3)) * B ^ 2 +
      (f0 * g3 + f1 * g2 + f2 * g1 + f3 * g0 + f4 * (19 * g4)) * B ^ 3 +
      (f0 * g4 + f1 * g3 + f2 * g2 + f3 * g1 + f4 * g0) * B ^ 4) mod P =
    ((f0 + f1 * B + f2 * B ^ 2 + f3 * B ^ 3 + f4 * B ^ 4) * (g0 + g1 * B + g2 * B ^ 2 + g3 * B ^ 3 + g4 * B ^ 4)) mod P"
    (is "?l mod P = ?r mod P")
proof -
  let ?q = "(f1 * g4 + f2 * g3 + f3 * g2 + f4 * g1) + (f2 * g4 + f3 * g3 + f4 * g2) * B + (f3 * g4 + f4 * g3) * B ^ 2 + f4 * g4 * B ^ 3"
  have "?r = ?l + (B ^ 5 - 19) * ?q" by (simp add: algebra_simps power_numeral_reduce)
  also have "B ^ 5 - 19 = P" using assms by simp
  finally show ?thesis by (simp only: mod_mult_self2)
qed

lemma base5: "(2 ^ 51) ^ 5 = P + 19"
  by (simp add: P_def)

lemma fe_val_base: "fe_val (f0, f1, f2, f3, f4) =
    uint f0 + uint f1 * 2 ^ 51 + uint f2 * (2 ^ 51) ^ 2 + uint f3 * (2 ^ 51) ^ 3 + uint f4 * (2 ^ 51) ^ 4"
  by simp

text \<open>Five products of digits, one factor of each perhaps times 19 or 38.\<close>

lemma sum5_wide:
  assumes "uint a0 < 2 ^ 54" "uint a1 < 2 ^ 54" "uint a2 < 2 ^ 54" "uint a3 < 2 ^ 54" "uint a4 < 2 ^ 54"
    and "uint b0 < K" "uint b1 < K" "uint b2 < K" "uint b3 < K" "uint b4 < K" "K \<le> 20 * 2 ^ 54"
  shows "uint (wide a0 b0 + wide a1 b1 + wide a2 b2 + wide a3 b3 + wide a4 b4) =
      uint a0 * uint b0 + uint a1 * uint b1 + uint a2 * uint b2 + uint a3 * uint b3 + uint a4 * uint b4"
    and "uint (wide a0 b0 + wide a1 b1 + wide a2 b2 + wide a3 b3 + wide a4 b4) < 5 * 2 ^ 54 * K"
  using uint_sum5 [OF product_below [OF assms(1,6)] product_below [OF assms(2,7)] product_below [OF assms(3,8)]
      product_below [OF assms(4,9)] product_below [OF assms(5,10)]] assms(11)
  by (simp_all add: uint_wide)

lemma fe_mul_ok:
  assumes "loose f" "loose g"
  shows "fe_val (fe_mul f g) mod P = fe_val f * fe_val g mod P" and "tight (fe_mul f g)"
proof -
  obtain f0 f1 f2 f3 f4 where f: "f = (f0, f1, f2, f3, f4)" by (cases f)
  obtain g0 g1 g2 g3 g4 where g: "g = (g0, g1, g2, g3, g4)" by (cases g)
  have F: "uint f0 < 2 ^ 54" "uint f1 < 2 ^ 54" "uint f2 < 2 ^ 54" "uint f3 < 2 ^ 54" "uint f4 < 2 ^ 54"
    using assms(1) by (simp_all add: f)
  have G: "uint g0 < 2 ^ 54" "uint g1 < 2 ^ 54" "uint g2 < 2 ^ 54" "uint g3 < 2 ^ 54" "uint g4 < 2 ^ 54"
    using assms(2) by (simp_all add: g)
  have S: "uint (19 * x) = 19 * uint x \<and> uint (19 * x) < 20 * 2 ^ 54" if "uint (x :: u64) < 2 ^ 54" for x
    using uint_scale [of x 19] that by simp
  have G': "uint g0 < 20 * 2 ^ 54" "uint g1 < 20 * 2 ^ 54" "uint g2 < 20 * 2 ^ 54" "uint g3 < 20 * 2 ^ 54" using G by simp_all
  note S1 = S [OF G(2)] and S2 = S [OF G(3)] and S3 = S [OF G(4)] and S4 = S [OF G(5)]
  note t0 = sum5_wide [OF F G'(1) S4 [THEN conjunct2] S3 [THEN conjunct2] S2 [THEN conjunct2] S1 [THEN conjunct2] order_refl]
  note t1 = sum5_wide [OF F G'(2) G'(1) S4 [THEN conjunct2] S3 [THEN conjunct2] S2 [THEN conjunct2] order_refl]
  note t2 = sum5_wide [OF F G'(3) G'(2) G'(1) S4 [THEN conjunct2] S3 [THEN conjunct2] order_refl]
  note t3 = sum5_wide [OF F G'(4) G'(3) G'(2) G'(1) S4 [THEN conjunct2] order_refl]
  have t4: "uint (wide f0 g4 + wide f1 g3 + wide f2 g2 + wide f3 g1 + wide f4 g0) =
      uint f0 * uint g4 + uint f1 * uint g3 + uint f2 * uint g2 + uint f3 * uint g1 + uint f4 * uint g0"
    "uint (wide f0 g4 + wide f1 g3 + wide f2 g2 + wide f3 g1 + wide f4 g0) < 5 * 2 ^ 54 * 2 ^ 54"
    using sum5_wide [OF F G(5) G(4) G(3) G(2) G(1)] by simp_all
  have cap: "5 * 2 ^ 54 * (20 * 2 ^ 54) < (2 :: int) ^ 115" "5 * 2 ^ 54 * 2 ^ 54 < 3 * (2 :: int) ^ 109" by simp_all
  note r = fe_reduce_val [OF order_less_trans [OF t0(2) cap(1)] order_less_trans [OF t1(2) cap(1)] order_less_trans [OF t2(2) cap(1)]
      order_less_trans [OF t3(2) cap(1)] order_less_trans [OF t4(2) cap(2)]]
  have h: "fe_mul f g = fe_reduce (wide f0 g0 + wide f1 (19 * g4) + wide f2 (19 * g3) + wide f3 (19 * g2) + wide f4 (19 * g1))
     (wide f0 g1 + wide f1 g0 + wide f2 (19 * g4) + wide f3 (19 * g3) + wide f4 (19 * g2))
     (wide f0 g2 + wide f1 g1 + wide f2 g0 + wide f3 (19 * g4) + wide f4 (19 * g3))
     (wide f0 g3 + wide f1 g2 + wide f2 g1 + wide f3 g0 + wide f4 (19 * g4))
     (wide f0 g4 + wide f1 g3 + wide f2 g2 + wide f3 g1 + wide f4 g0)"
    unfolding f g fe_mul.simps Let_def by (rule refl)
  show "tight (fe_mul f g)" unfolding h by (rule r(2))
  have pw: "(2 :: int) ^ 102 = (2 ^ 51) ^ 2" "(2 :: int) ^ 153 = (2 ^ 51) ^ 3" "(2 :: int) ^ 204 = (2 ^ 51) ^ 4" by simp_all
  show "fe_val (fe_mul f g) mod P = fe_val f * fe_val g mod P"
    unfolding h r(1) t0(1) t1(1) t2(1) t3(1) t4(1) S1 [THEN conjunct1] S2 [THEN conjunct1] S3 [THEN conjunct1] S4 [THEN conjunct1]
    unfolding f g fe_val.simps pw by (rule product_digits [OF base5])
qed

lemma wide_scaled:
  assumes "uint f < b" "uint g < b" "b \<le> 2 ^ 54" "uint k \<le> 38"
  shows "uint (wide (k * f) g) = uint k * (uint f * uint g)" "uint (wide (k * f) g) \<le> uint k * (b * b)"
proof -
  have "uint (k * f) = uint k * uint f" using assms by (intro uint_scale) simp_all
  then show e: "uint (wide (k * f) g) = uint k * (uint f * uint g)" by (simp add: uint_wide)
  have "0 \<le> b" using order_le_less_trans [OF uint_below(2) assms(1)] by simp
  then have "uint f * uint g \<le> b * b" using assms(1,2) by (intro mult_mono) simp_all
  then show "uint (wide (k * f) g) \<le> uint k * (b * b)" unfolding e by (intro mult_left_mono) simp_all
qed

lemma uint_sum3:
  fixes x y z :: u128
  assumes "uint x \<le> 38 * c" "uint y \<le> 38 * c" "uint z \<le> 38 * c" "c \<le> 2 ^ 108"
  shows "uint (x + y + z) = uint x + uint y + uint z"
proof -
  have "uint (x + y) = uint x + uint y" using assms by (intro uint_plus) simp
  moreover have "uint (x + y + z) = uint (x + y) + uint z" using assms calculation by (intro uint_plus) simp
  ultimately show ?thesis by simp
qed

lemma square_sums_ok:
  assumes "below b (f0, f1, f2, f3, f4)" "b \<le> 2 ^ 54" "square_sums (f0, f1, f2, f3, f4) = (t0, t1, t2, t3, t4)"
  shows "uint t0 = uint f0 * uint f0 + 38 * (uint f1 * uint f4) + 38 * (uint f2 * uint f3)"
    and "uint t1 = 2 * (uint f0 * uint f1) + 38 * (uint f2 * uint f4) + 19 * (uint f3 * uint f3)"
    and "uint t2 = 2 * (uint f0 * uint f2) + uint f1 * uint f1 + 38 * (uint f3 * uint f4)"
    and "uint t3 = 2 * (uint f0 * uint f3) + 2 * (uint f1 * uint f2) + 19 * (uint f4 * uint f4)"
    and "uint t4 = 2 * (uint f0 * uint f4) + 2 * (uint f1 * uint f3) + uint f2 * uint f2"
    and "uint t0 \<le> 77 * (b * b)" "uint t1 \<le> 77 * (b * b)" "uint t2 \<le> 77 * (b * b)" "uint t3 \<le> 77 * (b * b)" "uint t4 \<le> 5 * (b * b)"
proof -
  have F: "uint f0 < b" "uint f1 < b" "uint f2 < b" "uint f3 < b" "uint f4 < b" using assms(1) by simp_all
  have b: "0 \<le> b" using F(1) order_le_less_trans [OF uint_below(2)] by (intro order_less_imp_le)
  have c: "b * b \<le> 2 ^ 108" using mult_mono [OF assms(2,2) _ b] by simp
  have cn: "0 \<le> b * b" using b by simp
  have k: "uint (2 :: u64) = 2" "uint (19 :: u64) = 19" "uint (38 :: u64) = 38" by simp_all
  have w2: "uint (wide (2 * x) y) = 2 * (uint x * uint y) \<and> uint (wide (2 * x) y) \<le> 2 * (b * b)" if "uint x < b" "uint y < b" for x y
    using wide_scaled [OF that assms(2), of 2] by simp
  have w19: "uint (wide (19 * x) y) = 19 * (uint x * uint y) \<and> uint (wide (19 * x) y) \<le> 19 * (b * b)" if "uint x < b" "uint y < b" for x y
    using wide_scaled [OF that assms(2), of 19] by simp
  have w38: "uint (wide (38 * x) y) = 38 * (uint x * uint y) \<and> uint (wide (38 * x) y) \<le> 38 * (b * b)" if "uint x < b" "uint y < b" for x y
    using wide_scaled [OF that assms(2), of 38] by simp
  have w1: "uint (wide x y) = uint x * uint y \<and> uint (wide x y) \<le> b * b" if "uint x < b" "uint y < b" for x y
    using wide_scaled [OF that assms(2), of 1] by simp
  have t: "t0 = wide f0 f0 + wide (38 * f1) f4 + wide (38 * f2) f3" "t1 = wide (2 * f0) f1 + wide (38 * f2) f4 + wide (19 * f3) f3"
    "t2 = wide (2 * f0) f2 + wide f1 f1 + wide (38 * f3) f4" "t3 = wide (2 * f0) f3 + wide (2 * f1) f2 + wide (19 * f4) f4"
    "t4 = wide (2 * f0) f4 + wide (2 * f1) f3 + wide f2 f2"
    using assms(3) by (simp_all only: square_sums.simps Let_def prod.inject)
  have s: "uint (x + y + z) = uint x + uint y + uint z" if "uint x \<le> 38 * (b * b)" "uint y \<le> 38 * (b * b)" "uint z \<le> 38 * (b * b)" for x y z :: u128
    using that c by (rule uint_sum3)
  note w = w1 [OF F(1,1)] w38 [OF F(2,5)] w38 [OF F(3,4)] w2 [OF F(1,2)] w38 [OF F(3,5)] w19 [OF F(4,4)] w2 [OF F(1,3)] w1 [OF F(2,2)]
    w38 [OF F(4,5)] w2 [OF F(1,4)] w2 [OF F(2,3)] w19 [OF F(5,5)] w2 [OF F(1,5)] w2 [OF F(2,4)] w1 [OF F(3,3)]
  have e0: "uint t0 = uint (wide f0 f0) + uint (wide (38 * f1) f4) + uint (wide (38 * f2) f3)" unfolding t using w cn by (intro s) linarith+
  have e1: "uint t1 = uint (wide (2 * f0) f1) + uint (wide (38 * f2) f4) + uint (wide (19 * f3) f3)" unfolding t using w cn by (intro s) linarith+
  have e2: "uint t2 = uint (wide (2 * f0) f2) + uint (wide f1 f1) + uint (wide (38 * f3) f4)" unfolding t using w cn by (intro s) linarith+
  have e3: "uint t3 = uint (wide (2 * f0) f3) + uint (wide (2 * f1) f2) + uint (wide (19 * f4) f4)" unfolding t using w cn by (intro s) linarith+
  have e4: "uint t4 = uint (wide (2 * f0) f4) + uint (wide (2 * f1) f3) + uint (wide f2 f2)" unfolding t using w cn by (intro s) linarith+
  show "uint t0 = uint f0 * uint f0 + 38 * (uint f1 * uint f4) + 38 * (uint f2 * uint f3)" using e0 w by simp
  show "uint t1 = 2 * (uint f0 * uint f1) + 38 * (uint f2 * uint f4) + 19 * (uint f3 * uint f3)" using e1 w by simp
  show "uint t2 = 2 * (uint f0 * uint f2) + uint f1 * uint f1 + 38 * (uint f3 * uint f4)" using e2 w by simp
  show "uint t3 = 2 * (uint f0 * uint f3) + 2 * (uint f1 * uint f2) + 19 * (uint f4 * uint f4)" using e3 w by simp
  show "uint t4 = 2 * (uint f0 * uint f4) + 2 * (uint f1 * uint f3) + uint f2 * uint f2" using e4 w by simp
  show "uint t0 \<le> 77 * (b * b)" "uint t1 \<le> 77 * (b * b)" "uint t2 \<le> 77 * (b * b)" "uint t3 \<le> 77 * (b * b)" "uint t4 \<le> 5 * (b * b)"
    using e0 e1 e2 e3 e4 w cn by linarith+
qed

text \<open>The digits of a square are those of the product.\<close>

lemma square_digits:
  fixes B :: int
  assumes "B ^ 5 = P + 19"
  shows "((f0 * f0 + 38 * (f1 * f4) + 38 * (f2 * f3)) + (2 * (f0 * f1) + 38 * (f2 * f4) + 19 * (f3 * f3)) * B +
      (2 * (f0 * f2) + f1 * f1 + 38 * (f3 * f4)) * B ^ 2 + (2 * (f0 * f3) + 2 * (f1 * f2) + 19 * (f4 * f4)) * B ^ 3 +
      (2 * (f0 * f4) + 2 * (f1 * f3) + f2 * f2) * B ^ 4) mod P =
    ((f0 + f1 * B + f2 * B ^ 2 + f3 * B ^ 3 + f4 * B ^ 4) * (f0 + f1 * B + f2 * B ^ 2 + f3 * B ^ 3 + f4 * B ^ 4)) mod P"
  unfolding product_digits [OF assms, symmetric] by (intro arg_cong [where f = "\<lambda>x. x mod P"]) (simp add: algebra_simps)

lemma fe_sq_ok:
  assumes "loose f"
  shows "fe_val (fe_sq f) mod P = fe_val f * fe_val f mod P" and "tight (fe_sq f)"
proof -
  obtain f0 f1 f2 f3 f4 where f: "f = (f0, f1, f2, f3, f4)" by (cases f)
  obtain t0 t1 t2 t3 t4 where t: "square_sums (f0, f1, f2, f3, f4) = (t0, t1, t2, t3, t4)" by (cases "square_sums (f0, f1, f2, f3, f4)")
  note q = square_sums_ok [OF assms [unfolded f] order_refl t]
  have cap: "uint t0 < 2 ^ 115" "uint t1 < 2 ^ 115" "uint t2 < 2 ^ 115" "uint t3 < 2 ^ 115" "uint t4 < 3 * 2 ^ 109"
    using q(6-10) by simp_all
  have h: "fe_sq f = fe_reduce t0 t1 t2 t3 t4" by (simp only: fe_sq_def f t prod.case)
  show "tight (fe_sq f)" unfolding h by (rule fe_reduce_val(2) [OF cap])
  have pw: "(2 :: int) ^ 102 = (2 ^ 51) ^ 2" "(2 :: int) ^ 153 = (2 ^ 51) ^ 3" "(2 :: int) ^ 204 = (2 ^ 51) ^ 4" by simp_all
  show "fe_val (fe_sq f) mod P = fe_val f * fe_val f mod P"
    unfolding h fe_reduce_val(1) [OF cap] q(1-5) unfolding f fe_val.simps pw by (rule square_digits [OF base5])
qed

lemma fe_sq2_ok:
  assumes "tight f"
  shows "fe_val (fe_sq2 f) mod P = 2 * (fe_val f * fe_val f) mod P" and "tight (fe_sq2 f)"
proof -
  obtain f0 f1 f2 f3 f4 where f: "f = (f0, f1, f2, f3, f4)" by (cases f)
  obtain t0 t1 t2 t3 t4 where t: "square_sums (f0, f1, f2, f3, f4) = (t0, t1, t2, t3, t4)" by (cases "square_sums (f0, f1, f2, f3, f4)")
  have "(2 :: int) ^ 52 \<le> 2 ^ 54" by simp
  note q = square_sums_ok [OF assms [unfolded f] this t]
  have d: "uint (x * 2) = uint x * 2" if "uint x \<le> 77 * (2 ^ 52 * 2 ^ 52)" for x :: u128
    using that by (subst uint_times) simp_all
  have t4: "uint t4 \<le> 77 * (2 ^ 52 * 2 ^ 52)" using q(10) by simp
  note d = d [OF q(6)] d [OF q(7)] d [OF q(8)] d [OF q(9)] d [OF t4]
  have cap: "uint (t0 * 2) < 2 ^ 115" "uint (t1 * 2) < 2 ^ 115" "uint (t2 * 2) < 2 ^ 115" "uint (t3 * 2) < 2 ^ 115" "uint (t4 * 2) < 3 * 2 ^ 109"
    unfolding d using q(6-10) by simp_all
  have h: "fe_sq2 f = fe_reduce (t0 * 2) (t1 * 2) (t2 * 2) (t3 * 2) (t4 * 2)" by (simp only: fe_sq2_def f t prod.case)
  show "tight (fe_sq2 f)" unfolding h by (rule fe_reduce_val(2) [OF cap])
  have pw: "(2 :: int) ^ 102 = (2 ^ 51) ^ 2" "(2 :: int) ^ 153 = (2 ^ 51) ^ 3" "(2 :: int) ^ 204 = (2 ^ 51) ^ 4" by simp_all
  have "fe_val (fe_sq2 f) mod P = 2 * (uint t0 + uint t1 * 2 ^ 51 + uint t2 * (2 ^ 51) ^ 2 + uint t3 * (2 ^ 51) ^ 3 + uint t4 * (2 ^ 51) ^ 4) mod P"
    unfolding h fe_reduce_val(1) [OF cap] d by (simp add: mult.commute)
  also have "\<dots> = 2 * (fe_val f * fe_val f) mod P"
    unfolding q(1-5) f fe_val_base by (intro mod_mult_cong refl square_digits [OF base5])
  finally show "fe_val (fe_sq2 f) mod P = 2 * (fe_val f * fe_val f) mod P" .
qed

section \<open>Sums and differences\<close>

lemma fe_add_ok:
  assumes "below a f" "below b g" "a + b \<le> 2 ^ 64"
  shows "fe_val (fe_add f g) = fe_val f + fe_val g" and "below (a + b) (fe_add f g)"
proof -
  obtain f0 f1 f2 f3 f4 where f: "f = (f0, f1, f2, f3, f4)" by (cases f)
  obtain g0 g1 g2 g3 g4 where g: "g = (g0, g1, g2, g3, g4)" by (cases g)
  have u: "uint (x + y) = uint x + uint y" if "uint x < a" "uint y < b" for x y :: u64
    using that assms(3) by (intro uint_plus) simp
  show "fe_val (fe_add f g) = fe_val f + fe_val g" "below (a + b) (fe_add f g)"
    using assms(1,2) by (simp_all add: f g u algebra_simps)
qed

lemma fe_val_nonneg [simp]: "0 \<le> fe_val f"
  by (cases f) simp

lemma fe_val_below: "below (2 ^ 51) f \<Longrightarrow> fe_val f < 2 ^ 255"
  by (cases f) simp

text \<open>A round of carries divides by \<open>2\<^sup>2\<^sup>5\<^sup>5\<close>.\<close>

lemma carry_pass_ok:
  assumes "below (2 ^ 63) t" "carry_pass t = (t', c)"
  shows "fe_val t' = fe_val t mod 2 ^ 255" and "uint c = fe_val t div 2 ^ 255" and "below (2 ^ 51) t'"
proof -
  obtain t0 t1 t2 t3 t4 where t: "t = (t0, t1, t2, t3, t4)" by (cases t)
  define u1 where "u1 = t1 + drop_bit 51 t0"
  define u2 where "u2 = t2 + drop_bit 51 u1"
  define u3 where "u3 = t3 + drop_bit 51 u2"
  define u4 where "u4 = t4 + drop_bit 51 u3"
  have T: "uint t0 < 2 ^ 63" "uint t1 < 2 ^ 63" "uint t2 < 2 ^ 63" "uint t3 < 2 ^ 63" "uint t4 < 2 ^ 63"
    using assms(1) by (simp_all add: t)
  have step: "uint (x + drop_bit 51 y) = uint x + uint y div 2 ^ 51" if "uint x < 2 ^ 63" for x y :: u64
  proof -
    have "uint y div 2 ^ 51 < 2 ^ 13" using uint_below(1) [of y] by simp
    with that show ?thesis by (subst uint_plus) simp_all
  qed
  have u: "uint u1 = uint t1 + uint t0 div 2 ^ 51" "uint u2 = uint t2 + uint u1 div 2 ^ 51"
    "uint u3 = uint t3 + uint u2 div 2 ^ 51" "uint u4 = uint t4 + uint u3 div 2 ^ 51"
    unfolding u1_def u2_def u3_def u4_def by (rule step [OF T(2)] step [OF T(3)] step [OF T(4)] step [OF T(5)])+
  have r: "t' = (t0 AND FE_MASK, u1 AND FE_MASK, u2 AND FE_MASK, u3 AND FE_MASK, u4 AND FE_MASK)" "c = drop_bit 51 u4"
    using assms(2) by (simp_all add: t u1_def u2_def u3_def u4_def Let_def)
  show b: "below (2 ^ 51) t'" unfolding r by simp
  have d: "x mod 2 ^ 51 = x - x div 2 ^ 51 * 2 ^ 51" for x :: int by (simp add: minus_div_mult_eq_mod)
  have "fe_val t = fe_val t' + uint c * 2 ^ 255"
    unfolding r t fe_val.simps uint_mask51 uint_shift d u(4) unfolding u(3) unfolding u(2) unfolding u(1) by (simp add: algebra_simps)
  then show "fe_val t' = fe_val t mod 2 ^ 255" "uint c = fe_val t div 2 ^ 255"
    using fe_val_below [OF b] by simp_all
qed

lemma fe_sub_pass:
  "fe_sub f g = (case carry_pass g of (g', c) \<Rightarrow> case add_low (19 * c) g' of (g0, g1, g2, g3, g4) \<Rightarrow> case f of (f0, f1, f2, f3, f4) \<Rightarrow>
     (f0 + 0xfffffffffffda - g0, f1 + 0xffffffffffffe - g1, f2 + 0xffffffffffffe - g2, f3 + 0xffffffffffffe - g3, f4 + 0xffffffffffffe - g4))"
  by (cases f; cases g) (simp add: Let_def)

lemma fe_sub_ok:
  assumes "below a f" "a \<le> 2 ^ 53" "loose g"
  shows "fe_val (fe_sub f g) mod P = (fe_val f - fe_val g) mod P" and "below (a + 2 ^ 52) (fe_sub f g)"
proof -
  obtain f0 f1 f2 f3 f4 where f: "f = (f0, f1, f2, f3, f4)" by (cases f)
  obtain g0 g1 g2 g3 g4 c where p: "carry_pass g = ((g0, g1, g2, g3, g4), c)" by (cases "carry_pass g") auto
  have "below (2 ^ 63) g" using assms(3) by (rule below_mono) simp
  note c = carry_pass_ok [OF this p]
  have v: "fe_val g < 2 ^ 259" using assms(3) by (cases g) simp
  then have c16: "uint c < 16" by (simp add: c(2))
  then have c19: "uint (19 * c) = 19 * uint c" "19 * uint c < 304" using uint_times [of 19 c] by simp_all
  have G: "uint g0 < 2 ^ 51" "uint g1 < 2 ^ 51" "uint g2 < 2 ^ 51" "uint g3 < 2 ^ 51" "uint g4 < 2 ^ 51" using c(3) by simp_all
  have F: "uint f0 < a" "uint f1 < a" "uint f2 < a" "uint f3 < a" "uint f4 < a" using assms(1) by (simp_all add: f)
  have h0: "uint (g0 + 19 * c) = uint g0 + 19 * uint c" using G(1) c19 by (subst uint_plus) simp_all
  have s: "uint (x + k - y) = uint x + uint k - uint y" if "uint x < a" "uint k < 2 ^ 52" "uint y \<le> uint k" for x y k :: u64
  proof -
    have "uint (x + k) = uint x + uint k" using that(1,2) assms(2) by (intro uint_plus) simp
    with that(3) show ?thesis by (subst uint_minus) (simp_all add: add_increasing)
  qed
  have k: "uint (0xfffffffffffda :: u64) = 0xfffffffffffda" "uint (0xffffffffffffe :: u64) = 0xffffffffffffe" by simp_all
  have d: "uint (f0 + 0xfffffffffffda - (g0 + 19 * c)) = uint f0 + 0xfffffffffffda - (uint g0 + 19 * uint c)"
    "uint (f1 + 0xffffffffffffe - g1) = uint f1 + 0xffffffffffffe - uint g1"
    "uint (f2 + 0xffffffffffffe - g2) = uint f2 + 0xffffffffffffe - uint g2"
    "uint (f3 + 0xffffffffffffe - g3) = uint f3 + 0xffffffffffffe - uint g3"
    "uint (f4 + 0xffffffffffffe - g4) = uint f4 + 0xffffffffffffe - uint g4"
    using F G c19 h0 by (subst s; simp)+
  have r: "fe_sub f g = (f0 + 0xfffffffffffda - (g0 + 19 * c), f1 + 0xffffffffffffe - g1, f2 + 0xffffffffffffe - g2,
      f3 + 0xffffffffffffe - g3, f4 + 0xffffffffffffe - g4)"
    unfolding fe_sub_pass f p prod.case add_low.simps by (rule refl)
  have "fe_val g = fe_val (g0, g1, g2, g3, g4) + uint c * 2 ^ 255" unfolding c(1,2) by simp
  moreover have "fe_val (fe_sub f g) = (uint f0 + 0xfffffffffffda - (uint g0 + 19 * uint c)) + (uint f1 + 0xffffffffffffe - uint g1) * 2 ^ 51 +
      (uint f2 + 0xffffffffffffe - uint g2) * 2 ^ 102 + (uint f3 + 0xffffffffffffe - uint g3) * 2 ^ 153 + (uint f4 + 0xffffffffffffe - uint g4) * 2 ^ 204"
    unfolding r fe_val.simps d by (rule refl)
  ultimately have "fe_val (fe_sub f g) = (fe_val f - fe_val g) + P * (uint c + 2)"
    unfolding f P_def by (simp add: algebra_simps)
  then show "fe_val (fe_sub f g) mod P = (fe_val f - fe_val g) mod P" by (simp only: mod_mult_self2)
  have n: "0 \<le> uint c" "0 \<le> uint g0" "0 \<le> uint g1" "0 \<le> uint g2" "0 \<le> uint g3" "0 \<le> uint g4" by simp_all
  have "(2 :: int) ^ 52 = 4503599627370496" by simp
  then show "below (a + 2 ^ 52) (fe_sub f g)" unfolding r below.simps d using F n by - (intro conjI; linarith)
qed

lemma fe_0_1 [simp]: "fe_val fe_0 = 0" "fe_val fe_1 = 1" "0 < b \<Longrightarrow> below b fe_0" "1 < b \<Longrightarrow> below b fe_1"
  by (simp_all add: fe_0_def fe_1_def)

lemma fe_neg_ok:
  assumes "loose f"
  shows "fe_val (fe_neg f) mod P = - fe_val f mod P" and "below (2 ^ 53) (fe_neg f)"
  using fe_sub_ok [of "2 ^ 52" fe_0 f] assms by (simp_all add: fe_neg_def)

lemma fe_cmov_eq: "fe_cmov f g 0 = f" "fe_cmov f g 1 = g"
  by (cases f; cases g; simp add: cmov_limb_def Let_def)+

end
