(* ===== verification/FeBytes.thy ===== *)
theory FeBytes
  imports Fe25519
begin

unbundle bit_operations_syntax

text \<open>
  Elements as bytes and powers of elements: reading takes 255 bits, writing gives the representative below
  the prime, and the two chains of products raise to the powers for an inverse and a square root.
\<close>

section \<open>Bytes\<close>

definition le_value :: "byte list \<Rightarrow> int" where
  "le_value bs = foldr (\<lambda>b v. uint b + 256 * v) bs 0"

lemma le_value_simps [simp]: "le_value [] = 0" "le_value (b # bs) = uint b + 256 * le_value bs"
  by (simp_all add: le_value_def)

lemma le_value_append: "le_value (xs @ ys) = le_value xs + 256 ^ length xs * le_value ys"
  by (induction xs) (simp_all add: algebra_simps)

lemma le_value_nonneg [simp]: "0 \<le> le_value bs"
  by (induction bs) simp_all

lemma le_value_less: "le_value bs < 256 ^ length bs"
proof (induction bs)
  case (Cons b bs)
  have "uint b \<le> 255" using uint_lt2p [of b] by simp
  with Cons show ?case by simp
qed simp

lemma le_value_drop: "le_value (drop k bs) = le_value bs div 256 ^ k"
proof (cases "k \<le> length bs")
  case True
  have "le_value bs = le_value (take k bs) + 256 ^ k * le_value (drop k bs)"
    using le_value_append [of "take k bs" "drop k bs"] True by simp
  moreover have "le_value (take k bs) < 256 ^ k" using le_value_less [of "take k bs"] True by simp
  ultimately show ?thesis by simp
next
  case False
  then have "(256 :: int) ^ length bs \<le> 256 ^ k" by (intro power_increasing) simp_all
  with le_value_less [of bs] have "le_value bs < 256 ^ k" by (rule order_less_le_trans)
  with False show ?thesis by simp
qed

lemma le_value_take: "le_value (take k bs) = le_value bs mod 256 ^ k"
proof (cases "k \<le> length bs")
  case True
  have "le_value bs = le_value (take k bs) + 256 ^ k * le_value (drop k bs)"
    using le_value_append [of "take k bs" "drop k bs"] True by simp
  moreover have "le_value (take k bs) < 256 ^ k" using le_value_less [of "take k bs"] True by simp
  ultimately show ?thesis by simp
next
  case False
  then have "(256 :: int) ^ length bs \<le> 256 ^ k" by (intro power_increasing) simp_all
  with le_value_less [of bs] have "le_value bs < 256 ^ k" by (rule order_less_le_trans)
  with False show ?thesis by simp
qed

lemma le_value_inj: "length xs = length ys \<Longrightarrow> le_value xs = le_value ys \<Longrightarrow> xs = ys"
proof (induction xs ys rule: list_induct2)
  case (Cons x xs y ys)
  have b: "uint x < 256" "uint y < 256" using uint_lt2p [of x] uint_lt2p [of y] by simp_all
  from Cons.prems have "uint x + 256 * le_value xs = uint y + 256 * le_value ys" by simp
  then have "(uint x + 256 * le_value xs) mod 256 = (uint y + 256 * le_value ys) mod 256" by simp
  then have "uint x = uint y" using b by simp
  moreover from this have "x = y" by (rule word_uint_eqI)
  moreover have "le_value xs = le_value ys" using \<open>uint x + _ = _\<close> \<open>uint x = uint y\<close> by simp
  ultimately show ?case using Cons.IH by simp
qed simp

text \<open>Bits side by side add up.\<close>

lemma uint_push_bit64:
  fixes y :: u64
  assumes "n \<le> 64"
  shows "uint (push_bit n y) = 2 ^ n * (uint y mod 2 ^ (64 - n))"
proof -
  have "uint (push_bit n y) = take_bit 64 (push_bit n (uint y))" using unsigned_push_bit_eq [of n y] by simp
  also have "\<dots> = 2 ^ n * uint y mod 2 ^ 64" by (simp only: take_bit_eq_mod push_bit_eq_mult mult.commute)
  also have "\<dots> = 2 ^ n * uint y mod (2 ^ n * 2 ^ (64 - n))" unfolding power_add [symmetric] using assms by simp
  finally show ?thesis by (simp only: mod_mult_mult1)
qed

lemma uint_or_push:
  fixes x y :: u64
  assumes "uint x < 2 ^ n" "n \<le> 64"
  shows "uint (x OR push_bit n y) = uint x + 2 ^ n * (uint y mod 2 ^ (64 - n))"
proof -
  have "uint x = uint (take_bit n x)" unfolding unsigned_take_bit_eq using assms(1) by (simp add: take_bit_int_eq_self)
  then have "x = take_bit n x" by (rule word_uint_eqI)
  then have b: "bit x m \<Longrightarrow> m < n" for m by (metis bit_take_bit_iff)
  have "x AND push_bit n y = 0"
  proof (rule bit_word_eqI)
    fix m show "bit (x AND push_bit n y) m = bit 0 m" using b [of m] by (auto simp: bit_and_iff bit_push_bit_iff)
  qed
  then have o: "x OR push_bit n y = x + push_bit n y" by (rule disjunctive_add_eq_or [symmetric])
  have "uint y mod 2 ^ (64 - n) + 1 \<le> 2 ^ (64 - n)" by (intro add1_zle_eq [THEN iffD2] pos_mod_bound) simp
  then have "2 ^ n * (uint y mod 2 ^ (64 - n) + 1) \<le> 2 ^ n * (2 ^ (64 - n) :: int)" by (intro mult_left_mono) simp_all
  also have "\<dots> = 2 ^ 64" unfolding power_add [symmetric] using assms(2) by simp
  finally have "2 ^ n * (uint y mod 2 ^ (64 - n)) + 2 ^ n \<le> 2 ^ 64" by (simp only: distrib_left mult_1_right)
  then have "uint x + uint (push_bit n y) < 2 ^ 64" unfolding uint_push_bit64 [OF assms(2)] using assms(1) by linarith
  then have "uint (x + push_bit n y) = uint x + uint (push_bit n y)" by (intro uint_plus) simp
  then show ?thesis unfolding o uint_push_bit64 [OF assms(2)] .
qed

lemma uint_word64_le: "uint (v :: u64) = x \<Longrightarrow> le_value (store64_le v) = x"
proof -
  have digits: "le_value (map (\<lambda>i. word_of_int (y div 256 ^ i)) [0..<n]) = y mod 256 ^ n" for n y
  proof (induction n)
    case (Suc n)
    have "y mod 256 ^ Suc n = y mod 256 ^ n + 256 ^ n * (y div 256 ^ n mod 256)"
      using mod_mult2_eq' [of y "256 ^ n" 256] by (simp add: mult.commute)
    with Suc show ?case by (simp add: le_value_append uint_word_of_int)
  qed simp
  assume x: "uint v = x"
  have "ucast (drop_bit (8 * i) v) = (word_of_int (x div 256 ^ i) :: byte)" for i
  proof -
    have e: "x div 256 ^ i = uint (drop_bit (8 * i) v)" using x by (simp add: power_mult)
    show ?thesis by (simp only: e of_int_uint)
  qed
  then have "store64_le v = map (\<lambda>i. word_of_int (x div 256 ^ i)) [0..<8]" by (simp add: store64_le_def)
  then have "le_value (store64_le v) = x mod 256 ^ 8" by (simp only: digits)
  then show ?thesis using x uint_below [of v] by simp
qed

lemma length_store64_le [simp]: "length (store64_le v) = 8"
  by (simp add: store64_le_def)

lemma uint_load64_le:
  assumes "8 \<le> length s"
  shows "uint (load64_le s) = le_value (take 8 s)"
proof -
  obtain a b c d e f g h r where s: "s = a # b # c # d # e # f # g # h # r"
    using assms by (auto simp: Suc_le_length_iff numeral_eq_Suc)
  have u: "uint (ucast (x :: byte) :: u64) = uint x" for x
    using uint_lt2p [of x] by (simp add: unsigned_ucast_eq take_bit_eq_mod)
  have step: "uint (ucast x OR push_bit 8 w) = uint x + 256 * uint w" if "uint w < 2 ^ 56" for x :: byte and w :: u64
    using uint_or_push [of "ucast x" 8 w] uint_lt2p [of x] that by (simp add: u)
  define w6 where "w6 = ucast g OR push_bit 8 (ucast h :: u64)"
  define w5 where "w5 = ucast f OR push_bit 8 w6"
  define w4 where "w4 = ucast e OR push_bit 8 w5"
  define w3 where "w3 = ucast d OR push_bit 8 w4"
  define w2 where "w2 = ucast c OR push_bit 8 w3"
  define w1 where "w1 = ucast b OR push_bit 8 w2"
  have b: "uint x < 256" for x :: byte using uint_lt2p [of x] by simp
  have v6: "uint w6 = uint g + 256 * uint h" unfolding w6_def using b [of h] by (subst step) (simp_all add: u)
  have v5: "uint w5 = uint f + 256 * uint w6" unfolding w5_def using b [of h] b [of g] v6 by (intro step) simp
  have v4: "uint w4 = uint e + 256 * uint w5" unfolding w4_def using b [of h] b [of g] b [of f] v6 v5 by (intro step) simp
  have v3: "uint w3 = uint d + 256 * uint w4" unfolding w3_def using b [of h] b [of g] b [of f] b [of e] v6 v5 v4 by (intro step) simp
  have v2: "uint w2 = uint c + 256 * uint w3" unfolding w2_def using b [of h] b [of g] b [of f] b [of e] b [of d] v6 v5 v4 v3 by (intro step) simp
  have v1: "uint w1 = uint b + 256 * uint w2" unfolding w1_def using b [of h] b [of g] b [of f] b [of e] b [of d] b [of c] v6 v5 v4 v3 v2 by (intro step) simp
  have "load64_le s = ucast a OR push_bit 8 w1"
    by (simp add: load64_le_def s w6_def w5_def w4_def w3_def w2_def w1_def)
  moreover have "uint (ucast a OR push_bit 8 w1) = uint a + 256 * uint w1"
    using b [of h] b [of g] b [of f] b [of e] b [of d] b [of c] b [of b] v6 v5 v4 v3 v2 v1 by (intro step) simp
  ultimately show ?thesis by (simp add: s v6 v5 v4 v3 v2 v1)
qed

lemma fe_frombytes_ok:
  assumes "length s = 32"
  shows "fe_val (fe_frombytes s) = le_value s mod 2 ^ 255" and "below (2 ^ 51) (fe_frombytes s)"
proof -
  show "below (2 ^ 51) (fe_frombytes s)" by (simp add: fe_frombytes_def)
  let ?N = "le_value s"
  have l: "uint (load64_le (drop k s)) = ?N div 2 ^ (8 * k) mod 2 ^ 64" if "k \<le> 24" for k
    using that assms by (simp add: uint_load64_le le_value_take le_value_drop power_mult)
  have digit: "(?N div 2 ^ a mod 2 ^ 64) div 2 ^ j mod 2 ^ 51 = ?N div 2 ^ (a + j) mod 2 ^ 51" if "j + 51 \<le> 64" for a j
  proof -
    have "min 51 (64 - j) = 51" using that by simp
    then have "take_bit 51 (drop_bit j (take_bit 64 x)) = take_bit 51 (drop_bit j x)" for x :: int
      by (simp only: drop_bit_take_bit take_bit_take_bit)
    then have "x mod 2 ^ 64 div 2 ^ j mod 2 ^ 51 = x div 2 ^ j mod 2 ^ 51" for x :: int
      by (simp only: take_bit_eq_mod drop_bit_eq_div)
    then show ?thesis by (simp add: power_add zdiv_zmult2_eq)
  qed
  have limb: "uint (drop_bit j (load64_le (drop k s)) AND FE_MASK) = ?N div 2 ^ n mod 2 ^ 51" if "k \<le> 24" "j + 51 \<le> 64" "n = 8 * k + j" for j k n
    unfolding uint_mask51 uint_shift l [OF that(1)] digit [OF that(2)] that(3) by (rule refl)
  have "load64_le s = drop_bit 0 (load64_le (drop 0 s))" by simp
  then have h0: "uint (load64_le s AND FE_MASK) = ?N div 2 ^ 0 mod 2 ^ 51" using limb [of 0 0 0] by simp
  have split: "x mod 2 ^ c = x mod 2 ^ m + x div 2 ^ m mod 2 ^ 51 * 2 ^ m" if "c = m + 51" for x :: int and m c
    unfolding that power_add by (subst zmod_zmult2_eq) (simp_all add: mult.commute)
  have h1: "uint (drop_bit 3 (load64_le (drop 6 s)) AND FE_MASK) = ?N div 2 ^ 51 mod 2 ^ 51" by (rule limb) simp_all
  have h2: "uint (drop_bit 6 (load64_le (drop 12 s)) AND FE_MASK) = ?N div 2 ^ 102 mod 2 ^ 51" by (rule limb) simp_all
  have h3: "uint (drop_bit 1 (load64_le (drop 19 s)) AND FE_MASK) = ?N div 2 ^ 153 mod 2 ^ 51" by (rule limb) simp_all
  have h4: "uint (drop_bit 12 (load64_le (drop 24 s)) AND FE_MASK) = ?N div 2 ^ 204 mod 2 ^ 51" by (rule limb) simp_all
  have d: "?N mod 2 ^ 255 = ?N mod 2 ^ 204 + ?N div 2 ^ 204 mod 2 ^ 51 * 2 ^ 204"
    "?N mod 2 ^ 204 = ?N mod 2 ^ 153 + ?N div 2 ^ 153 mod 2 ^ 51 * 2 ^ 153"
    "?N mod 2 ^ 153 = ?N mod 2 ^ 102 + ?N div 2 ^ 102 mod 2 ^ 51 * 2 ^ 102"
    "?N mod 2 ^ 102 = ?N mod 2 ^ 51 + ?N div 2 ^ 51 mod 2 ^ 51 * 2 ^ 51"
    by (rule split, simp)+
  show "fe_val (fe_frombytes s) = ?N mod 2 ^ 255"
    unfolding fe_frombytes_def fe_val.simps h0 h1 h2 h3 h4 d by (simp only: power_0 div_by_1)
qed

lemma pack_ok:
  assumes "below (2 ^ 51) t"
  shows "le_value (pack t) = fe_val t" and "length (pack t) = 32"
proof -
  obtain t0 t1 t2 t3 t4 where t: "t = (t0, t1, t2, t3, t4)" by (cases t)
  have T: "uint t0 < 2 ^ 51" "uint t1 < 2 ^ 51" "uint t2 < 2 ^ 51" "uint t3 < 2 ^ 51" "uint t4 < 2 ^ 51"
    using assms by (simp_all add: t)
  have d: "x mod 2 ^ k = x - x div 2 ^ k * 2 ^ k" for x :: int and k by (simp add: minus_div_mult_eq_mod)
  have r: "uint (t0 OR push_bit 51 t1) = uint t0 + 2 ^ 51 * (uint t1 mod 2 ^ 13)"
    "uint (drop_bit 13 t1 OR push_bit 38 t2) = uint t1 div 2 ^ 13 + 2 ^ 38 * (uint t2 mod 2 ^ 26)"
    "uint (drop_bit 26 t2 OR push_bit 25 t3) = uint t2 div 2 ^ 26 + 2 ^ 25 * (uint t3 mod 2 ^ 39)"
    "uint (drop_bit 39 t3 OR push_bit 12 t4) = uint t3 div 2 ^ 39 + 2 ^ 12 * uint t4"
    using T uint_or_push [of t0 51 t1] uint_or_push [of "drop_bit 13 t1" 38 t2] uint_or_push [of "drop_bit 26 t2" 25 t3]
      uint_or_push [of "drop_bit 39 t3" 12 t4] by simp_all
  show "length (pack t) = 32" by (simp add: t)
  show "le_value (pack t) = fe_val t"
    unfolding t pack.simps le_value_append uint_word64_le [OF r(1)] uint_word64_le [OF r(2)] uint_word64_le [OF r(3)] uint_word64_le [OF r(4)]
      length_store64_le fe_val.simps d
    by simp
qed

lemma add_low_ok:
  assumes "below b t" "uint c < d" "b + d \<le> 2 ^ 64"
  shows "fe_val (add_low c t) = fe_val t + uint c" and "below (b + d) (add_low c t)"
proof -
  obtain t0 t1 t2 t3 t4 where t: "t = (t0, t1, t2, t3, t4)" by (cases t)
  have d: "0 < d" using order_le_less_trans [OF uint_below(2) assms(2)] .
  have "uint (t0 + c) = uint t0 + uint c" using assms by (intro uint_plus) (simp add: t)
  then show "fe_val (add_low c t) = fe_val t + uint c" "below (b + d) (add_low c t)" using assms d by (simp_all add: t)
qed

text \<open>The representative below the prime.\<close>

lemma fe_canonical_ok:
  assumes "loose h"
  shows "fe_val (fe_canonical h) = fe_val h mod P" and "below (2 ^ 51) (fe_canonical h)"
proof -
  have wide: "below (2 ^ 63) f" if "below b f" "b \<le> 2 ^ 63" for f b using that by (rule below_mono)
  define V where "V = fe_val h"
  have V: "0 \<le> V" "V < 2 ^ 259" using assms by (cases h; simp add: V_def)+
  have pos: "0 \<le> x mod 2 ^ 255 + 19 * (x div 2 ^ 255)" if "0 \<le> x" for x :: int
    using that by (intro add_nonneg_nonneg mult_nonneg_nonneg) (simp_all add: pos_imp_zdiv_nonneg_iff)
  have fold: "(x mod 2 ^ 255 + 19 * (x div 2 ^ 255)) mod P = x mod P" for x :: int
  proof -
    have "x = x mod 2 ^ 255 + 19 * (x div 2 ^ 255) + P * (x div 2 ^ 255)" by (simp add: P_def algebra_simps minus_mult_div_eq_mod)
    then show ?thesis by (metis mod_mult_self2)
  qed
  have top: "x mod 2 ^ 255 < 2 ^ 255" for x :: int by simp
  have low: "uint (c * 19) = 19 * uint c \<and> uint (c * 19) < 304" if "uint c < 16" for c :: u64
    using uint_times [of c 19] that by simp
  obtain a c1 where a: "carry_pass h = (a, c1)" by fastforce
  have "below (2 ^ 63) h" by (rule wide [OF assms]) simp
  note p1 = carry_pass_ok [OF this a]
  have "uint c1 < 16" using V(2) by (simp add: p1(2) V_def)
  note k1 = low [OF this]
  define V1 where "V1 = V mod 2 ^ 255 + 19 * (V div 2 ^ 255)"
  have s1: "fe_val (add_low (c1 * 19) a) = V1" "below (2 ^ 51 + 304) (add_low (c1 * 19) a)"
    using add_low_ok [OF p1(3) k1 [THEN conjunct2]] k1 by (simp_all add: p1(1,2) V1_def V_def)
  have V1: "0 \<le> V1" using V(1) unfolding V1_def by (rule pos)
  have V1': "V1 < 2 ^ 255 + 304" using k1 top [of V] unfolding V1_def V_def p1(2) by linarith
  obtain b c2 where b: "carry_pass (add_low (c1 * 19) a) = (b, c2)" by fastforce
  have "below (2 ^ 63) (add_low (c1 * 19) a)" by (rule wide [OF s1(2)]) simp
  note p2 = carry_pass_ok [OF this b]
  have c2: "uint c2 = V1 div 2 ^ 255" "uint c2 < 16" using V1' by (simp_all add: p2(2) s1(1))
  note k2 = low [OF c2(2)]
  define V2 where "V2 = V1 mod 2 ^ 255 + 19 * (V1 div 2 ^ 255)"
  have s2: "fe_val (add_low (c2 * 19) b) = V2" "below (2 ^ 51 + 304) (add_low (c2 * 19) b)"
    using add_low_ok [OF p2(3) k2 [THEN conjunct2]] k2 by (simp_all add: p2(1) c2(1) s1(1) V2_def)
  have V2: "V2 mod P = V mod P" unfolding V2_def fold unfolding V1_def fold by (rule refl)
  have V2pos: "0 \<le> V2" unfolding V2_def using V1 by (rule pos)
  have V2top: "V2 < 2 ^ 255"
  proof (cases "V1 < 2 ^ 255")
    case True
    with V1 show ?thesis by (simp add: V2_def)
  next
    case False
    then have "V1 mod 2 ^ 255 = V1 - 2 ^ 255" "V1 div 2 ^ 255 = 1" using V1' by (simp_all add: int_div_pos_eq int_mod_pos_eq)
    then show ?thesis using V1' by (simp add: V2_def)
  qed
  obtain t c where t: "carry_pass (add_low 19 (add_low (c2 * 19) b)) = (t, c)" by fastforce
  have s3: "fe_val (add_low 19 (add_low (c2 * 19) b)) = V2 + 19" "below (2 ^ 51 + 304 + 20) (add_low 19 (add_low (c2 * 19) b))"
    using add_low_ok [OF s2(2), of 19 20] by (simp_all add: s2(1))
  have "below (2 ^ 63) (add_low 19 (add_low (c2 * 19) b))" by (rule wide [OF s3(2)]) simp
  note p3 = carry_pass_ok [OF this t]
  let ?k = "1 - c"
  define p where "p = (?k * (FE_MASK - 18), ?k * FE_MASK, ?k * FE_MASK, ?k * FE_MASK, ?k * FE_MASK)"
  have canon: "fe_canonical h = fst (carry_pass (fe_add t p))"
    by (simp only: fe_canonical_def a b t prod.case Let_def p_def)
  have c: "c = 0 \<and> V2 < P \<or> c = 1 \<and> P \<le> V2"
  proof (cases "V2 < P")
    case True
    then have "uint c = 0" using V2pos by (simp add: p3(2) s3(1) P_def)
    then have "c = 0" by (intro word_uint_eqI) simp
    with True show ?thesis by simp
  next
    case False
    then have "uint c = 1" using V2top by (simp add: p3(2) s3(1) P_def int_div_pos_eq)
    then have "c = 1" by (intro word_uint_eqI) simp
    with False show ?thesis by simp
  qed
  have p: "below (2 ^ 51) p" "fe_val p = (if c = 0 then P else 0)"
    using c by (auto simp: p_def FE_MASK_def P_def)
  have s4: "fe_val (fe_add t p) = fe_val t + fe_val p" "below (2 ^ 51 + 2 ^ 51) (fe_add t p)"
    using fe_add_ok [OF p3(3) p(1)] by simp_all
  obtain r e where r: "carry_pass (fe_add t p) = (r, e)" by fastforce
  have "below (2 ^ 63) (fe_add t p)" using s4(2) by (rule wide) simp_all
  note p4 = carry_pass_ok [OF this r]
  show "below (2 ^ 51) (fe_canonical h)" using p4(3) by (simp add: canon r)
  have "fe_val (fe_canonical h) = ((V2 + 19) mod 2 ^ 255 + (if c = 0 then P else 0)) mod 2 ^ 255"
    unfolding canon r fst_conv p4(1) s4(1) p3(1) s3(1) p(2) by (rule refl)
  also have "\<dots> = V2 mod P"
    using c
  proof
    assume c0: "c = 0 \<and> V2 < P"
    have "((V2 + 19) mod 2 ^ 255 + P) mod 2 ^ 255 = (V2 + 19 + P) mod 2 ^ 255" by (rule mod_add_left_eq)
    also have "V2 + 19 + P = V2 + 2 ^ 255" by (simp add: P_def)
    finally show ?thesis using c0 V2pos V2top by simp
  next
    assume c1: "c = 1 \<and> P \<le> V2"
    then have "(V2 + 19) mod 2 ^ 255 = V2 - P" "V2 mod P = V2 - P"
      using V2top by (simp_all add: P_def int_mod_pos_eq)
    then show ?thesis using c1 V2top by (simp add: P_def)
  qed
  finally show "fe_val (fe_canonical h) = fe_val h mod P" by (simp add: V2 V_def)
qed

lemma fe_tobytes_ok:
  assumes "loose h"
  shows "le_value (fe_tobytes h) = fe_val h mod P" and "length (fe_tobytes h) = 32"
  using pack_ok [OF fe_canonical_ok(2) [OF assms]] by (simp_all add: fe_tobytes_def fe_canonical_ok(1) [OF assms])

lemma P_pos: "0 < P" "P < 2 ^ 255"
  by (simp_all add: P_def)

lemma fe_isnegative_iff:
  assumes "loose f"
  shows "fe_isnegative f \<longleftrightarrow> odd (fe_val f mod P)"
proof -
  obtain b bs where b: "fe_tobytes f = b # bs" using fe_tobytes_ok(2) [OF assms] by (cases "fe_tobytes f") simp_all
  have "fe_val f mod P = uint b + 256 * le_value bs" using fe_tobytes_ok(1) [OF assms] by (simp add: b)
  then have "odd (fe_val f mod P) \<longleftrightarrow> odd (uint b)" by simp
  also have "odd (uint b) \<longleftrightarrow> bit b 0" by (simp add: bit_uint_iff flip: bit_0)
  also have "\<dots> \<longleftrightarrow> b AND 1 = 1" by (simp add: and_one_eq odd_iff_mod_2_eq_one bit_0)
  finally show ?thesis by (simp add: fe_isnegative_def b)
qed

lemma gather_bytes:
  "uint d < 256 \<Longrightarrow> uint (fold (\<lambda>b d. d OR ucast b) bs (d :: u32)) < 256 \<and>
     (fold (\<lambda>b d. d OR ucast b) bs d = 0 \<longleftrightarrow> d = 0 \<and> le_value bs = 0)"
proof (induction bs arbitrary: d)
  case (Cons b bs)
  have u: "uint (ucast b :: u32) = uint b" using uint_lt2p [of b] by (simp add: unsigned_ucast_eq take_bit_eq_mod)
  have "uint d OR uint b < 2 ^ 8" using Cons.prems uint_lt2p [of b] by (intro OR_upper) simp_all
  then have "uint (d OR ucast b) < 256" by (simp add: unsigned_or_eq u)
  moreover have "(ucast b :: u32) = 0 \<longleftrightarrow> uint b = 0" unfolding word_uint_eq_iff [of "ucast b"] u by simp
  moreover have "le_value (b # bs) = 0 \<longleftrightarrow> uint b = 0 \<and> le_value bs = 0"
    using le_value_nonneg [of bs] uint_ge_0 [of b] by (simp add: add_nonneg_eq_0_iff)
  ultimately show ?case using Cons.IH [of "d OR ucast b"] by (simp add: or_eq_0_iff conj_assoc)
qed simp

lemma fe_iszero_iff:
  assumes "loose f"
  shows "fe_iszero f \<longleftrightarrow> fe_val f mod P = 0"
proof -
  define d where "d = fold (\<lambda>b d. d OR ucast b) (fe_tobytes f) (0 :: u32)"
  have d: "uint d < 256" "d = 0 \<longleftrightarrow> fe_val f mod P = 0"
    using gather_bytes [of 0 "fe_tobytes f"] fe_tobytes_ok(1) [OF assms] by (simp_all add: d_def)
  have "1 AND drop_bit 8 (d - 1) = 1 \<longleftrightarrow> d = 0"
  proof (cases "d = 0")
    case False
    then have "1 \<le> uint d" by (simp add: int_one_le_iff_zero_less uint_0_iff order_less_le) 
    then have "uint (d - 1) = uint d - 1" by (subst uint_minus) simp_all
    then have "uint (drop_bit 8 (d - 1)) = uint (0 :: u32)" using d(1) \<open>1 \<le> uint d\<close> by simp
    then have "drop_bit 8 (d - 1) = 0" by (rule word_uint_eqI)
    with False show ?thesis by simp
  qed (simp add: mask_eq_exp_minus_1)
  then show ?thesis by (simp add: fe_iszero_def d(2) flip: d_def)
qed

section \<open>Powers\<close>

definition pw :: "fe \<Rightarrow> nat \<Rightarrow> fe \<Rightarrow> bool" where
  "pw z n f \<longleftrightarrow> loose f \<and> fe_val f mod P = fe_val z ^ n mod P"

lemma pw_self: "loose z \<Longrightarrow> pw z 1 z"
  by (simp add: pw_def)

lemma pw_mul: "pw z m f \<Longrightarrow> pw z n g \<Longrightarrow> pw z (m + n) (fe_mul f g)"
  unfolding pw_def power_add using fe_mul_ok [of f g] tight_loose mod_mult_cong [of "fe_val f" P "fe_val z ^ m" "fe_val g" "fe_val z ^ n"]
  by metis

lemma pw_sq: "pw z n f \<Longrightarrow> pw z (2 * n) (fe_sq f)"
  unfolding pw_def mult_2 power_add using fe_sq_ok [of f] tight_loose mod_mult_cong [of "fe_val f" P "fe_val z ^ n" "fe_val f" "fe_val z ^ n"]
  by metis

lemma pw_sqn: "pw z n f \<Longrightarrow> pw z (2 ^ k * n) (fe_sqn k f)"
  by (induction k) (simp_all add: fe_sqn_def pw_sq mult.assoc)

lemma pw_invert:
  assumes "loose z"
  shows "pw z (2 ^ 255 - 21) (fe_invert z)"
proof -
  note z = pw_self [OF assms]
  note a0 = pw_sq [OF z]
  note a1 = pw_mul [OF z pw_sq [OF pw_sq [OF a0]]]
  note a2 = pw_mul [OF a0 a1]
  note a3 = pw_mul [OF a1 pw_sq [OF a2]]
  note a4 = pw_mul [OF pw_sqn [OF pw_sq [OF a3], of 4] a3]
  note a5 = pw_mul [OF pw_sqn [OF pw_sq [OF a4], of 9] a4]
  note a6 = pw_mul [OF pw_sqn [OF pw_sq [OF a5], of 19] a5]
  note a7 = pw_mul [OF pw_sqn [OF pw_sq [OF a6], of 9] a4]
  note a8 = pw_mul [OF pw_sqn [OF pw_sq [OF a7], of 49] a7]
  note a9 = pw_mul [OF pw_sqn [OF pw_sq [OF a8], of 99] a8]
  note a10 = pw_mul [OF pw_sqn [OF pw_sq [OF a9], of 49] a7]
  note a11 = pw_mul [OF pw_sqn [OF pw_sq [OF a10], of 4] a2]
  show ?thesis using a11 unfolding fe_invert_def Let_def by simp
qed

lemma pw_22523:
  assumes "loose z"
  shows "pw z (2 ^ 252 - 3) (fe_pow22523 z)"
proof -
  note z = pw_self [OF assms]
  note a0 = pw_sq [OF z]
  note a1 = pw_mul [OF z pw_sq [OF pw_sq [OF a0]]]
  note a3 = pw_mul [OF a1 pw_sq [OF pw_mul [OF a0 a1]]]
  note a4 = pw_mul [OF pw_sqn [OF pw_sq [OF a3], of 4] a3]
  note a5 = pw_mul [OF pw_sqn [OF pw_sq [OF a4], of 9] a4]
  note a6 = pw_mul [OF pw_sqn [OF pw_sq [OF a5], of 19] a5]
  note a7 = pw_mul [OF pw_sqn [OF pw_sq [OF a6], of 9] a4]
  note a8 = pw_mul [OF pw_sqn [OF pw_sq [OF a7], of 49] a7]
  note a9 = pw_mul [OF pw_sqn [OF pw_sq [OF a8], of 99] a8]
  note a10 = pw_mul [OF pw_sqn [OF pw_sq [OF a9], of 49] a7]
  note a11 = pw_mul [OF pw_sq [OF pw_sq [OF a10]] z]
  show ?thesis using a11 unfolding fe_pow22523_def Let_def by simp
qed

section \<open>What the field arithmetic promises\<close>

text \<open>
  C19. The operations compute modulo the prime: for digits within the bounds the products, squares, sums,
  differences and negation stand for the result in the integers modulo \<open>2\<^sup>2\<^sup>5\<^sup>5 - 19\<close>, no word overflows, and the
  digits of the result are again small enough for a product.
\<close>

theorem fe_arithmetic:
  assumes "below (2 ^ 53) f" "below (2 ^ 53) g" "tight h"
  shows "fe_val (fe_mul f g) mod P = fe_val f * fe_val g mod P \<and> fe_val (fe_sq f) mod P = fe_val f ^ 2 mod P \<and>
    fe_val (fe_sq2 h) mod P = 2 * fe_val h ^ 2 mod P \<and> fe_val (fe_add f g) mod P = (fe_val f + fe_val g) mod P \<and>
    fe_val (fe_sub f g) mod P = (fe_val f - fe_val g) mod P \<and> fe_val (fe_neg f) mod P = - fe_val f mod P \<and>
    tight (fe_mul f g) \<and> tight (fe_sq f) \<and> tight (fe_sq2 h) \<and> loose (fe_add f g) \<and> loose (fe_sub f g) \<and> loose (fe_neg f)"
proof -
  have w: "loose x" if "below (2 ^ 53) x" for x using that by (rule below_mono) simp
  note l = w [OF assms(1)] w [OF assms(2)]
  have "loose (fe_sub f g)" by (rule below_mono [OF fe_sub_ok(2) [OF assms(1) order_refl l(2)]]) simp
  moreover have "loose (fe_add f g)" using fe_add_ok(2) [OF assms(1,2)] by simp
  ultimately show ?thesis
    using fe_mul_ok [OF l] fe_sq_ok [OF l(1)] fe_sq2_ok [OF assms(3)] fe_add_ok(1) [OF assms(1,2)] fe_sub_ok(1) [OF assms(1) order_refl l(2)]
      fe_neg_ok(1) [OF l(1)] w [OF fe_neg_ok(2) [OF l(1)]]
    by (simp add: power2_eq_square)
qed

lemma fe_arithmetic_witness:
  "fe_val (fe_mul (3, 0, 0, 0, 2 ^ 50) (5, 0, 0, 0, 2 ^ 52)) mod P = fe_val (3, 0, 0, 0, 2 ^ 50) * fe_val (5, 0, 0, 0, 2 ^ 52) mod P"
  using fe_arithmetic [of "(3, 0, 0, 0, 2 ^ 50)" "(5, 0, 0, 0, 2 ^ 52)" fe_1] by simp

text \<open>
  C20. The encoding: an element is written as the 32 bytes of its representative below the prime, so that two
  elements have the same bytes exactly when they are congruent; reading the bytes gives the element back, and
  the bytes of a number below the prime are read and written unchanged.
\<close>

theorem fe_encoding:
  assumes "loose f" "loose g" "length s = 32"
  shows "length (fe_tobytes f) = 32 \<and> le_value (fe_tobytes f) = fe_val f mod P \<and>
    (fe_tobytes f = fe_tobytes g \<longleftrightarrow> fe_val f mod P = fe_val g mod P) \<and>
    fe_val (fe_frombytes (fe_tobytes f)) = fe_val f mod P \<and> (fe_tobytes (fe_frombytes s) = s \<longleftrightarrow> le_value s < P)"
proof -
  note f = fe_tobytes_ok [OF assms(1)] and g = fe_tobytes_ok [OF assms(2)] and s = fe_frombytes_ok [OF assms(3)]
  have m: "x mod P < 2 ^ 255" "0 \<le> x mod P" "x mod P < P" for x
    using pos_mod_bound [OF P_pos(1), of x] pos_mod_sign [OF P_pos(1), of x] P_pos(2) by simp_all
  have same: "fe_tobytes f = fe_tobytes g" if "fe_val f mod P = fe_val g mod P"
    by (rule le_value_inj) (simp_all add: f g that)
  have reread: "fe_val (fe_frombytes (fe_tobytes f)) = fe_val f mod P"
    unfolding fe_frombytes_ok(1) [OF f(2)] f(1) using m by (rule_tac mod_pos_pos_trivial)
  have "loose (fe_frombytes s)" using s(2) by (rule below_mono) simp
  note t = fe_tobytes_ok [OF this]
  have "fe_tobytes (fe_frombytes s) = s" if "le_value s < P"
    by (rule le_value_inj) (use that P_pos(2) in \<open>simp_all add: t s(1) assms(3)\<close>)
  moreover have "le_value s < P" if "fe_tobytes (fe_frombytes s) = s"
    using t(1) m(3) [of "fe_val (fe_frombytes s)"] that by simp
  moreover have "fe_val f mod P = fe_val g mod P" if "fe_tobytes f = fe_tobytes g"
    using f(1) g(1) that by simp
  ultimately show ?thesis using f same reread by blast
qed

lemma fe_encoding_witness: "fe_tobytes (fe_frombytes (replicate 32 7)) = replicate 32 7"
proof -
  have "le_value (replicate 32 7) < P" by code_simp
  then show ?thesis using fe_encoding [of fe_0 fe_1 "replicate 32 7"] by simp
qed

text \<open>
  C99. The two chains of products raise to the powers they are for: the inverse is the power \<open>P - 2\<close> and the
  candidate of a square root takes the power \<open>(P - 5) / 8\<close>; their results are fit for a further product.
\<close>

theorem fe_powers:
  assumes "loose z"
  shows "fe_val (fe_invert z) mod P = fe_val z ^ nat (P - 2) mod P \<and>
    fe_val (fe_pow22523 z) mod P = fe_val z ^ nat ((P - 5) div 8) mod P \<and> loose (fe_invert z) \<and> loose (fe_pow22523 z)"
proof -
  have "nat (P - 2) = 2 ^ 255 - 21" "nat ((P - 5) div 8) = 2 ^ 252 - 3" by (simp_all add: P_def)
  then show ?thesis using pw_invert [OF assms] pw_22523 [OF assms] by (simp only: pw_def)
qed

lemma fe_powers_witness: "fe_val (fe_invert fe_1) mod P = 1"
  using fe_powers [of fe_1] by (simp add: P_def power_one)

end
