(* ===== verification/Sc25519.thy ===== *)
theory Sc25519
  imports FeBytes "HOL-Library.Monad_Syntax"
begin

unbundle bit_operations_syntax

text \<open>
  Scalars modulo the order of the base point, the ninth section of \<^verbatim>\<open>src/src/main/c/cookbook_ed25519.c\<close>. A scalar
  is 24 signed limbs of 21 bits; each C variable \<open>s0 .. s23\<close> is an entry of a list of integers, and an
  operation whose value leaves the 64 bits of the variable is \<open>None\<close>, since overflow is undefined there. That no
  step overflows is proved by running the same steps on intervals.
\<close>

section \<open>Limbs\<close>

definition fits :: "int \<Rightarrow> bool" where
  "fits x \<longleftrightarrow> - (2 ^ 63) \<le> x \<and> x < 2 ^ 63"

definition load_3 :: "byte list \<Rightarrow> u64" where
  "load_3 s = ucast (s ! 0) OR push_bit 8 (ucast (s ! 1)) OR push_bit 16 (ucast (s ! 2))"

definition load_4 :: "byte list \<Rightarrow> u64" where
  "load_4 s = ucast (s ! 0) OR push_bit 8 (ucast (s ! 1)) OR push_bit 16 (ucast (s ! 2)) OR push_bit 24 (ucast (s ! 3))"

text \<open>A limb: the word is shifted and masked.\<close>

definition limb :: "u64 \<Rightarrow> nat \<Rightarrow> int" where
  "limb w k = uint (2097151 AND drop_bit k w)"

definition add_limb :: "nat \<Rightarrow> int \<Rightarrow> int list \<Rightarrow> int list option" where
  "add_limb i x s = (if fits x \<and> fits (s ! i + x) then Some (s[i := s ! i + x]) else None)"

definition sub_limb :: "nat \<Rightarrow> int \<Rightarrow> int list \<Rightarrow> int list option" where
  "sub_limb i x s = (if fits x \<and> fits (s ! i - x) then Some (s[i := s ! i - x]) else None)"

text \<open>Limb \<open>k\<close> stands for a multiple of \<open>2\<^sup>2\<^sup>5\<^sup>2\<close>, which is small modulo the order: it is spread over six lower limbs.\<close>

definition fold_limb :: "nat \<Rightarrow> int list \<Rightarrow> int list option" where
  "fold_limb k s = do {
     let v = s ! k;
     s \<leftarrow> add_limb (k - 12) (v * 666643) s;
     s \<leftarrow> add_limb (k - 11) (v * 470296) s;
     s \<leftarrow> add_limb (k - 10) (v * 654183) s;
     s \<leftarrow> sub_limb (k - 9) (v * 997805) s;
     s \<leftarrow> add_limb (k - 8) (v * 136657) s;
     s \<leftarrow> sub_limb (k - 7) (v * 683901) s;
     Some (s[k := 0])
   }"

text \<open>A carry that rounds to the nearest multiple, and one that rounds down.\<close>

definition carry_round :: "nat \<Rightarrow> int list \<Rightarrow> int list option" where
  "carry_round i s =
     (if fits (s ! i + 2 ^ 20) then do {
        let c = drop_bit 21 (s ! i + 2 ^ 20);
        s \<leftarrow> add_limb (i + 1) c s;
        sub_limb i (c * 2 ^ 21) s
      } else None)"

definition carry_floor :: "nat \<Rightarrow> int list \<Rightarrow> int list option" where
  "carry_floor i s = do {
     s \<leftarrow> add_limb (i + 1) (drop_bit 21 (s ! i)) s;
     Some (s[i := s ! i AND 2097151])
   }"

text \<open>The same step at each index of a list, one after another.\<close>

fun each :: "(nat \<Rightarrow> 'a \<Rightarrow> 'a option) \<Rightarrow> nat list \<Rightarrow> 'a \<Rightarrow> 'a option" where
  "each f [] s = Some s" |
  "each f (i # is) s = do { s \<leftarrow> f i s; each f is s }"

text \<open>The reduction of 24 limbs; the code writes it out in both functions.\<close>

definition sc_fold :: "int list \<Rightarrow> int list option" where
  "sc_fold s = do {
     s \<leftarrow> each fold_limb [23, 22, 21, 20, 19, 18] s;
     s \<leftarrow> each carry_round [6, 8, 10, 12, 14, 16] s;
     s \<leftarrow> each carry_round [7, 9, 11, 13, 15] s;
     s \<leftarrow> each fold_limb [17, 16, 15, 14, 13, 12] s;
     s \<leftarrow> each carry_round [0, 2, 4, 6, 8, 10] s;
     s \<leftarrow> each carry_round [1, 3, 5, 7, 9, 11] s;
     s \<leftarrow> fold_limb 12 s;
     s \<leftarrow> each carry_floor [0, 1, 2, 3, 4, 5, 6, 7, 8, 9, 10, 11] s;
     s \<leftarrow> fold_limb 12 s;
     each carry_floor [0, 1, 2, 3, 4, 5, 6, 7, 8, 9, 10] s
   }"

text \<open>The bytes of twelve limbs of 21 bits.\<close>

definition sc_bytes :: "int list \<Rightarrow> byte list" where
  "sc_bytes s = map word_of_int
    [drop_bit 0 (s ! 0), drop_bit 8 (s ! 0), drop_bit 16 (s ! 0) OR s ! 1 * 2 ^ 5,
     drop_bit 3 (s ! 1), drop_bit 11 (s ! 1), drop_bit 19 (s ! 1) OR s ! 2 * 2 ^ 2,
     drop_bit 6 (s ! 2), drop_bit 14 (s ! 2) OR s ! 3 * 2 ^ 7,
     drop_bit 1 (s ! 3), drop_bit 9 (s ! 3), drop_bit 17 (s ! 3) OR s ! 4 * 2 ^ 4,
     drop_bit 4 (s ! 4), drop_bit 12 (s ! 4), drop_bit 20 (s ! 4) OR s ! 5 * 2 ^ 1,
     drop_bit 7 (s ! 5), drop_bit 15 (s ! 5) OR s ! 6 * 2 ^ 6,
     drop_bit 2 (s ! 6), drop_bit 10 (s ! 6), drop_bit 18 (s ! 6) OR s ! 7 * 2 ^ 3,
     drop_bit 5 (s ! 7), drop_bit 13 (s ! 7),
     drop_bit 0 (s ! 8), drop_bit 8 (s ! 8), drop_bit 16 (s ! 8) OR s ! 9 * 2 ^ 5,
     drop_bit 3 (s ! 9), drop_bit 11 (s ! 9), drop_bit 19 (s ! 9) OR s ! 10 * 2 ^ 2,
     drop_bit 6 (s ! 10), drop_bit 14 (s ! 10) OR s ! 11 * 2 ^ 7,
     drop_bit 1 (s ! 11), drop_bit 9 (s ! 11), drop_bit 17 (s ! 11)]"

section \<open>Reduction of a hash\<close>

definition sc_load64 :: "byte list \<Rightarrow> int list" where
  "sc_load64 s =
    [limb (load_3 s) 0, limb (load_4 (drop 2 s)) 5, limb (load_3 (drop 5 s)) 2, limb (load_4 (drop 7 s)) 7,
     limb (load_4 (drop 10 s)) 4, limb (load_3 (drop 13 s)) 1, limb (load_4 (drop 15 s)) 6, limb (load_3 (drop 18 s)) 3,
     limb (load_3 (drop 21 s)) 0, limb (load_4 (drop 23 s)) 5, limb (load_3 (drop 26 s)) 2, limb (load_4 (drop 28 s)) 7,
     limb (load_4 (drop 31 s)) 4, limb (load_3 (drop 34 s)) 1, limb (load_4 (drop 36 s)) 6, limb (load_3 (drop 39 s)) 3,
     limb (load_3 (drop 42 s)) 0, limb (load_4 (drop 44 s)) 5, limb (load_3 (drop 47 s)) 2, limb (load_4 (drop 49 s)) 7,
     limb (load_4 (drop 52 s)) 4, limb (load_3 (drop 55 s)) 1, limb (load_4 (drop 57 s)) 6, uint (drop_bit 3 (load_4 (drop 60 s)))]"

text \<open>The result replaces the first 32 bytes of the buffer.\<close>

definition sc_reduce :: "byte list \<Rightarrow> byte list option" where
  "sc_reduce s = do { r \<leftarrow> sc_fold (sc_load64 s); Some (sc_bytes r @ drop 32 s) }"

section \<open>Product and sum\<close>

definition sc_load32 :: "byte list \<Rightarrow> int list" where
  "sc_load32 s =
    [limb (load_3 s) 0, limb (load_4 (drop 2 s)) 5, limb (load_3 (drop 5 s)) 2, limb (load_4 (drop 7 s)) 7,
     limb (load_4 (drop 10 s)) 4, limb (load_3 (drop 13 s)) 1, limb (load_4 (drop 15 s)) 6, limb (load_3 (drop 18 s)) 3,
     limb (load_3 (drop 21 s)) 0, limb (load_4 (drop 23 s)) 5, limb (load_3 (drop 26 s)) 2, uint (drop_bit 7 (load_4 (drop 28 s)))]"

text \<open>A sum from left to right, each product and each partial sum within its variable.\<close>

fun sum_up :: "int \<Rightarrow> int list \<Rightarrow> int option" where
  "sum_up a [] = Some a" |
  "sum_up a (x # xs) = (if fits x \<and> fits (a + x) then sum_up (a + x) xs else None)"

text \<open>The products of limbs whose indices sum to \<open>k\<close>, in the order of the code.\<close>

definition conv :: "int list \<Rightarrow> int list \<Rightarrow> nat \<Rightarrow> int list" where
  "conv a b k = map (\<lambda>i. a ! i * b ! (k - i)) [k - 11..<Suc (min k 11)]"

definition sc_products :: "int list \<Rightarrow> int list \<Rightarrow> int list \<Rightarrow> int list option" where
  "sc_products a b c = do {
     s \<leftarrow> those (map (\<lambda>k. sum_up (if k < 12 then c ! k else 0) (conv a b k)) [0..<23]);
     Some (s @ [0])
   }"

definition sc_muladd :: "byte list \<Rightarrow> byte list \<Rightarrow> byte list \<Rightarrow> byte list option" where
  "sc_muladd a b c = do {
     s \<leftarrow> sc_products (sc_load32 a) (sc_load32 b) (sc_load32 c);
     s \<leftarrow> each carry_round [0, 2, 4, 6, 8, 10, 12, 14, 16, 18, 20, 22] s;
     s \<leftarrow> each carry_round [1, 3, 5, 7, 9, 11, 13, 15, 17, 19, 21] s;
     s \<leftarrow> sc_fold s;
     Some (sc_bytes s)
   }"

section \<open>The value of the limbs\<close>

definition L :: int where
  "L = 2 ^ 252 + 27742317777372353535851937790883648493"

definition sc_val :: "int list \<Rightarrow> int" where
  "sc_val s = foldr (\<lambda>x v. x + 2 ^ 21 * v) s 0"

lemma sc_val_simps [simp]: "sc_val [] = 0" "sc_val (x # s) = x + 2 ^ 21 * sc_val s"
  by (simp_all add: sc_val_def)

lemma sc_val_update: "i < length s \<Longrightarrow> sc_val (s[i := x]) = sc_val s + (x - s ! i) * 2 ^ (21 * i)"
proof (induction s arbitrary: i)
  case (Cons a s)
  show ?case
  proof (cases i)
    case (Suc j)
    with Cons have "sc_val (s[j := x]) = sc_val s + (x - s ! j) * 2 ^ (21 * j)" by simp
    with Suc show ?thesis by (simp add: algebra_simps power_add)
  qed simp
qed simp

text \<open>Operations that keep the number of limbs and change the value as given.\<close>

definition moves :: "(int list \<Rightarrow> int list option) \<Rightarrow> bool" where
  "moves f \<longleftrightarrow> (\<forall>s s'. length s = 24 \<and> f s = Some s' \<longrightarrow> length s' = 24 \<and> sc_val s' mod L = sc_val s mod L)"

lemma moves_bind: "moves f \<Longrightarrow> moves g \<Longrightarrow> moves (\<lambda>s. f s \<bind> g)"
proof -
  assume f: "moves f" and g: "moves g"
  have "length s' = 24 \<and> sc_val s' mod L = sc_val s mod L" if s: "length s = 24" "f s \<bind> g = Some s'" for s s'
  proof -
    from s(2) obtain t where t: "f s = Some t" "g t = Some s'" by (auto split: bind_splits)
    then have "length t = 24 \<and> sc_val t mod L = sc_val s mod L" using f s(1) unfolding moves_def by blast
    moreover from this have "length s' = 24 \<and> sc_val s' mod L = sc_val t mod L" using g t(2) unfolding moves_def by blast
    ultimately show ?thesis by simp
  qed
  then show ?thesis unfolding moves_def by blast
qed

lemma moves_each: "(\<And>i. i \<in> set is \<Longrightarrow> moves (f i)) \<Longrightarrow> moves (each f is)"
proof (induction "is")
  case (Cons i "is")
  then have "moves (f i)" "moves (each f is)" by simp_all
  from moves_bind [OF this] show ?case by (simp add: moves_def)
qed (simp add: moves_def)

lemma add_limb_val: "add_limb i x s = Some s' \<Longrightarrow> i < length s \<Longrightarrow> sc_val s' = sc_val s + x * 2 ^ (21 * i)"
  by (auto simp: add_limb_def sc_val_update split: if_splits)

lemma sub_limb_val: "sub_limb i x s = Some s' \<Longrightarrow> i < length s \<Longrightarrow> sc_val s' = sc_val s - x * 2 ^ (21 * i)"
  by (auto simp: sub_limb_def sc_val_update algebra_simps split: if_splits)

lemma limb_frame:
  "add_limb i x s = Some s' \<Longrightarrow> length s' = length s \<and> (j \<noteq> i \<longrightarrow> s' ! j = s ! j)"
  "sub_limb i x s = Some s' \<Longrightarrow> length s' = length s \<and> (j \<noteq> i \<longrightarrow> s' ! j = s ! j)"
  by (auto simp: add_limb_def sub_limb_def split: if_splits)

text \<open>The six constants are \<open>2\<^sup>2\<^sup>5\<^sup>2\<close> modulo the order.\<close>

lemma fold_constants:
  "666643 + 470296 * 2 ^ 21 + 654183 * 2 ^ 42 - 997805 * 2 ^ 63 + 136657 * 2 ^ 84 - 683901 * 2 ^ 105 = 2 ^ 252 - L"
  by (simp add: L_def)

lemma fold_limb_val:
  assumes "12 \<le> k" "k < 24" "length s = 24" "fold_limb k s = Some s'"
  shows "length s' = 24" and "sc_val s' = sc_val s - L * (s ! k * 2 ^ (21 * (k - 12)))"
proof -
  let ?v = "s ! k"
  from assms(4) obtain s1 s2 s3 s4 s5 s6 where
    s: "add_limb (k - 12) (?v * 666643) s = Some s1" "add_limb (k - 11) (?v * 470296) s1 = Some s2"
      "add_limb (k - 10) (?v * 654183) s2 = Some s3" "sub_limb (k - 9) (?v * 997805) s3 = Some s4"
      "add_limb (k - 8) (?v * 136657) s4 = Some s5" "sub_limb (k - 7) (?v * 683901) s5 = Some s6" "s' = s6[k := 0]"
    by (auto simp: fold_limb_def Let_def split: bind_splits)
  have ne: "k \<noteq> k - 12" "k \<noteq> k - 11" "k \<noteq> k - 10" "k \<noteq> k - 9" "k \<noteq> k - 8" "k \<noteq> k - 7" using assms by simp_all
  note f = limb_frame(1) [OF s(1), of k] limb_frame(1) [OF s(2), of k] limb_frame(1) [OF s(3), of k]
    limb_frame(2) [OF s(4), of k] limb_frame(1) [OF s(5), of k] limb_frame(2) [OF s(6), of k]
  have l: "length s6 = 24" "s6 ! k = ?v" using f ne assms(3) by simp_all
  have len: "length s1 = 24" "length s2 = 24" "length s3 = 24" "length s4 = 24" "length s5 = 24" using f assms(3) by simp_all
  define B where "B = (2 :: int) ^ (21 * (k - 12))"
  have e: "(2 :: int) ^ (21 * (k - 11)) = B * 2 ^ 21" "(2 :: int) ^ (21 * (k - 10)) = B * 2 ^ 42" "(2 :: int) ^ (21 * (k - 9)) = B * 2 ^ 63"
    "(2 :: int) ^ (21 * (k - 8)) = B * 2 ^ 84" "(2 :: int) ^ (21 * (k - 7)) = B * 2 ^ 105" "(2 :: int) ^ (21 * k) = B * 2 ^ 252"
    unfolding B_def power_add [symmetric] using assms(1,2) by (intro arg_cong [where f = "power 2"], simp)+
  have v: "sc_val s1 = sc_val s + ?v * 666643 * B" "sc_val s2 = sc_val s1 + ?v * 470296 * (B * 2 ^ 21)"
    "sc_val s3 = sc_val s2 + ?v * 654183 * (B * 2 ^ 42)" "sc_val s4 = sc_val s3 - ?v * 997805 * (B * 2 ^ 63)"
    "sc_val s5 = sc_val s4 + ?v * 136657 * (B * 2 ^ 84)" "sc_val s6 = sc_val s5 - ?v * 683901 * (B * 2 ^ 105)"
    "sc_val s' = sc_val s6 - ?v * (B * 2 ^ 252)"
    using add_limb_val [OF s(1)] add_limb_val [OF s(2)] add_limb_val [OF s(3)] sub_limb_val [OF s(4)] add_limb_val [OF s(5)]
      sub_limb_val [OF s(6)] assms(1-3) by (simp_all only: len e B_def [symmetric] s(7) sc_val_update l) simp_all
  have "sc_val s' = sc_val s + ?v * B * (666643 + 470296 * 2 ^ 21 + 654183 * 2 ^ 42 - 997805 * 2 ^ 63 + 136657 * 2 ^ 84 - 683901 * 2 ^ 105) -
      ?v * (B * 2 ^ 252)"
    unfolding v by (simp add: algebra_simps)
  then show "sc_val s' = sc_val s - L * (?v * 2 ^ (21 * (k - 12)))" unfolding fold_constants by (simp add: algebra_simps B_def)
  show "length s' = 24" using l s(7) by simp
qed

lemma fold_limb_moves: "12 \<le> k \<Longrightarrow> k < 24 \<Longrightarrow> moves (fold_limb k)"
proof -
  have e: "(x - L * y) mod L = x mod L" for x y using mod_mult_self2 [of x L "- y"] by simp
  assume "12 \<le> k" "k < 24"
  then show ?thesis unfolding moves_def by (metis fold_limb_val e)
qed

lemma carry_round_moves:
  assumes "i < 23"
  shows "moves (carry_round i)"
  unfolding moves_def
proof (intro allI impI)
  fix s s'
  assume a: "length s = 24 \<and> carry_round i s = Some s'"
  then obtain s1 c where s: "add_limb (i + 1) c s = Some s1" "sub_limb i (c * 2 ^ 21) s1 = Some s'"
    by (auto simp: carry_round_def Let_def split: bind_splits if_splits)
  have "length s' = 24" "length s1 = 24" using limb_frame(1) [OF s(1)] limb_frame(2) [OF s(2)] a by simp_all
  moreover from this have "sc_val s' = sc_val s"
    using add_limb_val [OF s(1)] sub_limb_val [OF s(2)] a assms by (simp add: power_add)
  ultimately show "length s' = 24 \<and> sc_val s' mod L = sc_val s mod L" by simp
qed

lemma and_21: "v AND 2097151 = v mod 2 ^ 21" for v :: int
proof -
  have "(2097151 :: int) = mask 21" by (simp add: mask_eq_exp_minus_1)
  then show ?thesis by (simp only: take_bit_eq_mask [symmetric] take_bit_eq_mod)
qed

lemma carry_floor_val:
  assumes "i < 23" "length s = 24" "carry_floor i s = Some s'"
  shows "length s' = 24" and "sc_val s' = sc_val s"
proof -
  from assms(3) obtain s1 where s: "add_limb (i + 1) (drop_bit 21 (s ! i)) s = Some s1" "s' = s1[i := s ! i mod 2 ^ 21]"
    by (auto simp: carry_floor_def and_21 limb_frame(1) split: bind_splits)
  have l: "length s1 = 24" "s1 ! i = s ! i" using limb_frame(1) [OF s(1), of i] assms by simp_all
  have "sc_val s' = sc_val s + (s ! i div 2 ^ 21) * 2 ^ (21 * (i + 1)) + (s ! i mod 2 ^ 21 - s ! i) * 2 ^ (21 * i)"
    using add_limb_val [OF s(1)] l assms by (simp add: s(2) sc_val_update drop_bit_eq_div)
  also have "\<dots> = sc_val s" by (simp add: minus_div_mult_eq_mod [symmetric] power_add algebra_simps)
  finally show "sc_val s' = sc_val s" .
  show "length s' = 24" using l s(2) by simp
qed

lemma carry_floor_moves: "i < 23 \<Longrightarrow> moves (carry_floor i)"
  unfolding moves_def by (metis carry_floor_val)

lemma carries_floor_val:
  "\<forall>i \<in> set is. i < 23 \<Longrightarrow> length s = 24 \<Longrightarrow> each carry_floor is s = Some s' \<Longrightarrow> length s' = 24 \<and> sc_val s' = sc_val s"
proof (induction "is" arbitrary: s)
  case (Cons i "is")
  then obtain t where "carry_floor i s = Some t" "each carry_floor is t = Some s'" by (auto split: bind_splits)
  with Cons carry_floor_val [of i s t] show ?case by simp
qed simp

text \<open>The reduction up to the first round of carries that rounds down.\<close>

definition sc_fold_head :: "int list \<Rightarrow> int list option" where
  "sc_fold_head s =
     each fold_limb [23, 22, 21, 20, 19, 18] s \<bind> each carry_round [6, 8, 10, 12, 14, 16] \<bind> each carry_round [7, 9, 11, 13, 15] \<bind>
     each fold_limb [17, 16, 15, 14, 13, 12] \<bind> each carry_round [0, 2, 4, 6, 8, 10] \<bind> each carry_round [1, 3, 5, 7, 9, 11] \<bind>
     fold_limb 12 \<bind> each carry_floor [0, 1, 2, 3, 4, 5, 6, 7, 8, 9, 10, 11]"

lemma sc_fold_split:
  "sc_fold s = sc_fold_head s \<bind> fold_limb 12 \<bind> each carry_floor [0, 1, 2, 3, 4, 5, 6, 7, 8, 9, 10]"
  by (simp only: sc_fold_def sc_fold_head_def Option.bind_assoc)

lemma sc_fold_head_moves: "moves sc_fold_head"
  unfolding sc_fold_head_def by (intro moves_bind moves_each fold_limb_moves carry_round_moves carry_floor_moves) auto

section \<open>The steps on intervals\<close>

type_synonym box = "(int \<times> int) list"

definition inside :: "box \<Rightarrow> int list \<Rightarrow> bool" where
  "inside b s \<longleftrightarrow> list_all2 (\<lambda>(l, h) x. l \<le> x \<and> x \<le> h) b s"

lemma insideD: "inside b s \<Longrightarrow> length s = length b" "inside b s \<Longrightarrow> i < length b \<Longrightarrow> b ! i = (l, h) \<Longrightarrow> l \<le> s ! i \<and> s ! i \<le> h"
  by (auto simp: inside_def dest: list_all2_lengthD) (force dest: list_all2_nthD)+

lemma inside_update: "inside b s \<Longrightarrow> l \<le> x \<Longrightarrow> x \<le> h \<Longrightarrow> inside (b[i := (l, h)]) (s[i := x])"
  by (simp add: inside_def list_all2_update_cong)

definition box_add :: "nat \<Rightarrow> int \<times> int \<Rightarrow> box \<Rightarrow> box option" where
  "box_add i r b =
     (if i < length b \<and> fits (fst r) \<and> fits (snd r) \<and> fits (fst (b ! i) + fst r) \<and> fits (snd (b ! i) + snd r)
      then Some (b[i := (fst (b ! i) + fst r, snd (b ! i) + snd r)]) else None)"

definition box_sub :: "nat \<Rightarrow> int \<times> int \<Rightarrow> box \<Rightarrow> box option" where
  "box_sub i r b =
     (if i < length b \<and> fits (fst r) \<and> fits (snd r) \<and> fits (fst (b ! i) - snd r) \<and> fits (snd (b ! i) - fst r)
      then Some (b[i := (fst (b ! i) - snd r, snd (b ! i) - fst r)]) else None)"

definition box_fold :: "nat \<Rightarrow> box \<Rightarrow> box option" where
  "box_fold k b =
     (if k < length b then
        let r = (\<lambda>c. (fst (b ! k) * c, snd (b ! k) * c))
        in box_add (k - 12) (r 666643) b \<bind> box_add (k - 11) (r 470296) \<bind> box_add (k - 10) (r 654183) \<bind>
           box_sub (k - 9) (r 997805) \<bind> box_add (k - 8) (r 136657) \<bind> box_sub (k - 7) (r 683901) \<bind> (\<lambda>b. Some (b[k := (0, 0)]))
      else None)"

definition box_round :: "nat \<Rightarrow> box \<Rightarrow> box option" where
  "box_round i b =
     (if i < length b \<and> fits (fst (b ! i) - 2 ^ 20) \<and> fits (snd (b ! i) + 2 ^ 20) then
        box_add (i + 1) ((fst (b ! i) + 2 ^ 20) div 2 ^ 21, (snd (b ! i) + 2 ^ 20) div 2 ^ 21) b \<bind> (\<lambda>b. Some (b[i := (- (2 ^ 20), 2 ^ 20 - 1)]))
      else None)"

definition box_floor :: "nat \<Rightarrow> box \<Rightarrow> box option" where
  "box_floor i b =
     (if i < length b then
        box_add (i + 1) (fst (b ! i) div 2 ^ 21, snd (b ! i) div 2 ^ 21) b \<bind> (\<lambda>b. Some (b[i := (0, 2 ^ 21 - 1)]))
      else None)"

text \<open>A step on intervals covers a step on limbs: the limbs stay inside, and no variable overflows.\<close>

definition covers :: "(box \<Rightarrow> box option) \<Rightarrow> (int list \<Rightarrow> int list option) \<Rightarrow> bool" where
  "covers g f \<longleftrightarrow> (\<forall>b b' s. inside b s \<and> g b = Some b' \<longrightarrow> (\<exists>s'. f s = Some s' \<and> inside b' s'))"

lemma coversD: "covers g f \<Longrightarrow> inside b s \<Longrightarrow> g b = Some b' \<Longrightarrow> \<exists>s'. f s = Some s' \<and> inside b' s'"
  unfolding covers_def by blast

lemma covers_bind: "covers g f \<Longrightarrow> covers g' f' \<Longrightarrow> covers (\<lambda>b. g b \<bind> g') (\<lambda>s. f s \<bind> f')"
proof -
  assume c: "covers g f" "covers g' f'"
  have "\<exists>s'. f s \<bind> f' = Some s' \<and> inside b' s'" if b: "inside b s" "g b \<bind> g' = Some b'" for b b' s
  proof -
    from b(2) obtain d where d: "g b = Some d" "g' d = Some b'" by (auto split: bind_splits)
    from coversD [OF c(1) b(1) d(1)] obtain t where t: "f s = Some t" "inside d t" by blast
    from coversD [OF c(2) t(2) d(2)] t(1) show ?thesis by simp
  qed
  then show ?thesis unfolding covers_def by blast
qed

lemma covers_each: "(\<And>i. i \<in> set is \<Longrightarrow> covers (g i) (f i)) \<Longrightarrow> covers (each g is) (each f is)"
proof (induction "is")
  case (Cons i "is")
  then have "covers (g i) (f i)" "covers (each g is) (each f is)" by simp_all
  from covers_bind [OF this] show ?case by (simp add: covers_def)
qed (simp add: covers_def)

lemma fits_between: "fits l \<Longrightarrow> fits h \<Longrightarrow> l \<le> x \<Longrightarrow> x \<le> h \<Longrightarrow> fits x"
  by (simp add: fits_def)

lemma box_add_covers:
  assumes "inside b s" "box_add i (l, h) b = Some b'" "l \<le> x" "x \<le> h"
  shows "\<exists>s'. add_limb i x s = Some s' \<and> inside b' s' \<and> s' = s[i := s ! i + x]"
proof -
  obtain l' h' where b: "b ! i = (l', h')" by fastforce
  with assms(2) have c: "i < length b" "fits l" "fits h" "fits (l' + l)" "fits (h' + h)" "b' = b[i := (l' + l, h' + h)]"
    by (auto simp: box_add_def split: if_splits)
  note s = insideD(2) [OF assms(1) c(1) b]
  have f: "fits x" using assms(3,4) by (rule fits_between [OF c(2,3)])
  have "fits (s ! i + x)" by (rule fits_between [OF c(4,5)]) (use s assms(3,4) in linarith)+
  moreover have "inside b' (s[i := s ! i + x])" unfolding c(6) by (rule inside_update [OF assms(1)]) (use s assms(3,4) in linarith)+
  ultimately show ?thesis using f by (simp add: add_limb_def)
qed

lemma box_sub_covers:
  assumes "inside b s" "box_sub i (l, h) b = Some b'" "l \<le> x" "x \<le> h"
  shows "\<exists>s'. sub_limb i x s = Some s' \<and> inside b' s' \<and> s' = s[i := s ! i - x]"
proof -
  obtain l' h' where b: "b ! i = (l', h')" by fastforce
  with assms(2) have c: "i < length b" "fits l" "fits h" "fits (l' - h)" "fits (h' - l)" "b' = b[i := (l' - h, h' - l)]"
    by (auto simp: box_sub_def split: if_splits)
  note s = insideD(2) [OF assms(1) c(1) b]
  have f: "fits x" using assms(3,4) by (rule fits_between [OF c(2,3)])
  have "fits (s ! i - x)" by (rule fits_between [OF c(4,5)]) (use s assms(3,4) in linarith)+
  moreover have "inside b' (s[i := s ! i - x])" unfolding c(6) by (rule inside_update [OF assms(1)]) (use s assms(3,4) in linarith)+
  ultimately show ?thesis using f by (simp add: sub_limb_def)
qed

lemma box_fold_covers: "covers (box_fold k) (fold_limb k)"
  unfolding covers_def
proof (intro allI impI)
  fix b b' s
  assume a: "inside b s \<and> box_fold k b = Some b'"
  obtain l h where b: "b ! k = (l, h)" by fastforce
  let ?v = "s ! k"
  from a have k: "k < length b" by (auto simp: box_fold_def split: if_splits)
  from a k obtain b1 b2 b3 b4 b5 b6 where
    g: "box_add (k - 12) (l * 666643, h * 666643) b = Some b1" "box_add (k - 11) (l * 470296, h * 470296) b1 = Some b2"
      "box_add (k - 10) (l * 654183, h * 654183) b2 = Some b3" "box_sub (k - 9) (l * 997805, h * 997805) b3 = Some b4"
      "box_add (k - 8) (l * 136657, h * 136657) b4 = Some b5" "box_sub (k - 7) (l * 683901, h * 683901) b5 = Some b6" "b' = b6[k := (0, 0)]"
    by (auto simp: box_fold_def Let_def b split: bind_splits)
  have v: "l \<le> ?v" "?v \<le> h" using insideD(2) [OF _ k b] a by simp_all
  have m: "l * c \<le> ?v * c" "?v * c \<le> h * c" if "0 \<le> c" for c using v that by (simp_all add: mult_right_mono)
  have a': "inside b s" using a by simp
  obtain s1 where s1: "add_limb (k - 12) (?v * 666643) s = Some s1" "inside b1 s1" using box_add_covers [OF a' g(1) m] by auto
  obtain s2 where s2: "add_limb (k - 11) (?v * 470296) s1 = Some s2" "inside b2 s2" using box_add_covers [OF s1(2) g(2) m] by auto
  obtain s3 where s3: "add_limb (k - 10) (?v * 654183) s2 = Some s3" "inside b3 s3" using box_add_covers [OF s2(2) g(3) m] by auto
  obtain s4 where s4: "sub_limb (k - 9) (?v * 997805) s3 = Some s4" "inside b4 s4" using box_sub_covers [OF s3(2) g(4) m] by auto
  obtain s5 where s5: "add_limb (k - 8) (?v * 136657) s4 = Some s5" "inside b5 s5" using box_add_covers [OF s4(2) g(5) m] by auto
  obtain s6 where s6: "sub_limb (k - 7) (?v * 683901) s5 = Some s6" "inside b6 s6" using box_sub_covers [OF s5(2) g(6) m] by auto
  have "inside b' (s6[k := 0])" unfolding g(7) by (rule inside_update [OF s6(2)]) simp_all
  then show "\<exists>s'. fold_limb k s = Some s' \<and> inside b' s'"
    by (simp add: fold_limb_def Let_def s1(1) s2(1) s3(1) s4(1) s5(1) s6(1))
qed

lemma box_round_covers: "covers (box_round i) (carry_round i)"
  unfolding covers_def
proof (intro allI impI)
  fix b b' s
  assume a: "inside b s \<and> box_round i b = Some b'"
  obtain l h where b: "b ! i = (l, h)" by fastforce
  from a obtain b1 where g: "i < length b" "fits (l - 2 ^ 20)" "fits (h + 2 ^ 20)"
    "box_add (i + 1) ((l + 2 ^ 20) div 2 ^ 21, (h + 2 ^ 20) div 2 ^ 21) b = Some b1" "b' = b1[i := (- (2 ^ 20), 2 ^ 20 - 1)]"
    by (auto simp: box_round_def b split: if_splits bind_splits)
  let ?v = "s ! i"
  let ?c = "(?v + 2 ^ 20) div 2 ^ 21"
  have v: "l \<le> ?v" "?v \<le> h" using insideD(2) [OF _ g(1) b] a by simp_all
  have c: "(l + 2 ^ 20) div 2 ^ 21 \<le> ?c" "?c \<le> (h + 2 ^ 20) div 2 ^ 21" using v by (intro zdiv_mono1; simp)+
  obtain s1 where s1: "add_limb (i + 1) ?c s = Some s1" "inside b1 s1" "s1 = s[i + 1 := s ! (i + 1) + ?c]"
    using box_add_covers [OF _ g(4) c] a by auto
  have n: "s1 ! i = ?v" by (simp add: s1(3))
  have d: "?c * 2 ^ 21 = ?v + 2 ^ 20 - (?v + 2 ^ 20) mod 2 ^ 21" by (simp add: minus_mod_eq_div_mult)
  have r: "0 \<le> (?v + 2 ^ 20) mod 2 ^ 21" "(?v + 2 ^ 20) mod 2 ^ 21 < 2 * 2 ^ 20" using pos_mod_bound [of "2 ^ 21" "?v + 2 ^ 20"] by simp_all
  have "l - 2 ^ 20 \<le> ?c * 2 ^ 21" unfolding d using v r by linarith
  moreover have "?c * 2 ^ 21 \<le> h + 2 ^ 20" unfolding d using v r by linarith
  ultimately have f: "fits (?c * 2 ^ 21)" by (rule fits_between [OF g(2,3)])
  have w: "- (2 ^ 20) \<le> ?v - ?c * 2 ^ 21" "?v - ?c * 2 ^ 21 \<le> 2 ^ 20 - 1" unfolding d using r by simp_all
  then have "fits (?v - ?c * 2 ^ 21)" by (simp add: fits_def)
  with f have "sub_limb i (?c * 2 ^ 21) s1 = Some (s1[i := ?v - ?c * 2 ^ 21])" by (simp add: sub_limb_def n)
  moreover have "inside b' (s1[i := ?v - ?c * 2 ^ 21])" unfolding g(5) by (rule inside_update [OF s1(2) w])
  moreover have "fits (?v + 2 ^ 20)" using v by (intro fits_between [OF g(2,3)]) simp_all
  ultimately show "\<exists>s'. carry_round i s = Some s' \<and> inside b' s'"
    using s1(1) by (simp add: carry_round_def Let_def drop_bit_eq_div)
qed

lemma box_floor_covers: "covers (box_floor i) (carry_floor i)"
  unfolding covers_def
proof (intro allI impI)
  fix b b' s
  assume a: "inside b s \<and> box_floor i b = Some b'"
  obtain l h where b: "b ! i = (l, h)" by fastforce
  from a obtain b1 where g: "i < length b" "box_add (i + 1) (l div 2 ^ 21, h div 2 ^ 21) b = Some b1" "b' = b1[i := (0, 2 ^ 21 - 1)]"
    by (auto simp: box_floor_def b split: if_splits bind_splits)
  let ?v = "s ! i"
  have v: "l \<le> ?v" "?v \<le> h" using insideD(2) [OF _ g(1) b] a by simp_all
  have c: "l div 2 ^ 21 \<le> ?v div 2 ^ 21" "?v div 2 ^ 21 \<le> h div 2 ^ 21" using v by (intro zdiv_mono1; simp)+
  obtain s1 where s1: "add_limb (i + 1) (?v div 2 ^ 21) s = Some s1" "inside b1 s1" "s1 = s[i + 1 := s ! (i + 1) + ?v div 2 ^ 21]"
    using box_add_covers [OF _ g(2) c] a by auto
  have n: "s1 ! i = ?v" by (simp add: s1(3))
  have "inside b' (s1[i := ?v mod 2 ^ 21])" unfolding g(3) by (rule inside_update [OF s1(2)]) simp_all
  then show "\<exists>s'. carry_floor i s = Some s' \<and> inside b' s'"
    using s1(1) n by (simp add: carry_floor_def drop_bit_eq_div and_21)
qed

definition box_reduce :: "box \<Rightarrow> box option" where
  "box_reduce b =
     each box_fold [23, 22, 21, 20, 19, 18] b \<bind> each box_round [6, 8, 10, 12, 14, 16] \<bind> each box_round [7, 9, 11, 13, 15] \<bind>
     each box_fold [17, 16, 15, 14, 13, 12] \<bind> each box_round [0, 2, 4, 6, 8, 10] \<bind> each box_round [1, 3, 5, 7, 9, 11] \<bind>
     box_fold 12 \<bind> each box_floor [0, 1, 2, 3, 4, 5, 6, 7, 8, 9, 10, 11]"

lemma box_reduce_covers: "covers box_reduce sc_fold_head"
  unfolding box_reduce_def sc_fold_head_def
  by (intro covers_bind covers_each box_fold_covers box_round_covers box_floor_covers)

text \<open>After that, twelve limbs are digits and the next one is 0 or \<open>- 1\<close>.\<close>

definition digits_box :: box where
  "digits_box = replicate 12 (0, 2 ^ 21 - 1) @ (- 1, 0) # replicate 11 (0, 0)"

lemma box_tail: "box_fold 12 digits_box \<bind> each box_floor [0, 1, 2, 3, 4, 5, 6, 7, 8, 9, 10] =
  Some (replicate 11 (0, 2 ^ 21 - 1) @ (- 1, 2 ^ 21) # replicate 12 (0, 0))"
  by code_simp

lemma sc_val_append: "sc_val (xs @ ys) = sc_val xs + 2 ^ (21 * length xs) * sc_val ys"
  by (induction xs) (simp_all add: algebra_simps power_add)

lemma digits_range: "\<forall>x \<in> set s. 0 \<le> x \<and> x < 2 ^ 21 \<Longrightarrow> 0 \<le> sc_val s \<and> sc_val s < 2 ^ (21 * length s)"
proof (induction s)
  case (Cons x s)
  then have "0 \<le> x" "x \<le> 2 ^ 21 - 1" "0 \<le> sc_val s" "sc_val s \<le> 2 ^ (21 * length s) - 1" by simp_all
  then have "x + 2 ^ 21 * sc_val s \<le> (2 ^ 21 - 1) + 2 ^ 21 * (2 ^ (21 * length s) - 1)" by (intro add_mono mult_left_mono) simp_all
  with \<open>0 \<le> x\<close> \<open>0 \<le> sc_val s\<close> show ?case by (simp add: power_add algebra_simps)
qed simp

lemma inside_digits:
  "inside (replicate n (0, 2 ^ 21 - 1) @ (l, h) # replicate m (0, 0)) s \<Longrightarrow>
     \<exists>d x. s = d @ x # replicate m 0 \<and> length d = n \<and> l \<le> x \<and> x \<le> h \<and> (\<forall>y \<in> set d. 0 \<le> y \<and> y < 2 ^ 21)"
proof -
  have zero: "list_all2 (\<lambda>(l, h) x. l \<le> x \<and> x \<le> (h :: int)) (replicate m (0, 0)) z \<Longrightarrow> z = replicate m 0" for z
    by (induction m arbitrary: z) (auto simp: list_all2_Cons1)
  have dig: "list_all2 (\<lambda>(l, h) x. l \<le> x \<and> x \<le> (h :: int)) (replicate n (0, 2 ^ 21 - 1)) z \<Longrightarrow> length z = n \<and> (\<forall>y \<in> set z. 0 \<le> y \<and> y < 2 ^ 21)" for z
    by (induction n arbitrary: z) (auto simp: list_all2_Cons1)
  assume "inside (replicate n (0, 2 ^ 21 - 1) @ (l, h) # replicate m (0, 0)) s"
  then obtain d x z where "s = d @ x # z" "l \<le> x" "x \<le> h"
    "list_all2 (\<lambda>(l, h) x. l \<le> x \<and> x \<le> h) (replicate n (0, 2 ^ 21 - 1)) d" "list_all2 (\<lambda>(l, h) x. l \<le> x \<and> x \<le> h) (replicate m (0, 0)) z"
    unfolding inside_def by (auto simp: list_all2_append1 list_all2_Cons1)
  with zero [of z] dig [of d] show ?thesis by blast
qed

lemma sc_fold_ok:
  assumes "inside b s" "length s = 24" "box_reduce b = Some digits_box"
  shows "\<exists>d x. sc_fold s = Some (d @ x # replicate 12 0) \<and> length d = 11 \<and> (\<forall>y \<in> set d. 0 \<le> y \<and> y < 2 ^ 21) \<and> 0 \<le> x \<and> x \<le> 2 ^ 21 \<and>
    sc_val (d @ [x]) = sc_val s mod L"
proof -
  from coversD [OF box_reduce_covers assms(1,3)] obtain t where t: "sc_fold_head s = Some t" "inside digits_box t" by blast
  from t(1) assms(2) have tl: "length t = 24" "sc_val t mod L = sc_val s mod L" using sc_fold_head_moves unfolding moves_def by blast+
  from inside_digits [OF t(2) [unfolded digits_box_def]] obtain e c where
    e: "t = e @ c # replicate 11 0" "length e = 12" "- 1 \<le> c" "c \<le> 0" "\<forall>y \<in> set e. 0 \<le> y \<and> y < 2 ^ 21" by blast
  have "covers (\<lambda>b. box_fold 12 b \<bind> each box_floor [0, 1, 2, 3, 4, 5, 6, 7, 8, 9, 10]) (\<lambda>s. fold_limb 12 s \<bind> each carry_floor [0, 1, 2, 3, 4, 5, 6, 7, 8, 9, 10])"
    by (intro covers_bind covers_each box_fold_covers box_floor_covers)
  from coversD [OF this t(2) box_tail] obtain r where
    r: "fold_limb 12 t \<bind> each carry_floor [0, 1, 2, 3, 4, 5, 6, 7, 8, 9, 10] = Some r"
      "inside (replicate 11 (0, 2 ^ 21 - 1) @ (- 1, 2 ^ 21) # replicate 12 (0, 0)) r" by blast
  from inside_digits [OF r(2)] obtain d x where
    d: "r = d @ x # replicate 12 0" "length d = 11" "x \<le> 2 ^ 21" "\<forall>y \<in> set d. 0 \<le> y \<and> y < 2 ^ 21" by blast
  from r(1) obtain u where u: "fold_limb 12 t = Some u" "each carry_floor [0, 1, 2, 3, 4, 5, 6, 7, 8, 9, 10] u = Some r"
    by (auto split: bind_splits)
  note fv = fold_limb_val [OF _ _ tl(1) u(1), simplified]
  have rv: "sc_val r = sc_val u" using carries_floor_val [OF _ fv(1) u(2)] by simp
  have z: "sc_val (replicate n 0) = 0" for n by (induction n) simp_all
  have tv: "sc_val t = sc_val e + 2 ^ 252 * c" "t ! 12 = c" by (simp_all add: e(1,2) sc_val_append z nth_append)
  have xv: "sc_val (d @ [x]) = sc_val r" "sc_val r = sc_val d + 2 ^ 231 * x" by (simp_all add: d(1,2) sc_val_append z)
  have low: "0 \<le> sc_val e" "sc_val e < 2 ^ 252" "0 \<le> sc_val d" "sc_val d < 2 ^ 231"
    using digits_range [OF e(5)] digits_range [OF d(4)] by (simp_all add: e(2) d(2))
  have v: "sc_val r = sc_val t - L * c" using rv fv(2) by (simp add: tv(2))
  have "c = 0 \<or> c = - 1" using e(3,4) by auto
  then have range: "0 \<le> sc_val r" "sc_val r < L" using v tv(1) low(1,2) by (auto simp: L_def)
  have "sc_val r mod L = sc_val t mod L" unfolding v using mod_mult_self2 [of "sc_val t" L "- c"] by simp
  then have "sc_val r = sc_val s mod L" using range tl(2) by simp
  moreover have "0 \<le> x" using range(1) xv(2) low(4) by simp
  moreover have "sc_fold s = Some r" unfolding sc_fold_split t(1) bind.bind_lunit by (rule r(1))
  ultimately show ?thesis using d xv(1) by metis
qed

section \<open>Loading\<close>

lemma byte_step:
  assumes "uint (w :: u64) < 2 ^ 56"
  shows "uint (ucast (x :: byte) OR push_bit 8 w) = uint x + 256 * uint w"
proof -
  have u: "uint (ucast x :: u64) = uint x" using uint_lt2p [of x] by (simp add: unsigned_ucast_eq take_bit_eq_mod)
  show ?thesis using uint_or_push [of "ucast x" 8 w] uint_lt2p [of x] assms by (simp add: u)
qed

lemma uint_load:
  "3 \<le> length s \<Longrightarrow> uint (load_3 s) = le_value (take 3 s)"
  "4 \<le> length s \<Longrightarrow> uint (load_4 s) = le_value (take 4 s)"
proof -
  have u: "uint (ucast x :: u64) = uint x" for x :: byte using uint_lt2p [of x] by (simp add: unsigned_ucast_eq take_bit_eq_mod)
  have b: "uint x < 256" for x :: byte using uint_lt2p [of x] by simp
  have two: "uint (ucast x OR push_bit 8 (ucast y) :: u64) = uint x + 256 * uint y" for x y :: byte
    using b [of y] by (subst byte_step) (simp_all add: u)
  have three: "uint (ucast x OR push_bit 8 (ucast y OR push_bit 8 (ucast z)) :: u64) = uint x + 256 * (uint y + 256 * uint z)" for x y z :: byte
  proof -
    have "uint (ucast y OR push_bit 8 (ucast z) :: u64) < 2 ^ 56" unfolding two using b [of y] b [of z] by simp
    from byte_step [OF this] show ?thesis unfolding two .
  qed
  have four: "uint (ucast x OR push_bit 8 (ucast y OR push_bit 8 (ucast z OR push_bit 8 (ucast w))) :: u64) =
      uint x + 256 * (uint y + 256 * (uint z + 256 * uint w))" for x y z w :: byte
  proof -
    have "uint (ucast y OR push_bit 8 (ucast z OR push_bit 8 (ucast w)) :: u64) < 2 ^ 56" unfolding three using b [of y] b [of z] b [of w] by simp
    from byte_step [OF this] show ?thesis unfolding three .
  qed
  show "uint (load_3 s) = le_value (take 3 s)" if l: "3 \<le> length s"
  proof -
    obtain x y z r where s: "s = x # y # z # r" using l by (cases s; cases "tl s"; cases "tl (tl s)") auto
    have "load_3 s = ucast x OR push_bit 8 (ucast y OR push_bit 8 (ucast z))" by (simp add: load_3_def s)
    with three [of x y z] show ?thesis by (simp only: s) simp
  qed
  show "uint (load_4 s) = le_value (take 4 s)" if l: "4 \<le> length s"
  proof -
    obtain x y z w r where s: "s = x # y # z # w # r" using l by (cases s; cases "tl s"; cases "tl (tl s)"; cases "tl (tl (tl s))") auto
    have "load_4 s = ucast x OR push_bit 8 (ucast y OR push_bit 8 (ucast z OR push_bit 8 (ucast w)))" by (simp add: load_4_def s)
    with four [of x y z w] show ?thesis by (simp only: s) simp
  qed
qed

lemma uint_limb: "limb w k = uint w div 2 ^ k mod 2 ^ 21"
proof -
  have "2097151 AND x = take_bit 21 x" for x :: u64 by (simp add: take_bit_eq_mask mask_eq_exp_minus_1 and.commute)
  then show ?thesis unfolding limb_def uint_shift [symmetric] by (simp only: unsigned_take_bit_eq) (rule take_bit_eq_mod)
qed

lemma mod_div_mod: "j + 21 \<le> n \<Longrightarrow> x mod 2 ^ n div 2 ^ j mod 2 ^ 21 = x div 2 ^ j mod 2 ^ 21" for x :: int
proof -
  assume "j + 21 \<le> n"
  then have "min 21 (n - j) = 21" by simp
  then have "take_bit 21 (drop_bit j (take_bit n x)) = take_bit 21 (drop_bit j x)" by (simp only: drop_bit_take_bit take_bit_take_bit)
  then show ?thesis by (simp only: take_bit_eq_mod drop_bit_eq_div)
qed

lemma limb_load:
  "k + 3 \<le> length s \<Longrightarrow> j \<le> 3 \<Longrightarrow> n = 8 * k + j \<Longrightarrow> limb (load_3 (drop k s)) j = le_value s div 2 ^ n mod 2 ^ 21"
  "k + 4 \<le> length s \<Longrightarrow> j \<le> 11 \<Longrightarrow> n = 8 * k + j \<Longrightarrow> limb (load_4 (drop k s)) j = le_value s div 2 ^ n mod 2 ^ 21"
proof -
  have p: "(256 :: int) ^ k = 2 ^ (8 * k)" for k by (simp add: power_mult)
  have c: "x div 2 ^ (8 * k) div 2 ^ j = x div 2 ^ (8 * k + j)" for x :: int and j k by (simp add: power_add zdiv_zmult2_eq)
  { assume "k + 3 \<le> length s" "j \<le> 3" "n = 8 * k + j"
    then have "limb (load_3 (drop k s)) j = le_value s div 2 ^ (8 * k) mod 2 ^ 24 div 2 ^ j mod 2 ^ 21"
      by (simp add: uint_limb uint_load le_value_take le_value_drop p)
    then show "limb (load_3 (drop k s)) j = le_value s div 2 ^ n mod 2 ^ 21"
      using \<open>j \<le> 3\<close> \<open>n = _\<close> by (simp only: mod_div_mod c) }
  { assume "k + 4 \<le> length s" "j \<le> 11" "n = 8 * k + j"
    then have "limb (load_4 (drop k s)) j = le_value s div 2 ^ (8 * k) mod 2 ^ 32 div 2 ^ j mod 2 ^ 21"
      by (simp add: uint_limb uint_load le_value_take le_value_drop p)
    then show "limb (load_4 (drop k s)) j = le_value s div 2 ^ n mod 2 ^ 21"
      using \<open>j \<le> 11\<close> \<open>n = _\<close> by (simp only: mod_div_mod c) }
qed

lemma last_limb:
  assumes "length s = k + 4" "n = 8 * k + j"
  shows "uint (drop_bit j (load_4 (drop k s))) = le_value s div 2 ^ n"
proof -
  have "take 4 (drop k s) = drop k s" using assms(1) by simp
  then have "uint (load_4 (drop k s)) = le_value s div 2 ^ (8 * k)" using assms(1) by (simp add: uint_load le_value_drop power_mult)
  then show ?thesis unfolding uint_shift assms(2) by (simp add: power_add zdiv_zmult2_eq)
qed

lemma sc_val_digits: "sc_val (map (\<lambda>i. N div 2 ^ (21 * i) mod 2 ^ 21) [0..<n] @ [N div 2 ^ (21 * n)]) = N"
proof (induction n)
  case (Suc n)
  have "N div 2 ^ (21 * Suc n) = N div 2 ^ (21 * n) div 2 ^ 21" by (simp add: power_add zdiv_zmult2_eq mult.commute)
  then show ?case using Suc by (simp add: sc_val_append algebra_simps power_add)
qed simp

lemma sc_load64_digits:
  assumes "length s = 64"
  shows "sc_load64 s = map (\<lambda>i. le_value s div 2 ^ (21 * i) mod 2 ^ 21) [0..<23] @ [le_value s div 2 ^ 483]"
proof -
  have "limb (load_3 s) 0 = le_value s div 2 ^ 0 mod 2 ^ 21" using limb_load(1) [of 0 s 0 0] assms by simp
  moreover have "uint (drop_bit 3 (load_4 (drop 60 s))) = le_value s div 2 ^ 483" using assms by (intro last_limb) simp_all
  moreover have "[0..<23] = [0, 1, 2, 3, 4, 5, 6, 7, 8, 9, 10, 11, 12, 13, 14, 15, 16, 17, 18, 19, 20, 21, 22]" by (simp add: upt_rec)
  ultimately show ?thesis unfolding sc_load64_def using assms by (simp add: limb_load del: uint_shift)
qed

lemma sc_load32_digits:
  assumes "length s = 32"
  shows "sc_load32 s = map (\<lambda>i. le_value s div 2 ^ (21 * i) mod 2 ^ 21) [0..<11] @ [le_value s div 2 ^ 231]"
proof -
  have "limb (load_3 s) 0 = le_value s div 2 ^ 0 mod 2 ^ 21" using limb_load(1) [of 0 s 0 0] assms by simp
  moreover have "uint (drop_bit 7 (load_4 (drop 28 s))) = le_value s div 2 ^ 231" using assms by (intro last_limb) simp_all
  moreover have "[0..<11] = [0, 1, 2, 3, 4, 5, 6, 7, 8, 9, 10]" by (simp add: upt_rec)
  ultimately show ?thesis unfolding sc_load32_def using assms by (simp add: limb_load del: uint_shift)
qed

section \<open>Bytes of the limbs\<close>

text \<open>A byte that holds the top bits of one limb and the low bits of the next.\<close>

lemma seam:
  fixes x y :: int
  assumes "0 \<le> x" "x < 2 ^ n" "n \<le> 8"
  shows "(x OR y * 2 ^ n) mod 256 = x + 2 ^ n * (y mod 2 ^ (8 - n))"
proof -
  have o: "x OR y * 2 ^ n = x + y * 2 ^ n"
  proof -
    have "x = take_bit n x" using assms(1,2) by (simp add: take_bit_int_eq_self)
    then have b: "bit x m \<Longrightarrow> m < n" for m by (metis bit_take_bit_iff)
    have "x AND push_bit n y = 0"
    proof (rule bit_eqI)
      fix m show "bit (x AND push_bit n y) m = bit 0 m" using b [of m] by (auto simp: bit_and_iff bit_push_bit_iff)
    qed
    then have "x OR push_bit n y = x + push_bit n y" by (rule disjunctive_add_eq_or [symmetric])
    then show ?thesis by (simp only: push_bit_eq_mult)
  qed
  have "2 ^ n * y mod (2 ^ n * 2 ^ (8 - n)) = 2 ^ n * (y mod 2 ^ (8 - n))" by (rule mod_mult_mult1)
  moreover have p: "(2 :: int) ^ n * 2 ^ (8 - n) = 256" using assms(3) by (simp add: power_add [symmetric])
  ultimately have q: "y * 2 ^ n mod 256 = 2 ^ n * (y mod 2 ^ (8 - n))" by (simp only: mult.commute)
  have "y mod 2 ^ (8 - n) + 1 \<le> (2 :: int) ^ (8 - n)" by (simp add: add1_zle_eq)
  then have "2 ^ n * (y mod 2 ^ (8 - n) + 1) \<le> 2 ^ n * (2 :: int) ^ (8 - n)" by (intro mult_left_mono) simp_all
  then have "2 ^ n * (y mod 2 ^ (8 - n)) + 2 ^ n \<le> 256" unfolding p by (simp only: distrib_left mult_1_right)
  then have "x + 2 ^ n * (y mod 2 ^ (8 - n)) < 256" using assms(2) by linarith
  moreover have "0 \<le> x + 2 ^ n * (y mod 2 ^ (8 - n))" using assms(1) by simp
  moreover have "(x + y * 2 ^ n) mod 256 = (x + y * 2 ^ n mod 256) mod 256" by (rule mod_add_right_eq [symmetric])
  ultimately show ?thesis unfolding o q by simp
qed

lemma le_value_ints: "le_value (map word_of_int xs) = foldr (\<lambda>x v. x mod 256 + 256 * v) xs 0"
  by (induction xs) (simp_all add: uint_word_of_int)

lemma sc_bytes_ok:
  assumes "length d = 11" "\<forall>y \<in> set d. 0 \<le> y \<and> y < 2 ^ 21" "0 \<le> x" "x < 2 ^ 25"
  shows "le_value (sc_bytes (d @ x # r)) = sc_val (d @ [x])" and "length (sc_bytes (d @ x # r)) = 32"
proof -
  show "length (sc_bytes (d @ x # r)) = 32" by (simp add: sc_bytes_def)
  obtain s0 s1 s2 s3 s4 s5 s6 s7 s8 s9 s10 where d: "d = [s0, s1, s2, s3, s4, s5, s6, s7, s8, s9, s10]"
    using assms(1) by (auto simp: length_Suc_conv eval_nat_numeral)
  have R: "0 \<le> y \<and> y < 2 ^ 21" if "y \<in> set d" for y using that assms(2) by blast
  have top: "0 \<le> y div 2 ^ k \<and> y div 2 ^ k < 2 ^ n" if "y \<in> set d" "k + n = 21" for y and k n :: nat
  proof -
    have e: "(2 :: int) ^ 21 = 2 ^ k * 2 ^ n" using that(2) by (simp add: power_add [symmetric])
    have "y < 2 ^ k * 2 ^ n" using R [OF that(1)] unfolding e by simp
    moreover have "y div 2 ^ k * 2 ^ k \<le> y" by (simp add: minus_mod_eq_div_mult [symmetric])
    ultimately have "y div 2 ^ k * 2 ^ k < 2 ^ n * 2 ^ k" unfolding mult.commute [of "2 ^ n"] by (rule order_le_less_trans [rotated])
    then have "y div 2 ^ k < 2 ^ n" by (rule mult_right_less_imp_less) simp
    then show ?thesis using R [OF that(1)] by (simp add: pos_imp_zdiv_nonneg_iff)
  qed
  have S: "(y div 2 ^ k OR z * 2 ^ n) mod 256 = y div 2 ^ k + 2 ^ n * (z mod 2 ^ j)" if "y \<in> set d" "k + n = 21" "n + j = 8" for y z k n j
  proof -
    have "n \<le> 8" "j = 8 - n" using that(3) by simp_all
    then show ?thesis using top [OF that(1,2)] by (simp only: seam)
  qed
  have m: "y mod 2 ^ k = y - y div 2 ^ k * 2 ^ k" for y :: int and k by (simp add: minus_div_mult_eq_mod)
  have b: "y div 2 ^ k mod 256 = y div 2 ^ k - y div 2 ^ (k + 8) * 256" for y :: int and k
    using m [of "y div 2 ^ k" 8] by (simp add: power_add zdiv_zmult2_eq)
  have ds: "s0 \<in> set d" "s1 \<in> set d" "s2 \<in> set d" "s3 \<in> set d" "s4 \<in> set d" "s5 \<in> set d" "s6 \<in> set d" "s7 \<in> set d" "s8 \<in> set d"
    "s9 \<in> set d" "s10 \<in> set d" by (simp_all add: d)
  have seams: "(s0 div 2 ^ 16 OR s1 * 2 ^ 5) mod 256 = s0 div 2 ^ 16 + 2 ^ 5 * (s1 mod 2 ^ 3)"
    "(s1 div 2 ^ 19 OR s2 * 2 ^ 2) mod 256 = s1 div 2 ^ 19 + 2 ^ 2 * (s2 mod 2 ^ 6)"
    "(s2 div 2 ^ 14 OR s3 * 2 ^ 7) mod 256 = s2 div 2 ^ 14 + 2 ^ 7 * (s3 mod 2 ^ 1)"
    "(s3 div 2 ^ 17 OR s4 * 2 ^ 4) mod 256 = s3 div 2 ^ 17 + 2 ^ 4 * (s4 mod 2 ^ 4)"
    "(s4 div 2 ^ 20 OR s5 * 2 ^ 1) mod 256 = s4 div 2 ^ 20 + 2 ^ 1 * (s5 mod 2 ^ 7)"
    "(s5 div 2 ^ 15 OR s6 * 2 ^ 6) mod 256 = s5 div 2 ^ 15 + 2 ^ 6 * (s6 mod 2 ^ 2)"
    "(s6 div 2 ^ 18 OR s7 * 2 ^ 3) mod 256 = s6 div 2 ^ 18 + 2 ^ 3 * (s7 mod 2 ^ 5)"
    "(s8 div 2 ^ 16 OR s9 * 2 ^ 5) mod 256 = s8 div 2 ^ 16 + 2 ^ 5 * (s9 mod 2 ^ 3)"
    "(s9 div 2 ^ 19 OR s10 * 2 ^ 2) mod 256 = s9 div 2 ^ 19 + 2 ^ 2 * (s10 mod 2 ^ 6)"
    "(s10 div 2 ^ 14 OR x * 2 ^ 7) mod 256 = s10 div 2 ^ 14 + 2 ^ 7 * (x mod 2 ^ 1)"
    by (rule S [OF ds(1)] S [OF ds(2)] S [OF ds(3)] S [OF ds(4)] S [OF ds(5)] S [OF ds(6)] S [OF ds(7)] S [OF ds(9)] S [OF ds(10)] S [OF ds(11)]; simp)+
  have ends: "s7 div 2 ^ 21 = 0" "x div 2 ^ 25 = 0" using R [OF ds(8)] assms(3,4) by simp_all
  have "le_value (sc_bytes (d @ x # r)) = foldr (\<lambda>x v. x mod 256 + 256 * v)
    [s0 div 2 ^ 0, s0 div 2 ^ 8, s0 div 2 ^ 16 OR s1 * 2 ^ 5, s1 div 2 ^ 3, s1 div 2 ^ 11, s1 div 2 ^ 19 OR s2 * 2 ^ 2,
     s2 div 2 ^ 6, s2 div 2 ^ 14 OR s3 * 2 ^ 7, s3 div 2 ^ 1, s3 div 2 ^ 9, s3 div 2 ^ 17 OR s4 * 2 ^ 4,
     s4 div 2 ^ 4, s4 div 2 ^ 12, s4 div 2 ^ 20 OR s5 * 2 ^ 1, s5 div 2 ^ 7, s5 div 2 ^ 15 OR s6 * 2 ^ 6,
     s6 div 2 ^ 2, s6 div 2 ^ 10, s6 div 2 ^ 18 OR s7 * 2 ^ 3, s7 div 2 ^ 5, s7 div 2 ^ 13,
     s8 div 2 ^ 0, s8 div 2 ^ 8, s8 div 2 ^ 16 OR s9 * 2 ^ 5, s9 div 2 ^ 3, s9 div 2 ^ 11, s9 div 2 ^ 19 OR s10 * 2 ^ 2,
     s10 div 2 ^ 6, s10 div 2 ^ 14 OR x * 2 ^ 7, x div 2 ^ 1, x div 2 ^ 9, x div 2 ^ 17] 0"
    unfolding sc_bytes_def le_value_ints d by (simp only: drop_bit_eq_div append.simps nth_Cons_numeral nth_Cons_0 One_nat_def nth_Cons_Suc) simp
  also have "\<dots> = sc_val (d @ [x])"
    unfolding foldr.simps o_apply seams b m using ends by (simp add: d)
  finally show "le_value (sc_bytes (d @ x # r)) = sc_val (d @ [x])" .
qed

section \<open>Products of limbs\<close>

lemma sum_up_Some:
  assumes "\<forall>x \<in> set xs. 0 \<le> x \<and> x \<le> m" "0 \<le> a" "a + int (length xs) * m < 2 ^ 63"
  shows "sum_up a xs = Some (a + sum_list xs) \<and> 0 \<le> a + sum_list xs \<and> a + sum_list xs \<le> a + int (length xs) * m"
  using assms
proof (induction xs arbitrary: a)
  case (Cons x xs)
  have x: "0 \<le> x" "x \<le> m" using Cons.prems(1) by simp_all
  have l: "a + x + int (length xs) * m \<le> a + int (length (x # xs)) * m" using x by (simp add: algebra_simps)
  have "0 \<le> int (length xs) * m" using x by (intro mult_nonneg_nonneg) simp_all
  then have "fits x" "fits (a + x)" using x l Cons.prems(2,3) unfolding fits_def by linarith+
  moreover have "sum_up (a + x) xs = Some (a + x + sum_list xs) \<and> 0 \<le> a + x + sum_list xs \<and> a + x + sum_list xs \<le> a + x + int (length xs) * m"
    using Cons.prems x l by (intro Cons.IH) simp_all
  ultimately show ?case using l by (auto simp: add.assoc)
qed simp

lemma those_map: "(\<And>x. x \<in> set xs \<Longrightarrow> f x = Some (g x)) \<Longrightarrow> those (map f xs) = Some (map g xs)"
  by (induction xs) simp_all

definition product_limbs :: "int list \<Rightarrow> int list \<Rightarrow> int list \<Rightarrow> int list" where
  "product_limbs a b c = map (\<lambda>k. (if k < 12 then c ! k else 0) + sum_list (conv a b k)) [0..<23] @ [0]"

lemma product_value:
  assumes "length a = 12" "length b = 12" "length c = 12"
  shows "sc_val (product_limbs a b c) = sc_val a * sc_val b + sc_val c"
proof -
  obtain a0 a1 a2 a3 a4 a5 a6 a7 a8 a9 a10 a11 where a: "a = [a0, a1, a2, a3, a4, a5, a6, a7, a8, a9, a10, a11]"
    using assms(1) by (auto simp: length_Suc_conv eval_nat_numeral)
  obtain b0 b1 b2 b3 b4 b5 b6 b7 b8 b9 b10 b11 where b: "b = [b0, b1, b2, b3, b4, b5, b6, b7, b8, b9, b10, b11]"
    using assms(2) by (auto simp: length_Suc_conv eval_nat_numeral)
  obtain c0 c1 c2 c3 c4 c5 c6 c7 c8 c9 c10 c11 where c: "c = [c0, c1, c2, c3, c4, c5, c6, c7, c8, c9, c10, c11]"
    using assms(3) by (auto simp: length_Suc_conv eval_nat_numeral)
  define B where "B = (2 :: int) ^ 21"
  show ?thesis unfolding product_limbs_def conv_def a b c sc_val_def B_def [symmetric]
    by (simp add: upt_rec) (simp add: algebra_simps)
qed

lemma load32_range:
  assumes "length s = 32"
  shows "length (sc_load32 s) = 12" and "\<forall>x \<in> set (sc_load32 s). 0 \<le> x \<and> x \<le> 2 ^ 25" and "sc_val (sc_load32 s) = le_value s"
proof -
  have "le_value s < 2 ^ 256" using le_value_less [of s] assms by simp
  then have "le_value s div 2 ^ 231 < 2 ^ 25" by simp
  moreover have "x mod 2 ^ 21 \<le> 2 ^ 25" for x :: int using pos_mod_bound [of "2 ^ 21" x] by simp
  ultimately show "\<forall>x \<in> set (sc_load32 s). 0 \<le> x \<and> x \<le> 2 ^ 25"
    unfolding sc_load32_digits [OF assms] by (auto simp: pos_imp_zdiv_nonneg_iff)
  show "length (sc_load32 s) = 12" by (simp add: sc_load32_def)
  show "sc_val (sc_load32 s) = le_value s" using sc_val_digits [of "le_value s" 11] by (simp add: sc_load32_digits [OF assms])
qed

lemma list_all2_replicateI: "\<forall>y \<in> set ys. Q x y \<Longrightarrow> length ys = n \<Longrightarrow> list_all2 Q (replicate n x) ys"
  by (simp add: list_all2_conv_all_nth)

lemma sc_products_ok:
  assumes "length a = 12" "length b = 12" "length c = 12"
    and "\<forall>x \<in> set a. 0 \<le> x \<and> x \<le> 2 ^ 25" "\<forall>x \<in> set b. 0 \<le> x \<and> x \<le> 2 ^ 25" "\<forall>x \<in> set c. 0 \<le> x \<and> x \<le> 2 ^ 25"
  shows "sc_products a b c = Some (product_limbs a b c)" and "inside (replicate 23 (0, 13 * 2 ^ 50) @ [(0, 0)]) (product_limbs a b c)"
proof -
  have A: "0 \<le> a ! i \<and> a ! i \<le> 2 ^ 25" "0 \<le> b ! i \<and> b ! i \<le> 2 ^ 25" "0 \<le> c ! i \<and> c ! i \<le> 2 ^ 25" if "i < 12" for i
    using that assms nth_mem by metis+
  have terms: "\<forall>x \<in> set (conv a b k). 0 \<le> x \<and> x \<le> 2 ^ 50" "length (conv a b k) \<le> 12" for k
  proof -
    have "Suc (min k 11) - (k - 11) \<le> 12" by arith
    then show "length (conv a b k) \<le> 12" by (simp only: conv_def length_map length_upt)
    have "0 \<le> a ! i * b ! (k - i) \<and> a ! i * b ! (k - i) \<le> 2 ^ 50" if "k - 11 \<le> i" "i < Suc (min k 11)" for i
      using that A(1) [of i] A(2) [of "k - i"] mult_mono [of "a ! i" "2 ^ 25" "b ! (k - i)" "2 ^ 25"] by simp
    then show "\<forall>x \<in> set (conv a b k). 0 \<le> x \<and> x \<le> 2 ^ 50" by (auto simp: conv_def)
  qed
  have total: "sum_up (if k < 12 then c ! k else 0) (conv a b k) = Some ((if k < 12 then c ! k else 0) + sum_list (conv a b k)) \<and>
      0 \<le> (if k < 12 then c ! k else 0) + sum_list (conv a b k) \<and> (if k < 12 then c ! k else 0) + sum_list (conv a b k) \<le> 13 * 2 ^ 50" for k
  proof -
    have c: "0 \<le> (if k < 12 then c ! k else 0)" "(if k < 12 then c ! k else 0) \<le> 2 ^ 25" using A(3) [of k] by simp_all
    have "int (length (conv a b k)) * 2 ^ 50 \<le> 12 * 2 ^ 50" using terms(2) [of k] by (intro mult_right_mono) simp_all
    with c(2) have m: "(if k < 12 then c ! k else 0) + int (length (conv a b k)) * 2 ^ 50 \<le> 13 * 2 ^ 50" by simp
    then have "(if k < 12 then c ! k else 0) + int (length (conv a b k)) * 2 ^ 50 < 2 ^ 63" by (rule order_le_less_trans) simp
    from sum_up_Some [OF terms(1) c(1) this] m show ?thesis by linarith
  qed
  have "those (map (\<lambda>k. sum_up (if k < 12 then c ! k else 0) (conv a b k)) [0..<23]) =
      Some (map (\<lambda>k. (if k < 12 then c ! k else 0) + sum_list (conv a b k)) [0..<23])"
    using total by (intro those_map) blast
  then show "sc_products a b c = Some (product_limbs a b c)" by (simp only: sc_products_def product_limbs_def bind.bind_lunit)
  have "list_all2 (\<lambda>(l, h) x. l \<le> x \<and> x \<le> h) (replicate 23 (0, 13 * 2 ^ 50)) (map (\<lambda>k. (if k < 12 then c ! k else 0) + sum_list (conv a b k)) [0..<23])"
  proof (rule list_all2_replicateI)
    show "\<forall>y \<in> set (map (\<lambda>k. (if k < 12 then c ! k else 0) + sum_list (conv a b k)) [0..<23]). (\<lambda>(l, h) x. l \<le> x \<and> x \<le> h) (0, 13 * 2 ^ 50) y"
      unfolding set_map prod.case using total by blast
  qed simp
  then show "inside (replicate 23 (0, 13 * 2 ^ 50) @ [(0, 0)]) (product_limbs a b c)"
    unfolding inside_def product_limbs_def by (intro list_all2_appendI) simp_all
qed

lemma box_hash: "box_reduce (replicate 23 (0, 2 ^ 21 - 1) @ [(0, 2 ^ 29 - 1)]) = Some digits_box"
  by code_simp

lemma box_muladd:
  "each box_round [0, 2, 4, 6, 8, 10, 12, 14, 16, 18, 20, 22] (replicate 23 (0, 13 * 2 ^ 50) @ [(0, 0)]) \<bind>
     each box_round [1, 3, 5, 7, 9, 11, 13, 15, 17, 19, 21] \<bind> box_reduce = Some digits_box"
  by code_simp

section \<open>What the scalar arithmetic promises\<close>

text \<open>
  A hash of 64 bytes is reduced modulo the order of the base point: no variable of 64 bits overflows, the
  first 32 bytes of the buffer hold the representative below the order, and the others are left alone.
\<close>

theorem sc_reduce_correct:
  assumes "length s = 64"
  shows "\<exists>r. sc_reduce s = Some (r @ drop 32 s) \<and> length r = 32 \<and> le_value r = le_value s mod L"
proof -
  let ?s = "sc_load64 s"
  have "le_value s < 2 ^ 512" using le_value_less [of s] assms by simp
  then have "le_value s div 2 ^ 483 < 2 ^ 29" by simp
  then have "inside (replicate 23 (0, 2 ^ 21 - 1) @ [(0, 2 ^ 29 - 1)]) ?s"
    unfolding inside_def sc_load64_digits [OF assms]
    by (intro list_all2_appendI) (auto simp: list_all2_conv_all_nth pos_imp_zdiv_nonneg_iff)
  moreover have "length ?s = 24" by (simp add: sc_load64_def)
  moreover have v: "sc_val ?s = le_value s" using sc_val_digits [of "le_value s" 23] by (simp add: sc_load64_digits [OF assms])
  ultimately obtain d x where d: "sc_fold ?s = Some (d @ x # replicate 12 0)" "length d = 11" "\<forall>y \<in> set d. 0 \<le> y \<and> y < 2 ^ 21"
    "0 \<le> x" "x \<le> 2 ^ 21" "sc_val (d @ [x]) = le_value s mod L"
    using sc_fold_ok [OF _ _ box_hash] by metis
  have "x < 2 ^ 25" using d(5) by simp
  note b = sc_bytes_ok [OF d(2,3,4) this]
  have "sc_reduce s = Some (sc_bytes (d @ x # replicate 12 0) @ drop 32 s)" unfolding sc_reduce_def d(1) by simp
  with b d(6) show ?thesis by metis
qed

lemma sc_reduce_correct_witness: "\<exists>r. sc_reduce (replicate 64 255) = Some (r @ replicate 32 255) \<and> length r = 32 \<and> le_value r = le_value (replicate 64 255) mod L"
  using sc_reduce_correct [of "replicate 64 255"] by simp

text \<open>
  C14. The scalar of a signature: for 32 bytes each, the product of the first two scalars plus the third is
  computed modulo the order without overflow, and written as the 32 bytes of its representative.
\<close>

theorem sc_muladd_correct:
  assumes "length a = 32" "length b = 32" "length c = 32"
  shows "\<exists>r. sc_muladd a b c = Some r \<and> length r = 32 \<and> le_value r = (le_value a * le_value b + le_value c) mod L"
proof -
  note l = load32_range [OF assms(1)] load32_range [OF assms(2)] load32_range [OF assms(3)]
  let ?p = "product_limbs (sc_load32 a) (sc_load32 b) (sc_load32 c)"
  note p = sc_products_ok [OF l(1,4,7) l(2,5,8)]
  have pv: "sc_val ?p = le_value a * le_value b + le_value c" "length ?p = 24"
    unfolding product_value [OF l(1,4,7)] l by (simp_all add: product_limbs_def)
  define rounds where "rounds = (\<lambda>s. each carry_round [0, 2, 4, 6, 8, 10, 12, 14, 16, 18, 20, 22] s \<bind> each carry_round [1, 3, 5, 7, 9, 11, 13, 15, 17, 19, 21])"
  define boxes where "boxes = (\<lambda>b. each box_round [0, 2, 4, 6, 8, 10, 12, 14, 16, 18, 20, 22] b \<bind> each box_round [1, 3, 5, 7, 9, 11, 13, 15, 17, 19, 21])"
  obtain b1 where b1: "boxes (replicate 23 (0, 13 * 2 ^ 50) @ [(0, 0)]) = Some b1" "box_reduce b1 = Some digits_box"
    using box_muladd by (auto simp: boxes_def split: bind_splits)
  have "covers boxes rounds" unfolding boxes_def rounds_def by (intro covers_bind covers_each box_round_covers)
  from coversD [OF this p(2) b1(1)] obtain t where t: "rounds ?p = Some t" "inside b1 t" by blast
  have "moves rounds" unfolding rounds_def by (intro moves_bind moves_each carry_round_moves) auto
  with t(1) pv have tv: "length t = 24" "sc_val t mod L = (le_value a * le_value b + le_value c) mod L" unfolding moves_def by metis+
  from sc_fold_ok [OF t(2) tv(1) b1(2)] obtain d x where d: "sc_fold t = Some (d @ x # replicate 12 0)" "length d = 11"
    "\<forall>y \<in> set d. 0 \<le> y \<and> y < 2 ^ 21" "0 \<le> x" "x \<le> 2 ^ 21" "sc_val (d @ [x]) = sc_val t mod L" by blast
  have "x < 2 ^ 25" using d(5) by simp
  note b = sc_bytes_ok [OF d(2,3,4) this]
  have "sc_muladd a b c = rounds ?p \<bind> sc_fold \<bind> (\<lambda>s. Some (sc_bytes s))"
    by (simp only: sc_muladd_def p(1) bind.bind_lunit rounds_def Option.bind_assoc)
  then have "sc_muladd a b c = Some (sc_bytes (d @ x # replicate 12 0))" by (simp only: t(1) bind.bind_lunit d(1))
  with b d(6) tv(2) show ?thesis by metis
qed

lemma sc_muladd_correct_witness:
  "\<exists>r. sc_muladd (replicate 32 255) (replicate 32 1) (replicate 32 2) = Some r \<and> length r = 32 \<and>
     le_value r = (le_value (replicate 32 255) * le_value (replicate 32 1) + le_value (replicate 32 2)) mod L"
  by (rule sc_muladd_correct) simp_all

end
