(* ===== verification/Ge25519.thy ===== *)
theory Ge25519
  imports FeBytes EdTable
begin

unbundle bit_operations_syntax

text \<open>
  Points of the twisted Edwards curve \<open>- x\<^sup>2 + y\<^sup>2 = 1 + d x\<^sup>2 y\<^sup>2\<close>, the fourth and fifth sections of
  \<^verbatim>\<open>src/src/main/c/cookbook_ed25519.c\<close>. Each of the code's representations of a point is a record of its own; the
  operations are stated step by step as the code assigns to the result's fields. What a representation stands
  for is a pair of affine coordinates modulo the prime, and each operation is proved to follow the addition law.
\<close>

section \<open>Constants and representations\<close>

definition ed_d :: fe where
  "ed_d = (929955233495203, 466365720129213, 1662059464998953, 2033849074728123, 1442794654840575)"

definition ed_d2 :: fe where
  "ed_d2 = (1859910466990425, 932731440258426, 1072319116312658, 1815898335770999, 633789495995903)"

definition sqrtm1 :: fe where
  "sqrtm1 = (1718705420411056, 234908883556509, 2233514472574048, 2117202627021982, 765476049583133)"

record ge_p2 =
  gX :: fe
  gY :: fe
  gZ :: fe

text \<open>\<open>ge_p3\<close> and \<open>ge_p1p1\<close> have the same four fields.\<close>

record ge_p3 = ge_p2 +
  gT :: fe

type_synonym ge_p1p1 = ge_p3

record ge_cached =
  YplusX :: fe
  YminusX :: fe
  cZ :: fe
  T2d :: fe

definition ge_p2_0 :: ge_p2 where
  "ge_p2_0 = \<lparr>gX = fe_0, gY = fe_1, gZ = fe_1\<rparr>"

definition ge_p3_0 :: ge_p3 where
  "ge_p3_0 = \<lparr>gX = fe_0, gY = fe_1, gZ = fe_1, gT = fe_0\<rparr>"

definition ge_precomp_0 :: ge_precomp where
  "ge_precomp_0 = \<lparr>yplusx = fe_1, yminusx = fe_1, xy2d = fe_0\<rparr>"

section \<open>Operations\<close>

definition ge_p1p1_to_p2 :: "ge_p1p1 \<Rightarrow> ge_p2" where
  "ge_p1p1_to_p2 p = \<lparr>gX = fe_mul (gX p) (gT p), gY = fe_mul (gY p) (gZ p), gZ = fe_mul (gZ p) (gT p)\<rparr>"

definition ge_p1p1_to_p3 :: "ge_p1p1 \<Rightarrow> ge_p3" where
  "ge_p1p1_to_p3 p =
     \<lparr>gX = fe_mul (gX p) (gT p), gY = fe_mul (gY p) (gZ p), gZ = fe_mul (gZ p) (gT p), gT = fe_mul (gX p) (gY p)\<rparr>"

definition ge_p3_to_p2 :: "ge_p3 \<Rightarrow> ge_p2" where
  "ge_p3_to_p2 p = \<lparr>gX = gX p, gY = gY p, gZ = gZ p\<rparr>"

definition ge_p3_to_cached :: "ge_p3 \<Rightarrow> ge_cached" where
  "ge_p3_to_cached p =
     \<lparr>YplusX = fe_add (gY p) (gX p), YminusX = fe_sub (gY p) (gX p), cZ = gZ p, T2d = fe_mul (gT p) ed_d2\<rparr>"

definition ge_p2_dbl :: "ge_p2 \<Rightarrow> ge_p1p1" where
  "ge_p2_dbl p =
     (let X = fe_sq (gX p);
          Z = fe_sq (gY p);
          T = fe_sq2 (gZ p);
          Y = fe_add (gX p) (gY p);
          t0 = fe_sq Y;
          Y = fe_add Z X;
          Z = fe_sub Z X;
          X = fe_sub t0 Y;
          T = fe_sub T Z
      in \<lparr>gX = X, gY = Y, gZ = Z, gT = T\<rparr>)"

definition ge_p3_dbl :: "ge_p3 \<Rightarrow> ge_p1p1" where
  "ge_p3_dbl p = ge_p2_dbl (ge_p3_to_p2 p)"

definition ge_madd :: "ge_p3 \<Rightarrow> ge_precomp \<Rightarrow> ge_p1p1" where
  "ge_madd p q =
     (let X = fe_add (gY p) (gX p);
          Y = fe_sub (gY p) (gX p);
          Z = fe_mul X (yplusx q);
          Y = fe_mul Y (yminusx q);
          T = fe_mul (xy2d q) (gT p);
          t0 = fe_add (gZ p) (gZ p);
          X = fe_sub Z Y;
          Y = fe_add Z Y;
          Z = fe_add t0 T;
          T = fe_sub t0 T
      in \<lparr>gX = X, gY = Y, gZ = Z, gT = T\<rparr>)"

definition ge_msub :: "ge_p3 \<Rightarrow> ge_precomp \<Rightarrow> ge_p1p1" where
  "ge_msub p q =
     (let X = fe_add (gY p) (gX p);
          Y = fe_sub (gY p) (gX p);
          Z = fe_mul X (yminusx q);
          Y = fe_mul Y (yplusx q);
          T = fe_mul (xy2d q) (gT p);
          t0 = fe_add (gZ p) (gZ p);
          X = fe_sub Z Y;
          Y = fe_add Z Y;
          Z = fe_sub t0 T;
          T = fe_add t0 T
      in \<lparr>gX = X, gY = Y, gZ = Z, gT = T\<rparr>)"

definition ge_add_cached :: "ge_p3 \<Rightarrow> ge_cached \<Rightarrow> ge_p1p1" where
  "ge_add_cached p q =
     (let X = fe_add (gY p) (gX p);
          Y = fe_sub (gY p) (gX p);
          Z = fe_mul X (YplusX q);
          Y = fe_mul Y (YminusX q);
          T = fe_mul (T2d q) (gT p);
          X = fe_mul (gZ p) (cZ q);
          t0 = fe_add X X;
          X = fe_sub Z Y;
          Y = fe_add Z Y;
          Z = fe_add t0 T;
          T = fe_sub t0 T
      in \<lparr>gX = X, gY = Y, gZ = Z, gT = T\<rparr>)"

definition ge_sub_cached :: "ge_p3 \<Rightarrow> ge_cached \<Rightarrow> ge_p1p1" where
  "ge_sub_cached p q =
     (let X = fe_add (gY p) (gX p);
          Y = fe_sub (gY p) (gX p);
          Z = fe_mul X (YminusX q);
          Y = fe_mul Y (YplusX q);
          T = fe_mul (T2d q) (gT p);
          X = fe_mul (gZ p) (cZ q);
          t0 = fe_add X X;
          X = fe_sub Z Y;
          Y = fe_add Z Y;
          Z = fe_sub t0 T;
          T = fe_add t0 T
      in \<lparr>gX = X, gY = Y, gZ = Z, gT = T\<rparr>)"

text \<open>The last byte carries the sign of \<open>x\<close>. \<open>ge_p3_tobytes\<close> has the same body for the other type.\<close>

definition ge_tobytes :: "ge_p2 \<Rightarrow> byte list" where
  "ge_tobytes h =
     (let recip = fe_invert (gZ h);
          x = fe_mul (gX h) recip;
          y = fe_mul (gY h) recip;
          s = fe_tobytes y
      in s[31 := s ! 31 XOR (if fe_isnegative x then 128 else 0)])"

definition ge_p3_tobytes :: "ge_p3 \<Rightarrow> byte list" where
  "ge_p3_tobytes h =
     (let recip = fe_invert (gZ h);
          x = fe_mul (gX h) recip;
          y = fe_mul (gY h) recip;
          s = fe_tobytes y
      in s[31 := s ! 31 XOR (if fe_isnegative x then 128 else 0)])"

text \<open>The point is read with its \<open>x\<close> negated; bytes that are no point are refused.\<close>

definition ge_frombytes_negate_vartime :: "byte list \<Rightarrow> ge_p3 option" where
  "ge_frombytes_negate_vartime s =
     (let Y = fe_frombytes s;
          Z = fe_1;
          u = fe_sq Y;
          v = fe_mul u ed_d;
          u = fe_sub u Z;
          v = fe_add v Z;
          v3 = fe_sq v;
          v3 = fe_mul v3 v;
          X = fe_sq v3;
          X = fe_mul X v;
          X = fe_mul X u;
          X = fe_pow22523 X;
          X = fe_mul X v3;
          X = fe_mul X u;
          vxx = fe_sq X;
          vxx = fe_mul vxx v;
          m_root_check = fe_sub vxx u;
          p_root_check = fe_add vxx u
      in if \<not> fe_iszero m_root_check \<and> \<not> fe_iszero p_root_check then None
         else let X = (if fe_iszero m_root_check then X else fe_mul X sqrtm1);
                  X = (if fe_isnegative X = (drop_bit 7 (s ! 31) = 1) then fe_neg X else X)
              in Some \<lparr>gX = X, gY = Y, gZ = Z, gT = fe_mul X Y\<rparr>)"

section \<open>The curve\<close>

definition D :: int where
  "D = fe_val ed_d"

abbreviation eq_mod :: "int \<Rightarrow> int \<Rightarrow> bool" where
  "eq_mod a b \<equiv> a mod P = b mod P"

abbreviation unit :: "int \<Rightarrow> bool" where
  "unit a \<equiv> coprime a P"

type_synonym point = "int \<times> int"

fun on_curve :: "point \<Rightarrow> bool" where
  "on_curve (x, y) \<longleftrightarrow> eq_mod (y * y - x * x) (1 + D * (x * x * y * y))"

text \<open>
  The third point is the sum of the first two: the addition law with its denominators multiplied out, and the
  denominators invertible, so that the sum is unique modulo the prime.
\<close>

fun ed_sum :: "point \<Rightarrow> point \<Rightarrow> point \<Rightarrow> bool" where
  "ed_sum (x1, y1) (x2, y2) (x3, y3) \<longleftrightarrow>
     unit (1 + D * (x1 * x2 * y1 * y2)) \<and> unit (1 - D * (x1 * x2 * y1 * y2)) \<and>
     eq_mod (x3 * (1 + D * (x1 * x2 * y1 * y2))) (x1 * y2 + x2 * y1) \<and>
     eq_mod (y3 * (1 - D * (x1 * x2 * y1 * y2))) (y1 * y2 + x1 * x2)"

fun ed_neg :: "point \<Rightarrow> point" where
  "ed_neg (x, y) = (- x, y)"

lemma unit_cong: "eq_mod a b \<Longrightarrow> unit a \<longleftrightarrow> unit b"
  by (metis coprime_mod_left_iff P_pos(1) less_numeral_extra(3))

lemma eq_mod_mult: "eq_mod a b \<Longrightarrow> eq_mod (c * a) (c * b)"
  by (rule mod_mult_cong) simp_all

lemma unit_2: "unit 2"
proof -
  have "odd P" by (simp add: P_def)
  then show ?thesis by simp
qed

lemma D_value: "eq_mod (fe_val ed_d2) (2 * D)"
  by (simp add: D_def ed_d_def ed_d2_def P_def)

lemma sqrtm1_square: "eq_mod (fe_val sqrtm1 * fe_val sqrtm1) (- 1)"
  by (simp add: sqrtm1_def P_def)

section \<open>What a representation stands for\<close>

text \<open>An element with its bound and its value modulo the prime; the operations on such elements.\<close>

definition is_fe :: "int \<Rightarrow> fe \<Rightarrow> int \<Rightarrow> bool" where
  "is_fe b f v \<longleftrightarrow> below b f \<and> eq_mod (fe_val f) v"

lemma is_fe_self: "below b f \<Longrightarrow> is_fe b f (fe_val f)"
  by (simp add: is_fe_def)

lemma is_fe_mono: "is_fe b f v \<Longrightarrow> b \<le> c \<Longrightarrow> is_fe c f v"
  by (auto simp: is_fe_def intro: below_mono)

lemma is_fe_cong: "is_fe b f v \<Longrightarrow> eq_mod v w \<Longrightarrow> is_fe b f w"
  by (simp add: is_fe_def)

lemma is_feD: "is_fe b f v \<Longrightarrow> b \<le> c \<Longrightarrow> below c f" "is_fe b f v \<Longrightarrow> eq_mod (fe_val f) v"
  by (auto simp: is_fe_def intro: below_mono)

lemma is_fe_mul:
  assumes "is_fe b f v" "is_fe c g w" "b \<le> 2 ^ 54" "c \<le> 2 ^ 54"
  shows "is_fe (2 ^ 52) (fe_mul f g) (v * w)"
  using fe_mul_ok [OF is_feD(1) [OF assms(1,3)] is_feD(1) [OF assms(2,4)]] mod_mult_cong [OF is_feD(2) [OF assms(1)] is_feD(2) [OF assms(2)]]
  unfolding is_fe_def by (intro conjI) (simp_all only:)

lemma is_fe_sq:
  assumes "is_fe b f v" "b \<le> 2 ^ 54"
  shows "is_fe (2 ^ 52) (fe_sq f) (v * v)"
  using fe_sq_ok [OF is_feD(1) [OF assms]] mod_mult_cong [OF is_feD(2) [OF assms(1)] is_feD(2) [OF assms(1)]]
  unfolding is_fe_def by (intro conjI) (simp_all only:)

lemma is_fe_sq2:
  assumes "is_fe (2 ^ 52) f v"
  shows "is_fe (2 ^ 52) (fe_sq2 f) (2 * (v * v))"
  using fe_sq2_ok [OF is_feD(1) [OF assms order_refl]] eq_mod_mult [OF mod_mult_cong [OF is_feD(2) [OF assms] is_feD(2) [OF assms]], of 2]
  unfolding is_fe_def by (intro conjI) (simp_all only:)

lemma is_fe_add:
  assumes "is_fe b f v" "is_fe c g w" "b + c \<le> 2 ^ 64"
  shows "is_fe (b + c) (fe_add f g) (v + w)"
  using fe_add_ok [OF is_feD(1) [OF assms(1) order_refl] is_feD(1) [OF assms(2) order_refl] assms(3)]
    mod_add_cong [OF is_feD(2) [OF assms(1)] is_feD(2) [OF assms(2)]]
  unfolding is_fe_def by (intro conjI) (simp_all only:)

lemma is_fe_sub:
  assumes "is_fe b f v" "is_fe c g w" "b \<le> 2 ^ 53" "c \<le> 2 ^ 54"
  shows "is_fe (b + 2 ^ 52) (fe_sub f g) (v - w)"
  using fe_sub_ok [OF is_feD(1) [OF assms(1) order_refl] assms(3) is_feD(1) [OF assms(2,4)]]
    mod_diff_cong [OF is_feD(2) [OF assms(1)] is_feD(2) [OF assms(2)]]
  unfolding is_fe_def by (intro conjI) (simp_all only:)

lemma is_fe_neg:
  assumes "is_fe b f v" "b \<le> 2 ^ 54"
  shows "is_fe (2 ^ 53) (fe_neg f) (- v)"
  using fe_neg_ok [OF is_feD(1) [OF assms]] mod_diff_cong [OF refl is_feD(2) [OF assms(1)], of 0]
  unfolding is_fe_def diff_0 by (intro conjI) (simp_all only:)

text \<open>The representations of a point; the factor in front of the coordinates is invertible.\<close>

fun stands2 :: "ge_p2 \<Rightarrow> point \<Rightarrow> bool" where
  "stands2 p (x, y) \<longleftrightarrow> is_fe (2 ^ 53) (gX p) (fe_val (gZ p) * x) \<and> is_fe (2 ^ 52) (gY p) (fe_val (gZ p) * y) \<and>
     tight (gZ p) \<and> unit (fe_val (gZ p))"

fun stands3 :: "ge_p3 \<Rightarrow> point \<Rightarrow> bool" where
  "stands3 p (x, y) \<longleftrightarrow> is_fe (2 ^ 53) (gX p) (fe_val (gZ p) * x) \<and> is_fe (2 ^ 52) (gY p) (fe_val (gZ p) * y) \<and>
     tight (gZ p) \<and> unit (fe_val (gZ p)) \<and> is_fe (2 ^ 52) (gT p) (fe_val (gZ p) * (x * y))"

text \<open>Here \<open>x\<close> is \<open>X / Z\<close> and \<open>y\<close> is \<open>Y / T\<close>.\<close>

fun stands11 :: "ge_p1p1 \<Rightarrow> point \<Rightarrow> bool" where
  "stands11 p (x, y) \<longleftrightarrow> is_fe (2 ^ 54) (gX p) (fe_val (gZ p) * x) \<and> is_fe (2 ^ 54) (gY p) (fe_val (gT p) * y) \<and>
     loose (gZ p) \<and> loose (gT p) \<and> unit (fe_val (gZ p)) \<and> unit (fe_val (gT p))"

fun stands_precomp :: "ge_precomp \<Rightarrow> point \<Rightarrow> bool" where
  "stands_precomp q (x, y) \<longleftrightarrow> is_fe (2 ^ 54) (yplusx q) (y + x) \<and> is_fe (2 ^ 54) (yminusx q) (y - x) \<and> is_fe (2 ^ 54) (xy2d q) (2 * D * (x * y))"

fun stands_cached :: "ge_cached \<Rightarrow> point \<Rightarrow> bool" where
  "stands_cached q (x, y) \<longleftrightarrow> is_fe (2 ^ 54) (YplusX q) (fe_val (cZ q) * (y + x)) \<and> is_fe (2 ^ 54) (YminusX q) (fe_val (cZ q) * (y - x)) \<and>
     tight (cZ q) \<and> unit (fe_val (cZ q)) \<and> is_fe (2 ^ 54) (T2d q) (2 * D * (fe_val (cZ q) * (x * y)))"

section \<open>The operations follow the law\<close>

lemma p1p1_to_p2_stands: "stands11 p a \<Longrightarrow> stands2 (ge_p1p1_to_p2 p) a"
proof -
  assume s: "stands11 p a"
  obtain x y where a: "a = (x, y)" by (cases a)
  let ?Z = "fe_val (gZ p)" and ?T = "fe_val (gT p)"
  have X: "is_fe (2 ^ 54) (gX p) (?Z * x)" and Y: "is_fe (2 ^ 54) (gY p) (?T * y)" and Z: "is_fe (2 ^ 54) (gZ p) ?Z" and T: "is_fe (2 ^ 54) (gT p) ?T"
    and u: "unit (?Z * ?T)" using s by (simp_all add: a is_fe_self)
  note z = is_fe_mul [OF Z T order_refl order_refl]
  have e: "eq_mod (fe_val (fe_mul (gZ p) (gT p))) (?Z * ?T)" using z by (simp add: is_fe_def)
  have sub: "eq_mod (?Z * ?T * w) (fe_val (fe_mul (gZ p) (gT p)) * w)" for w using e mod_mult_cong by fastforce
  have x: "is_fe (2 ^ 52) (fe_mul (gX p) (gT p)) (fe_val (fe_mul (gZ p) (gT p)) * x)"
    by (rule is_fe_cong [OF is_fe_mul [OF X T order_refl order_refl]]) (use sub [of x] in \<open>simp add: ac_simps\<close>)
  have y: "is_fe (2 ^ 52) (fe_mul (gY p) (gZ p)) (fe_val (fe_mul (gZ p) (gT p)) * y)"
    by (rule is_fe_cong [OF is_fe_mul [OF Y Z order_refl order_refl]]) (use sub [of y] in \<open>simp add: ac_simps\<close>)
  have "unit (fe_val (fe_mul (gZ p) (gT p)))" using u unit_cong [OF e] by simp
  moreover have "is_fe (2 ^ 53) (fe_mul (gX p) (gT p)) (fe_val (fe_mul (gZ p) (gT p)) * x)" by (rule is_fe_mono [OF x]) simp
  ultimately show ?thesis using y is_feD(1) [OF z order_refl] by (simp add: a ge_p1p1_to_p2_def)
qed

lemma p1p1_to_p3_stands: "stands11 p a \<Longrightarrow> stands3 (ge_p1p1_to_p3 p) a"
proof -
  assume s: "stands11 p a"
  obtain x y where a: "a = (x, y)" by (cases a)
  let ?Z = "fe_val (gZ p)" and ?T = "fe_val (gT p)"
  have X: "is_fe (2 ^ 54) (gX p) (?Z * x)" and Y: "is_fe (2 ^ 54) (gY p) (?T * y)" and Z: "is_fe (2 ^ 54) (gZ p) ?Z" and T: "is_fe (2 ^ 54) (gT p) ?T"
    using s by (simp_all add: a is_fe_self)
  have "eq_mod (fe_val (fe_mul (gZ p) (gT p))) (?Z * ?T)" using is_fe_mul [OF Z T order_refl order_refl] by (simp add: is_fe_def)
  then have sub: "eq_mod (?Z * ?T * w) (fe_val (fe_mul (gZ p) (gT p)) * w)" for w using mod_mult_cong by fastforce
  have "is_fe (2 ^ 52) (fe_mul (gX p) (gY p)) (fe_val (fe_mul (gZ p) (gT p)) * (x * y))"
    by (rule is_fe_cong [OF is_fe_mul [OF X Y order_refl order_refl]]) (use sub [of "x * y"] in \<open>simp add: ac_simps\<close>)
  with p1p1_to_p2_stands [OF s] show ?thesis by (simp add: a ge_p1p1_to_p2_def ge_p1p1_to_p3_def)
qed

lemma is_fe_twice: "tight f \<Longrightarrow> is_fe (2 ^ 53) (fe_add f f) (2 * fe_val f)"
  using is_fe_add [OF is_fe_self is_fe_self, of "2 ^ 52" f "2 ^ 52" f] by simp

text \<open>The common end of the four additions, from the two products \<open>A\<close>, \<open>B\<close> and the two denominators.\<close>

lemma law_tail:
  assumes "is_fe (2 ^ 52) A (c * ((y1 + x1) * (y2 + x2)))" "is_fe (2 ^ 52) B (c * ((y1 - x1) * (y2 - x2)))"
    and z: "is_fe (2 ^ 54) Z (c * 2 * (1 + D * (x1 * x2 * y1 * y2)))" and t: "is_fe (2 ^ 54) T (c * 2 * (1 - D * (x1 * x2 * y1 * y2)))"
    and "unit c" "ed_sum (x1, y1) (x2, y2) (x3, y3)"
  shows "stands11 \<lparr>gX = fe_sub A B, gY = fe_add A B, gZ = Z, gT = T\<rparr> (x3, y3)"
proof -
  let ?K = "D * (x1 * x2 * y1 * y2)"
  have law: "unit (1 + ?K)" "unit (1 - ?K)" "eq_mod (x3 * (1 + ?K)) (x1 * y2 + x2 * y1)" "eq_mod (y3 * (1 - ?K)) (y1 * y2 + x1 * x2)"
    using assms(6) by simp_all
  have p: "(2 :: int) ^ 52 \<le> 2 ^ 53" "(2 :: int) ^ 52 \<le> 2 ^ 54" "(2 :: int) ^ 52 + 2 ^ 52 \<le> 2 ^ 64" "(2 :: int) ^ 52 + 2 ^ 52 \<le> 2 ^ 54" by simp_all
  note X = is_fe_mono [OF is_fe_sub [OF assms(1,2) p(1,2)] p(4)]
  note Y = is_fe_mono [OF is_fe_add [OF assms(1,2) p(3)] p(4)]
  have "eq_mod (c * ((y1 + x1) * (y2 + x2)) - c * ((y1 - x1) * (y2 - x2))) (fe_val Z * x3)"
  proof -
    have "c * ((y1 + x1) * (y2 + x2)) - c * ((y1 - x1) * (y2 - x2)) = c * 2 * (x1 * y2 + x2 * y1)" by (simp add: algebra_simps)
    moreover have "eq_mod (c * 2 * (x1 * y2 + x2 * y1)) (c * 2 * (x3 * (1 + ?K)))" by (rule eq_mod_mult) (rule law(3) [symmetric])
    moreover have "c * 2 * (x3 * (1 + ?K)) = c * 2 * (1 + ?K) * x3" by (simp add: ac_simps)
    moreover have "eq_mod (c * 2 * (1 + ?K) * x3) (fe_val Z * x3)" by (rule mod_mult_cong) (simp_all only: is_feD(2) [OF z])
    ultimately show ?thesis by (simp only:)
  qed
  from is_fe_cong [OF X this] have x: "is_fe (2 ^ 54) (fe_sub A B) (fe_val Z * x3)" .
  have "eq_mod (c * ((y1 + x1) * (y2 + x2)) + c * ((y1 - x1) * (y2 - x2))) (fe_val T * y3)"
  proof -
    have "c * ((y1 + x1) * (y2 + x2)) + c * ((y1 - x1) * (y2 - x2)) = c * 2 * (y1 * y2 + x1 * x2)" by (simp add: algebra_simps)
    moreover have "eq_mod (c * 2 * (y1 * y2 + x1 * x2)) (c * 2 * (y3 * (1 - ?K)))" by (rule eq_mod_mult) (rule law(4) [symmetric])
    moreover have "c * 2 * (y3 * (1 - ?K)) = c * 2 * (1 - ?K) * y3" by (simp add: ac_simps)
    moreover have "eq_mod (c * 2 * (1 - ?K) * y3) (fe_val T * y3)" by (rule mod_mult_cong) (simp_all only: is_feD(2) [OF t])
    ultimately show ?thesis by (simp only:)
  qed
  from is_fe_cong [OF Y this] have y: "is_fe (2 ^ 54) (fe_add A B) (fe_val T * y3)" .
  have "unit (fe_val Z)" "unit (fe_val T)"
    unfolding unit_cong [OF is_feD(2) [OF z]] unit_cong [OF is_feD(2) [OF t]] using assms(5) law(1,2) unit_2 by simp_all
  with x y is_feD(1) [OF z order_refl] is_feD(1) [OF t order_refl] show ?thesis by simp
qed

lemma denominators:
  assumes "is_fe (2 ^ 53) t0 (c * 2)" "is_fe (2 ^ 52) C (c * (2 * k))"
  shows "is_fe (2 ^ 54) (fe_add t0 C) (c * 2 * (1 + k))" and "is_fe (2 ^ 54) (fe_sub t0 C) (c * 2 * (1 - k))"
proof -
  have p: "(2 :: int) ^ 53 + 2 ^ 52 \<le> 2 ^ 64" "(2 :: int) ^ 53 + 2 ^ 52 \<le> 2 ^ 54" "(2 :: int) ^ 52 \<le> 2 ^ 54" by simp_all
  show "is_fe (2 ^ 54) (fe_add t0 C) (c * 2 * (1 + k))"
    using is_fe_mono [OF is_fe_add [OF assms p(1)] p(2)] by (simp add: algebra_simps)
  show "is_fe (2 ^ 54) (fe_sub t0 C) (c * 2 * (1 - k))"
    using is_fe_mono [OF is_fe_sub [OF assms order_refl p(3)] p(2)] by (simp add: algebra_simps)
qed

lemma law_start:
  assumes "stands3 p (x, y)"
  shows "is_fe (2 ^ 54) (fe_add (gY p) (gX p)) (fe_val (gZ p) * (y + x))" and "is_fe (2 ^ 54) (fe_sub (gY p) (gX p)) (fe_val (gZ p) * (y - x))"
    and "is_fe (2 ^ 54) (gT p) (fe_val (gZ p) * (x * y))" and "is_fe (2 ^ 53) (fe_add (gZ p) (gZ p)) (fe_val (gZ p) * 2)"
    and "unit (fe_val (gZ p))" and "is_fe (2 ^ 54) (gZ p) (fe_val (gZ p))"
proof -
  have b: "(2 :: int) ^ 52 + 2 ^ 53 \<le> 2 ^ 64" "(2 :: int) ^ 52 + 2 ^ 53 \<le> 2 ^ 54" "(2 :: int) ^ 52 \<le> 2 ^ 53" "(2 :: int) ^ 53 \<le> 2 ^ 54"
    "(2 :: int) ^ 52 + 2 ^ 52 \<le> 2 ^ 54" "(2 :: int) ^ 52 \<le> 2 ^ 54" by simp_all
  have X: "is_fe (2 ^ 53) (gX p) (fe_val (gZ p) * x)" and Y: "is_fe (2 ^ 52) (gY p) (fe_val (gZ p) * y)" and Z: "tight (gZ p)"
    and T: "is_fe (2 ^ 52) (gT p) (fe_val (gZ p) * (x * y))" using assms by simp_all
  show "is_fe (2 ^ 54) (fe_add (gY p) (gX p)) (fe_val (gZ p) * (y + x))"
    unfolding distrib_left by (rule is_fe_mono [OF is_fe_add [OF Y X b(1)] b(2)])
  show "is_fe (2 ^ 54) (fe_sub (gY p) (gX p)) (fe_val (gZ p) * (y - x))"
    unfolding right_diff_distrib by (rule is_fe_mono [OF is_fe_sub [OF Y X b(3,4)] b(5)])
  show "is_fe (2 ^ 54) (gT p) (fe_val (gZ p) * (x * y))" by (rule is_fe_mono [OF T b(6)])
  show "is_fe (2 ^ 53) (fe_add (gZ p) (gZ p)) (fe_val (gZ p) * 2)" using is_fe_twice [OF Z] by (simp only: mult.commute)
  show "unit (fe_val (gZ p))" "is_fe (2 ^ 54) (gZ p) (fe_val (gZ p))" using assms is_fe_mono [OF is_fe_self [OF Z] b(6)] by simp_all
qed

lemma precomp_terms:
  assumes "stands3 p (x1, y1)" "stands_precomp q (x2, y2)"
  shows "is_fe (2 ^ 52) (fe_mul (fe_add (gY p) (gX p)) (yplusx q)) (fe_val (gZ p) * ((y1 + x1) * (y2 + x2)))"
    and "is_fe (2 ^ 52) (fe_mul (fe_sub (gY p) (gX p)) (yminusx q)) (fe_val (gZ p) * ((y1 - x1) * (y2 - x2)))"
    and "is_fe (2 ^ 52) (fe_mul (fe_add (gY p) (gX p)) (yminusx q)) (fe_val (gZ p) * ((y1 + x1) * (y2 - x2)))"
    and "is_fe (2 ^ 52) (fe_mul (fe_sub (gY p) (gX p)) (yplusx q)) (fe_val (gZ p) * ((y1 - x1) * (y2 + x2)))"
    and "is_fe (2 ^ 52) (fe_mul (xy2d q) (gT p)) (fe_val (gZ p) * (2 * (D * (x1 * x2 * y1 * y2))))"
proof -
  note s = law_start [OF assms(1)]
  have q: "is_fe (2 ^ 54) (yplusx q) (y2 + x2)" "is_fe (2 ^ 54) (yminusx q) (y2 - x2)" "is_fe (2 ^ 54) (xy2d q) (2 * D * (x2 * y2))"
    using assms(2) by simp_all
  note m = is_fe_mul [OF _ _ order_refl order_refl]
  show "is_fe (2 ^ 52) (fe_mul (fe_add (gY p) (gX p)) (yplusx q)) (fe_val (gZ p) * ((y1 + x1) * (y2 + x2)))"
    "is_fe (2 ^ 52) (fe_mul (fe_sub (gY p) (gX p)) (yminusx q)) (fe_val (gZ p) * ((y1 - x1) * (y2 - x2)))"
    "is_fe (2 ^ 52) (fe_mul (fe_add (gY p) (gX p)) (yminusx q)) (fe_val (gZ p) * ((y1 + x1) * (y2 - x2)))"
    "is_fe (2 ^ 52) (fe_mul (fe_sub (gY p) (gX p)) (yplusx q)) (fe_val (gZ p) * ((y1 - x1) * (y2 + x2)))"
    using m [OF s(1) q(1)] m [OF s(2) q(2)] m [OF s(1) q(2)] m [OF s(2) q(1)] by (simp_all only: mult.assoc)
  show "is_fe (2 ^ 52) (fe_mul (xy2d q) (gT p)) (fe_val (gZ p) * (2 * (D * (x1 * x2 * y1 * y2))))"
    using m [OF q(3) s(3)] by (simp only: ac_simps)
qed

lemma cached_terms:
  assumes "stands3 p (x1, y1)" "stands_cached q (x2, y2)"
  shows "is_fe (2 ^ 52) (fe_mul (fe_add (gY p) (gX p)) (YplusX q)) (fe_val (gZ p) * fe_val (cZ q) * ((y1 + x1) * (y2 + x2)))"
    and "is_fe (2 ^ 52) (fe_mul (fe_sub (gY p) (gX p)) (YminusX q)) (fe_val (gZ p) * fe_val (cZ q) * ((y1 - x1) * (y2 - x2)))"
    and "is_fe (2 ^ 52) (fe_mul (fe_add (gY p) (gX p)) (YminusX q)) (fe_val (gZ p) * fe_val (cZ q) * ((y1 + x1) * (y2 - x2)))"
    and "is_fe (2 ^ 52) (fe_mul (fe_sub (gY p) (gX p)) (YplusX q)) (fe_val (gZ p) * fe_val (cZ q) * ((y1 - x1) * (y2 + x2)))"
    and "is_fe (2 ^ 52) (fe_mul (T2d q) (gT p)) (fe_val (gZ p) * fe_val (cZ q) * (2 * (D * (x1 * x2 * y1 * y2))))"
    and "is_fe (2 ^ 53) (fe_add (fe_mul (gZ p) (cZ q)) (fe_mul (gZ p) (cZ q))) (fe_val (gZ p) * fe_val (cZ q) * 2)"
    and "unit (fe_val (gZ p) * fe_val (cZ q))"
proof -
  note s = law_start [OF assms(1)]
  have q: "is_fe (2 ^ 54) (YplusX q) (fe_val (cZ q) * (y2 + x2))" "is_fe (2 ^ 54) (YminusX q) (fe_val (cZ q) * (y2 - x2))"
    "is_fe (2 ^ 54) (T2d q) (2 * D * (fe_val (cZ q) * (x2 * y2)))" "tight (cZ q)" "unit (fe_val (cZ q))"
    using assms(2) by simp_all
  note m = is_fe_mul [OF _ _ order_refl order_refl]
  show "is_fe (2 ^ 52) (fe_mul (fe_add (gY p) (gX p)) (YplusX q)) (fe_val (gZ p) * fe_val (cZ q) * ((y1 + x1) * (y2 + x2)))"
    "is_fe (2 ^ 52) (fe_mul (fe_sub (gY p) (gX p)) (YminusX q)) (fe_val (gZ p) * fe_val (cZ q) * ((y1 - x1) * (y2 - x2)))"
    "is_fe (2 ^ 52) (fe_mul (fe_add (gY p) (gX p)) (YminusX q)) (fe_val (gZ p) * fe_val (cZ q) * ((y1 + x1) * (y2 - x2)))"
    "is_fe (2 ^ 52) (fe_mul (fe_sub (gY p) (gX p)) (YplusX q)) (fe_val (gZ p) * fe_val (cZ q) * ((y1 - x1) * (y2 + x2)))"
    using m [OF s(1) q(1)] m [OF s(2) q(2)] m [OF s(1) q(2)] m [OF s(2) q(1)] by (simp_all only: ac_simps)
  show "is_fe (2 ^ 52) (fe_mul (T2d q) (gT p)) (fe_val (gZ p) * fe_val (cZ q) * (2 * (D * (x1 * x2 * y1 * y2))))"
    using m [OF q(3) s(3)] by (simp only: ac_simps)
  have "is_fe (2 ^ 52) (fe_mul (gZ p) (cZ q)) (fe_val (gZ p) * fe_val (cZ q))" using is_fe_mul [OF s(6) is_fe_self [OF q(4)] order_refl] by simp
  then have "is_fe (2 ^ 52 + 2 ^ 52) (fe_add (fe_mul (gZ p) (cZ q)) (fe_mul (gZ p) (cZ q)))
      (fe_val (gZ p) * fe_val (cZ q) + fe_val (gZ p) * fe_val (cZ q))" by (intro is_fe_add) simp_all
  then show "is_fe (2 ^ 53) (fe_add (fe_mul (gZ p) (cZ q)) (fe_mul (gZ p) (cZ q))) (fe_val (gZ p) * fe_val (cZ q) * 2)" by (simp add: ac_simps)
  show "unit (fe_val (gZ p) * fe_val (cZ q))" using s(5) q(5) by simp
qed

text \<open>A difference is the sum with the negated point, with the two denominators exchanged.\<close>

lemma law_diff:
  assumes "is_fe (2 ^ 52) A (c * ((y1 + x1) * (y2 - x2)))" "is_fe (2 ^ 52) B (c * ((y1 - x1) * (y2 + x2)))"
    and z: "is_fe (2 ^ 54) Z (c * 2 * (1 - D * (x1 * x2 * y1 * y2)))" and t: "is_fe (2 ^ 54) T (c * 2 * (1 + D * (x1 * x2 * y1 * y2)))"
    and "unit c" "ed_sum (x1, y1) (ed_neg (x2, y2)) (x3, y3)"
  shows "stands11 \<lparr>gX = fe_sub A B, gY = fe_add A B, gZ = Z, gT = T\<rparr> (x3, y3)"
  using law_tail [of A c y1 x1 y2 "- x2" B Z T x3 y3] assms by simp

lemma addition_stands:
  assumes "stands3 p a"
  shows "stands_precomp q b \<Longrightarrow> ed_sum a b c \<Longrightarrow> stands11 (ge_madd p q) c"
    and "stands_precomp q b \<Longrightarrow> ed_sum a (ed_neg b) c \<Longrightarrow> stands11 (ge_msub p q) c"
    and "stands_cached r b \<Longrightarrow> ed_sum a b c \<Longrightarrow> stands11 (ge_add_cached p r) c"
    and "stands_cached r b \<Longrightarrow> ed_sum a (ed_neg b) c \<Longrightarrow> stands11 (ge_sub_cached p r) c"
proof -
  obtain x1 y1 x2 y2 x3 y3 where v: "a = (x1, y1)" "b = (x2, y2)" "c = (x3, y3)" by (cases a; cases b; cases c)
  note p = assms [unfolded v]
  note s = law_start [OF p]
  show "stands11 (ge_madd p q) c" if q: "stands_precomp q b" "ed_sum a b c"
  proof -
    note t = precomp_terms [OF p q(1) [unfolded v]]
    from law_tail [OF t(1,2) denominators [OF s(4) t(5)] s(5) q(2) [unfolded v]] show ?thesis by (simp only: ge_madd_def Let_def v)
  qed
  show "stands11 (ge_msub p q) c" if q: "stands_precomp q b" "ed_sum a (ed_neg b) c"
  proof -
    note t = precomp_terms [OF p q(1) [unfolded v]]
    from law_diff [OF t(3,4) denominators(2,1) [OF s(4) t(5)] s(5) q(2) [unfolded v]] show ?thesis by (simp only: ge_msub_def Let_def v)
  qed
  show "stands11 (ge_add_cached p r) c" if q: "stands_cached r b" "ed_sum a b c"
  proof -
    note t = cached_terms [OF p q(1) [unfolded v]]
    from law_tail [OF t(1,2) denominators [OF t(6,5)] t(7) q(2) [unfolded v]] show ?thesis by (simp only: ge_add_cached_def Let_def v)
  qed
  show "stands11 (ge_sub_cached p r) c" if q: "stands_cached r b" "ed_sum a (ed_neg b) c"
  proof -
    note t = cached_terms [OF p q(1) [unfolded v]]
    from law_diff [OF t(3,4) denominators(2,1) [OF t(6,5)] t(7) q(2) [unfolded v]] show ?thesis by (simp only: ge_sub_cached_def Let_def v)
  qed
qed

lemma dbl_stands:
  assumes "stands2 p a" "on_curve a" "ed_sum a a c"
  shows "stands11 (ge_p2_dbl p) c"
proof -
  obtain x y x3 y3 where v: "a = (x, y)" "c = (x3, y3)" by (cases a; cases c)
  let ?c = "fe_val (gZ p)" and ?K = "D * (x * x * y * y)"
  have X: "is_fe (2 ^ 53) (gX p) (?c * x)" and Y: "is_fe (2 ^ 52) (gY p) (?c * y)" and Z: "tight (gZ p)" "unit ?c"
    using assms(1) by (simp_all add: v)
  have law: "unit (1 + ?K)" "unit (1 - ?K)" "eq_mod (x3 * (1 + ?K)) (x * y + x * y)" "eq_mod (y3 * (1 - ?K)) (y * y + x * x)"
    using assms(3) by (simp_all add: v)
  have curve: "eq_mod (y * y - x * x) (1 + ?K)" using assms(2) by (simp add: v)
  have p: "(2 :: int) ^ 53 \<le> 2 ^ 54" "(2 :: int) ^ 52 \<le> 2 ^ 54" "(2 :: int) ^ 53 + 2 ^ 52 \<le> 2 ^ 64" "(2 :: int) ^ 53 + 2 ^ 52 \<le> 2 ^ 54"
    "(2 :: int) ^ 52 + 2 ^ 52 \<le> 2 ^ 64" "(2 :: int) ^ 52 + 2 ^ 52 \<le> 2 ^ 54" "(2 :: int) ^ 52 \<le> 2 ^ 53" by simp_all
  note A = is_fe_sq [OF X p(1)] and B = is_fe_sq [OF Y p(2)] and C = is_fe_sq2 [OF is_fe_self [OF Z(1)]]
  note S = is_fe_sq [OF is_fe_add [OF X Y p(3)] p(4)]
  note sum = is_fe_mono [OF is_fe_add [OF B A p(5)] p(6)]
  note dif = is_fe_mono [OF is_fe_sub [OF B A p(7,2)] p(6)]
  note num = is_fe_mono [OF is_fe_sub [OF S sum p(7) order_refl] p(6)]
  note den = is_fe_mono [OF is_fe_sub [OF C dif p(7) order_refl] p(6)]
  let ?A = "fe_sq (gX p)" and ?B = "fe_sq (gY p)"
  let ?Z = "fe_sub ?B ?A" let ?T = "fe_sub (fe_sq2 (gZ p)) ?Z"
  have z: "eq_mod (fe_val ?Z) (?c * ?c * (1 + ?K))"
  proof -
    have "?c * y * (?c * y) - ?c * x * (?c * x) = ?c * ?c * (y * y - x * x)" by (simp add: algebra_simps)
    then show ?thesis using is_feD(2) [OF dif] eq_mod_mult [OF curve, of "?c * ?c"] by (simp only:)
  qed
  have t: "eq_mod (fe_val ?T) (?c * ?c * (1 - ?K))"
  proof -
    have "2 * (?c * ?c) - (?c * y * (?c * y) - ?c * x * (?c * x)) = ?c * ?c * (2 - (y * y - x * x))" by (simp add: algebra_simps)
    moreover have "eq_mod (2 - (y * y - x * x)) (2 - (1 + ?K))" by (rule mod_diff_cong [OF refl curve])
    moreover have "2 - (1 + ?K) = 1 - ?K" by simp
    ultimately show ?thesis using is_feD(2) [OF den] eq_mod_mult [of "2 - (y * y - x * x)" "2 - (1 + ?K)" "?c * ?c"] by (simp only:)
  qed
  have x: "is_fe (2 ^ 54) (fe_sub (fe_sq (fe_add (gX p) (gY p))) (fe_add ?B ?A)) (fe_val ?Z * x3)"
  proof (rule is_fe_cong [OF num])
    have "(?c * x + ?c * y) * (?c * x + ?c * y) - (?c * y * (?c * y) + ?c * x * (?c * x)) = ?c * ?c * (x * y + x * y)" by (simp add: algebra_simps)
    moreover have "eq_mod (?c * ?c * (x * y + x * y)) (?c * ?c * (x3 * (1 + ?K)))" by (rule eq_mod_mult) (rule law(3) [symmetric])
    moreover have "?c * ?c * (x3 * (1 + ?K)) = ?c * ?c * (1 + ?K) * x3" by (simp add: ac_simps)
    moreover have "eq_mod (?c * ?c * (1 + ?K) * x3) (fe_val ?Z * x3)" by (rule mod_mult_cong) (simp_all only: z)
    ultimately show "eq_mod ((?c * x + ?c * y) * (?c * x + ?c * y) - (?c * y * (?c * y) + ?c * x * (?c * x))) (fe_val ?Z * x3)" by (simp only:)
  qed
  have y: "is_fe (2 ^ 54) (fe_add ?B ?A) (fe_val ?T * y3)"
  proof (rule is_fe_cong [OF sum])
    have "?c * y * (?c * y) + ?c * x * (?c * x) = ?c * ?c * (y * y + x * x)" by (simp add: algebra_simps)
    moreover have "eq_mod (?c * ?c * (y * y + x * x)) (?c * ?c * (y3 * (1 - ?K)))" by (rule eq_mod_mult) (rule law(4) [symmetric])
    moreover have "?c * ?c * (y3 * (1 - ?K)) = ?c * ?c * (1 - ?K) * y3" by (simp add: ac_simps)
    moreover have "eq_mod (?c * ?c * (1 - ?K) * y3) (fe_val ?T * y3)" by (rule mod_mult_cong) (simp_all only: t)
    ultimately show "eq_mod (?c * y * (?c * y) + ?c * x * (?c * x)) (fe_val ?T * y3)" by (simp only:)
  qed
  have u: "unit (fe_val ?Z)" "unit (fe_val ?T)" unfolding unit_cong [OF z] unit_cong [OF t] using Z(2) law(1,2) by simp_all
  show ?thesis unfolding ge_p2_dbl_def Let_def v
    using x y u is_feD(1) [OF dif order_refl] is_feD(1) [OF den order_refl] by simp
qed

lemma stands3_2: "stands3 p a \<Longrightarrow> stands2 (ge_p3_to_p2 p) a"
  by (cases a) (simp add: ge_p3_to_p2_def)

lemma to_cached_stands:
  assumes "stands3 p a"
  shows "stands_cached (ge_p3_to_cached p) a"
proof -
  obtain x y where v: "a = (x, y)" by (cases a)
  note s = law_start [OF assms [unfolded v]]
  have p: "(2 :: int) ^ 52 \<le> 2 ^ 54" by simp
  have d: "is_fe (2 ^ 54) ed_d2 (2 * D)" using D_value by (simp add: is_fe_def ed_d2_def)
  have "is_fe (2 ^ 54) (fe_mul (gT p) ed_d2) (2 * D * (fe_val (gZ p) * (x * y)))"
    using is_fe_mono [OF is_fe_mul [OF s(3) d order_refl order_refl] p] by (simp only: ac_simps)
  with s assms show ?thesis by (simp add: v ge_p3_to_cached_def)
qed

lemma neutral_stands: "stands3 ge_p3_0 (0, 1)" "stands2 ge_p2_0 (0, 1)" "stands_precomp ge_precomp_0 (0, 1)"
  by (simp_all add: ge_p3_0_def ge_p2_0_def ge_precomp_0_def is_fe_def)

lemma ed_sum_0: "ed_sum a (0, 1) a" "ed_sum (0, 1) a a"
  by (cases a; simp)+

section \<open>Points as bytes\<close>

text \<open>The encoding of a point: the bytes of \<open>y\<close> with the parity of \<open>x\<close> in the last bit.\<close>

definition encodes :: "byte list \<Rightarrow> point \<Rightarrow> bool" where
  "encodes s a \<longleftrightarrow> length s = 32 \<and> le_value s = snd a mod P + (if odd (fst a mod P) then 2 ^ 255 else 0)"

lemma encodes_unique: "encodes s a \<Longrightarrow> encodes t a \<Longrightarrow> s = t"
  by (rule le_value_inj) (simp_all add: encodes_def)

lemma sign_bit:
  assumes "length s = 32" "le_value s < 2 ^ 255"
  shows "le_value (s[31 := s ! 31 XOR (if b then 128 else 0)]) = le_value s + (if b then 2 ^ 255 else 0)"
proof -
  obtain t c where s: "s = t @ [c]" "length t = 31" using assms(1) by (cases s rule: rev_exhaust) simp_all
  have v: "le_value s = le_value t + 2 ^ 248 * uint c" using s(2) by (simp add: s(1) le_value_append)
  have "(2 :: int) ^ 255 = 2 ^ 248 * 128" by simp
  then have "2 ^ 248 * uint c < 2 ^ 248 * 128" using assms(2) le_value_nonneg [of t] unfolding v by linarith
  then have "uint c < 128" by (rule mult_left_less_imp_less) simp
  then have "c XOR 128 = c + 128" and u: "uint (c + 128) = uint c + 128"
  proof -
    have "uint c < 2 ^ 7" using \<open>uint c < 128\<close> by simp
    then have "c = take_bit 7 c" by (intro word_uint_eqI) (simp only: unsigned_take_bit_eq, simp add: take_bit_int_eq_self)
    then have b: "bit c m \<Longrightarrow> m < 7" for m by (metis bit_take_bit_iff)
    have "(128 :: byte) = push_bit 7 1" by simp
    then have h: "bit (128 :: byte) m \<Longrightarrow> 7 \<le> m" for m by (simp only: bit_push_bit_iff)
    have "c AND 128 = 0"
    proof (rule bit_word_eqI)
      fix m show "bit (c AND 128) m = bit 0 m" using b [of m] h [of m] by (auto simp: bit_and_iff)
    qed
    then show "c XOR 128 = c + 128" using disjunctive_add_eq_or [of c 128] by (simp add: disjunctive_xor_eq_or)
    show "uint (c + 128) = uint c + 128" using \<open>uint c < 128\<close> by (subst uint_plus) simp_all
  qed
  with v s(2) show ?thesis by (simp add: s(1) le_value_append nth_append list_update_append)
qed

text \<open>
  The inverse of the factor is a power, so the encoding needs Fermat's theorem for the factor: it is a
  hypothesis here, since that the modulus is a prime is not proved in this development.
\<close>

lemma tobytes_encodes:
  assumes "stands2 h a" "eq_mod (fe_val (gZ h) ^ nat (P - 1)) 1"
  shows "encodes (ge_tobytes h) a"
proof -
  obtain x y where v: "a = (x, y)" by (cases a)
  let ?z = "fe_val (gZ h)" and ?r = "fe_invert (gZ h)"
  have X: "is_fe (2 ^ 53) (gX h) (?z * x)" and Y: "is_fe (2 ^ 52) (gY h) (?z * y)" and Z: "tight (gZ h)" using assms(1) by (simp_all add: v)
  have "nat (P - 1) = Suc (2 ^ 255 - 21)" by (simp add: P_def)
  from assms(2) [unfolded this power_Suc] have inv: "eq_mod (?z * ?z ^ (2 ^ 255 - 21)) 1" .
  have r: "is_fe (2 ^ 54) ?r (?z ^ (2 ^ 255 - 21))" using pw_invert [OF tight_loose [OF Z]] by (simp add: pw_def is_fe_def)
  have p: "(2 :: int) ^ 53 \<le> 2 ^ 54" "(2 :: int) ^ 52 \<le> 2 ^ 54" by simp_all
  have cancel: "eq_mod (?z * w * ?z ^ (2 ^ 255 - 21)) w" for w
  proof -
    have "?z * w * ?z ^ (2 ^ 255 - 21) = w * (?z * ?z ^ (2 ^ 255 - 21))" by (simp only: ac_simps)
    then show ?thesis using eq_mod_mult [OF inv, of w] by (simp only: mult_1_right)
  qed
  have x: "is_fe (2 ^ 52) (fe_mul (gX h) ?r) x" by (rule is_fe_cong [OF is_fe_mul [OF X r p(1) order_refl] cancel])
  have y: "is_fe (2 ^ 52) (fe_mul (gY h) ?r) y" by (rule is_fe_cong [OF is_fe_mul [OF Y r p(2) order_refl] cancel])
  have n: "fe_isnegative (fe_mul (gX h) ?r) \<longleftrightarrow> odd (x mod P)"
    using fe_isnegative_iff [OF is_feD(1) [OF x p(2)]] is_feD(2) [OF x] by simp
  note b = fe_tobytes_ok [OF is_feD(1) [OF y p(2)]]
  have b1: "le_value (fe_tobytes (fe_mul (gY h) ?r)) = y mod P" unfolding b(1) by (rule is_feD(2) [OF y])
  have "y mod P < 2 ^ 255" using pos_mod_bound [OF P_pos(1), of y] P_pos(2) by linarith
  with sign_bit [OF b(2)] b show ?thesis
    by (simp only: encodes_def ge_tobytes_def Let_def v n b1 fst_conv snd_conv length_list_update)
qed

lemma p3_tobytes_eq: "ge_p3_tobytes h = ge_tobytes (ge_p3_to_p2 h)"
  by (simp add: ge_p3_tobytes_def ge_tobytes_def ge_p3_to_p2_def)

text \<open>A root of the curve equation, from one of the two checks.\<close>

lemma root_on_curve:
  assumes "eq_mod u (y * y - 1)" "eq_mod v (y * y * D + 1)" "eq_mod (x * x * v) u"
  shows "on_curve (x, y)"
proof -
  have "eq_mod (x * x * (y * y * D + 1)) (y * y - 1)"
    using assms mod_mult_cong [OF refl assms(2), of "x * x"] by (simp only:)
  then have "eq_mod (x * x * (y * y * D + 1) + (1 - x * x)) (y * y - 1 + (1 - x * x))" by (rule mod_add_cong) (rule refl)
  moreover have "x * x * (y * y * D + 1) + (1 - x * x) = 1 + D * (x * x * y * y)" by (simp add: algebra_simps)
  moreover have "y * y - 1 + (1 - x * x) = y * y - x * x" by simp
  ultimately show ?thesis by simp
qed

lemma eq_mod_zero: "eq_mod (a - b) 0 \<Longrightarrow> eq_mod a b" "eq_mod (a + b) 0 \<Longrightarrow> eq_mod a (- b)"
  by (simp_all add: mod_eq_dvd_iff mod_eq_0_iff_dvd)

lemma loose_frombytes: "length s = 32 \<Longrightarrow> is_fe (2 ^ 52) (fe_frombytes s) (fe_val (fe_frombytes s))"
  by (rule is_fe_self) (erule below_mono [OF fe_frombytes_ok(2)], simp)

lemma decode_stands:
  assumes "length s = 32" "ge_frombytes_negate_vartime s = Some h"
  shows "\<exists>x. on_curve (x, fe_val (fe_frombytes s)) \<and> stands3 h (x, fe_val (fe_frombytes s)) \<and> gZ h = fe_1 \<and>
    (x mod P \<noteq> 0 \<longrightarrow> odd (x mod P) \<noteq> (drop_bit 7 (s ! 31) = 1))"
proof -
  define Y where "Y = fe_frombytes s"
  define y where "y = fe_val Y"
  define u where "u = fe_sub (fe_sq Y) fe_1"
  define v where "v = fe_add (fe_mul (fe_sq Y) ed_d) fe_1"
  define v3 where "v3 = fe_mul (fe_sq v) v"
  define X0 where "X0 = fe_mul (fe_mul (fe_pow22523 (fe_mul (fe_mul (fe_sq v3) v) u)) v3) u"
  define vxx where "vxx = fe_mul (fe_sq X0) v"
  define X1 where "X1 = (if fe_iszero (fe_sub vxx u) then X0 else fe_mul X0 sqrtm1)"
  define X2 where "X2 = (if fe_isnegative X1 = (drop_bit 7 (s ! 31) = 1) then fe_neg X1 else X1)"
  have code: "\<not> (\<not> fe_iszero (fe_sub vxx u) \<and> \<not> fe_iszero (fe_add vxx u))" "h = \<lparr>gX = X2, gY = Y, gZ = fe_1, gT = fe_mul X2 Y\<rparr>"
    using assms(2) unfolding ge_frombytes_negate_vartime_def Let_def Y_def [symmetric] u_def [symmetric] v_def [symmetric] v3_def [symmetric]
      X0_def [symmetric] vxx_def [symmetric] X1_def [symmetric] X2_def [symmetric] by (simp_all split: if_splits)
  have p: "(2 :: int) ^ 52 \<le> 2 ^ 54" "(2 :: int) ^ 53 \<le> 2 ^ 54" "(2 :: int) ^ 52 \<le> 2 ^ 53" "(2 :: int) ^ 52 + 2 ^ 52 \<le> 2 ^ 64"
    "(2 :: int) ^ 52 + 2 ^ 52 \<le> 2 ^ 54" "(2 :: int) ^ 52 + 2 ^ 54 \<le> 2 ^ 64" by simp_all
  have Y: "is_fe (2 ^ 52) Y y" unfolding Y_def y_def by (rule loose_frombytes [OF assms(1)])
  have one: "is_fe (2 ^ 52) fe_1 1" by (simp add: is_fe_def)
  have d: "is_fe (2 ^ 54) ed_d D" by (simp add: is_fe_def ed_d_def D_def)
  note yy = is_fe_sq [OF Y p(1)]
  have u: "is_fe (2 ^ 54) u (y * y - 1)" unfolding u_def by (rule is_fe_mono [OF is_fe_sub [OF yy one p(3,1)] p(5)])
  have v: "is_fe (2 ^ 54) v (y * y * D + 1)" unfolding v_def
    by (rule is_fe_mono [OF is_fe_add [OF is_fe_mul [OF yy d p(1) order_refl] one p(4)] p(5)])
  have X0: "is_fe (2 ^ 52) X0 (fe_val X0)"
  proof (rule is_fe_self)
    have v3: "is_fe (2 ^ 52) v3 ((y * y * D + 1) * (y * y * D + 1) * (y * y * D + 1))" unfolding v3_def
      by (rule is_fe_mul [OF is_fe_sq [OF v order_refl] v p(1) order_refl])
    note w = is_fe_mul [OF is_fe_mul [OF is_fe_sq [OF v3 p(1)] v p(1) order_refl] u p(1) order_refl]
    have "loose (fe_pow22523 (fe_mul (fe_mul (fe_sq v3) v) u))" using pw_22523 [OF is_feD(1) [OF w p(1)]] by (simp add: pw_def)
    from is_fe_mul [OF is_fe_mul [OF is_fe_self [OF this] v3 order_refl p(1)] u p(1) order_refl]
    show "tight X0" unfolding X0_def by (rule is_feD) simp
  qed
  have vxx: "is_fe (2 ^ 52) vxx (fe_val X0 * fe_val X0 * (y * y * D + 1))" unfolding vxx_def
    by (rule is_fe_mul [OF is_fe_sq [OF X0 p(1)] v p(1) order_refl])
  note minus = is_fe_mono [OF is_fe_sub [OF vxx u p(3) order_refl] p(5)]
  have uv: "is_fe (2 ^ 53) u (y * y - 1)" unfolding u_def using is_fe_sub [OF yy one p(3,1)] by simp
  have plus: "is_fe (2 ^ 54) (fe_add vxx u) (fe_val X0 * fe_val X0 * (y * y * D + 1) + (y * y - 1))"
    by (rule is_fe_mono [OF is_fe_add [OF vxx uv]]) simp_all
  have zero: "fe_iszero f \<longleftrightarrow> eq_mod w 0" if "is_fe (2 ^ 54) f w" for f w
    using fe_iszero_iff [OF is_feD(1) [OF that order_refl]] is_feD(2) [OF that] by simp
  obtain x1 where x1: "is_fe (2 ^ 52) X1 x1" "eq_mod (x1 * x1 * (y * y * D + 1)) (y * y - 1)"
  proof (cases "fe_iszero (fe_sub vxx u)")
    case True
    then have "eq_mod (fe_val X0 * fe_val X0 * (y * y * D + 1) - (y * y - 1)) 0" using zero [OF minus] by simp
    then have "eq_mod (fe_val X0 * fe_val X0 * (y * y * D + 1)) (y * y - 1)" by (simp add: mod_eq_dvd_iff mod_eq_0_iff_dvd)
    with that [of "fe_val X0"] X0 True show ?thesis by (simp add: X1_def)
  next
    case False
    then have "fe_iszero (fe_add vxx u)" using code(1) by simp
    then have m: "eq_mod (fe_val X0 * fe_val X0 * (y * y * D + 1)) (- (y * y - 1))" using zero [OF plus] by (intro eq_mod_zero(2)) simp
    let ?x = "fe_val X0 * fe_val sqrtm1"
    have "is_fe (2 ^ 52) X1 ?x" using False is_fe_mul [OF X0 is_fe_self [of "2 ^ 54" sqrtm1] p(1) order_refl]
      by (simp add: X1_def) (simp add: sqrtm1_def)
    moreover have "eq_mod (?x * ?x * (y * y * D + 1)) (y * y - 1)"
    proof -
      have "?x * ?x * (y * y * D + 1) = fe_val X0 * fe_val X0 * (y * y * D + 1) * (fe_val sqrtm1 * fe_val sqrtm1)" by (simp only: ac_simps)
      moreover have "eq_mod (fe_val X0 * fe_val X0 * (y * y * D + 1) * (fe_val sqrtm1 * fe_val sqrtm1)) (- (y * y - 1) * - 1)"
        by (rule mod_mult_cong [OF m sqrtm1_square])
      moreover have "- (y * y - 1) * - 1 = y * y - 1" by simp
      ultimately show ?thesis by (simp only:)
    qed
    ultimately show ?thesis by (rule that)
  qed
  have neg1: "fe_isnegative X1 \<longleftrightarrow> odd (x1 mod P)" using fe_isnegative_iff [OF is_feD(1) [OF x1(1) p(1)]] is_feD(2) [OF x1(1)] by simp
  define x where "x = (if fe_isnegative X1 = (drop_bit 7 (s ! 31) = 1) then - x1 else x1)"
  have X2: "is_fe (2 ^ 53) X2 x" using is_fe_neg [OF x1(1) p(1)] is_fe_mono [OF x1(1) p(3)] by (simp add: X2_def x_def)
  have "x * x = x1 * x1" by (simp add: x_def)
  then have curve: "on_curve (x, y)" by (intro root_on_curve [OF refl refl]) (use x1(2) in simp)
  have odd: "odd (x mod P) \<noteq> (drop_bit 7 (s ! 31) = 1)" if "x mod P \<noteq> 0"
  proof (cases "fe_isnegative X1 = (drop_bit 7 (s ! 31) = 1)")
    case True
    have z: "x1 mod P \<noteq> 0"
    proof
      assume "x1 mod P = 0"
      then have "x mod P = 0" using True by (simp add: x_def mod_eq_0_iff_dvd)
      with that show False by simp
    qed
    then have "- x1 mod P = P - x1 mod P" by (simp add: zmod_zminus1_eq_if)
    moreover have "odd P" by (simp add: P_def)
    ultimately show ?thesis using True neg1 by (simp add: x_def)
  next
    case False
    then show ?thesis using neg1 by (simp add: x_def)
  qed
  have "stands3 h (x, y)" using X2 Y one is_fe_mul [OF X2 Y p(2,1)] by (simp add: code(2))
  with curve odd show ?thesis unfolding y_def Y_def by (intro exI [of _ x]) (simp add: code(2))
qed

text \<open>Concrete points: the one of order four with \<open>y = 0\<close>, and the neutral one as bytes.\<close>

definition quarter :: ge_p3 where
  "quarter = \<lparr>gX = sqrtm1, gY = fe_0, gZ = fe_1, gT = fe_0\<rparr>"

lemma quarter_stands: "stands3 quarter (fe_val sqrtm1, 0)" "on_curve (fe_val sqrtm1, 0)" "ed_sum (fe_val sqrtm1, 0) (fe_val sqrtm1, 0) (0, - 1)"
proof -
  show "stands3 quarter (fe_val sqrtm1, 0)" by (simp add: quarter_def is_fe_def) (simp add: sqrtm1_def)
  have "eq_mod (0 - fe_val sqrtm1 * fe_val sqrtm1) (0 - - 1)" by (rule mod_diff_cong [OF refl sqrtm1_square])
  then show "on_curve (fe_val sqrtm1, 0)" by simp
  show "ed_sum (fe_val sqrtm1, 0) (fe_val sqrtm1, 0) (0, - 1)" using sqrtm1_square by simp
qed

lemma decode_one: "\<exists>h. ge_frombytes_negate_vartime (1 # replicate 31 0) = Some h"
proof -
  let ?s = "1 # replicate 31 (0 :: byte)"
  define Y where "Y = fe_frombytes ?s"
  define u where "u = fe_sub (fe_sq Y) fe_1"
  define v where "v = fe_add (fe_mul (fe_sq Y) ed_d) fe_1"
  define v3 where "v3 = fe_mul (fe_sq v) v"
  define w where "w = fe_mul (fe_mul (fe_sq v3) v) u"
  define X0 where "X0 = fe_mul (fe_mul (fe_pow22523 w) v3) u"
  define vxx where "vxx = fe_mul (fe_sq X0) v"
  have p: "(2 :: int) ^ 52 \<le> 2 ^ 54" "(2 :: int) ^ 52 \<le> 2 ^ 53" "(2 :: int) ^ 52 + 2 ^ 52 \<le> 2 ^ 64" "(2 :: int) ^ 52 + 2 ^ 52 \<le> 2 ^ 54" by simp_all
  have "le_value (replicate n 0) = 0" for n by (induction n) simp_all
  then have "le_value ?s = 1" by simp
  then have Y: "is_fe (2 ^ 52) Y 1" using loose_frombytes [of ?s] fe_frombytes_ok(1) [of ?s] by (simp add: Y_def)
  have one: "is_fe (2 ^ 52) fe_1 1" and d: "is_fe (2 ^ 54) ed_d D" by (simp_all add: is_fe_def ed_d_def D_def)
  note yy = is_fe_sq [OF Y p(1)]
  have u: "is_fe (2 ^ 54) u 0" unfolding u_def using is_fe_mono [OF is_fe_sub [OF yy one p(2,1)] p(4)] by simp
  have v: "is_fe (2 ^ 54) v (1 * 1 * D + 1)" unfolding v_def
    by (rule is_fe_mono [OF is_fe_add [OF is_fe_mul [OF yy d p(1) order_refl] one p(3)] p(4)])
  note v3 = is_fe_mul [OF is_fe_sq [OF v order_refl] v p(1) order_refl, folded v3_def]
  have "loose w" unfolding w_def by (rule is_feD(1) [OF is_fe_mul [OF is_fe_mul [OF is_fe_sq [OF v3 p(1)] v p(1) order_refl] u p(1) order_refl] p(1)])
  then have "loose (fe_pow22523 w)" using pw_22523 [of w] by (simp add: pw_def)
  from is_fe_mul [OF is_fe_mul [OF is_fe_self [OF this] v3 order_refl p(1)] u p(1) order_refl] have X0: "is_fe (2 ^ 52) X0 0" by (simp add: X0_def)
  have "is_fe (2 ^ 52) vxx 0" unfolding vxx_def using is_fe_mul [OF is_fe_sq [OF X0 p(1)] v p(1) order_refl] by simp
  from is_fe_mono [OF is_fe_sub [OF this u p(2) order_refl] p(4)] have "is_fe (2 ^ 54) (fe_sub vxx u) 0" by simp
  then have "fe_iszero (fe_sub vxx u)" using fe_iszero_iff is_feD by (metis order_refl mod_0)
  then show ?thesis unfolding ge_frombytes_negate_vartime_def Let_def Y_def [symmetric] u_def [symmetric] v_def [symmetric] v3_def [symmetric]
      w_def [symmetric] X0_def [symmetric] vxx_def [symmetric] by simp
qed

section \<open>What the point operations promise\<close>

text \<open>
  C18. Every operation on points follows the addition law of the curve: from representations of two points the
  four additions give a representation of the sum or the difference and the doubling one of the double, with
  digits small enough for the next operation and an invertible denominator.
\<close>

theorem point_operations:
  assumes "stands3 p a" "on_curve a" "stands_precomp q b" "stands_cached r b"
    and "ed_sum a b c" "ed_sum a (ed_neg b) d" "ed_sum a a e"
  shows "stands3 (ge_p1p1_to_p3 (ge_madd p q)) c \<and> stands3 (ge_p1p1_to_p3 (ge_msub p q)) d \<and>
    stands3 (ge_p1p1_to_p3 (ge_add_cached p r)) c \<and> stands3 (ge_p1p1_to_p3 (ge_sub_cached p r)) d \<and>
    stands3 (ge_p1p1_to_p3 (ge_p3_dbl p)) e \<and> stands_cached (ge_p3_to_cached p) a"
  using assms addition_stands dbl_stands stands3_2 p1p1_to_p3_stands to_cached_stands unfolding ge_p3_dbl_def by metis

lemma point_operations_witness: "stands3 (ge_p1p1_to_p3 (ge_p3_dbl quarter)) (0, - 1)"
  using point_operations [OF quarter_stands(1,2) neutral_stands(3) to_cached_stands [OF neutral_stands(1)] ed_sum_0(1) _ quarter_stands(3),
      of "(fe_val sqrtm1, 0)"] ed_sum_0(1) by simp

text \<open>
  C99. Encoding: the bytes written for a representation are the bytes of \<open>y\<close> below the prime with the parity of
  \<open>x\<close> in the last bit, whatever the denominator, so equal points have equal bytes.
\<close>

theorem point_encoding:
  assumes "stands3 h a" "eq_mod (fe_val (gZ h) ^ nat (P - 1)) 1"
  shows "encodes (ge_p3_tobytes h) a"
  unfolding p3_tobytes_eq by (rule tobytes_encodes [OF stands3_2 [OF assms(1)]]) (use assms(2) in \<open>simp add: ge_p3_to_p2_def\<close>)

lemma point_encoding_witness: "encodes (ge_p3_tobytes quarter) (fe_val sqrtm1, 0)"
  by (rule point_encoding [OF quarter_stands(1)]) (simp add: quarter_def)

text \<open>
  C17. Decoding accepts only points: when 32 bytes are read as a point, \<open>y\<close> is the number in their first 255
  bits, the pair lies on the curve, and unless \<open>x\<close> is 0 its parity is the opposite of the sign bit.
\<close>

theorem point_decoding:
  assumes "length s = 32" "ge_frombytes_negate_vartime s = Some h"
  shows "\<exists>x. on_curve (x, le_value s mod 2 ^ 255) \<and> stands3 h (x, le_value s mod 2 ^ 255) \<and> fe_val (gZ h) = 1 \<and>
    (x mod P \<noteq> 0 \<longrightarrow> odd (x mod P) \<noteq> (drop_bit 7 (s ! 31) = 1))"
  using decode_stands [OF assms] by (auto simp: fe_frombytes_ok(1) [OF assms(1)])

lemma point_decoding_witness:
  "\<exists>h x. ge_frombytes_negate_vartime (1 # replicate 31 0) = Some h \<and> on_curve (x, le_value (1 # replicate 31 0) mod 2 ^ 255) \<and> fe_val (gZ h) = 1"
proof -
  obtain h where h: "ge_frombytes_negate_vartime (1 # replicate 31 0) = Some h" using decode_one by blast
  show ?thesis using point_decoding [OF _ h] h by auto
qed

end
