(* ===== verification/Scalarmult.thy ===== *)
theory Scalarmult
  imports Ge25519
begin

unbundle bit_operations_syntax

text \<open>
  Multiplication of points by scalars, the sixth and eighth sections of \<^verbatim>\<open>src/src/main/c/cookbook_ed25519.c\<close>: the
  selection of a table entry without branches, the recoding of a scalar into digits, the multiple of the base
  point by table and the sum of two multiples for a verification. A signed char is a word of 8 bits read by
  \<open>sint\<close>.
\<close>

section \<open>Selection\<close>

definition ct_equal :: "byte \<Rightarrow> byte \<Rightarrow> u32" where
  "ct_equal b c = (let x = (ucast b :: u32) XOR ucast c; y = (ucast x :: u64) - 1 in ucast (drop_bit 63 y))"

definition ct_negative :: "byte \<Rightarrow> u32" where
  "ct_negative b = ucast (drop_bit 63 (scast b :: u64))"

definition ge_precomp_cmov :: "ge_precomp \<Rightarrow> ge_precomp \<Rightarrow> u32 \<Rightarrow> ge_precomp" where
  "ge_precomp_cmov t u b =
     \<lparr>yplusx = fe_cmov (yplusx t) (yplusx u) b, yminusx = fe_cmov (yminusx t) (yminusx u) b, xy2d = fe_cmov (xy2d t) (xy2d u) b\<rparr>"

text \<open>Every entry is looked at, whatever the digit.\<close>

definition ge_cmov8 :: "ge_precomp list \<Rightarrow> byte \<Rightarrow> ge_precomp" where
  "ge_cmov8 table b =
     (let bneg = ct_negative b;
          babs = (scast b :: u32) - ((- bneg) AND scast b) * 2;
          t = fold (\<lambda>j t. ge_precomp_cmov t (table ! j) (ct_equal (ucast babs) (word_of_nat (j + 1)))) [0, 1, 2, 3, 4, 5, 6, 7] ge_precomp_0;
          minust = \<lparr>yplusx = yminusx t, yminusx = yplusx t, xy2d = fe_neg (xy2d t)\<rparr>
      in ge_precomp_cmov t minust bneg)"

section \<open>A multiple of the base point\<close>

text \<open>Two digits to the base 16 per byte.\<close>

definition nibbles :: "byte list \<Rightarrow> byte list" where
  "nibbles a = concat (map (\<lambda>i. [a ! i AND 15, drop_bit 4 (a ! i) AND 15]) [0..<32])"

text \<open>The digits are moved to \<open>- 8 .. 7\<close> by carries; the last one takes the last carry.\<close>

fun recode :: "byte \<Rightarrow> byte list \<Rightarrow> byte list" where
  "recode c [] = []" |
  "recode c [e] = [e + c]" |
  "recode c (e # e' # es) =
     (let e = e + c;
          c = signed_drop_bit 4 (e + 8)
      in (e - c * 16) # recode c (e' # es))"

text \<open>One addition of an entry: digit \<open>i\<close> selects from row \<open>i / 2\<close>.\<close>

definition add_digit :: "ge_precomp list list \<Rightarrow> byte list \<Rightarrow> nat \<Rightarrow> ge_p3 \<Rightarrow> ge_p3" where
  "add_digit table e i h = ge_p1p1_to_p3 (ge_madd h (ge_cmov8 (table ! (i div 2)) (e ! i)))"

definition ge_scalarmult :: "ge_precomp list list \<Rightarrow> byte list \<Rightarrow> ge_p3" where
  "ge_scalarmult table a =
     (let e = recode 0 (nibbles a);
          h = fold (add_digit table e) (map (\<lambda>k. 2 * k + 1) [0..<32]) ge_p3_0;
          s = ge_p1p1_to_p2 (ge_p3_dbl h);
          s = ge_p1p1_to_p2 (ge_p2_dbl s);
          s = ge_p1p1_to_p2 (ge_p2_dbl s);
          h = ge_p1p1_to_p3 (ge_p2_dbl s)
      in fold (add_digit table e) (map (\<lambda>k. 2 * k) [0..<32]) h)"

definition ge_scalarmult_base :: "byte list \<Rightarrow> ge_p3" where
  "ge_scalarmult_base a = ge_scalarmult base_table a"

section \<open>The selection is a lookup\<close>

definition plain_lookup :: "ge_precomp list \<Rightarrow> int \<Rightarrow> ge_precomp" where
  "plain_lookup table n =
     (let t = (if 1 \<le> \<bar>n\<bar> \<and> \<bar>n\<bar> \<le> 8 then table ! nat (\<bar>n\<bar> - 1) else ge_precomp_0)
      in if n < 0 then \<lparr>yplusx = yminusx t, yminusx = yplusx t, xy2d = fe_neg (xy2d t)\<rparr> else t)"

lemma ct_equal_eq: "ct_equal b c = (if b = c then 1 else 0)"
proof -
  let ?x = "(ucast b :: u32) XOR ucast c"
  have inj: "uint (ucast w :: u32) = uint w" for w :: byte using uint_lt2p [of w] by (simp add: unsigned_ucast_eq take_bit_eq_mod)
  have "ucast b = (ucast c :: u32) \<longleftrightarrow> b = c" unfolding word_uint_eq_iff inj by (rule refl)
  moreover have "v XOR w = 0 \<longleftrightarrow> v = w" for v w :: u32 by (metis xor.assoc xor_self_eq xor.left_neutral xor.right_neutral)
  ultimately have z: "?x = 0 \<longleftrightarrow> b = c" by simp
  show ?thesis
  proof (cases "b = c")
    case False
    have "uint (ucast ?x :: u64) = uint ?x" using uint_lt2p [of ?x] by (simp add: unsigned_ucast_eq take_bit_eq_mod)
    moreover have "1 \<le> uint ?x" using False z uint_ge_0 [of ?x] by (metis int_one_le_iff_zero_less order_le_less uint_0_iff)
    ultimately have "uint ((ucast ?x :: u64) - 1) = uint ?x - 1" by (subst uint_minus) simp_all
    then have "uint (drop_bit 63 ((ucast ?x :: u64) - 1)) = uint (0 :: u64)" using uint_lt2p [of ?x] \<open>1 \<le> uint ?x\<close> by simp
    then have "drop_bit 63 ((ucast ?x :: u64) - 1) = 0" by (rule word_uint_eqI)
    with False show ?thesis by (simp add: ct_equal_def Let_def)
  qed (simp add: ct_equal_def mask_eq_exp_minus_1)
qed

lemma ct_negative_eq: "ct_negative b = (if sint b < 0 then 1 else 0)"
proof -
  have r: "- 128 \<le> sint b" "sint b < 128" using sint_ge [of b] sint_lt [of b] by simp_all
  have u: "uint (scast b :: u64) = sint b mod 2 ^ 64" unfolding scast_eq uint_word_of_int by simp
  have "sint b mod 2 ^ 64 div 2 ^ 63 = (if sint b < 0 then 1 else 0)"
  proof (cases "sint b < 0")
    case True
    then have "0 \<le> sint b + 2 ^ 64" "sint b + 2 ^ 64 < 2 ^ 64" using r by simp_all
    then have "sint b mod 2 ^ 64 = sint b + 2 ^ 64" using mod_add_self2 [of "sint b" "2 ^ 64"] by (metis mod_pos_pos_trivial)
    moreover have "(sint b + 2 ^ 64) div 2 ^ 63 = 1" using True r by (intro int_div_pos_eq [of _ _ _ "sint b + 2 ^ 63"]) simp_all
    ultimately show ?thesis using True by simp
  next
    case False
    then have "sint b mod 2 ^ 64 = sint b" using r by (intro mod_pos_pos_trivial) simp_all
    moreover have "sint b div 2 ^ 63 = 0" using False r by (intro div_pos_pos_trivial) simp_all
    ultimately show ?thesis using False by simp
  qed
  then have "uint (drop_bit 63 (scast b :: u64)) = uint (if sint b < 0 then 1 else 0 :: u64)" unfolding uint_shift u by simp
  then have "drop_bit 63 (scast b :: u64) = (if sint b < 0 then 1 else 0)" by (rule word_uint_eqI)
  then show ?thesis unfolding ct_negative_def by simp
qed

lemma cmov_eq [simp]: "ge_precomp_cmov t u (if c then 1 else 0) = (if c then u else t)"
  by (cases t; cases u; simp add: ge_precomp_cmov_def fe_cmov_eq)

lemma sint_range: "- 128 \<le> sint b" "sint b < 128" for b :: byte
  using sint_ge [of b] sint_lt [of b] by simp_all

lemma babs_eq: "(ucast ((scast b :: u32) - ((- ct_negative b) AND scast b) * 2) :: byte) = (if sint b < 0 then - b else b)"
proof -
  have c: "(ucast (scast b :: u32) :: byte) = b"
  proof (rule word_uint_eqI)
    have "uint (scast b :: u32) = sint b mod 2 ^ 32" unfolding scast_eq uint_word_of_int by simp
    then have "uint (ucast (scast b :: u32) :: byte) = sint b mod 2 ^ 32 mod 2 ^ 8" by (simp add: unsigned_ucast_eq take_bit_eq_mod)
    also have "\<dots> = sint b mod 2 ^ 8" by (simp add: mod_mod_cancel)
    finally show "uint (ucast (scast b :: u32) :: byte) = uint b" unfolding uint_sint [of b] by (simp add: take_bit_eq_mod)
  qed
  have m: "(ucast (- x :: u32) :: byte) = - ucast x" for x
    by (rule word_uint_eqI) (simp add: unsigned_ucast_eq take_bit_eq_mod uint_word_ariths mod_mod_cancel mod_minus_eq)
  show ?thesis
  proof (cases "sint b < 0")
    case True
    have "(scast b :: u32) - (- 1 AND scast b) * 2 = - scast b" by simp
    with True show ?thesis by (simp add: ct_negative_eq m c)
  next
    case False
    then show ?thesis by (simp add: ct_negative_eq c)
  qed
qed

lemma uint_abs: "uint (if sint b < 0 then - b else b) = \<bar>sint b\<bar>" for b :: byte
proof (cases "sint b < 0")
  case True
  have "uint (- b) = - uint b mod 256" by (simp add: uint_word_ariths)
  also have "\<dots> = - (sint b mod 256) mod 256" unfolding uint_sint [of b] by (simp add: take_bit_eq_mod)
  also have "\<dots> = - sint b mod 256" by (rule mod_minus_eq)
  also have "\<dots> = - sint b" using True sint_range [of b] by (intro mod_pos_pos_trivial) simp_all
  finally show ?thesis using True by simp
next
  case False
  have "uint b = sint b mod 256" unfolding uint_sint [of b] by (simp add: take_bit_eq_mod)
  also have "\<dots> = sint b" using False sint_range [of b] by (intro mod_pos_pos_trivial) simp_all
  finally show ?thesis using False by simp
qed

lemma word_of_nat_iff: "m = word_of_nat n \<longleftrightarrow> uint m = int n" if "n < 256" for m :: byte
proof -
  have "take_bit 8 n = n" using that by (simp add: take_bit_nat_eq_self)
  then have "uint (word_of_nat n :: byte) = int n" by (simp add: unsigned_of_nat)
  then show ?thesis unfolding word_uint_eq_iff by simp
qed

lemma select_entry:
  assumes "uint m = \<bar>n\<bar>"
  shows "fold (\<lambda>j t. ge_precomp_cmov t (table ! j) (ct_equal m (word_of_nat (j + 1)))) [0, 1, 2, 3, 4, 5, 6, 7] ge_precomp_0 =
    (if 1 \<le> \<bar>n\<bar> \<and> \<bar>n\<bar> \<le> 8 then table ! nat (\<bar>n\<bar> - 1) else ge_precomp_0)"
proof -
  have range: "\<bar>n\<bar> = 1 \<or> \<bar>n\<bar> = 2 \<or> \<bar>n\<bar> = 3 \<or> \<bar>n\<bar> = 4 \<or> \<bar>n\<bar> = 5 \<or> \<bar>n\<bar> = 6 \<or> \<bar>n\<bar> = 7 \<or> \<bar>n\<bar> = 8 \<or> \<not> (1 \<le> \<bar>n\<bar> \<and> \<bar>n\<bar> \<le> 8)" by arith
  have eq: "m = word_of_nat (j + 1) \<longleftrightarrow> \<bar>n\<bar> = int j + 1" if "j < 8" for j
    using that word_of_nat_iff [of "j + 1" m] by (simp add: assms add.commute)
  have digits: "m = word_of_nat (7 + 1) \<longleftrightarrow> \<bar>n\<bar> = 8" "m = word_of_nat (6 + 1) \<longleftrightarrow> \<bar>n\<bar> = 7" "m = word_of_nat (5 + 1) \<longleftrightarrow> \<bar>n\<bar> = 6"
    "m = word_of_nat (4 + 1) \<longleftrightarrow> \<bar>n\<bar> = 5" "m = word_of_nat (3 + 1) \<longleftrightarrow> \<bar>n\<bar> = 4" "m = word_of_nat (2 + 1) \<longleftrightarrow> \<bar>n\<bar> = 3"
    "m = word_of_nat (1 + 1) \<longleftrightarrow> \<bar>n\<bar> = 2" "m = word_of_nat (0 + 1) \<longleftrightarrow> \<bar>n\<bar> = 1"
    using eq [of 7] eq [of 6] eq [of 5] eq [of 4] eq [of 3] eq [of 2] eq [of 1] eq [of 0] by simp_all
  show ?thesis
    unfolding ct_equal_eq cmov_eq fold_simps
    unfolding digits using range by (elim disjE; (simp; fail)?) force
qed

lemma cmov8_lookup: "ge_cmov8 table b = plain_lookup table (sint b)"
  unfolding ge_cmov8_def plain_lookup_def Let_def
  unfolding babs_eq
  unfolding select_entry [OF uint_abs]
  unfolding ct_negative_eq cmov_eq by (rule refl)

section \<open>Digits to the base 16\<close>

definition signed_value :: "byte list \<Rightarrow> int" where
  "signed_value es = foldr (\<lambda>e v. sint e + 16 * v) es 0"

lemma signed_value_simps [simp]: "signed_value [] = 0" "signed_value (e # es) = sint e + 16 * signed_value es"
  by (simp_all add: signed_value_def)

lemma signed_value_append: "signed_value (xs @ ys) = signed_value xs + 16 ^ length xs * signed_value ys"
  by (induction xs) (simp_all add: algebra_simps)

lemma sint_small: "uint (x :: byte) < 128 \<Longrightarrow> sint x = uint x"
  unfolding sint_uint by (rule signed_take_bit_int_eq_self) (rule order_trans [of _ 0], simp_all)

lemma and_15: "uint ((x :: byte) AND 15) = uint x mod 16"
proof -
  have "x AND 15 = take_bit 4 x" by (simp add: take_bit_eq_mask mask_eq_exp_minus_1)
  then show ?thesis by (simp only: unsigned_take_bit_eq) (simp add: take_bit_eq_mod)
qed

lemma nibbles_value:
  assumes "32 \<le> length a"
  shows "signed_value (nibbles a) = le_value (take 32 a)" and "length (nibbles a) = 64"
    and "\<forall>e \<in> set (nibbles a). 0 \<le> sint e \<and> sint e < 16" and "last (nibbles a) = drop_bit 4 (a ! 31) AND 15"
proof -
  have n: "sint (x AND 15) = uint x mod 16 \<and> sint (drop_bit 4 x AND 15) = uint x div 16" for x :: byte
  proof -
    have "uint x < 256" using uint_lt2p [of x] by simp
    then have "0 \<le> uint x div 16" "uint x div 16 < 16" by (simp_all add: pos_imp_zdiv_nonneg_iff)
    then have "uint (drop_bit 4 x AND 15) = uint x div 16" unfolding and_15 uint_shift by simp
    moreover have "uint (x AND 15) < 128" "uint (drop_bit 4 x AND 15) < 128" by (simp_all add: and_15)
    ultimately show ?thesis by (simp add: sint_small and_15)
  qed
  have v: "signed_value (concat (map (\<lambda>x. [x AND 15, drop_bit 4 x AND 15]) xs)) = le_value xs" for xs :: "byte list"
  proof (induction xs)
    case (Cons x xs)
    have "uint x < 256" using uint_lt2p [of x] by simp
    then have "uint x div 16 mod 16 = uint x div 16" by (intro mod_pos_pos_trivial) (simp_all add: pos_imp_zdiv_nonneg_iff)
    with Cons show ?case by (simp add: n)
  qed simp
  have e: "nibbles a = concat (map (\<lambda>x. [x AND 15, drop_bit 4 x AND 15]) (take 32 a))"
  proof -
    have "take 32 a = map (\<lambda>i. a ! i) [0..<32]" by (rule nth_equalityI) (use assms in auto)
    then show ?thesis by (simp add: nibbles_def o_def)
  qed
  show "signed_value (nibbles a) = le_value (take 32 a)" unfolding e by (rule v)
  have "length (concat (map (\<lambda>x. [x AND 15, drop_bit 4 x AND 15]) xs)) = 2 * length xs" for xs :: "byte list" by (induction xs) simp_all
  then show "length (nibbles a) = 64" using assms by (simp add: e)
  have "uint x < 256" for x :: byte using uint_lt2p [of x] by simp
  then show "\<forall>e \<in> set (nibbles a). 0 \<le> sint e \<and> sint e < 16" unfolding e by (auto simp: n)
  show "last (nibbles a) = drop_bit 4 (a ! 31) AND 15"
  proof -
    have "[0..<32] = [0..<31] @ [31]" using upt_Suc_append [of 0 31] by simp
    then show ?thesis by (simp add: nibbles_def)
  qed
qed

text \<open>Digits between 0 and 15 become digits between \<open>- 8\<close> and 7, and the last one at most 8.\<close>

lemma sint_plus: "- 128 \<le> sint x + sint y \<Longrightarrow> sint x + sint y < 128 \<Longrightarrow> sint (x + y) = sint x + sint (y :: byte)"
  unfolding sint_word_ariths by (simp add: signed_take_bit_int_eq_self)

lemma recode_step:
  fixes e c :: byte
  assumes "0 \<le> sint e" "sint e < 16" "sint c = 0 \<or> sint c = 1"
  defines "d \<equiv> signed_drop_bit 4 (e + c + 8)"
  shows "sint (e + c - d * 16) + 16 * sint d = sint e + sint c" and "- 8 \<le> sint (e + c - d * 16)" and "sint (e + c - d * 16) \<le> 7"
    and "sint d = 0 \<or> sint d = 1"
proof -
  have s: "sint (e + c) = sint e + sint c" using assms by (intro sint_plus) auto
  then have s8: "sint (e + c + 8) = sint e + sint c + 8" using assms by (subst sint_plus) auto
  have d: "sint d = (sint e + sint c + 8) div 16" unfolding d_def by (simp add: sint_signed_drop_bit_eq s8 drop_bit_eq_div)
  then show d01: "sint d = 0 \<or> sint d = 1" using assms by auto
  have "sint (d * 16) = sint d * 16" unfolding sint_word_ariths using d01 by (auto simp: signed_take_bit_int_eq_self)
  moreover have "sint (e + c - d * 16) = sint (e + c) - sint (d * 16)"
    unfolding sint_word_ariths(2) using assms d01 s \<open>sint (d * 16) = _\<close> by (auto simp: signed_take_bit_int_eq_self)
  ultimately have r: "sint (e + c - d * 16) = sint e + sint c - sint d * 16" using s by simp
  then show "sint (e + c - d * 16) + 16 * sint d = sint e + sint c" by simp
  show "- 8 \<le> sint (e + c - d * 16)" "sint (e + c - d * 16) \<le> 7" unfolding r d using assms by auto
qed

lemma recode_value:
  assumes "es \<noteq> []" "\<forall>e \<in> set es. 0 \<le> sint e \<and> sint e < 16" "sint c = 0 \<or> sint c = 1" "sint (last es) < 8"
  shows "signed_value (recode c es) = signed_value es + sint c \<and> length (recode c es) = length es \<and>
    (\<forall>e \<in> set (recode c es). - 8 \<le> sint e \<and> sint e \<le> 8)"
  using assms
proof (induction c es rule: recode.induct)
  case (2 c e)
  then have "sint (e + c) = sint e + sint c" by (intro sint_plus) auto
  with 2 show ?case by auto
next
  case (3 c e e' es)
  note r = recode_step [of e c, OF _ _ 3(4)]
  have e: "0 \<le> sint e" "sint e < 16" using 3(3) by simp_all
  have "signed_value (recode (signed_drop_bit 4 (e + c + 8)) (e' # es)) = signed_value (e' # es) + sint (signed_drop_bit 4 (e + c + 8)) \<and>
      length (recode (signed_drop_bit 4 (e + c + 8)) (e' # es)) = length (e' # es) \<and>
      (\<forall>x \<in> set (recode (signed_drop_bit 4 (e + c + 8)) (e' # es)). - 8 \<le> sint x \<and> sint x \<le> 8)"
    using 3 r(4) [OF e] by (intro 3(1)) simp_all
  with r [OF e] show ?case by (simp add: Let_def)
qed simp

section \<open>Families of points\<close>

text \<open>
  The multiples of a point: a family of points on the curve, closed under the addition law. That the points of
  the curve form a group is not proved here; a family is an argument of the statements.
\<close>

definition multiples :: "(int \<Rightarrow> point) \<Rightarrow> bool" where
  "multiples M \<longleftrightarrow> M 0 = (0, 1) \<and> (\<forall>n. on_curve (M n) \<and> M (- n) = ed_neg (M n)) \<and> (\<forall>m n. ed_sum (M m) (M n) (M (m + n)))"

lemma multiplesD:
  assumes "multiples M"
  shows "M 0 = (0, 1)" and "on_curve (M n)" and "M (- n) = ed_neg (M n)" and "ed_sum (M m) (M n) (M (m + n))"
  using assms by (simp_all add: multiples_def)

text \<open>A table holds in row \<open>i\<close> the multiples \<open>1 .. 8\<close> of \<open>256\<^sup>i\<close>.\<close>

definition holds_multiples :: "ge_precomp list list \<Rightarrow> (int \<Rightarrow> point) \<Rightarrow> bool" where
  "holds_multiples table M \<longleftrightarrow> (\<forall>i < 32. \<forall>j < 8. stands_precomp (table ! i ! j) (M ((int j + 1) * 256 ^ i)))"

lemma precomp_neg: "stands_precomp q a \<Longrightarrow> stands_precomp \<lparr>yplusx = yminusx q, yminusx = yplusx q, xy2d = fe_neg (xy2d q)\<rparr> (ed_neg a)"
proof -
  assume s: "stands_precomp q a"
  obtain x y where a: "a = (x, y)" by (cases a)
  have x: "is_fe (2 ^ 54) (xy2d q) (2 * D * (x * y))" using s by (simp add: a)
  have "is_fe (2 ^ 54) (fe_neg (xy2d q)) (- (2 * D * (x * y)))" by (rule is_fe_mono [OF is_fe_neg [OF x order_refl]]) simp
  with s show ?thesis by (simp add: a)
qed

lemma lookup_stands:
  assumes "multiples M" "holds_multiples table M" "i < 32" "- 8 \<le> n" "n \<le> 8"
  shows "stands_precomp (plain_lookup (table ! i) n) (M (n * 256 ^ i))"
proof -
  have entry: "stands_precomp (if 1 \<le> m \<and> m \<le> 8 then table ! i ! nat (m - 1) else ge_precomp_0) (M (m * 256 ^ i))"
    if "0 \<le> m" "m \<le> 8" for m
  proof (cases "m = 0")
    case False
    with that have "nat (m - 1) < 8" "int (nat (m - 1)) + 1 = m" by simp_all
    with assms(2,3) have "stands_precomp (table ! i ! nat (m - 1)) (M (m * 256 ^ i))" unfolding holds_multiples_def by metis
    with False that show ?thesis by simp
  qed (simp add: multiplesD(1) [OF assms(1)] neutral_stands del: stands_precomp.simps)
  show ?thesis
  proof (cases "n < 0")
    case True
    then have "\<bar>n\<bar> = - n" by simp
    moreover have "M (n * 256 ^ i) = ed_neg (M (- n * 256 ^ i))" using multiplesD(3) [OF assms(1), of "- n * 256 ^ i"] by simp
    ultimately show ?thesis using True assms(4) precomp_neg [OF entry [of "- n"]] by (simp only: plain_lookup_def Let_def if_True) simp
  next
    case False
    then show ?thesis using entry [of n] assms(5) by (cases "1 \<le> n") (simp_all add: plain_lookup_def)
  qed
qed

lemma digits_fold:
  assumes "multiples M" "holds_multiples table M" "\<forall>i \<in> set is. i < 64 \<and> - 8 \<le> sint (e ! i) \<and> sint (e ! i) \<le> 8" "stands3 h (M v)"
  shows "stands3 (fold (add_digit table e) is h) (M (v + sum_list (map (\<lambda>i. sint (e ! i) * 256 ^ (i div 2)) is)))"
  using assms(3,4)
proof (induction "is" arbitrary: h v)
  case (Cons i "is")
  have "i div 2 < 32" using Cons.prems(1) by auto
  then have "stands_precomp (ge_cmov8 (table ! (i div 2)) (e ! i)) (M (sint (e ! i) * 256 ^ (i div 2)))"
    unfolding cmov8_lookup using Cons.prems(1) by (intro lookup_stands [OF assms(1,2)]) simp_all
  from p1p1_to_p3_stands [OF addition_stands(1) [OF Cons.prems(2) this multiplesD(4) [OF assms(1)]]]
  have "stands3 (add_digit table e i h) (M (v + sint (e ! i) * 256 ^ (i div 2)))" by (simp only: add_digit_def)
  with Cons.IH [OF _ this] Cons.prems(1) show ?case by (simp add: add.assoc)
qed simp

lemma even_odd_digits:
  "length es = 2 * n \<Longrightarrow>
     sum_list (map (\<lambda>k. sint (es ! (2 * k)) * 256 ^ k) [0..<n]) + 16 * sum_list (map (\<lambda>k. sint (es ! (2 * k + 1)) * 256 ^ k) [0..<n]) =
     signed_value es"
proof (induction n arbitrary: es)
  case (Suc n)
  obtain xs a b where es: "es = xs @ [a, b]" "length xs = 2 * n"
  proof -
    have "length es = Suc (Suc (2 * n))" using Suc.prems by simp
    then obtain ys b where "es = ys @ [b]" "length ys = Suc (2 * n)" by (cases es rule: rev_exhaust) auto
    moreover from this obtain xs a where "ys = xs @ [a]" "length xs = 2 * n" by (cases ys rule: rev_exhaust) auto
    ultimately show ?thesis using that by simp
  qed
  have low: "sum_list (map (\<lambda>k. sint (es ! (2 * k)) * 256 ^ k) [0..<n]) = sum_list (map (\<lambda>k. sint (xs ! (2 * k)) * 256 ^ k) [0..<n])"
    "sum_list (map (\<lambda>k. sint (es ! (2 * k + 1)) * 256 ^ k) [0..<n]) = sum_list (map (\<lambda>k. sint (xs ! (2 * k + 1)) * 256 ^ k) [0..<n])"
    by (intro arg_cong [where f = sum_list] map_cong refl; simp add: es nth_append)+
  have top: "es ! (2 * n) = a" "es ! (2 * n + 1) = b" by (simp_all add: es nth_append)
  have p: "(16 :: int) ^ (2 * n) = 256 ^ n" by (simp add: power_mult)
  have "signed_value es = signed_value xs + 256 ^ n * (sint a + 16 * sint b)" unfolding es by (simp add: signed_value_append es(2) p)
  moreover have split: "sum_list (map f [0..<Suc n]) = sum_list (map f [0..<n]) + f n" for f :: "nat \<Rightarrow> int" by simp
  ultimately show ?case unfolding split low top using Suc.IH [OF es(2)] by (simp only: algebra_simps)
qed simp

lemma doubling_step:
  assumes "multiples M" "stands2 s (M v)"
  shows "stands11 (ge_p2_dbl s) (M (2 * v))"
  using dbl_stands [OF assms(2) multiplesD(2) [OF assms(1)]] multiplesD(4) [OF assms(1), of v v] by (simp only: mult_2)

lemma scalarmult_stands:
  assumes "multiples M" "holds_multiples table M" "32 \<le> length a" "uint (a ! 31) < 128"
  shows "stands3 (ge_scalarmult table a) (M (le_value (take 32 a)))"
proof -
  let ?n = "nibbles a"
  define e where "e = recode 0 ?n"
  note n = nibbles_value [OF assms(3)]
  have "uint (drop_bit 4 (a ! 31) AND 15) < 8"
  proof -
    have "0 \<le> uint (a ! 31) div 16" "uint (a ! 31) div 16 < 8" using assms(4) by (simp_all add: pos_imp_zdiv_nonneg_iff)
    then show ?thesis unfolding and_15 uint_shift by simp
  qed
  then have "sint (last ?n) < 8" unfolding n(4) by (subst sint_small) simp_all
  moreover have "?n \<noteq> []" using n(2) by auto
  ultimately have e: "signed_value e = le_value (take 32 a)" "length e = 2 * 32" "\<forall>x \<in> set e. - 8 \<le> sint x \<and> sint x \<le> 8"
    using recode_value [OF _ n(3), of 0] n(1,2) by (simp_all add: e_def)
  have range: "i < 64 \<and> - 8 \<le> sint (e ! i) \<and> sint (e ! i) \<le> 8" if "i < 64" for i using that e(2,3) by simp
  define odds where "odds = sum_list (map (\<lambda>k. sint (e ! (2 * k + 1)) * 256 ^ k) [0..<32])"
  define evens where "evens = sum_list (map (\<lambda>k. sint (e ! (2 * k)) * 256 ^ k) [0..<32])"
  define h where "h = fold (add_digit table e) (map (\<lambda>k. 2 * k + 1) [0..<32]) ge_p3_0"
  have "stands3 ge_p3_0 (M 0)" by (simp only: multiplesD(1) [OF assms(1)] neutral_stands)
  from digits_fold [OF assms(1,2) _ this, of "map (\<lambda>k. 2 * k + 1) [0..<32]" e] range have h: "stands3 h (M odds)"
    by (simp add: h_def odds_def o_def)
  define s1 where "s1 = ge_p1p1_to_p2 (ge_p3_dbl h)"
  have s1: "stands2 s1 (M (2 * odds))" unfolding s1_def ge_p3_dbl_def by (rule p1p1_to_p2_stands [OF doubling_step [OF assms(1) stands3_2 [OF h]]])
  define s2 where "s2 = ge_p1p1_to_p2 (ge_p2_dbl s1)"
  have s2: "stands2 s2 (M (2 * (2 * odds)))" unfolding s2_def by (rule p1p1_to_p2_stands [OF doubling_step [OF assms(1) s1]])
  define s3 where "s3 = ge_p1p1_to_p2 (ge_p2_dbl s2)"
  have s3: "stands2 s3 (M (2 * (2 * (2 * odds))))" unfolding s3_def by (rule p1p1_to_p2_stands [OF doubling_step [OF assms(1) s2]])
  define g where "g = ge_p1p1_to_p3 (ge_p2_dbl s3)"
  have "stands3 g (M (2 * (2 * (2 * (2 * odds)))))" unfolding g_def by (rule p1p1_to_p3_stands [OF doubling_step [OF assms(1) s3]])
  then have "stands3 g (M (16 * odds))" by simp
  from digits_fold [OF assms(1,2) _ this, of "map (\<lambda>k. 2 * k) [0..<32]" e] range
  have "stands3 (fold (add_digit table e) (map (\<lambda>k. 2 * k) [0..<32]) g) (M (16 * odds + evens))" by (simp add: evens_def o_def)
  moreover have "16 * odds + evens = le_value (take 32 a)" using even_odd_digits [OF e(2)] e(1) by (simp add: odds_def evens_def)
  moreover have "ge_scalarmult table a = fold (add_digit table e) (map (\<lambda>k. 2 * k) [0..<32]) g"
    by (simp only: ge_scalarmult_def Let_def e_def [symmetric] h_def [symmetric] s1_def [symmetric] s2_def [symmetric] s3_def [symmetric] g_def [symmetric])
  ultimately show ?thesis by simp
qed

section \<open>The points of order four\<close>

text \<open>A family that can be written down: the multiples of the point with \<open>y = 0\<close>.\<close>

definition fourth :: "int \<Rightarrow> point" where
  "fourth n = [(0, 1), (fe_val sqrtm1, 0), (0, - 1), (- fe_val sqrtm1, 0)] ! nat (n mod 4)"

lemma fourth_mod: "fourth n = fourth (n mod 4)"
  by (simp add: fourth_def)

lemma mod_4_cases: "n mod 4 = 0 \<or> n mod 4 = 1 \<or> n mod 4 = 2 \<or> n mod 4 = (3 :: int)"
  by presburger

lemma fourth_multiples: "multiples fourth"
proof -
  have q: "eq_mod (fe_val sqrtm1 * fe_val sqrtm1) (- 1)" "eq_mod (- (fe_val sqrtm1 * fe_val sqrtm1)) 1"
    using sqrtm1_square mod_diff_cong [OF refl sqrtm1_square, of 0] by simp_all
  have "on_curve (fourth n)" for n
    using mod_4_cases [of n] by (elim disjE) (simp_all add: fourth_def q)
  moreover have "fourth (- n) = ed_neg (fourth n)" for n
    using mod_4_cases [of n] by (elim disjE) (simp_all add: fourth_def zmod_zminus1_eq_if)
  moreover have "ed_sum (fourth m) (fourth n) (fourth (m + n))" for m n
  proof -
    have s: "(m + n) mod 4 = (m mod 4 + n mod 4) mod 4" by (simp add: mod_simps)
    show ?thesis unfolding fourth_def s using mod_4_cases [of m] mod_4_cases [of n] by (elim disjE) (simp_all add: q)
  qed
  ultimately show ?thesis by (simp add: multiples_def) (simp add: fourth_def)
qed

definition quarter_entry :: "int \<Rightarrow> ge_precomp" where
  "quarter_entry n =
     [ge_precomp_0, \<lparr>yplusx = sqrtm1, yminusx = fe_neg sqrtm1, xy2d = fe_0\<rparr>, \<lparr>yplusx = fe_neg fe_1, yminusx = fe_neg fe_1, xy2d = fe_0\<rparr>,
      \<lparr>yplusx = fe_neg sqrtm1, yminusx = sqrtm1, xy2d = fe_0\<rparr>] ! nat (n mod 4)"

lemma quarter_entry_stands: "stands_precomp (quarter_entry n) (fourth n)"
proof -
  have i: "is_fe (2 ^ 54) sqrtm1 (fe_val sqrtm1)" by (rule is_fe_self) (simp add: sqrtm1_def)
  have one: "is_fe (2 ^ 54) fe_1 1" and zero: "is_fe (2 ^ 54) fe_0 0" by (simp_all add: is_fe_def)
  have "(2 :: int) ^ 53 \<le> 2 ^ 54" by simp
  note n = is_fe_mono [OF is_fe_neg [OF i order_refl] this] is_fe_mono [OF is_fe_neg [OF one order_refl] this]
  show ?thesis using mod_4_cases [of n] i one zero n by (elim disjE) (simp_all add: fourth_def quarter_entry_def ge_precomp_0_def)
qed

definition quarter_table :: "ge_precomp list list" where
  "quarter_table = map (\<lambda>i. map (\<lambda>j. quarter_entry ((int j + 1) * 256 ^ i)) [0..<8]) [0..<32]"

lemma quarter_table_holds: "holds_multiples quarter_table fourth"
  by (simp add: holds_multiples_def quarter_table_def quarter_entry_stands del: upt_Suc stands_precomp.simps)

lemma le_value_zeros [simp]: "le_value (replicate n 0) = 0"
  by (induction n) simp_all

section \<open>What the multiplication promises\<close>

text \<open>
  The selection of a table entry without branches is the plain lookup: for every digit it yields the entry of
  its absolute value, negated for a negative digit, and the neutral entry for 0.
\<close>

theorem selection_is_lookup: "ge_cmov8 table b = plain_lookup table (sint b)"
  by (rule cmov8_lookup)

text \<open>
  C16. The multiple of the base point: for a family of points closed under the addition law and a table that
  holds its multiples in the layout of the code, the recoded digits and the two rounds of additions with four
  doublings between them yield the multiple by the scalar, for every scalar below \<open>2\<^sup>2\<^sup>5\<^sup>5\<close>.
\<close>

theorem scalarmult_correct:
  assumes "multiples M" "holds_multiples table M" "length a = 32" "uint (a ! 31) < 128"
  shows "stands3 (ge_scalarmult table a) (M (le_value a))"
  using scalarmult_stands [OF assms(1,2) _ assms(4)] assms(3) by simp

lemma scalarmult_correct_witness: "stands3 (ge_scalarmult quarter_table (7 # replicate 31 0)) (fourth 7)"
  using scalarmult_correct [OF fourth_multiples quarter_table_holds, of "7 # replicate 31 0"] by (simp del: stands3.simps)

end
