(* ===== verification/Doublemult.thy ===== *)
theory Doublemult
  imports Scalarmult
begin

unbundle bit_operations_syntax

text \<open>
  The sum of a multiple of a given point and a multiple of the base point, with which a signature is verified:
  the sliding windows of \<open>slide_vartime\<close> and the joint ladder of \<open>ge_double_scalarmult_vartime\<close>. The windows are
  arrays of signed chars; their values are integers here, and \<open>schar\<close> is the conversion of an assignment.
\<close>

section \<open>Sliding windows\<close>

definition schar :: "int \<Rightarrow> int" where
  "schar x = signed_take_bit 7 x"

definition scalar_bits :: "byte list \<Rightarrow> int list" where
  "scalar_bits a = map (\<lambda>i. schar (uint (1 AND drop_bit (i mod 8) (a ! (i div 8))))) [0..<256]"

text \<open>A carry runs up to the next 0.\<close>

function slide_carry :: "nat \<Rightarrow> int list \<Rightarrow> int list" where
  "slide_carry k r = (if k < 256 then if r ! k = 0 then r[k := 1] else slide_carry (k + 1) (r[k := 0]) else r)"
  by auto
termination by (relation "measure (\<lambda>(k, r). 256 - k)") auto

text \<open>The digit at \<open>i\<close> takes in the bits that follow while it stays between \<open>- 15\<close> and 15.\<close>

function slide_window :: "nat \<Rightarrow> nat \<Rightarrow> int list \<Rightarrow> int list" where
  "slide_window i b r =
     (if b \<le> 6 \<and> i + b < 256 then
        if r ! (i + b) = 0 then slide_window i (b + 1) r
        else let x = push_bit b (r ! (i + b))
             in if r ! i + x \<le> 15 then slide_window i (b + 1) ((r[i := schar (r ! i + schar x)])[i + b := 0])
                else if r ! i - x \<ge> - 15 then slide_window i (b + 1) (slide_carry (i + b) (r[i := schar (r ! i - schar x)]))
                else r
      else r)"
  by auto
termination by (relation "measure (\<lambda>(i, b, r). 7 - b)") auto

declare slide_carry.simps [simp del] slide_window.simps [simp del]

definition slide_vartime :: "byte list \<Rightarrow> int list" where
  "slide_vartime a = fold (\<lambda>i r. if r ! i = 0 then r else slide_window i 1 r) [0..<256] (scalar_bits a)"

section \<open>The joint ladder\<close>

text \<open>The odd multiples of the point, in the form an addition takes.\<close>

definition odd_multiples :: "ge_p3 \<Rightarrow> ge_cached list" where
  "odd_multiples A =
     (let A2 = ge_p1p1_to_p3 (ge_p3_dbl A);
          add2 = (\<lambda>c. ge_p3_to_cached (ge_p1p1_to_p3 (ge_add_cached A2 c)))
      in map (\<lambda>k. (add2 ^^ k) (ge_p3_to_cached A)) [0..<8])"

definition ladder_step :: "ge_cached list \<Rightarrow> ge_precomp list \<Rightarrow> int list \<Rightarrow> int list \<Rightarrow> nat \<Rightarrow> ge_p2 \<Rightarrow> ge_p2" where
  "ladder_step Ai bi aslide bslide i r =
     (let t = ge_p2_dbl r;
          t = (if aslide ! i > 0 then ge_add_cached (ge_p1p1_to_p3 t) (Ai ! nat (aslide ! i div 2))
               else if aslide ! i < 0 then ge_sub_cached (ge_p1p1_to_p3 t) (Ai ! nat (- (aslide ! i) div 2))
               else t);
          t = (if bslide ! i > 0 then ge_madd (ge_p1p1_to_p3 t) (bi ! nat (bslide ! i div 2))
               else if bslide ! i < 0 then ge_msub (ge_p1p1_to_p3 t) (bi ! nat (- (bslide ! i) div 2))
               else t)
      in ge_p1p1_to_p2 t)"

text \<open>The first loop skips the positions at the top where both digits are 0.\<close>

definition ge_double_scalarmult :: "ge_precomp list \<Rightarrow> byte list \<Rightarrow> ge_p3 \<Rightarrow> byte list \<Rightarrow> ge_p2" where
  "ge_double_scalarmult bi a A b =
     (let aslide = slide_vartime a;
          bslide = slide_vartime b
      in fold (ladder_step (odd_multiples A) bi aslide bslide)
           (dropWhile (\<lambda>i. \<not> (aslide ! i \<noteq> 0 \<or> bslide ! i \<noteq> 0)) (rev [0..<256])) ge_p2_0)"

definition ge_double_scalarmult_vartime :: "byte list \<Rightarrow> ge_p3 \<Rightarrow> byte list \<Rightarrow> ge_p2" where
  "ge_double_scalarmult_vartime a A b = ge_double_scalarmult Bi a A b"

section \<open>The value of the windows\<close>

definition bval :: "int list \<Rightarrow> int" where
  "bval r = foldr (\<lambda>x v. x + 2 * v) r 0"

lemma bval_simps [simp]: "bval [] = 0" "bval (x # r) = x + 2 * bval r"
  by (simp_all add: bval_def)

lemma bval_update: "i < length r \<Longrightarrow> bval (r[i := x]) = bval r + (x - r ! i) * 2 ^ i"
proof (induction r arbitrary: i)
  case (Cons a r)
  show ?case
  proof (cases i)
    case (Suc j)
    with Cons have "bval (r[j := x]) = bval r + (x - r ! j) * 2 ^ j" by simp
    with Suc show ?thesis by (simp add: algebra_simps)
  qed simp
qed simp

lemma bval_split: "bval r = bval (take i r) + 2 ^ i * bval (drop i r)"
proof (induction r arbitrary: i)
  case (Cons a r)
  show ?case
  proof (cases i)
    case (Suc j)
    then show ?thesis using Cons [of j] by (simp add: algebra_simps)
  qed simp
qed simp

lemma bval_drop: "i < length r \<Longrightarrow> bval (drop i r) = r ! i + 2 * bval (drop (Suc i) r)"
  by (simp flip: Cons_nth_drop_Suc)

definition bits_from :: "nat \<Rightarrow> int list \<Rightarrow> bool" where
  "bits_from i r \<longleftrightarrow> (\<forall>k. i \<le> k \<and> k < length r \<longrightarrow> r ! k = 0 \<or> r ! k = 1)"

lemma bits_fromD: "bits_from i r \<Longrightarrow> i \<le> k \<Longrightarrow> k < length r \<Longrightarrow> r ! k = 0 \<or> r ! k = 1"
  by (simp add: bits_from_def)

lemma bits_from_update: "bits_from i r \<Longrightarrow> k < i \<or> x = 0 \<or> x = 1 \<Longrightarrow> bits_from i (r[k := x])"
proof -
  assume b: "bits_from i r" and x: "k < i \<or> x = 0 \<or> x = 1"
  have "r[k := x] ! m = 0 \<or> r[k := x] ! m = 1" if "i \<le> m" "m < length r" for m
    using bits_fromD [OF b that] x that by (cases "m = k") auto
  then show ?thesis by (simp add: bits_from_def)
qed

lemma bits_nonneg: "bits_from i r \<Longrightarrow> 0 \<le> bval (drop i r)"
proof (induction "length r - i" arbitrary: i)
  case 0
  then show ?case by simp
next
  case (Suc n)
  then have "i < length r" by simp
  moreover have "0 \<le> bval (drop (Suc i) r)" using Suc by (intro Suc.hyps(1)) (auto simp: bits_from_def)
  moreover have "r ! i = 0 \<or> r ! i = 1" using Suc.prems \<open>i < length r\<close> by (auto simp: bits_from_def)
  ultimately show ?case by (auto simp: bval_drop)
qed

lemma zeros_drop:
  "(\<And>k. i \<le> k \<Longrightarrow> k < i + n \<Longrightarrow> k < length r \<Longrightarrow> r ! k = 0) \<Longrightarrow> bval (drop i r) = 2 ^ n * bval (drop (i + n) r)"
proof (induction n arbitrary: i)
  case (Suc n)
  show ?case
  proof (cases "i < length r")
    case True
    then have "bval (drop i r) = 2 * bval (drop (Suc i) r)" using Suc.prems [of i] by (simp add: bval_drop)
    moreover have "bval (drop (Suc i) r) = 2 ^ n * bval (drop (Suc i + n) r)" using Suc.prems by (intro Suc.IH) simp
    ultimately show ?thesis by simp
  qed simp
qed simp

lemma ones_drop: "(\<And>k. i \<le> k \<Longrightarrow> k < length r \<Longrightarrow> r ! k = 1) \<Longrightarrow> bval (drop i r) = 2 ^ (length r - i) - 1"
proof (induction "length r - i" arbitrary: i)
  case (Suc n)
  then have i: "i < length r" "length r - i = Suc (length r - Suc i)" by simp_all
  moreover have "bval (drop (Suc i) r) = 2 ^ (length r - Suc i) - 1" using Suc by (intro Suc.hyps(1)) auto
  ultimately show ?case using Suc.prems [of i] by (simp add: bval_drop)
qed simp

lemma schar_id [simp]: "- 128 \<le> x \<Longrightarrow> x < 128 \<Longrightarrow> schar x = x"
  unfolding schar_def by (rule signed_take_bit_int_eq_self) simp_all

section \<open>Carries\<close>

lemma slide_carry_ok:
  assumes "length r = 256" "bits_from k r" "k \<le> j" "j < 256" "r ! j = 0"
  shows "length (slide_carry k r) = 256 \<and> bval (slide_carry k r) = bval r + 2 ^ k \<and> bits_from k (slide_carry k r) \<and>
    (\<forall>m < k. slide_carry k r ! m = r ! m) \<and> (r ! k = 1 \<longrightarrow> slide_carry k r ! k = 0)"
  using assms
proof (induction k r rule: slide_carry.induct)
  case (1 k r)
  then have k: "k < 256" by simp
  show ?case
  proof (cases "r ! k = 0")
    case True
    then show ?thesis using 1 k by (subst (1 2 3 4 5) slide_carry.simps) (auto simp: bval_update bits_from_def nth_list_update)
  next
    case False
    let ?r = "r[k := 0]"
    have one: "r ! k = 1" using False 1(3) k 1(2) by (auto simp: bits_from_def)
    have "k \<noteq> j" using False 1(6) by auto
    then have "length (slide_carry (k + 1) ?r) = 256 \<and> bval (slide_carry (k + 1) ?r) = bval ?r + 2 ^ (k + 1) \<and> bits_from (k + 1) (slide_carry (k + 1) ?r) \<and>
      (\<forall>m < k + 1. slide_carry (k + 1) ?r ! m = ?r ! m) \<and> (?r ! (k + 1) = 1 \<longrightarrow> slide_carry (k + 1) ?r ! (k + 1) = 0)"
      using 1 k False by (intro 1(1)) (auto simp: bits_from_def nth_list_update)
    moreover have "slide_carry k r = slide_carry (k + 1) ?r" using k False by (subst slide_carry.simps) simp
    moreover have "bval ?r = bval r - 2 ^ k" using k 1(2) one by (simp add: bval_update)
    moreover have "bits_from k (slide_carry (k + 1) ?r)"
      unfolding bits_from_def
    proof (intro allI impI)
      fix m assume m: "k \<le> m \<and> m < length (slide_carry (k + 1) ?r)"
      show "slide_carry (k + 1) ?r ! m = 0 \<or> slide_carry (k + 1) ?r ! m = 1"
        using calculation(1) m k 1(2) by (cases "m = k") (auto simp: bits_from_def)
    qed
    ultimately show ?thesis using k 1(2) by auto
  qed
qed

section \<open>Windows\<close>

definition window_digit :: "int \<Rightarrow> bool" where
  "window_digit x \<longleftrightarrow> x = 0 \<or> odd x \<and> - 15 \<le> x \<and> x \<le> 15"

text \<open>
  The state at the start of position \<open>i\<close>: finished digits below, bits from there on, the value unchanged, and
  what is left at most \<open>2\<^sup>2\<^sup>5\<^sup>3\<close>, so that a carry always finds a 0.
\<close>

definition slid :: "int \<Rightarrow> nat \<Rightarrow> int list \<Rightarrow> bool" where
  "slid v i r \<longleftrightarrow> length r = 256 \<and> bval r = v \<and> (\<forall>k < i. k < 256 \<longrightarrow> window_digit (r ! k)) \<and> bits_from i r \<and> bval (drop i r) * 2 ^ i \<le> 2 ^ 253"

text \<open>The state within a window that has reached \<open>b\<close>.\<close>

definition in_window :: "int \<Rightarrow> nat \<Rightarrow> nat \<Rightarrow> int list \<Rightarrow> bool" where
  "in_window v i b r \<longleftrightarrow> length r = 256 \<and> bval r = v \<and> (\<forall>k < i. window_digit (r ! k)) \<and> bits_from (i + 1) r \<and>
     bval (drop i r) * 2 ^ i \<le> 2 ^ 253 \<and> odd (r ! i) \<and> - 15 \<le> r ! i \<and> r ! i \<le> 15 \<and> (\<forall>k. i < k \<and> k < i + b \<and> k < 256 \<longrightarrow> r ! k = 0) \<and>
     (0 < r ! i \<longrightarrow> r ! i < 2 ^ b) \<and> (r ! i < 0 \<longrightarrow> 5 \<le> b \<and> 16 \<le> bval (drop i r))"

text \<open>What is left never grows past the bound.\<close>

lemma window_done:
  assumes "in_window v i b r" "i < 256"
  shows "slid v (Suc i) r"
proof -
  have l: "length r = 256" and bits: "bits_from (i + 1) r" and top: "bval (drop i r) * 2 ^ i \<le> 2 ^ 253"
    using assms(1) by (simp_all add: in_window_def)
  have N: "bval (drop i r) = r ! i + 2 * bval (drop (Suc i) r)" using assms(2) l by (simp add: bval_drop)
  have Q: "0 \<le> bval (drop (Suc i) r)" using bits_nonneg [OF bits] by simp
  have "bval (drop (Suc i) r) * 2 ^ Suc i \<le> 2 ^ 253"
  proof (cases "0 < r ! i")
    case True
    then have "2 * bval (drop (Suc i) r) \<le> bval (drop i r)" using N by simp
    then have "2 * bval (drop (Suc i) r) * 2 ^ i \<le> bval (drop i r) * 2 ^ i" by (rule mult_right_mono) simp
    moreover have "2 * bval (drop (Suc i) r) * 2 ^ i = bval (drop (Suc i) r) * 2 ^ Suc i" by simp
    ultimately show ?thesis using top by linarith
  next
    case False
    moreover have "r ! i \<noteq> 0" using assms(1) unfolding in_window_def by (metis even_zero)
    ultimately have neg: "5 \<le> b" "16 \<le> bval (drop i r)" "- 15 \<le> r ! i" using assms(1) by (simp_all add: in_window_def)
    have "bval (drop (Suc i) r) = 2 ^ 4 * bval (drop (Suc i + 4) r)"
      by (rule zeros_drop) (use assms(1) neg(1) l in \<open>auto simp: in_window_def\<close>)
    then have W: "bval (drop i r) = r ! i + 32 * bval (drop (i + 5) r)" using N by (simp add: eval_nat_numeral)
    let ?W = "bval (drop (i + 5) r)"
    have "32 * ?W * 2 ^ i \<le> 2 ^ 253"
    proof (cases "i \<le> 248")
      case True
      have e: "(2 :: int) ^ 253 = 32 * 2 ^ (248 - i) * 2 ^ i"
      proof -
        have "(32 :: int) * 2 ^ (248 - i) * 2 ^ i = 32 * 2 ^ (248 - i + i)" by (simp only: power_add mult.assoc)
        then show ?thesis using True by simp
      qed
      then have "bval (drop i r) \<le> 32 * 2 ^ (248 - i)" using top unfolding e by (simp only: mult_le_cancel_right) simp
      then have "32 * ?W \<le> 32 * 2 ^ (248 - i) + 15" using W neg(3) by linarith
      then have "?W \<le> 2 ^ (248 - i)" by simp
      then have "32 * ?W * 2 ^ i \<le> 32 * 2 ^ (248 - i) * 2 ^ i" by (intro mult_right_mono) simp_all
      then show ?thesis unfolding e .
    next
      case False
      then have "(2 :: int) ^ 249 \<le> 2 ^ i" by (intro power_increasing) simp_all
      then have "bval (drop i r) * 2 ^ 249 \<le> bval (drop i r) * 2 ^ i" using neg(2) by (intro mult_left_mono) simp_all
      with top have "bval (drop i r) * 2 ^ 249 \<le> 16 * 2 ^ 249" by simp
      then have "bval (drop i r) \<le> 16" by simp
      then have "?W \<le> 0" using W neg(3) by simp
      then have "32 * ?W * 2 ^ i \<le> 0" by (simp add: mult_nonpos_nonneg)
      then show ?thesis by (rule order_trans) simp
    qed
    moreover have "2 * bval (drop (Suc i) r) = 32 * ?W" using N W by simp
    moreover have "2 * bval (drop (Suc i) r) * 2 ^ i = bval (drop (Suc i) r) * 2 ^ Suc i" by simp
    ultimately show ?thesis by (simp only:)
  qed
  moreover have "window_digit (r ! k)" if "k < Suc i" for k
    using that assms(1) by (cases "k = i") (auto simp: in_window_def window_digit_def)
  moreover have "bval r = v" using assms(1) by (simp add: in_window_def)
  ultimately show ?thesis using bits l by (simp add: slid_def)
qed

lemma in_windowD:
  assumes "in_window v i b r"
  shows "length r = 256" and "bval r = v" and "\<forall>k < i. window_digit (r ! k)" and "bits_from (i + 1) r" and "bval (drop i r) * 2 ^ i \<le> 2 ^ 253"
    and "odd (r ! i)" and "- 15 \<le> r ! i" and "r ! i \<le> 15" and "\<And>k. i < k \<Longrightarrow> k < i + b \<Longrightarrow> k < 256 \<Longrightarrow> r ! k = 0"
    and "0 < r ! i \<Longrightarrow> r ! i < 2 ^ b" and "r ! i < 0 \<Longrightarrow> 5 \<le> b \<and> 16 \<le> bval (drop i r)"
  using assms unfolding in_window_def by blast+

lemma window_zero:
  assumes "in_window v i b r" "r ! (i + b) = 0"
  shows "in_window v i (b + 1) r"
  unfolding in_window_def
proof (intro conjI allI impI)
  note w = in_windowD [OF assms(1)]
  fix k assume "i < k \<and> k < i + (b + 1) \<and> k < 256"
  then show "r ! k = 0" using w(9) [of k] assms(2) by (cases "k = i + b") simp_all
next
  assume "0 < r ! i"
  then have "r ! i < 2 ^ b" by (rule in_windowD(10) [OF assms(1)])
  also have "(2 :: int) ^ b \<le> 2 ^ (b + 1)" by (rule power_increasing) simp_all
  finally show "r ! i < 2 ^ (b + 1)" .
next
  assume "r ! i < 0"
  then show "5 \<le> b + 1" "16 \<le> bval (drop i r)" using in_windowD(11) [OF assms(1)] by simp_all
qed (use in_windowD [OF assms(1)] in blast)+

text \<open>Changes at \<open>i\<close> and above that keep the value keep what is left.\<close>

lemma bval_drop_same:
  assumes "bval r' = bval r" "take i r' = take i r"
  shows "bval (drop i r') = bval (drop i r)"
proof -
  have "2 ^ i * bval (drop i r') = 2 ^ i * bval (drop i r)"
    using assms(1) bval_split [of r' i] bval_split [of r i] unfolding assms(2) by linarith
  then show ?thesis by simp
qed

lemma window_pos: "in_window v i b r \<Longrightarrow> r ! i + 2 ^ b \<le> 15 \<Longrightarrow> 0 < r ! i"
proof (rule ccontr)
  assume w: "in_window v i b r" and le: "r ! i + 2 ^ b \<le> 15" and "\<not> 0 < r ! i"
  moreover have "r ! i \<noteq> 0" using in_windowD(6) [OF w] by (metis even_zero)
  ultimately have "(2 :: int) ^ 5 \<le> 2 ^ b" using in_windowD(11) [OF w] by (intro power_increasing) simp_all
  with le in_windowD(7) [OF w] show False by simp
qed

lemma window_add:
  assumes "in_window v i b r" "r ! (i + b) = 1" "1 \<le> b" "i + b < 256" "r ! i + 2 ^ b \<le> 15"
  shows "in_window v i (b + 1) ((r[i := r ! i + 2 ^ b])[i + b := 0])"
proof -
  note w = in_windowD [OF assms(1)]
  let ?r = "(r[i := r ! i + 2 ^ b])[i + b := 0]"
  have p: "0 < r ! i" by (rule window_pos [OF assms(1,5)])
  have bv: "bval ?r = bval r" using assms(2-4) w(1) by (simp add: bval_update power_add algebra_simps)
  have "take i ?r = take i r" by simp
  note dr = bval_drop_same [OF bv this]
  have ri: "?r ! i = r ! i + 2 ^ b" using assms(3,4) w(1) by simp
  have even: "even ((2 :: int) ^ b)" "(0 :: int) < 2 ^ b" using assms(3) by simp_all
  show ?thesis
    unfolding in_window_def bv dr ri
  proof (intro conjI allI impI)
    show "bits_from (i + 1) ?r" by (intro bits_from_update [OF bits_from_update [OF w(4)]]) simp_all
    show "length ?r = 256" "bval r = v" "bval (drop i r) * 2 ^ i \<le> 2 ^ 253" using w(1,2,5) by simp_all
    show "odd (r ! i + 2 ^ b)" "r ! i + 2 ^ b \<le> 15" using w(6) even(1) assms(5) by simp_all
    show "- 15 \<le> r ! i + 2 ^ b" using p even(2) by linarith
    show "window_digit (?r ! k)" if "k < i" for k using that w(3) by simp
    show "r ! i + 2 ^ b < 2 ^ (b + 1)" using w(10) [OF p] by simp
    assume "r ! i + 2 ^ b < 0"
    then show "5 \<le> b + 1" "16 \<le> bval (drop i r)" using p even by simp_all
  next
    fix k assume "i < k \<and> k < i + (b + 1) \<and> k < 256"
    then show "?r ! k = 0" using w(1) w(9) [of k] assms(4) by (cases "k = i + b") (simp_all add: nth_list_update)
  qed
qed

text \<open>A subtraction happens only at \<open>b = 4\<close>, and the carry finds a 0 above.\<close>

lemma window_sub:
  assumes "in_window v i b r" "r ! (i + b) = 1" "1 \<le> b" "i + b < 256" "\<not> r ! i + 2 ^ b \<le> 15" "- 15 \<le> r ! i - 2 ^ b"
  shows "in_window v i (b + 1) (slide_carry (i + b) (r[i := r ! i - 2 ^ b]))"
proof -
  note w = in_windowD [OF assms(1)]
  have le30: "(2 :: int) ^ b \<le> 30" using assms(6) w(8) by simp
  have b4: "b \<le> 4"
  proof (rule ccontr)
    assume "\<not> b \<le> 4"
    then have "(2 :: int) ^ 5 \<le> 2 ^ b" by (intro power_increasing) simp_all
    with le30 show False by simp
  qed
  have "r ! i \<noteq> 0" using w(6) by (metis even_zero)
  then have p: "0 < r ! i" using w(11) b4 by (cases "0 < r ! i") auto
  have "\<not> b \<le> 3"
  proof
    assume "b \<le> 3"
    then have "(2 :: int) ^ b \<le> 2 ^ 3" by (intro power_increasing) simp_all
    with w(10) [OF p] assms(5) show False by simp
  qed
  with b4 have b: "b = 4" by simp
  let ?s = "r[i := r ! i - 16]"
  have i: "i < 256" "i + 4 < 256" using assms(4) b by simp_all
  have bits: "bits_from (i + 4) ?s" using w(4) by (auto simp: bits_from_def)
  have left: "bval (drop i r) = r ! i + 16 * bval (drop (i + 4) r)"
  proof -
    have "bval (drop i r) = r ! i + 2 * bval (drop (Suc i) r)" using i w(1) by (simp add: bval_drop)
    moreover have "bval (drop (Suc i) r) = 2 ^ 3 * bval (drop (Suc i + 3) r)" by (rule zeros_drop) (use w(9) b w(1) in auto)
    ultimately show ?thesis by (simp add: eval_nat_numeral)
  qed
  have up: "bval (drop (i + 4) r) = 1 + 2 * bval (drop (Suc (i + 4)) r)" using i w(1) assms(2) b by (simp add: bval_drop)
  have "bits_from (Suc (i + 4)) r" using w(4) by (auto simp: bits_from_def)
  from bits_nonneg [OF this] have n16: "16 \<le> bval (drop i r)" using left up p by linarith
  have "\<exists>j. i + 4 \<le> j \<and> j < 256 \<and> ?s ! j = 0"
  proof (rule ccontr)
    assume n: "\<not> ?thesis"
    have "r ! k \<noteq> 0" if "i + 4 \<le> k" "k < 256" for k using n that w(1) by auto
    then have "r ! k = 1" if "i + 4 \<le> k" "k < 256" for k using that w(1) bits_fromD [OF w(4), of k] by auto
    then have "bval (drop (i + 4) r) = 2 ^ (256 - (i + 4)) - 1" using ones_drop [of "i + 4" r] w(1) by simp
    then have "bval (drop i r) \<ge> 16 * 2 ^ (252 - i) - 15" using left p by simp
    then have "(16 * 2 ^ (252 - i) - 15) * 2 ^ i \<le> bval (drop i r) * 2 ^ i" by (intro mult_right_mono) simp_all
    then have a: "16 * (2 ^ (252 - i) * 2 ^ i) - 15 * 2 ^ i \<le> (2 :: int) ^ 253" using w(5) by (simp add: left_diff_distrib)
    have "(2 :: int) ^ (252 - i) * 2 ^ i = 2 ^ 252" unfolding power_add [symmetric] using i by simp
    moreover have "(2 :: int) ^ i \<le> 2 ^ 251" using i by (intro power_increasing) simp_all
    ultimately show False using a by simp
  qed
  then obtain j where j: "i + 4 \<le> j" "j < 256" "?s ! j = 0" by blast
  have "length ?s = 256" using w(1) by simp
  note c = slide_carry_ok [OF this bits j]
  let ?r = "slide_carry (i + 4) ?s"
  have bv: "bval ?r = bval r" using c i w(1) by (simp add: bval_update power_add)
  have "take i ?r = take i r" by (rule nth_equalityI) (use c w(1) i in auto)
  note dr = bval_drop_same [OF bv this]
  have ri: "?r ! i = r ! i - 16" using c i w(1) by simp
  have "in_window v i 5 ?r"
    unfolding in_window_def bv dr ri
  proof (intro conjI allI impI)
    show "length ?r = 256" "bval r = v" "bval (drop i r) * 2 ^ i \<le> 2 ^ 253" using c w(2,5) by simp_all
    show "bits_from (i + 1) ?r"
      unfolding bits_from_def
    proof (intro allI impI)
      fix k assume k: "i + 1 \<le> k \<and> k < length ?r"
      show "?r ! k = 0 \<or> ?r ! k = 1"
      proof (cases "i + 4 \<le> k")
        case True
        then show ?thesis using c k by (auto simp: bits_from_def)
      next
        case False
        then have "?r ! k = r ! k" using c k w(1) by auto
        then show ?thesis using w(1,4) k c by (auto simp: bits_from_def)
      qed
    qed
    show "window_digit (?r ! k)" if "k < i" for k using that c w(3) by auto
    show "odd (r ! i - 16)" "- 15 \<le> r ! i - 16" "r ! i - 16 \<le> 15" using w(6,8) p by simp_all
    show "16 \<le> bval (drop i r)" by (rule n16)
    show "5 \<le> (5 :: nat)" by simp
    assume "0 < r ! i - 16"
    with w(8) show "r ! i - 16 < 2 ^ 5" by simp
  next
    fix k assume k: "i < k \<and> k < i + 5 \<and> k < 256"
    show "?r ! k = 0"
    proof (cases "k = i + 4")
      case True
      then show ?thesis using c assms(2) b by simp
    next
      case False
      then have "?r ! k = r ! k" using c k by auto
      then show ?thesis using w(9) [of k] k False b by simp
    qed
  qed
  then show ?thesis using b by simp
qed

lemma window_ok: "in_window v i b r \<Longrightarrow> i < 256 \<Longrightarrow> 1 \<le> b \<Longrightarrow> slid v (Suc i) (slide_window i b r)"
proof (induction i b r rule: slide_window.induct)
  case (1 i b r)
  note w = in_windowD [OF 1(4)]
  show ?case
  proof (cases "b \<le> 6 \<and> i + b < 256")
    case False
    then have "slide_window i b r = r" by (subst slide_window.simps) auto
    with window_done [OF 1(4,5)] show ?thesis by simp
  next
    case T: True
    then have b: "b \<le> 6" "i + b < 256" by simp_all
    show ?thesis
    proof (cases "r ! (i + b) = 0")
      case True
      have "slide_window i b r = slide_window i (b + 1) r" using True b by (subst slide_window.simps) simp
      then show ?thesis using 1(1) [OF T True window_zero [OF 1(4) True] 1(5)] by simp
    next
      case F: False
      then have one: "r ! (i + b) = 1" using w(1) bits_fromD [OF w(4), of "i + b"] b 1(6) by simp
      then have x: "push_bit b (r ! (i + b)) = 2 ^ b" by (simp add: push_bit_eq_mult)
      have "(2 :: int) ^ b \<le> 64" using power_increasing [OF b(1), of "2 :: int"] by simp
      moreover have "(0 :: int) < 2 ^ b" by simp
      ultimately have sch: "schar (2 ^ b) = 2 ^ b" "- 15 \<le> r ! i - 2 ^ b \<Longrightarrow> schar (r ! i - 2 ^ b) = r ! i - 2 ^ b"
        "r ! i + 2 ^ b \<le> 15 \<Longrightarrow> schar (r ! i + 2 ^ b) = r ! i + 2 ^ b"
        using w(7,8) by - (rule schar_id; linarith)+
      show ?thesis
      proof (cases "r ! i + 2 ^ b \<le> 15")
        case True
        have "slide_window i b r = slide_window i (b + 1) ((r[i := r ! i + 2 ^ b])[i + b := 0])"
          using F b True by (subst slide_window.simps) (simp add: x Let_def sch)
        then show ?thesis
          using 1(2) [OF T F refl, unfolded x sch(1) sch(3) [OF True], OF True window_add [OF 1(4) one 1(6) b(2) True] 1(5)] by simp
      next
        case G: False
        show ?thesis
        proof (cases "- 15 \<le> r ! i - 2 ^ b")
          case True
          have "slide_window i b r = slide_window i (b + 1) (slide_carry (i + b) (r[i := r ! i - 2 ^ b]))"
            using F b G True by (subst slide_window.simps) (simp add: x Let_def sch)
          then show ?thesis
            using 1(3) [OF T F refl, unfolded x sch(1) sch(2) [OF True], OF G True window_sub [OF 1(4) one 1(6) b(2) G True] 1(5)] by simp
        next
          case False
          then have "slide_window i b r = r" using F b G by (subst slide_window.simps) (simp add: x Let_def)
          with window_done [OF 1(4,5)] show ?thesis by simp
        qed
      qed
    qed
  qed
qed

lemma slid_step:
  assumes "slid v i r" "i < 256"
  shows "slid v (Suc i) (if r ! i = 0 then r else slide_window i 1 r)"
proof (cases "r ! i = 0")
  case True
  have l: "length r = 256" and top: "bval (drop i r) * 2 ^ i \<le> 2 ^ 253" and bits: "bits_from i r" and digits: "\<forall>k < i. k < 256 \<longrightarrow> window_digit (r ! k)"
    and v: "bval r = v" using assms(1) by (simp_all add: slid_def)
  have "bval (drop i r) * 2 ^ i = bval (drop (Suc i) r) * 2 ^ Suc i" using True assms(2) l by (simp add: bval_drop)
  moreover have "bits_from (Suc i) r" using bits by (simp add: bits_from_def)
  moreover have "window_digit (r ! k)" if "k < Suc i" "k < 256" for k
    using that digits True by (cases "k = i") (simp_all add: window_digit_def)
  ultimately show ?thesis using True l v top by (simp only: slid_def if_True) simp
next
  case False
  have bits: "bits_from i r" "length r = 256" using assms(1) by (simp_all add: slid_def)
  then have one: "r ! i = 1" using False bits_fromD [OF bits(1), of i] assms(2) by simp
  have "bits_from (i + 1) r" using bits(1) by (simp add: bits_from_def)
  then have "in_window v i 1 r" using assms one unfolding in_window_def slid_def by auto
  from window_ok [OF this assms(2)] False show ?thesis by simp
qed

lemma map_div_mod: "map (\<lambda>i. f (i div 8) (i mod 8)) [0..<8 * n] = concat (map (\<lambda>k. map (f k) [0, 1, 2, 3, 4, 5, 6, 7]) [0..<n])"
proof (induction n)
  case (Suc n)
  have "[0..<8 * Suc n] = [0..<8 * n] @ map (\<lambda>j. 8 * n + j) [0, 1, 2, 3, 4, 5, 6, 7]"
  proof -
    have "[0..<8 * Suc n] = [0..<8 * n] @ [8 * n..<8 * n + 8]" using upt_add_eq_append [of 0 "8 * n" 8] by (simp add: add.commute)
    then show ?thesis by (simp add: upt_rec)
  qed
  then have split: "map (\<lambda>i. f (i div 8) (i mod 8)) [0..<8 * Suc n] =
      map (\<lambda>i. f (i div 8) (i mod 8)) [0..<8 * n] @ map (\<lambda>i. f (i div 8) (i mod 8)) (map (\<lambda>j. 8 * n + j) [0, 1, 2, 3, 4, 5, 6, 7])"
    by (simp only: map_append)
  have g: "map (\<lambda>i. f (i div 8) (i mod 8)) (map (\<lambda>j. 8 * n + j) js) = map (f n) js" if "\<forall>j \<in> set js. j < 8" for js
    using that by (induction js) simp_all
  have last: "map (\<lambda>i. f (i div 8) (i mod 8)) (map (\<lambda>j. 8 * n + j) [0, 1, 2, 3, 4, 5, 6, 7]) = map (f n) [0, 1, 2, 3, 4, 5, 6, 7]"
    by (rule g) simp
  show ?case unfolding split last Suc by simp
qed simp

lemma scalar_bits_value:
  assumes "length a = 32"
  shows "bval (scalar_bits a) = le_value a" and "bits_from 0 (scalar_bits a)" and "length (scalar_bits a) = 256"
proof -
  show l: "length (scalar_bits a) = 256" by (simp add: scalar_bits_def)
  have b: "uint (1 AND drop_bit j x) = uint x div 2 ^ j mod 2" for x :: byte and j
  proof -
    have "1 AND w = take_bit 1 w" for w :: byte by (simp add: take_bit_eq_mask and.commute)
    then show ?thesis unfolding uint_shift [symmetric] by (simp only: unsigned_take_bit_eq) (simp add: take_bit_eq_mod)
  qed
  have s: "schar (uint (1 AND drop_bit j x)) = uint x div 2 ^ j mod 2" for x :: byte and j
    unfolding b using pos_mod_bound [of 2 "uint x div 2 ^ j"] pos_mod_sign [of 2 "uint x div 2 ^ j"] by (intro schar_id) linarith+
  have "y mod 2 = 0 \<or> y mod 2 = 1" for y :: int by linarith
  then show "bits_from 0 (scalar_bits a)" unfolding bits_from_def l by (simp add: scalar_bits_def s del: upt_Suc)
  have e: "scalar_bits a = concat (map (\<lambda>x. map (\<lambda>j. uint x div 2 ^ j mod 2) [0, 1, 2, 3, 4, 5, 6, 7]) a)"
  proof -
    have "[0..<256] = [0..<8 * 32]" by simp
    then have "scalar_bits a = concat (map (\<lambda>k. map (\<lambda>j. uint (a ! k) div 2 ^ j mod 2) [0, 1, 2, 3, 4, 5, 6, 7]) [0..<32])"
      unfolding scalar_bits_def s by (simp only: map_div_mod [of "\<lambda>k j. uint (a ! k) div 2 ^ j mod 2" 32])
    moreover have "map (\<lambda>k. a ! k) [0..<32] = a" using assms map_nth [of a] by simp
    then have "map (\<lambda>k. map (\<lambda>j. uint (a ! k) div 2 ^ j mod 2) [0, 1, 2, 3, 4, 5, 6, 7]) [0..<32] =
        map (\<lambda>x. map (\<lambda>j. uint x div 2 ^ j mod 2) [0, 1, 2, 3, 4, 5, 6, 7]) a"
      by (metis (no_types, lifting) map_map map_cong comp_apply)
    ultimately show ?thesis by simp
  qed
  have byte: "x mod 2 + 2 * (x div 2 mod 2 + 2 * (x div 4 mod 2 + 2 * (x div 8 mod 2 + 2 * (x div 16 mod 2 + 2 * (x div 32 mod 2 +
      2 * (x div 64 mod 2 + 2 * (x div 128 mod 2 + 2 * w))))))) = x + 256 * w" if "0 \<le> x" "x < 256" for x w :: int
  proof -
    have m: "y mod 2 = y - 2 * (y div 2)" for y :: int by (simp add: minus_mult_div_eq_mod)
    have d: "x div 2 div 2 = x div 4" "x div 4 div 2 = x div 8" "x div 8 div 2 = x div 16" "x div 16 div 2 = x div 32" "x div 32 div 2 = x div 64"
      "x div 64 div 2 = x div 128" "x div 128 div 2 = x div 256" by (simp_all flip: zdiv_zmult2_eq)
    have "x div 256 = 0" using that by simp
    then show ?thesis unfolding m d by simp
  qed
  have "bval (concat (map (\<lambda>x. map (\<lambda>j. uint x div 2 ^ j mod 2) [0, 1, 2, 3, 4, 5, 6, 7]) xs)) = le_value xs" for xs :: "byte list"
  proof (induction xs)
    case (Cons x xs)
    have "uint x < 256" using uint_lt2p [of x] by simp
    with Cons byte [of "uint x"] show ?case by simp
  qed simp
  then show "bval (scalar_bits a) = le_value a" unfolding e .
qed

lemma slide_value:
  assumes "length a = 32" "le_value a \<le> 2 ^ 253"
  shows "length (slide_vartime a) = 256 \<and> bval (slide_vartime a) = le_value a \<and> (\<forall>x \<in> set (slide_vartime a). window_digit x)"
proof -
  note b = scalar_bits_value [OF assms(1)]
  have "slid (le_value a) 0 (scalar_bits a)" using b assms(2) by (simp add: slid_def)
  moreover have "slid v 0 r \<Longrightarrow> n \<le> 256 \<Longrightarrow> slid v n (fold (\<lambda>i r. if r ! i = 0 then r else slide_window i 1 r) [0..<n] r)" for v r n
    by (induction n) (simp_all add: slid_step)
  ultimately have s: "slid (le_value a) 256 (slide_vartime a)" unfolding slide_vartime_def by blast
  then have l: "length (slide_vartime a) = 256" by (simp add: slid_def)
  have "window_digit x" if "x \<in> set (slide_vartime a)" for x
  proof -
    from that l obtain k where "k < 256" "x = slide_vartime a ! k" by (metis in_set_conv_nth)
    with s show ?thesis by (simp add: slid_def)
  qed
  with s show ?thesis by (simp add: slid_def)
qed

section \<open>Families with two generators\<close>

definition combinations :: "(int \<Rightarrow> int \<Rightarrow> point) \<Rightarrow> bool" where
  "combinations G \<longleftrightarrow> G 0 0 = (0, 1) \<and> (\<forall>m n. on_curve (G m n) \<and> G (- m) (- n) = ed_neg (G m n)) \<and>
     (\<forall>m n m' n'. ed_sum (G m n) (G m' n') (G (m + m') (n + n')))"

lemma combinationsD:
  assumes "combinations G"
  shows "G 0 0 = (0, 1)" and "on_curve (G m n)" and "G (- m) (- n) = ed_neg (G m n)" and "ed_sum (G m n) (G m' n') (G (m + m') (n + n'))"
  using assms by (simp_all add: combinations_def)

lemma odd_multiples_stand:
  assumes "combinations G" "stands3 A (G 1 0)" "k < 8"
  shows "stands_cached (odd_multiples A ! k) (G (2 * int k + 1) 0)"
proof -
  define A2 where "A2 = ge_p1p1_to_p3 (ge_p3_dbl A)"
  define add2 where "add2 = (\<lambda>c. ge_p3_to_cached (ge_p1p1_to_p3 (ge_add_cached A2 c)))"
  have "stands11 (ge_p3_dbl A) (G 2 0)"
    unfolding ge_p3_dbl_def by (rule dbl_stands [OF stands3_2 [OF assms(2)] combinationsD(2) [OF assms(1)]])
      (use combinationsD(4) [OF assms(1), of 1 0 1 0] in simp)
  then have A2: "stands3 A2 (G 2 0)" unfolding A2_def by (rule p1p1_to_p3_stands)
  have "stands_cached ((add2 ^^ n) (ge_p3_to_cached A)) (G (2 * int n + 1) 0)" for n
  proof (induction n)
    case 0
    show ?case using to_cached_stands [OF assms(2)] by simp
  next
    case (Suc n)
    have "ed_sum (G 2 0) (G (2 * int n + 1) 0) (G (2 * int (Suc n) + 1) 0)"
      using combinationsD(4) [OF assms(1), of 2 0 "2 * int n + 1" 0] by (simp add: algebra_simps)
    from to_cached_stands [OF p1p1_to_p3_stands [OF addition_stands(3) [OF A2 Suc this]]] show ?case by (simp add: add2_def)
  qed
  moreover have "odd_multiples A ! k = (add2 ^^ k) (ge_p3_to_cached A)"
    using assms(3) by (simp add: odd_multiples_def Let_def add2_def A2_def del: upt_Suc)
  ultimately show ?thesis by simp
qed

definition holds_odd :: "ge_precomp list \<Rightarrow> (int \<Rightarrow> int \<Rightarrow> point) \<Rightarrow> bool" where
  "holds_odd bi G \<longleftrightarrow> (\<forall>k < 8. stands_precomp (bi ! k) (G 0 (2 * int k + 1)))"

lemma odd_index:
  fixes x :: int
  assumes "window_digit x" "0 < x"
  shows "nat (x div 2) < 8" and "2 * int (nat (x div 2)) + 1 = x"
proof -
  have x: "odd x" "x \<le> 15" using assms by (auto simp: window_digit_def)
  then obtain k where "x = 2 * k + 1" by (elim oddE)
  with x assms(2) show "nat (x div 2) < 8" "2 * int (nat (x div 2)) + 1 = x" by simp_all
qed

lemma window_digit_neg: "window_digit x \<Longrightarrow> window_digit (- x)"
  by (auto simp: window_digit_def)

lemma ladder_step_stands:
  assumes "combinations G" "holds_odd bi G" "stands3 A (G 1 0)" "stands2 r (G m n)" "window_digit (as ! i)" "window_digit (bs ! i)"
  shows "stands2 (ladder_step (odd_multiples A) bi as bs i r) (G (2 * m + as ! i) (2 * n + bs ! i))"
proof -
  let ?a = "as ! i" and ?b = "bs ! i" and ?Ai = "odd_multiples A"
  note G = combinationsD [OF assms(1)]
  define t1 where "t1 = ge_p2_dbl r"
  define t2 where "t2 = (if ?a > 0 then ge_add_cached (ge_p1p1_to_p3 t1) (?Ai ! nat (?a div 2))
    else if ?a < 0 then ge_sub_cached (ge_p1p1_to_p3 t1) (?Ai ! nat (- ?a div 2)) else t1)"
  define t3 where "t3 = (if ?b > 0 then ge_madd (ge_p1p1_to_p3 t2) (bi ! nat (?b div 2))
    else if ?b < 0 then ge_msub (ge_p1p1_to_p3 t2) (bi ! nat (- ?b div 2)) else t2)"
  have t1: "stands11 t1 (G (2 * m) (2 * n))"
    unfolding t1_def by (rule dbl_stands [OF assms(4) G(2)]) (use G(4) [of m n m n] in \<open>simp only: mult_2\<close>)
  note u1 = p1p1_to_p3_stands [OF t1]
  have cached: "stands_cached (?Ai ! nat (x div 2)) (G x 0)" if "window_digit x" "0 < x" for x
    using odd_multiples_stand [OF assms(1,3) odd_index(1) [OF that]] by (simp only: odd_index(2) [OF that])
  have precomp: "stands_precomp (bi ! nat (x div 2)) (G 0 x)" if "window_digit x" "0 < x" for x
    using assms(2) odd_index [OF that] unfolding holds_odd_def by metis
  have t2: "stands11 t2 (G (2 * m + ?a) (2 * n))"
  proof (cases "?a > 0")
    case True
    show ?thesis using addition_stands(3) [OF u1 cached [OF assms(5) True]] G(4) [of "2 * m" "2 * n" ?a 0] True by (simp add: t2_def)
  next
    case F: False
    show ?thesis
    proof (cases "?a < 0")
      case True
      then have "0 < - ?a" by simp
      note c = cached [OF window_digit_neg [OF assms(5)] this]
      have "ed_sum (G (2 * m) (2 * n)) (ed_neg (G (- ?a) 0)) (G (2 * m + ?a) (2 * n))"
        using G(4) [of "2 * m" "2 * n" ?a 0] G(3) [of "- ?a" 0] by simp
      from addition_stands(4) [OF u1 c this] True show ?thesis by (simp add: t2_def)
    next
      case False
      with F have "?a = 0" by simp
      then show ?thesis using t1 by (simp add: t2_def)
    qed
  qed
  note u2 = p1p1_to_p3_stands [OF t2]
  have "stands11 t3 (G (2 * m + ?a) (2 * n + ?b))"
  proof (cases "?b > 0")
    case True
    show ?thesis using addition_stands(1) [OF u2 precomp [OF assms(6) True]] G(4) [of "2 * m + ?a" "2 * n" 0 ?b] True by (simp add: t3_def)
  next
    case F: False
    show ?thesis
    proof (cases "?b < 0")
      case True
      then have "0 < - ?b" by simp
      note c = precomp [OF window_digit_neg [OF assms(6)] this]
      have "ed_sum (G (2 * m + ?a) (2 * n)) (ed_neg (G 0 (- ?b))) (G (2 * m + ?a) (2 * n + ?b))"
        using G(4) [of "2 * m + ?a" "2 * n" 0 ?b] G(3) [of 0 "- ?b"] by simp
      from addition_stands(2) [OF u2 c this] True show ?thesis by (simp add: t3_def)
    next
      case False
      with F have "?b = 0" by simp
      then show ?thesis using t2 by (simp add: t3_def)
    qed
  qed
  then have "stands2 (ge_p1p1_to_p2 t3) (G (2 * m + ?a) (2 * n + ?b))" by (rule p1p1_to_p2_stands)
  moreover have "ladder_step ?Ai bi as bs i r = ge_p1p1_to_p2 t3" by (simp only: ladder_step_def Let_def t1_def t2_def t3_def)
  ultimately show ?thesis by simp
qed

lemma ladder_stands:
  assumes "combinations G" "holds_odd bi G" "stands3 A (G 1 0)"
    and "\<forall>x \<in> set as. window_digit x" "\<forall>x \<in> set bs. window_digit x" "length as = 256" "length bs = 256"
  shows "stands2 (fold (ladder_step (odd_multiples A) bi as bs) (dropWhile (\<lambda>i. \<not> (as ! i \<noteq> 0 \<or> bs ! i \<noteq> 0)) (rev [0..<256])) ge_p2_0)
    (G (bval as) (bval bs))"
proof -
  let ?step = "ladder_step (odd_multiples A) bi as bs"
  have down: "bval (drop j as) = as ! j + 2 * bval (drop (Suc j) as)" "bval (drop j bs) = bs ! j + 2 * bval (drop (Suc j) bs)" if "j < 256" for j
    using that assms(6,7) by (simp_all add: bval_drop)
  have run: "stands2 r (G (bval (drop j as)) (bval (drop j bs))) \<Longrightarrow> j \<le> 256 \<Longrightarrow> stands2 (fold ?step (rev [0..<j]) r) (G (bval as) (bval bs))" for r j
  proof (induction j arbitrary: r)
    case (Suc j)
    have "window_digit (as ! j)" "window_digit (bs ! j)" using Suc.prems(2) assms(4-7) by simp_all
    from ladder_step_stands [OF assms(1-3) Suc.prems(1) this] Suc.prems(2)
    have "stands2 (?step j r) (G (bval (drop j as)) (bval (drop j bs)))" by (simp add: down add.commute)
    from Suc.IH [OF this] Suc.prems(2) show ?case by simp
  qed simp
  have skip: "bval (drop j as) = 0 \<Longrightarrow> bval (drop j bs) = 0 \<Longrightarrow> j \<le> 256 \<Longrightarrow>
      stands2 (fold ?step (dropWhile (\<lambda>i. \<not> (as ! i \<noteq> 0 \<or> bs ! i \<noteq> 0)) (rev [0..<j])) ge_p2_0) (G (bval as) (bval bs))" for j
  proof (induction j)
    case 0
    then show ?case using neutral_stands(2) combinationsD(1) [OF assms(1)] by (simp del: stands2.simps)
  next
    case (Suc j)
    show ?case
    proof (cases "as ! j \<noteq> 0 \<or> bs ! j \<noteq> 0")
      case True
      have "stands2 ge_p2_0 (G (bval (drop (Suc j) as)) (bval (drop (Suc j) bs)))"
        using Suc.prems neutral_stands(2) combinationsD(1) [OF assms(1)] by (simp del: stands2.simps)
      from run [OF this] Suc.prems(3) True show ?thesis by (auto simp del: stands2.simps)
    next
      case False
      then have "bval (drop j as) = 0" "bval (drop j bs) = 0" using Suc.prems down [of j] by simp_all
      from Suc.IH [OF this] Suc.prems(3) False show ?thesis by simp
    qed
  qed
  show ?thesis using skip [of 256] assms(6,7) by simp
qed

lemma double_scalarmult_stands:
  assumes "combinations G" "holds_odd bi G" "stands3 A (G 1 0)" "length a = 32" "length b = 32" "le_value a \<le> 2 ^ 253" "le_value b \<le> 2 ^ 253"
  shows "stands2 (ge_double_scalarmult bi a A b) (G (le_value a) (le_value b))"
proof -
  note a = slide_value [OF assms(4,6)] and b = slide_value [OF assms(5,7)]
  show ?thesis
    using ladder_stands [OF assms(1-3), of "slide_vartime a" "slide_vartime b"] a b by (simp add: ge_double_scalarmult_def Let_def del: upt_Suc stands2.simps)
qed

section \<open>What the ladder promises\<close>

text \<open>
  C99. The sliding windows of a scalar up to \<open>2\<^sup>2\<^sup>5\<^sup>3\<close> are worth the scalar: the 256 digits sum up to it with
  their powers of two, each is 0 or odd between \<open>- 15\<close> and 15, and so selects one of the eight odd multiples;
  no carry runs out of the array.
\<close>

theorem windows_are_scalar:
  assumes "length a = 32" "le_value a \<le> 2 ^ 253"
  shows "length (slide_vartime a) = 256 \<and> bval (slide_vartime a) = le_value a \<and> (\<forall>x \<in> set (slide_vartime a). x = 0 \<or> odd x \<and> - 15 \<le> x \<and> x \<le> 15)"
  using slide_value [OF assms] by (simp add: window_digit_def)

lemma windows_are_scalar_witness: "bval (slide_vartime (255 # replicate 31 0)) = 255"
  using windows_are_scalar [of "255 # replicate 31 0"] by simp

text \<open>
  C15. The point a verification computes: for the multiples of two points in a family closed under the addition
  law, and a table with the odd multiples of the second, the joint ladder yields the first times the one scalar
  plus the second times the other.
\<close>

theorem double_scalarmult_correct:
  assumes "combinations G" "holds_odd bi G" "stands3 A (G 1 0)" "length a = 32" "length b = 32" "le_value a \<le> 2 ^ 253" "le_value b \<le> 2 ^ 253"
  shows "stands2 (ge_double_scalarmult bi a A b) (G (le_value a) (le_value b))"
  using assms by (rule double_scalarmult_stands)

lemma double_scalarmult_correct_witness:
  "stands2 (ge_double_scalarmult [quarter_entry 1, quarter_entry 3, quarter_entry 1, quarter_entry 3, quarter_entry 1, quarter_entry 3, quarter_entry 1, quarter_entry 3]
     (5 # replicate 31 0) quarter (2 # replicate 31 0)) (fourth 7)"
proof -
  let ?G = "\<lambda>m n. fourth (m + n)"
  let ?bi = "[quarter_entry 1, quarter_entry 3, quarter_entry 1, quarter_entry 3, quarter_entry 1, quarter_entry 3, quarter_entry 1, quarter_entry 3]"
  have G: "combinations ?G"
    unfolding combinations_def
  proof (intro conjI allI)
    note f = multiplesD [OF fourth_multiples]
    show "fourth (0 + 0) = (0, 1)" using f(1) by simp
    fix m n m' n' :: int
    show "on_curve (fourth (m + n))" by (rule f(2))
    have "- m + - n = - (m + n)" by simp
    then show "fourth (- m + - n) = ed_neg (fourth (m + n))" by (simp only: f(3))
    have "m + m' + (n + n') = (m + n) + (m' + n')" by simp
    then show "ed_sum (fourth (m + n)) (fourth (m' + n')) (fourth (m + m' + (n + n')))" by (simp only: f(4))
  qed
  have "holds_odd ?bi ?G"
    unfolding holds_odd_def
  proof (intro allI impI)
    fix k :: nat assume "k < 8"
    then have "k = 0 \<or> k = 1 \<or> k = 2 \<or> k = 3 \<or> k = 4 \<or> k = 5 \<or> k = 6 \<or> k = 7" by arith
    then show "stands_precomp (?bi ! k) (fourth (0 + (2 * int k + 1)))"
      using quarter_entry_stands [of 1] quarter_entry_stands [of 3] fourth_mod [of 5] fourth_mod [of 7] fourth_mod [of 9] fourth_mod [of 11]
        fourth_mod [of 13] fourth_mod [of 15] by (elim disjE) (simp_all del: stands_precomp.simps)
  qed
  moreover have "stands3 quarter (?G 1 0)" using quarter_stands(1) by (simp add: fourth_def del: stands3.simps)
  ultimately show ?thesis using double_scalarmult_correct [OF G, of ?bi quarter "5 # replicate 31 0" "2 # replicate 31 0"]
    by (simp del: stands2.simps stands3.simps)
qed

end
