(* ===== verification/Spec2Isabelle.thy ===== *)
theory Spec2Isabelle
  imports Semver Sha256 Base64 Gzip Policy Jwt Connpool Grid Http Boundaries Server Sha512 Sc25519 Doublemult
begin

text \<open>
  Verification of cookbook, an artifact registry written in C11 (\<^verbatim>\<open>src/src/main/c\<close>). The registry
  takes uploads of the files of a version, publishes the version when its descriptor
  \<^verbatim>\<open>now.pasta\<close> is there, answers questions for the versions in a range, withdraws versions, and asks
  the other registries of a federation for what it does not have. Requests carry tokens signed by the
  registry, which hold the permissions that were resolved from policies when the token was made.

  How the parts fit together. The adapter (\<open>Http\<close>) turns a request into a \<open>shim_connection\<close> and
  dispatches it to a handler; the handlers (\<open>Publish\<close>, \<open>Serve\<close>, \<open>Caches\<close>) decode and validate the
  path and ask for a bearer token (\<open>Request\<close>), which is verified (\<open>Jwt\<close>) and decides by the policy in
  it (\<open>Policy\<close>); they work on the object store (\<open>Store\<close>) and the tables (\<open>Db\<close>), and on the peers
  (\<open>Grid\<close>), to which they send the permissions of the token in signed headers. A background job clears
  stale uploads and expired cache entries.

  \<^bold>\<open>Theories and code.\<close>

  \<^item> \<open>CString\<close>: C strings and the functions of the C library on them (\<open>strstr\<close>, \<open>strtol\<close>,
    \<open>snprintf\<close> into a bounded buffer as \<open>cbuf\<close>, where \<open>None\<close> is a write out of bounds), 32 bit
    conversions. \<open>Interfaces\<close>: the contracts between components as locales, each interpreted on the
    model by the component that provides it.
  \<^item> \<open>Semver\<close>: \<^verbatim>\<open>cookbook_semver.c\<close>, versions, their comparison, ranges. The comparison is proved to be the
    precedence of SemVer 2.0 and a range to be an interval of it.
  \<^item> \<open>Streaming\<close>, \<open>Sha256\<close>, \<open>Base64\<close>, \<open>Gzip\<close>: \<^verbatim>\<open>cookbook_sha256.c\<close> against the function of FIPS 180-4 (what
    it shares with SHA-512 as a locale of \<open>Streaming\<close>, interpreted by both hashes), the encoders of
    \<^verbatim>\<open>cookbook_auth.c\<close> as a round trip, \<^verbatim>\<open>cookbook_gzip.c\<close> against a reader of RFC 1952.
  \<^item> \<open>Pasta\<close>: \<^verbatim>\<open>pasta_compat.c\<close>, the values of descriptors; the parser and the writer of the vendored
    library are parameters. \<open>Db\<close>: the tables of \<^verbatim>\<open>cookbook_db_migrate.c\<close> as lists of records, and
    statements as functions on them, each of which can fail as the list \<open>db_faults\<close> says.
  \<^item> \<open>Policy\<close>: \<^verbatim>\<open>cookbook_policy.c\<close>, storage, merge recipe, serialization and the permission check, proved to
    decide a policy by its most specific grant. \<open>Jwt\<close>: the tokens and the revocation list of
    \<^verbatim>\<open>cookbook_auth.c\<close>, from a policy through a token to the decision.
  \<^item> \<open>Connpool\<close>: \<^verbatim>\<open>cookbook_connpool.c\<close>, as a transition system of the pool with its clients.
  \<^item> \<open>Grid\<close>: \<^verbatim>\<open>cookbook_grid.c\<close> and the peer-facing helpers of \<^verbatim>\<open>cookbook_server.c\<close>: signed
    requests, loop detection, permissions in headers.
  \<^item> \<open>Store\<close>: \<^verbatim>\<open>cookbook_store_fs.c\<close> on a tree of files and directories with injected write failures;
    it refines a map from keys to objects. \<open>Keys\<close>: the store keys the handlers make, and that none of
    them leaves the root.
  \<^item> \<open>Http\<close>: \<^verbatim>\<open>cookbook_http.c\<close>, the response as text and as what the transport is told, and dispatch.
  \<^item> \<open>Request\<close>, \<open>Publish\<close>, \<open>Serve\<close>, \<open>Caches\<close>: \<^verbatim>\<open>cookbook_server.c\<close>. The record \<open>cookbook_server\<close> is the
    state of the server; \<open>environment\<close> is what a request sees of the outside: the clock, the
    signature scheme, the pasta parser and writer, the deflater, the answers of peers. A handler is a
    function from connection and state to response and state, or to \<open>None\<close> where the code leaves
    defined behaviour. \<open>Request\<close> has what all handlers share, \<open>Publish\<close> uploads, withdrawals and the
    background job, \<open>Serve\<close> downloads, ranges and the whole of \<open>handle_artifact\<close>, \<open>Caches\<close> the object and
    graph caches and the probes.
  \<^item> \<open>Registry\<close>: the requests and the background job as the step relation \<open>registry_step\<close>, and the
    invariant of its reachable states. \<open>Lifecycle\<close>: what the registry does for its clients.
    \<open>Boundaries\<close>: requests for which its guarantees end.
  \<^item> \<open>Sha512\<close>, \<open>Fe25519\<close>, \<open>FeBytes\<close>, \<open>Sc25519\<close>, \<open>EdTable\<close>, \<open>Ge25519\<close>, \<open>Scalarmult\<close>, \<open>Doublemult\<close>:
    \<^verbatim>\<open>cookbook_ed25519.c\<close>, the signature scheme. \<open>Sha512\<close> is its hash against FIPS 180-4; \<open>Fe25519\<close> the
    field arithmetic on five digits of 51 bits, with the bounds of every intermediate word, and \<open>FeBytes\<close>
    what it computes in the integers modulo the prime, its encoding and its two power chains; \<open>Sc25519\<close>
    the scalars modulo the order on 24 digits of 21 bits, with an analysis of intervals which shows that no
    signed 64 bit variable overflows; \<open>Ge25519\<close> the points in their coordinates, their addition,
    encoding and decoding; \<open>Scalarmult\<close> the multiple of the base point, \<open>Doublemult\<close> the ladder of the
    verification; \<open>EdTable\<close> the two tables of points of the source as data.
  \<^item> \<open>Login\<close>, \<open>Device\<close>, \<open>Peers\<close>, \<open>Admin\<close>: the other handlers of \<^verbatim>\<open>cookbook_server.c\<close>: tokens and their
    revocation with the start of the server, the device flow, what other registries ask for, and
    keys, metrics and administration. \<open>Frames\<close> has the lemmas by which such a handler is followed call
    by call.
  \<^item> \<open>Server\<close>: the routes \<open>cookbook_server_start\<close> sets up, and a request from the context of the transport
    through dispatch, handler and response.

  \<^bold>\<open>What the lemmas show.\<close> Each theory proves first how its operations act (every branch, errors
  included), then what they keep: \<open>Publish\<close> that every handler keeps the tables consistent (\<open>db_ok\<close>)
  and which objects a write can touch (\<open>keeps\<close>); \<open>Registry\<close> that the whole invariant is kept by every
  step; \<open>Lifecycle\<close> that an upload is published once and stays, that ranges are answered with what they
  contain, that a withdrawn version disappears and that stale uploads are cleared. Properties are numbered
  C1, C2 and so on in the text before each theorem. Some of them state a flaw: a request after which a
  documented guarantee no longer holds, or which makes the code write out of bounds.

  \<^bold>\<open>Bounds and loops.\<close> Buffers have the sizes of the code: text that does not fit is cut as \<open>snprintf\<close> cuts
  it (\<open>bounded\<close>), and a write behind a buffer is \<open>None\<close>. No loop needs fuel; each ends by a measure
  (the rest of the text, the body not yet read) or follows a list. Numbers of versions are \<open>int\<close> with the
  conversion to 32 bits written out (\<open>to_int32\<close>), hashes and sums are words, the digits of scalars
  integers for which an operation beyond 64 bits is \<open>None\<close>. Counters of the
  metrics are unbounded.

  \<^bold>\<open>Assumptions.\<close> Allocation succeeds. The signature scheme, the pasta library, the deflater, the clock and
  the peers are parameters; where a property needs something of one of them (that a signature made with
  the key of the registry verifies, that inflating undoes deflating), it is a hypothesis of the
  theorem, and its witness gives a function for which it holds. That the points of the curve are a group
  and that \<open>2\<^sup>2\<^sup>5\<^sup>5 - 19\<close> is prime is not proved: the multiplications of points are proved correct for every family
  of points that is closed under the addition law (\<open>multiples\<close>, \<open>combinations\<close>) and every table that holds its
  members; the witnesses use the family of a point of order four. That the tables of \<open>EdTable\<close> hold the
  multiples of the base point is not proved. Requests run one at a time: the code takes
  its locks for the parts modelled here, and the interleaving of handlers is not modelled.

  \<^bold>\<open>Not modelled.\<close> The S3 store, the backends for SQLite, PostgreSQL and the
  vendored database, LDAP, OIDC, TLS and sockets (protocol exchanges with outside services),
  the random source, the import tool, the wrappers of
  \<^verbatim>\<open>alforno_compat.c\<close> and the command line.
\<close>

end
